(* ===== verification/Prelude.thy ===== *)
theory Prelude
  imports
    Main
    "HOL-Library.AList"
    "HOL-Library.Char_ord"
    "HOL-Library.List_Lexorder"
    "HOL-Library.Multiset"
    "HOL-Library.Word"
begin

section \<open>Shared vocabulary: Go integers, errors, maps and lists\<close>

text \<open>
  What every component of the model uses: 64-bit signed arithmetic with its wrap-around
  (\<open>int64\<close> and \<open>time.Duration\<close>), Go error values with \<open>errors.Is\<close>, counting maps and the
  first-occurrence order of a \<open>seen\<close> loop, and the list facts the component proofs share.
\<close>

named_theorems go_arith \<open>64-bit arithmetic of the values the code computes\<close>
named_theorems step_simps \<open>unfolding of the operations of a component\<close>

subsection \<open>Signed 64-bit integers\<close>

definition in_int64 :: "int \<Rightarrow> bool" where
  "in_int64 x \<longleftrightarrow> - (2 ^ 63) \<le> x \<and> x < 2 ^ 63"

definition wrap64 :: "int \<Rightarrow> int" where
  "wrap64 x = (x + 2 ^ 63) mod 2 ^ 64 - 2 ^ 63"

lemma wrap64_id [go_arith]: "in_int64 x \<Longrightarrow> wrap64 x = x"
  by (simp add: wrap64_def in_int64_def)

lemma in_int64_wrap64 [simp]: "in_int64 (wrap64 x)"
proof -
  have "0 \<le> (x + 2 ^ 63) mod 2 ^ 64 \<and> (x + 2 ^ 63) mod 2 ^ 64 < (2 ^ 64 :: int)"
    by simp
  then show ?thesis by (simp add: wrap64_def in_int64_def)
qed

text \<open>The wrap-around is the two's-complement reading of the 64-bit machine word.\<close>

lemma wrap64_sint: "wrap64 x = sint (word_of_int x :: 64 word)"
  by (simp add: wrap64_def sint_sbintrunc' signed_take_bit_eq_take_bit_shift take_bit_eq_mod)

text \<open>Go's integer division truncates towards zero.\<close>

definition go_div :: "int \<Rightarrow> int \<Rightarrow> int" where
  "go_div a b = sgn a * sgn b * (\<bar>a\<bar> div \<bar>b\<bar>)"

lemma go_div_nonneg [go_arith]: "0 \<le> a \<Longrightarrow> 0 < b \<Longrightarrow> go_div a b = a div b"
  by (cases "a = 0") (simp_all add: go_div_def)

text \<open>
  The doubling step of every retry loop, \<open>backoff = min(backoff*2, limit)\<close>. With a limit
  below \<open>2 ^ 62\<close> nanoseconds (146 years) the product does not overflow.
\<close>

definition next_backoff :: "int \<Rightarrow> int \<Rightarrow> int" where
  "next_backoff limit d = min (wrap64 (d * 2)) limit"

lemma next_backoff_bounds:
  assumes "lo \<le> d" "d \<le> limit" "0 < lo" "limit < 2 ^ 62"
  shows "lo \<le> next_backoff limit d \<and> next_backoff limit d \<le> limit \<and>
    (d \<le> next_backoff limit d) \<and> next_backoff limit d \<le> 2 * d"
proof -
  have "wrap64 (d * 2) = d * 2"
    using assms by (intro wrap64_id) (simp add: in_int64_def)
  with assms show ?thesis by (auto simp: next_backoff_def)
qed

text \<open>Durations are nanoseconds in an \<open>int64\<close>.\<close>

type_synonym duration = int

definition millisecond :: duration where "millisecond = 1000000"
definition second :: duration where "second = 1000 * millisecond"
definition minute :: duration where "minute = 60 * second"
definition hour :: duration where "hour = 60 * minute"

lemmas duration_defs = millisecond_def second_def minute_def hour_def

subsection \<open>Error values\<close>

text \<open>
  \<open>Sentinel\<close> is a package-level error variable, compared by identity; \<open>ErrNew\<close> is an
  anonymous error (\<open>errors.New\<close>, \<open>fmt.Errorf\<close> with no \<open>%w\<close>); \<open>ErrWrap\<close> is
  \<open>fmt.Errorf\<close> with one or more \<open>%w\<close>, or \<open>errors.Join\<close>. A nil error is \<open>None\<close>.
\<close>

datatype go_error =
    Sentinel string
  | ErrNew string
  | ErrWrap string "go_error list"

fun errors_is :: "go_error \<Rightarrow> go_error \<Rightarrow> bool" where
  "errors_is (ErrWrap m es) t = (ErrWrap m es = t \<or> list_ex (\<lambda>e. errors_is e t) es)"
| "errors_is (Sentinel s) t = (Sentinel s = t)"
| "errors_is (ErrNew m) t = (ErrNew m = t)"

definition context_Canceled :: go_error where
  "context_Canceled = Sentinel ''context.Canceled''"

definition context_DeadlineExceeded :: go_error where
  "context_DeadlineExceeded = Sentinel ''context.DeadlineExceeded''"

text \<open>\<open>errors.Join\<close> drops nil errors and is nil when nothing is left.\<close>

definition errors_join :: "go_error option list \<Rightarrow> go_error option" where
  "errors_join es =
     (let live = map the (filter (\<lambda>e. e \<noteq> None) es)
      in if live = [] then None else Some (ErrWrap ''join'' live))"

lemma errors_join_None [simp]: "errors_join es = None \<longleftrightarrow> (\<forall>e \<in> set es. e = None)"
  by (auto simp: errors_join_def Let_def filter_empty_conv)

subsection \<open>First occurrences and counts\<close>

text \<open>The loop \<open>for x in xs: if not seen[x]: seen[x] = true; append(x)\<close>.\<close>

fun first_occurrences :: "'a list \<Rightarrow> 'a list \<Rightarrow> 'a list" where
  "first_occurrences seen [] = []"
| "first_occurrences seen (x # xs) =
     (if x \<in> set seen then first_occurrences seen xs
      else x # first_occurrences (x # seen) xs)"

lemma set_first_occurrences [simp]:
  "set (first_occurrences seen xs) = set xs - set seen"
  by (induction seen xs rule: first_occurrences.induct) auto

lemma distinct_first_occurrences [simp]: "distinct (first_occurrences seen xs)"
  by (induction seen xs rule: first_occurrences.induct) auto

text \<open>A Go map used as a counter (\<open>m[k]++\<close> over a list).\<close>

definition count_bump :: "'k \<Rightarrow> ('k \<times> nat) list \<Rightarrow> ('k \<times> nat) list" where
  "count_bump k m = AList.update k (case map_of m k of None \<Rightarrow> 1 | Some n \<Rightarrow> Suc n) m"

fun count_rows :: "('k \<times> nat) list \<Rightarrow> 'k list \<Rightarrow> ('k \<times> nat) list" where
  "count_rows m [] = m"
| "count_rows m (k # ks) = count_rows (count_bump k m) ks"

lemma distinct_count_bump:
  "distinct (map fst m) \<Longrightarrow> distinct (map fst (count_bump k m))"
  by (simp add: count_bump_def distinct_update)

lemma distinct_count_rows:
  "distinct (map fst m) \<Longrightarrow> distinct (map fst (count_rows m ks))"
  by (induction m ks rule: count_rows.induct) (simp_all add: distinct_count_bump)

lemma map_of_count_bump:
  "map_of (count_bump k m) j =
     (if j = k then Some (case map_of m k of None \<Rightarrow> 1 | Some n \<Rightarrow> Suc n) else map_of m j)"
  by (simp add: count_bump_def update_conv')

lemma map_of_count_rows:
  "map_of (count_rows m ks) j =
     (if j \<in> set ks
      then Some ((case map_of m j of None \<Rightarrow> 0 | Some n \<Rightarrow> n) + count_list ks j)
      else map_of m j)"
  by (induction m ks rule: count_rows.induct)
    (auto simp: map_of_count_bump split: option.splits)

lemma map_of_count_rows_Nil:
  "map_of (count_rows [] ks) j = (if j \<in> set ks then Some (count_list ks j) else None)"
  by (simp add: map_of_count_rows)

lemma set_count_rows_Nil:
  "set (count_rows [] ks) = {(k, count_list ks k) | k. k \<in> set ks}"
proof -
  have d: "distinct (map fst (count_rows [] ks))"
    by (rule distinct_count_rows) simp
  have "(k, n) \<in> set (count_rows [] ks) \<longleftrightarrow> k \<in> set ks \<and> n = count_list ks k" for k n
    using map_of_eq_Some_iff [OF d, of k n]
    by (simp only: map_of_count_rows_Nil) (auto split: if_splits)
  then show ?thesis by auto
qed

subsection \<open>Lists and maps\<close>

text \<open>
  A Go map is an association list with distinct keys; the order of the list is the order
  in which \<open>range\<close> happens to visit it, so a theorem about every such list is a theorem
  about every iteration order.
\<close>

definition go_map :: "('k \<times> 'v) list \<Rightarrow> bool" where
  "go_map m \<longleftrightarrow> distinct (map fst m)"

lemma go_map_update [simp]: "go_map m \<Longrightarrow> go_map (AList.update k v m)"
  by (simp add: go_map_def distinct_update)

lemma go_map_Nil [simp]: "go_map []"
  by (simp add: go_map_def)

lemma sort_set_eq:
  fixes xs ys :: "'a::linorder list"
  assumes "distinct xs" "distinct ys" "set xs = set ys"
  shows "sort xs = sort ys"
  using assms by (intro sorted_distinct_set_unique) auto

lemma filter_eq_Nil_iff: "filter P xs = [] \<longleftrightarrow> (\<forall>x \<in> set xs. \<not> P x)"
  by (simp add: filter_empty_conv)

lemma count_list_filter: "count_list xs x = length (filter (\<lambda>y. y = x) xs)"
  by (induction xs) auto

lemma sum_list_filter_le: "sum_list (map f (filter P xs)) \<le> (sum_list (map f xs) :: nat)"
  by (induction xs) auto

end
