(* ===== verification/GoText.thy ===== *)
theory GoText
  imports Prelude
begin

section \<open>Strings, patterns and decimal numbers\<close>

text \<open>
  A Go string is its bytes: a \<open>char list\<close>, whose \<open>length\<close> is \<open>len(s)\<close>. This theory holds
  the two regular expressions of the program (as the predicates on bytes they denote), the
  part of \<open>strings\<close> and \<open>strconv\<close> the code calls, and the round trip of decimal integers.
\<close>

subsection \<open>Character classes and the two identifier patterns\<close>

definition is_digit :: "char \<Rightarrow> bool" where
  "is_digit c \<longleftrightarrow> CHR ''0'' \<le> c \<and> c \<le> CHR ''9''"

definition is_upper :: "char \<Rightarrow> bool" where
  "is_upper c \<longleftrightarrow> CHR ''A'' \<le> c \<and> c \<le> CHR ''Z''"

definition is_lower :: "char \<Rightarrow> bool" where
  "is_lower c \<longleftrightarrow> CHR ''a'' \<le> c \<and> c \<le> CHR ''z''"

definition is_alnum :: "char \<Rightarrow> bool" where
  "is_alnum c \<longleftrightarrow> is_upper c \<or> is_lower c \<or> is_digit c"

text \<open>The class \<open>[A-Za-z0-9._-]\<close>.\<close>

definition is_ident_char :: "char \<Rightarrow> bool" where
  "is_ident_char c \<longleftrightarrow>
     is_alnum c \<or> c = CHR ''.'' \<or> c = CHR ''_'' \<or> c = CHR ''-''"

lemmas char_class_defs =
  is_digit_def is_upper_def is_lower_def is_alnum_def is_ident_char_def

lemma ident_char_not [simp]:
  "\<not> is_ident_char CHR '':''" "\<not> is_ident_char CHR '',''" "\<not> is_ident_char CHR '' ''"
  by (simp_all add: char_class_defs less_eq_char_def)

subsection \<open>Decimal integers\<close>

definition digit_val :: "char \<Rightarrow> nat" where
  "digit_val c = of_char c - of_char (CHR ''0'')"

definition digit_char :: "nat \<Rightarrow> char" where
  "digit_char n = char_of (n + of_char (CHR ''0''))"

fun digits_val :: "nat \<Rightarrow> string \<Rightarrow> nat option" where
  "digits_val acc [] = Some acc"
| "digits_val acc (c # cs) =
     (if is_digit c then digits_val (10 * acc + digit_val c) cs else None)"

text \<open>
  \<open>strconv.ParseInt(s, 10, 64)\<close> (and \<open>strconv.Atoi\<close> on a 64-bit platform): an optional
  sign, at least one digit, nothing else, and a value that fits \<open>int64\<close>; \<open>None\<close> is a
  syntax or a range error.
\<close>

definition parse_unsigned :: "string \<Rightarrow> nat option" where
  "parse_unsigned s = (if s = [] then None else digits_val 0 s)"

definition parse_int64 :: "string \<Rightarrow> int option" where
  "parse_int64 s =
     (case s of
        [] \<Rightarrow> None
      | c # cs \<Rightarrow>
          (let neg = (c = CHR ''-'');
               body = (if c = CHR ''-'' \<or> c = CHR ''+'' then cs else s)
           in case parse_unsigned body of
                None \<Rightarrow> None
              | Some n \<Rightarrow>
                  (let v = (if neg then - int n else int n)
                   in if in_int64 v then Some v else None)))"

text \<open>The decimal text of a number, as \<open>fmt\<close>'s \<open>%d\<close> and \<open>encoding/json\<close> print it.\<close>

fun nat_digits :: "nat \<Rightarrow> string" where
  "nat_digits n =
     (if n < 10 then [digit_char n] else nat_digits (n div 10) @ [digit_char (n mod 10)])"

declare nat_digits.simps [simp del]

definition int_digits :: "int \<Rightarrow> string" where
  "int_digits i = (if i < 0 then CHR ''-'' # nat_digits (nat (- i)) else nat_digits (nat i))"

lemma of_char_digit_char [simp]:
  "d < 10 \<Longrightarrow> of_char (digit_char d) = d + (48::nat)"
  by (simp add: digit_char_def)

lemma digit_char_digit [simp]: "d < 10 \<Longrightarrow> is_digit (digit_char d)"
  by (simp add: is_digit_def less_eq_char_def)

lemma digit_val_char [simp]: "d < 10 \<Longrightarrow> digit_val (digit_char d) = d"
  by (simp add: digit_val_def)

lemma digits_val_append:
  "digits_val acc (xs @ ys) =
     (case digits_val acc xs of None \<Rightarrow> None | Some a \<Rightarrow> digits_val a ys)"
  by (induction xs arbitrary: acc) auto

lemma digits_val_nat_digits: "digits_val 0 (nat_digits n) = Some n"
proof (induction n rule: nat_digits.induct)
  case (1 n)
  show ?case
  proof (cases "n < 10")
    case True
    then show ?thesis by (simp add: nat_digits.simps [of n])
  next
    case False
    with 1 have "digits_val 0 (nat_digits (n div 10)) = Some (n div 10)" by simp
    with False show ?thesis
      by (simp add: nat_digits.simps [of n] digits_val_append)
  qed
qed

lemma nat_digits_not_Nil [simp]: "nat_digits n \<noteq> []"
  by (simp add: nat_digits.simps [of n])

lemma nat_digits_all_digits: "c \<in> set (nat_digits n) \<Longrightarrow> is_digit c"
  by (induction n rule: nat_digits.induct)
    (metis (no_types, lifting) Un_iff digit_char_digit empty_iff insert_iff list.set
      mod_less_divisor nat_digits.simps set_append zero_less_numeral)

lemma parse_unsigned_nat_digits [simp]: "parse_unsigned (nat_digits n) = Some n"
  by (simp add: parse_unsigned_def digits_val_nat_digits)

lemma digit_not_sign: "is_digit c \<Longrightarrow> c \<noteq> CHR ''-'' \<and> c \<noteq> CHR ''+''"
  by (auto simp: is_digit_def less_eq_char_def)

lemma parse_int64_int_digits [simp]:
  assumes "in_int64 i"
  shows "parse_int64 (int_digits i) = Some i"
proof (cases "i < 0")
  case True
  with assms show ?thesis
    by (simp add: int_digits_def parse_int64_def Let_def)
next
  case False
  obtain c cs where cs: "nat_digits (nat i) = c # cs"
    by (cases "nat_digits (nat i)") auto
  then have "c \<noteq> CHR ''-''" "c \<noteq> CHR ''+''"
    using nat_digits_all_digits [of c "nat i"] digit_not_sign [of c] by auto
  then show ?thesis
    using False assms cs parse_unsigned_nat_digits [of "nat i"]
    by (simp add: int_digits_def parse_int64_def Let_def)
qed

lemma parse_int64_range: "parse_int64 s = Some i \<Longrightarrow> in_int64 i"
  by (auto simp: parse_int64_def Let_def split: list.splits option.splits if_splits)

subsection \<open>Splitting, trimming, folding\<close>

text \<open>\<open>strings.Split(s, sep)\<close> for a one-byte separator: always at least one part.\<close>

fun split_on :: "char \<Rightarrow> string \<Rightarrow> string list" where
  "split_on sep [] = [[]]"
| "split_on sep (c # cs) =
     (if c = sep then [] # split_on sep cs
      else (case split_on sep cs of [] \<Rightarrow> [[c]] | p # ps \<Rightarrow> (c # p) # ps))"

lemma split_on_not_Nil [simp]: "split_on sep s \<noteq> []"
  by (cases s) (auto split: list.splits)

lemma split_on_no_sep: "sep \<notin> set s \<Longrightarrow> split_on sep s = [s]"
  by (induction s) auto

lemma split_on_append:
  "sep \<notin> set s \<Longrightarrow> split_on sep (s @ sep # t) = s # split_on sep t"
  by (induction s) auto

lemma split_on_no_sep_in_parts: "p \<in> set (split_on sep s) \<Longrightarrow> sep \<notin> set p"
  by (induction s arbitrary: p) (auto split: list.splits if_splits)

text \<open>
  \<open>strings.TrimSpace\<close> on ASCII white space; the two-byte and three-byte Unicode spaces are
  trimmed too (U+0085, U+00A0, U+1680, U+2000 to U+200A, U+2028, U+2029, U+202F, U+205F,
  U+3000).
\<close>

definition is_ascii_space :: "char \<Rightarrow> bool" where
  "is_ascii_space c \<longleftrightarrow>
     c = CHR 0x20 \<or> c = CHR 0x09 \<or> c = CHR 0x0A \<or> c = CHR 0x0B \<or> c = CHR 0x0C \<or> c = CHR 0x0D"

definition unicode_spaces :: "string list" where
  "unicode_spaces =
     [[CHR 0xC2, CHR 0x85], [CHR 0xC2, CHR 0xA0], [CHR 0xE1, CHR 0x9A, CHR 0x80]]
     @ map (\<lambda>n. [CHR 0xE2, CHR 0x80, char_of (n::nat)]) ([0x80..<0x8B] @ [0xA8, 0xA9, 0xAF])
     @ [[CHR 0xE2, CHR 0x81, CHR 0x9F], [CHR 0xE3, CHR 0x80, CHR 0x80]]"

fun trim_left :: "string \<Rightarrow> string" where
  "trim_left [] = []"
| "trim_left (a # s) =
     (if is_ascii_space a then trim_left s
      else case s of
        [] \<Rightarrow> [a]
      | b # t \<Rightarrow>
          (if [a, b] \<in> set unicode_spaces then trim_left t
           else case t of
             [] \<Rightarrow> a # s
           | c # u \<Rightarrow> (if [a, b, c] \<in> set unicode_spaces then trim_left u else a # s)))"

fun trim_right_rev :: "string \<Rightarrow> string" where
  "trim_right_rev [] = []"
| "trim_right_rev (a # s) =
     (if is_ascii_space a then trim_right_rev s
      else case s of
        [] \<Rightarrow> [a]
      | b # t \<Rightarrow>
          (if [b, a] \<in> set unicode_spaces then trim_right_rev t
           else case t of
             [] \<Rightarrow> a # s
           | c # u \<Rightarrow> (if [c, b, a] \<in> set unicode_spaces then trim_right_rev u else a # s)))"

definition trim_space :: "string \<Rightarrow> string" where
  "trim_space s = rev (trim_right_rev (rev (trim_left s)))"

text \<open>
  Case folding against an ASCII name, as \<open>strings.EqualFold\<close> and the field matching of
  \<open>encoding/json\<close> do it. Besides the ASCII letters only U+017F (long s) and U+212A (Kelvin
  sign) fold to ASCII letters.
\<close>

definition fold_char :: "char \<Rightarrow> char" where
  "fold_char c = (if is_lower c then char_of (of_char c - (32::nat)) else c)"

fun fold_string :: "string \<Rightarrow> string" where
  "fold_string [] = []"
| "fold_string (a # s) =
     (case s of
        [] \<Rightarrow> [fold_char a]
      | b # t \<Rightarrow>
          (if a = CHR 0xC5 \<and> b = CHR 0xBF then CHR ''S'' # fold_string t
           else case t of
             [] \<Rightarrow> fold_char a # fold_string s
           | c # u \<Rightarrow>
               (if a = CHR 0xE2 \<and> b = CHR 0x84 \<and> c = CHR 0xAA then CHR ''K'' # fold_string u
                else fold_char a # fold_string s)))"

definition equal_fold :: "string \<Rightarrow> string \<Rightarrow> bool" where
  "equal_fold s t \<longleftrightarrow> fold_string s = fold_string t"

lemma equal_fold_refl [simp]: "equal_fold s s"
  by (simp add: equal_fold_def)

end
