(* ===== verification/Domain.thy ===== *)
theory Domain
  imports GoText
begin

section \<open>Domain types\<close>

text \<open>
  The structs of \<open>internal/domain\<close>. A \<open>float64\<close> is its 64 bits, so that \<open>math.IsNaN\<close> and
  \<open>math.IsInf\<close> are decided on the IEEE 754 exponent and fraction fields. A
  \<open>map[string]float64\<close> is an association list with distinct keys (\<open>go_map\<close>).
\<close>

unbundle bit_operations_syntax

type_synonym float64 = "64 word"

definition float_exponent :: "float64 \<Rightarrow> float64" where
  "float_exponent x = drop_bit 52 x AND 0x7FF"

definition float_fraction :: "float64 \<Rightarrow> float64" where
  "float_fraction x = x AND 0xFFFFFFFFFFFFF"

definition math_IsNaN :: "float64 \<Rightarrow> bool" where
  "math_IsNaN x \<longleftrightarrow> float_exponent x = 0x7FF \<and> float_fraction x \<noteq> 0"

text \<open>\<open>math.IsInf(x, 0)\<close>: either infinity.\<close>

definition math_IsInf :: "float64 \<Rightarrow> bool" where
  "math_IsInf x \<longleftrightarrow> float_exponent x = 0x7FF \<and> float_fraction x = 0"

definition float_finite :: "float64 \<Rightarrow> bool" where
  "float_finite x \<longleftrightarrow> float_exponent x \<noteq> 0x7FF"

lemma float_finite_iff: "float_finite x \<longleftrightarrow> \<not> (math_IsNaN x \<or> math_IsInf x)"
  by (auto simp: float_finite_def math_IsNaN_def math_IsInf_def)

type_synonym metric_map = "(string \<times> float64) list"

record metric_sample =
  ms_Step :: int
  ms_TimestampMillis :: int
  ms_Metrics :: metric_map

record metric_batch =
  mb_TaskID :: string
  mb_Samples :: "metric_sample list"

record metric_point =
  mp_TaskID :: string
  mp_Key :: string
  mp_Step :: int
  mp_TimestampMillis :: int
  mp_Value :: float64

record outbox_event =
  oe_ID :: int
  oe_TaskID :: string
  oe_EventSeq :: int
  oe_Payload :: string
  oe_ClaimToken :: string

record realtime_event =
  re_TaskID :: string
  re_EventSeq :: int
  re_Payload :: string

end
