(* ===== verification/Json.thy ===== *)
theory Json
  imports Domain
begin

section \<open>The part of \<open>encoding/json\<close> the program uses\<close>

text \<open>
  JSON text is lexed into tokens and parsed by a stack machine (one frame per open array or
  object), so both run by recursion on their input. Decoding follows \<open>Decoder.Decode\<close> with
  \<open>DisallowUnknownFields\<close>: it stores into an existing Go value, so a duplicate field merges
  into what an earlier one left, \<open>null\<close> clears pointers, maps and slices and leaves strings
  and numbers unchanged, and field names match exactly or, failing that, up to case.
  \<open>None\<close> is any decoding error.
\<close>

subsection \<open>Values and tokens\<close>

datatype json =
    JNull
  | JBool bool
  | JNum string
  | JStr string
  | JArr "json list"
  | JObj "(string \<times> json) list"

datatype token =
    TLBrace | TRBrace | TLBrack | TRBrack | TColon | TComma
  | TNull | TTrue | TFalse | TNum string | TStr string

subsection \<open>UTF-8\<close>

definition byte :: "char \<Rightarrow> nat" where
  "byte c = of_char c"

definition is_cont :: "char \<Rightarrow> bool" where
  "is_cont c \<longleftrightarrow> 0x80 \<le> byte c \<and> byte c \<le> 0xBF"

definition utf8_encode :: "nat \<Rightarrow> string" where
  "utf8_encode r =
     (if r < 0x80 then [char_of r]
      else if r < 0x800 then [char_of (0xC0 + r div 64), char_of (0x80 + r mod 64)]
      else if r < 0x10000 then
        [char_of (0xE0 + r div 4096), char_of (0x80 + r div 64 mod 64), char_of (0x80 + r mod 64)]
      else [char_of (0xF0 + r div 262144), char_of (0x80 + r div 4096 mod 64),
            char_of (0x80 + r div 64 mod 64), char_of (0x80 + r mod 64)])"

definition replacement :: string where
  "replacement = [CHR 0xEF, CHR 0xBF, CHR 0xBD]"

text \<open>The width of the UTF-8 sequence a string starts with; 1 with \<open>False\<close> when invalid.\<close>

definition utf8_width :: "string \<Rightarrow> nat \<times> bool" where
  "utf8_width s =
     (case s of
        [] \<Rightarrow> (0, True)
      | a # t \<Rightarrow>
          if byte a < 0x80 then (1, True)
          else (case t of [] \<Rightarrow> (1, False) | b # u \<Rightarrow>
            if 0xC2 \<le> byte a \<and> byte a \<le> 0xDF \<and> is_cont b then (2, True)
            else (case u of [] \<Rightarrow> (1, False) | c # v \<Rightarrow>
              if (byte a = 0xE0 \<and> 0xA0 \<le> byte b \<and> byte b \<le> 0xBF
                  \<or> 0xE1 \<le> byte a \<and> byte a \<le> 0xEC \<and> is_cont b
                  \<or> byte a = 0xED \<and> 0x80 \<le> byte b \<and> byte b \<le> 0x9F
                  \<or> 0xEE \<le> byte a \<and> byte a \<le> 0xEF \<and> is_cont b) \<and> is_cont c then (3, True)
              else (case v of [] \<Rightarrow> (1, False) | d # _ \<Rightarrow>
                if (byte a = 0xF0 \<and> 0x90 \<le> byte b \<and> byte b \<le> 0xBF
                    \<or> 0xF1 \<le> byte a \<and> byte a \<le> 0xF3 \<and> is_cont b
                    \<or> byte a = 0xF4 \<and> 0x80 \<le> byte b \<and> byte b \<le> 0x8F)
                   \<and> is_cont c \<and> is_cont d then (4, True)
                else (1, False)))))"

text \<open>Copy a string, replacing every invalid byte by U+FFFD.\<close>

fun utf8_sanitize :: "nat \<Rightarrow> string \<Rightarrow> string" where
  "utf8_sanitize 0 s = []"
| "utf8_sanitize (Suc n) s =
     (if s = [] then []
      else case utf8_width s of
        (w, True) \<Rightarrow> take w s @ utf8_sanitize n (drop w s)
      | (w, False) \<Rightarrow> replacement @ utf8_sanitize n (drop 1 s))"

subsection \<open>Lexing\<close>

definition is_json_space :: "char \<Rightarrow> bool" where
  "is_json_space c \<longleftrightarrow> c = CHR 0x20 \<or> c = CHR 0x09 \<or> c = CHR 0x0A \<or> c = CHR 0x0D"

definition hex_val :: "char \<Rightarrow> nat option" where
  "hex_val c =
     (if is_digit c then Some (byte c - 48)
      else if CHR ''a'' \<le> c \<and> c \<le> CHR ''f'' then Some (byte c - 87)
      else if CHR ''A'' \<le> c \<and> c \<le> CHR ''F'' then Some (byte c - 55)
      else None)"

definition hex4 :: "char \<Rightarrow> char \<Rightarrow> char \<Rightarrow> char \<Rightarrow> nat option" where
  "hex4 a b c d =
     (case (hex_val a, hex_val b, hex_val c, hex_val d) of
        (Some w, Some x, Some y, Some z) \<Rightarrow> Some (((w * 16 + x) * 16 + y) * 16 + z)
      | _ \<Rightarrow> None)"

definition simple_escape :: "char \<Rightarrow> char option" where
  "simple_escape e =
     (if e = CHR 0x22 then Some (CHR 0x22) else if e = CHR 0x5C then Some (CHR 0x5C)
      else if e = CHR ''/'' then Some (CHR ''/'') else if e = CHR ''b'' then Some (CHR 0x08)
      else if e = CHR ''f'' then Some (CHR 0x0C) else if e = CHR ''n'' then Some (CHR 0x0A)
      else if e = CHR ''r'' then Some (CHR 0x0D) else if e = CHR ''t'' then Some (CHR 0x09)
      else None)"

text \<open>
  A unit of a string literal: a byte, or the UTF-16 code unit of a \<open>\u\<close> escape. Surrogate
  pairs are joined and lone surrogates replaced in \<open>join_units\<close>.
\<close>

datatype str_unit = UByte char | UCode nat

fun lex_units :: "string \<Rightarrow> (str_unit list \<times> string) option" where
  "lex_units [] = None"
| "lex_units (c # cs) =
     (if c = CHR 0x22 then Some ([], cs)
      else if byte c < 0x20 then None
      else if c = CHR 0x5C then
        (case cs of
           [] \<Rightarrow> None
         | e # es \<Rightarrow>
             (if e = CHR ''u'' then
                (case es of
                   h1 # h2 # h3 # h4 # rest \<Rightarrow>
                     (case hex4 h1 h2 h3 h4 of
                        None \<Rightarrow> None
                      | Some n \<Rightarrow> map_option (map_prod (Cons (UCode n)) id) (lex_units rest))
                 | _ \<Rightarrow> None)
              else case simple_escape e of
                     None \<Rightarrow> None
                   | Some b \<Rightarrow> map_option (map_prod (Cons (UByte b)) id) (lex_units es)))
      else map_option (map_prod (Cons (UByte c)) id) (lex_units cs))"

definition is_high_surrogate :: "nat \<Rightarrow> bool" where
  "is_high_surrogate n \<longleftrightarrow> 0xD800 \<le> n \<and> n < 0xDC00"

definition is_low_surrogate :: "nat \<Rightarrow> bool" where
  "is_low_surrogate n \<longleftrightarrow> 0xDC00 \<le> n \<and> n < 0xE000"

fun raw_bytes :: "str_unit list \<Rightarrow> string" where
  "raw_bytes (UByte c # us) = c # raw_bytes us"
| "raw_bytes _ = []"

fun join_units :: "nat \<Rightarrow> str_unit list \<Rightarrow> string" where
  "join_units 0 us = []"
| "join_units (Suc n) [] = []"
| "join_units (Suc n) (UCode h # us) =
     (if is_high_surrogate h then
        (case us of
           UCode l # vs \<Rightarrow>
             (if is_low_surrogate l
              then utf8_encode (0x10000 + (h - 0xD800) * 1024 + (l - 0xDC00)) @ join_units n vs
              else replacement @ join_units n us)
         | _ \<Rightarrow> replacement @ join_units n us)
      else if is_low_surrogate h then replacement @ join_units n us
      else utf8_encode h @ join_units n us)"
| "join_units (Suc n) (UByte c # us) =
     (case utf8_width (raw_bytes (UByte c # us)) of
        (w, True) \<Rightarrow> take w (raw_bytes (UByte c # us)) @ join_units n (drop w (UByte c # us))
      | (w, False) \<Rightarrow> replacement @ join_units n us)"

definition lex_string :: "string \<Rightarrow> (string \<times> string) option" where
  "lex_string s =
     map_option (\<lambda>(us, rest). (join_units (length us) us, rest)) (lex_units s)"

text \<open>Numbers: \<open>-?(0|[1-9][0-9]*)(\.[0-9]+)?([eE][+-]?[0-9]+)?\<close>.\<close>

definition is_num_char :: "char \<Rightarrow> bool" where
  "is_num_char c \<longleftrightarrow>
     is_digit c \<or> c = CHR ''+'' \<or> c = CHR ''-'' \<or> c = CHR ''.'' \<or> c = CHR ''e'' \<or> c = CHR ''E''"

definition valid_exp :: "string \<Rightarrow> bool" where
  "valid_exp s =
     (case s of
        [] \<Rightarrow> True
      | e # t \<Rightarrow>
          (e = CHR ''e'' \<or> e = CHR ''E'') \<and>
          (let ds = (case t of [] \<Rightarrow> t
                     | g # gs \<Rightarrow> if g = CHR ''+'' \<or> g = CHR ''-'' then gs else t)
           in ds \<noteq> [] \<and> list_all is_digit ds))"

definition valid_frac :: "string \<Rightarrow> bool" where
  "valid_frac s =
     (case s of
        [] \<Rightarrow> True
      | p # t \<Rightarrow>
          (if p = CHR ''.''
           then takeWhile is_digit t \<noteq> [] \<and> valid_exp (dropWhile is_digit t)
           else valid_exp s))"

definition valid_number :: "string \<Rightarrow> bool" where
  "valid_number s =
     (let t = (case s of [] \<Rightarrow> [] | c # cs \<Rightarrow> if c = CHR ''-'' then cs else s)
      in case t of
           [] \<Rightarrow> False
         | d # ds \<Rightarrow>
             (if d = CHR ''0'' then valid_frac ds
              else is_digit d \<and> valid_frac (dropWhile is_digit ds)))"

definition starts_with :: "string \<Rightarrow> string \<Rightarrow> bool" where
  "starts_with p s \<longleftrightarrow> take (length p) s = p"

lemma lex_units_length: "lex_units s = Some (us, rest) \<Longrightarrow> length rest < length s"
proof (induction "length s" arbitrary: s us rest rule: less_induct)
  case less
  show ?case
  proof (cases s)
    case Nil
    with less.prems show ?thesis by simp
  next
    case (Cons c cs)
    have step: "length r < length t" if "lex_units t = Some (vs, r)" "length t < length s" for t vs r
      using less.hyps that by blast
    from less.prems Cons show ?thesis
      by (auto split: if_splits list.splits option.splits dest!: step)
  qed
qed

lemma lex_string_length: "lex_string s = Some (x, rest) \<Longrightarrow> length rest < length s"
  by (auto simp: lex_string_def dest: lex_units_length)

function lex :: "string \<Rightarrow> token list option" where
  "lex [] = Some []"
| "lex (c # cs) =
     (if is_json_space c then lex cs
      else if c = CHR ''{'' then map_option (Cons TLBrace) (lex cs)
      else if c = CHR ''}'' then map_option (Cons TRBrace) (lex cs)
      else if c = CHR ''['' then map_option (Cons TLBrack) (lex cs)
      else if c = CHR '']'' then map_option (Cons TRBrack) (lex cs)
      else if c = CHR '':'' then map_option (Cons TColon) (lex cs)
      else if c = CHR '','' then map_option (Cons TComma) (lex cs)
      else if c = CHR 0x22 then
        (case lex_string cs of
           None \<Rightarrow> None
         | Some (s, rest) \<Rightarrow> map_option (Cons (TStr s)) (lex rest))
      else if starts_with ''ull'' cs \<and> c = CHR ''n'' then map_option (Cons TNull) (lex (drop 3 cs))
      else if starts_with ''rue'' cs \<and> c = CHR ''t'' then map_option (Cons TTrue) (lex (drop 3 cs))
      else if starts_with ''alse'' cs \<and> c = CHR ''f'' then map_option (Cons TFalse) (lex (drop 4 cs))
      else if valid_number (takeWhile is_num_char (c # cs)) \<and> is_num_char c
        then map_option (Cons (TNum (takeWhile is_num_char (c # cs)))) (lex (dropWhile is_num_char cs))
      else None)"
  by pat_completeness auto
termination
  by (relation "measure length")
    (auto dest: lex_string_length simp: le_imp_less_Suc length_dropWhile_le)

declare lex.simps [simp del]

subsection \<open>Parsing\<close>

text \<open>A frame is an open array with its elements in reverse, or an open object with its
  members in reverse and the key whose value is being read.\<close>

datatype frame = FArr "json list" | FObj "(string \<times> json) list" string

datatype parse_state =
    PValue        \<comment> \<open>a value is expected\<close>
  | PFirst        \<comment> \<open>a value or the end of the array just opened\<close>
  | PKey          \<comment> \<open>a member key\<close>
  | PFirstKey     \<comment> \<open>a member key or the end of the object just opened\<close>
  | PColon string \<comment> \<open>the colon after this key\<close>
  | PAfter json   \<comment> \<open>this value has just been completed\<close>

text \<open>The frame an object's key is read in has no key yet; its members wait in \<open>PKey\<close>'s stack.\<close>

fun scalar :: "token \<Rightarrow> json option" where
  "scalar TNull = Some JNull"
| "scalar TTrue = Some (JBool True)"
| "scalar TFalse = Some (JBool False)"
| "scalar (TNum s) = Some (JNum s)"
| "scalar (TStr s) = Some (JStr s)"
| "scalar _ = None"

definition open_value :: "token \<Rightarrow> frame list \<Rightarrow> (parse_state \<times> frame list) option" where
  "open_value t st =
     (case t of
        TLBrack \<Rightarrow> Some (PFirst, FArr [] # st)
      | TLBrace \<Rightarrow> Some (PFirstKey, FObj [] [] # st)
      | _ \<Rightarrow> map_option (\<lambda>j. (PAfter j, st)) (scalar t))"

definition close_value ::
  "json \<Rightarrow> frame \<Rightarrow> frame list \<Rightarrow> token \<Rightarrow> (parse_state \<times> frame list) option" where
  "close_value j f st t =
     (case f of
        FArr js \<Rightarrow>
          (if t = TComma then Some (PValue, FArr (j # js) # st)
           else if t = TRBrack then Some (PAfter (JArr (rev (j # js))), st)
           else None)
      | FObj ms k \<Rightarrow>
          (if t = TComma then Some (PKey, FObj ((k, j) # ms) k # st)
           else if t = TRBrace then Some (PAfter (JObj (rev ((k, j) # ms))), st)
           else None))"

definition read_key :: "frame list \<Rightarrow> token \<Rightarrow> (parse_state \<times> frame list) option" where
  "read_key st t = (case t of TStr k \<Rightarrow> Some (PColon k, st) | _ \<Rightarrow> None)"

fun parse_step :: "parse_state \<Rightarrow> frame list \<Rightarrow> token \<Rightarrow> (parse_state \<times> frame list) option" where
  "parse_step PValue st t = open_value t st"
| "parse_step PFirst st t =
     (if t = TRBrack then Some (PAfter (JArr []), tl st) else open_value t st)"
| "parse_step PFirstKey st t =
     (if t = TRBrace then Some (PAfter (JObj []), tl st) else read_key st t)"
| "parse_step PKey st t = read_key st t"
| "parse_step (PColon k) st t =
     (case st of
        FObj ms k' # st' \<Rightarrow> if t = TColon then Some (PValue, FObj ms k # st') else None
      | _ \<Rightarrow> None)"
| "parse_step (PAfter j) st t = (case st of f # st' \<Rightarrow> close_value j f st' t | [] \<Rightarrow> None)"

text \<open>
  \<open>scanner\<close> refuses more than 10000 open arrays and objects. The run ends with the single
  value of the text, or \<open>None\<close>.
\<close>

fun parse_tokens :: "parse_state \<Rightarrow> frame list \<Rightarrow> token list \<Rightarrow> json option" where
  "parse_tokens p st [] =
     (case (p, st) of (PAfter j, []) \<Rightarrow> Some j | _ \<Rightarrow> None)"
| "parse_tokens p st (t # ts) =
     (case parse_step p st t of
        None \<Rightarrow> None
      | Some (p', st') \<Rightarrow> if length st' > 10000 then None else parse_tokens p' st' ts)"

text \<open>
  The two \<open>Decode\<close> calls of the program, the first for the value and the second that must
  report \<open>io.EOF\<close>: the body is exactly one JSON value between white space.
\<close>

definition parse_single :: "string \<Rightarrow> json option" where
  "parse_single body = (case lex body of None \<Rightarrow> None | Some ts \<Rightarrow> parse_tokens PValue [] ts)"

text \<open>\<open>json.Valid\<close> accepts the same texts.\<close>

definition json_Valid :: "string \<Rightarrow> bool" where
  "json_Valid body \<longleftrightarrow> parse_single body \<noteq> None"

subsection \<open>Decoding into Go values\<close>

definition decode_string :: "json \<Rightarrow> string \<Rightarrow> string option" where
  "decode_string j cur = (case j of JNull \<Rightarrow> Some cur | JStr s \<Rightarrow> Some s | _ \<Rightarrow> None)"

text \<open>A \<open>*int64\<close> (or \<open>*int\<close>) field: \<open>null\<close> makes it nil.\<close>

definition decode_int_ptr :: "json \<Rightarrow> int option \<Rightarrow> int option option" where
  "decode_int_ptr j cur =
     (case j of
        JNull \<Rightarrow> Some None
      | JNum s \<Rightarrow> (case parse_int64 s of None \<Rightarrow> None | Some i \<Rightarrow> Some (Some i))
      | _ \<Rightarrow> None)"

text \<open>
  A \<open>float64\<close>; \<open>strconv.ParseFloat\<close> is the parameter \<open>pf\<close>, \<open>None\<close> where it reports an
  error (a value out of range). \<open>null\<close> leaves the value as it was.
\<close>

definition decode_float :: "(string \<Rightarrow> float64 option) \<Rightarrow> json \<Rightarrow> float64 \<Rightarrow> float64 option" where
  "decode_float pf j cur = (case j of JNull \<Rightarrow> Some cur | JNum s \<Rightarrow> pf s | _ \<Rightarrow> None)"

text \<open>A \<open>map[string]float64\<close>: each element is decoded into a zero value, then stored.\<close>

fun decode_members ::
  "(string \<Rightarrow> float64 option) \<Rightarrow> (string \<times> json) list \<Rightarrow> metric_map \<Rightarrow> metric_map option" where
  "decode_members pf [] cur = Some cur"
| "decode_members pf ((k, v) # ms) cur =
     (case decode_float pf v 0 of
        None \<Rightarrow> None
      | Some x \<Rightarrow> decode_members pf ms (AList.update k x cur))"

definition decode_metrics ::
  "(string \<Rightarrow> float64 option) \<Rightarrow> json \<Rightarrow> metric_map \<Rightarrow> metric_map option" where
  "decode_metrics pf j cur =
     (case j of JNull \<Rightarrow> Some [] | JObj ms \<Rightarrow> decode_members pf ms cur | _ \<Rightarrow> None)"

text \<open>
  A slice is its visible elements and the elements left beyond its length in the backing
  array, which a later decode of the same field stores into.
\<close>

type_synonym 'a slice = "'a list \<times> 'a list"

fun decode_elems ::
  "(json \<Rightarrow> 'a \<Rightarrow> 'a option) \<Rightarrow> 'a \<Rightarrow> json list \<Rightarrow> 'a list \<Rightarrow> 'a slice option" where
  "decode_elems dec zero [] back = Some ([], back)"
| "decode_elems dec zero (v # vs) back =
     (case dec v (case back of [] \<Rightarrow> zero | b # _ \<Rightarrow> b) of
        None \<Rightarrow> None
      | Some x \<Rightarrow> map_option (map_prod (Cons x) id) (decode_elems dec zero vs (tl back)))"

definition decode_slice ::
  "(json \<Rightarrow> 'a \<Rightarrow> 'a option) \<Rightarrow> 'a \<Rightarrow> json \<Rightarrow> 'a slice \<Rightarrow> 'a slice option" where
  "decode_slice dec zero j cur =
     (case j of
        JNull \<Rightarrow> Some ([], [])
      | JArr vs \<Rightarrow> if vs = [] then Some ([], []) else decode_elems dec zero vs (fst cur @ snd cur)
      | _ \<Rightarrow> None)"

text \<open>
  The field a member key selects: an exact match among the names first, a match up to case
  otherwise. \<open>None\<close> is an unknown field.
\<close>

definition match_field :: "string list \<Rightarrow> string \<Rightarrow> string option" where
  "match_field names k =
     (if k \<in> set names then Some k else find (\<lambda>n. equal_fold n k) names)"

text \<open>A struct: every member is stored into its field, in order; an unknown one is an error.\<close>

fun decode_fields ::
  "string list \<Rightarrow> (string \<Rightarrow> json \<Rightarrow> 'a \<Rightarrow> 'a option) \<Rightarrow> (string \<times> json) list \<Rightarrow> 'a \<Rightarrow> 'a option" where
  "decode_fields names put [] cur = Some cur"
| "decode_fields names put ((k, v) # ms) cur =
     (case match_field names k of
        None \<Rightarrow> None
      | Some n \<Rightarrow>
          (case put n v cur of
             None \<Rightarrow> None
           | Some cur' \<Rightarrow> decode_fields names put ms cur'))"

definition decode_struct ::
  "string list \<Rightarrow> (string \<Rightarrow> json \<Rightarrow> 'a \<Rightarrow> 'a option) \<Rightarrow> json \<Rightarrow> 'a \<Rightarrow> 'a option" where
  "decode_struct names put j cur =
     (case j of JNull \<Rightarrow> Some cur | JObj ms \<Rightarrow> decode_fields names put ms cur | _ \<Rightarrow> None)"

end
