(* ===== verification/JsonPrint.thy ===== *)
theory JsonPrint
  imports Json
begin

section \<open>Printing JSON, and parsing it back\<close>

text \<open>
  \<open>json.Marshal\<close> prints a value with no white space, strings with the HTML-safe escapes.
  A printed value is read back as itself by \<open>parse_single\<close>: the tokens of the text are the
  tokens of the value, and the stack machine rebuilds the value from them.
\<close>

subsection \<open>Strings\<close>

definition hex_digit :: "nat \<Rightarrow> char" where
  "hex_digit n = (if n < 10 then char_of (48 + n) else char_of (87 + n))"

definition escape_byte :: "char \<Rightarrow> string" where
  "escape_byte c =
     (if c = CHR 0x5C \<or> c = CHR 0x22 then [CHR 0x5C, c]
      else if c = CHR 0x08 then [CHR 0x5C, CHR ''b'']
      else if c = CHR 0x0C then [CHR 0x5C, CHR ''f'']
      else if c = CHR 0x0A then [CHR 0x5C, CHR ''n'']
      else if c = CHR 0x0D then [CHR 0x5C, CHR ''r'']
      else if c = CHR 0x09 then [CHR 0x5C, CHR ''t'']
      else if byte c < 0x20 \<or> c = CHR ''<'' \<or> c = CHR ''>'' \<or> c = CHR ''&''
        then [CHR 0x5C, CHR ''u'', CHR ''0'', CHR ''0'', hex_digit (byte c div 16), hex_digit (byte c mod 16)]
      else [c])"

fun escape_string :: "nat \<Rightarrow> string \<Rightarrow> string" where
  "escape_string 0 s = []"
| "escape_string (Suc n) s =
     (case s of
        [] \<Rightarrow> []
      | c # cs \<Rightarrow>
          if byte c < 0x80 then escape_byte c @ escape_string n cs
          else (case utf8_width s of
                  (w, True) \<Rightarrow>
                    (if take w s = [CHR 0xE2, CHR 0x80, CHR 0xA8] then CHR 0x5C # ''u2028''
                     else if take w s = [CHR 0xE2, CHR 0x80, CHR 0xA9] then CHR 0x5C # ''u2029''
                     else take w s) @ escape_string n (drop w s)
                | (w, False) \<Rightarrow> CHR 0x5C # ''ufffd'' @ escape_string n cs))"

definition print_string :: "string \<Rightarrow> string" where
  "print_string s = CHR 0x22 # escape_string (length s) s @ [CHR 0x22]"

definition ascii :: "string \<Rightarrow> bool" where
  "ascii s \<longleftrightarrow> list_all (\<lambda>c. byte c < 0x80) s"

definition unit_of :: "char \<Rightarrow> str_unit" where
  "unit_of c =
     (if c \<notin> {CHR 0x08, CHR 0x0C, CHR 0x0A, CHR 0x0D, CHR 0x09} \<and> byte c < 0x20
         \<or> c \<in> {CHR ''<'', CHR ''>'', CHR ''&''}
      then UCode (byte c) else UByte c)"

lemma hex4_small: "n < 128 \<Longrightarrow>
    hex4 (CHR ''0'') (CHR ''0'') (hex_digit (n div 16)) (hex_digit (n mod 16)) = Some n"
proof -
  have h: "m < 16 \<Longrightarrow> hex_val (hex_digit m) = Some m" for m
    by (auto simp: hex_val_def hex_digit_def is_digit_def less_eq_char_def byte_def)
  assume "n < 128"
  then have "hex_val (hex_digit (n div 16)) = Some (n div 16)"
    "hex_val (hex_digit (n mod 16)) = Some (n mod 16)"
    by (auto intro!: h)
  then show ?thesis
    by (simp add: hex4_def) (simp add: hex_val_def is_digit_def less_eq_char_def byte_def)
qed

lemma lex_units_escape_byte:
  assumes "byte c < 0x80"
  shows "lex_units (escape_byte c @ rest) =
    map_option (map_prod (Cons (unit_of c)) id) (lex_units rest)"
proof -
  have h: "hex4 (CHR ''0'') (CHR ''0'') (hex_digit (byte c div 16)) (hex_digit (byte c mod 16))
      = Some (byte c)"
    using assms by (intro hex4_small) simp
  have b: "byte (CHR 0x5C) = 0x5C" by (simp add: byte_def)
  show ?thesis
    using assms h b by (auto simp: escape_byte_def unit_of_def simple_escape_def byte_def)
qed

lemma lex_units_escape_string:
  assumes "ascii s"
  shows "lex_units (escape_string (length s) s @ CHR 0x22 # rest) = Some (map unit_of s, rest)"
  using assms
proof (induction s)
  case Nil
  then show ?case by simp
next
  case (Cons c s)
  then have "byte c < 0x80" "ascii s" by (simp_all add: ascii_def)
  with Cons.IH show ?case by (simp add: lex_units_escape_byte)
qed

lemma join_units_ascii:
  assumes "ascii s" "length s \<le> n"
  shows "join_units n (map unit_of s) = s"
  using assms
proof (induction s arbitrary: n)
  case Nil
  then show ?case by (cases n) simp_all
next
  case (Cons c s)
  then obtain m where n: "n = Suc m" by (cases n) auto
  from Cons.prems have c: "byte c < 0x80" and s: "ascii s" "length s \<le> m"
    by (simp_all add: ascii_def n)
  note IH = Cons.IH [OF s]
  show ?case
  proof (cases "unit_of c")
    case (UByte d)
    then have "d = c" by (auto simp: unit_of_def split: if_splits)
    with UByte c IH show ?thesis by (simp add: n utf8_width_def)
  next
    case (UCode k)
    then have "k = byte c" by (auto simp: unit_of_def split: if_splits)
    moreover have "utf8_encode (byte c) = [c]"
      using c by (simp add: utf8_encode_def byte_def)
    ultimately show ?thesis
      using UCode c IH by (simp add: n is_high_surrogate_def is_low_surrogate_def)
  qed
qed

lemma lex_string_print:
  "ascii s \<Longrightarrow> lex_string (escape_string (length s) s @ CHR 0x22 # rest) = Some (s, rest)"
  by (simp add: lex_string_def lex_units_escape_string join_units_ascii)

subsection \<open>Values\<close>

fun print_sep :: "string list \<Rightarrow> string" where
  "print_sep [] = []"
| "print_sep [x] = x"
| "print_sep (x # y # xs) = x @ CHR '','' # print_sep (y # xs)"

fun json_print :: "json \<Rightarrow> string" where
  "json_print JNull = ''null''"
| "json_print (JBool b) = (if b then ''true'' else ''false'')"
| "json_print (JNum s) = s"
| "json_print (JStr s) = print_string s"
| "json_print (JArr js) = CHR ''['' # print_sep (map json_print js) @ '']''"
| "json_print (JObj ms) =
     CHR ''{'' # print_sep (map (\<lambda>(k, v). print_string k @ CHR '':'' # json_print v) ms) @ ''}''"

fun tok_sep :: "token list list \<Rightarrow> token list" where
  "tok_sep [] = []"
| "tok_sep [x] = x"
| "tok_sep (x # y # xs) = x @ TComma # tok_sep (y # xs)"

fun tokens_of :: "json \<Rightarrow> token list" where
  "tokens_of JNull = [TNull]"
| "tokens_of (JBool b) = [if b then TTrue else TFalse]"
| "tokens_of (JNum s) = [TNum s]"
| "tokens_of (JStr s) = [TStr s]"
| "tokens_of (JArr js) = TLBrack # tok_sep (map tokens_of js) @ [TRBrack]"
| "tokens_of (JObj ms) =
     TLBrace # tok_sep (map (\<lambda>(k, v). TStr k # TColon # tokens_of v) ms) @ [TRBrace]"

fun printable :: "json \<Rightarrow> bool" where
  "printable JNull = True"
| "printable (JBool b) = True"
| "printable (JNum s) = (valid_number s \<and> list_all is_num_char s)"
| "printable (JStr s) = ascii s"
| "printable (JArr js) = list_all printable js"
| "printable (JObj ms) = list_all (\<lambda>(k, v). ascii k \<and> printable v) ms"

fun depth :: "json \<Rightarrow> nat" where
  "depth (JArr js) = Suc (Max (insert 0 (set (map depth js))))"
| "depth (JObj ms) = Suc (Max (insert 0 (set (map (\<lambda>(k, v). depth v) ms))))"
| "depth _ = 0"

text \<open>What may follow a number so that it ends where it should.\<close>

definition num_stop :: "string \<Rightarrow> bool" where
  "num_stop s = (case s of [] \<Rightarrow> True | c # _ \<Rightarrow> \<not> is_num_char c)"

lemma takeWhile_stop: "list_all P s \<Longrightarrow> (case r of [] \<Rightarrow> True | c # _ \<Rightarrow> \<not> P c) \<Longrightarrow>
    takeWhile P (s @ r) = s \<and> dropWhile P (s @ r) = r"
  by (induction s) (auto split: list.splits)

lemma num_char_not:
  "is_num_char c \<Longrightarrow> \<not> is_json_space c \<and> c \<notin> set ''{}[]:,ntf'' \<and> c \<noteq> CHR 0x22"
  by (auto simp: is_num_char_def is_json_space_def is_digit_def less_eq_char_def)

lemma lex_num:
  assumes "valid_number s" "list_all is_num_char s" "num_stop r"
  shows "lex (s @ r) = map_option (Cons (TNum s)) (lex r)"
proof -
  obtain c cs where s: "s = c # cs"
    using assms(1) by (cases s) (auto simp: valid_number_def)
  from assms(2) have c: "is_num_char c" and cs: "list_all is_num_char cs" by (simp_all add: s)
  have tw: "takeWhile is_num_char (cs @ r) = cs" "dropWhile is_num_char (cs @ r) = r"
    using takeWhile_stop [OF cs, of r] assms(3) by (auto simp: num_stop_def)
  show ?thesis
    using num_char_not [OF c] assms(1) c tw by (auto simp: s lex.simps(2))
qed

lemma lex_punct [simp]:
  "lex (CHR ''{'' # r) = map_option (Cons TLBrace) (lex r)"
  "lex (CHR ''}'' # r) = map_option (Cons TRBrace) (lex r)"
  "lex (CHR ''['' # r) = map_option (Cons TLBrack) (lex r)"
  "lex (CHR '']'' # r) = map_option (Cons TRBrack) (lex r)"
  "lex (CHR '':'' # r) = map_option (Cons TColon) (lex r)"
  "lex (CHR '','' # r) = map_option (Cons TComma) (lex r)"
  by (simp_all add: lex.simps(2) is_json_space_def)

lemma lex_Nil [simp]: "lex [] = Some []"
  by (simp add: lex.simps(1))

lemma lex_print_string:
  "ascii s \<Longrightarrow> lex (print_string s @ r) = map_option (Cons (TStr s)) (lex r)"
  by (simp add: print_string_def lex.simps(2) is_json_space_def lex_string_print)

lemma num_stop_Cons [simp]:
  "num_stop (CHR '','' # r)" "num_stop (CHR '']'' # r)" "num_stop (CHR ''}'' # r)" "num_stop []"
  by (simp_all add: num_stop_def is_num_char_def is_digit_def less_eq_char_def)

lemma lex_print_sep:
  assumes "\<And>i r. i < length ps \<Longrightarrow> num_stop r \<Longrightarrow>
      lex (ps ! i @ r) = map_option ((@) (ts ! i)) (lex r)"
    and "length ts = length ps" "num_stop r"
  shows "lex (print_sep ps @ r) = map_option ((@) (tok_sep ts)) (lex r)"
  using assms
proof (induction ps arbitrary: ts rule: print_sep.induct)
  case 1
  then show ?case by (simp add: option.map_id [unfolded id_def])
next
  case (2 x)
  then show ?case by (cases ts) auto
next
  case (3 x y xs)
  then obtain t u us where ts: "ts = t # u # us" and len: "length us = length xs"
    by (auto simp: length_Suc_conv)
  have IH: "lex (print_sep (y # xs) @ r) = map_option ((@) (tok_sep (u # us))) (lex r)"
  proof (rule "3.IH")
    fix i r' assume "i < length (y # xs)" "num_stop r'"
    then show "lex ((y # xs) ! i @ r') = map_option ((@) ((u # us) ! i)) (lex r')"
      using "3.prems"(1) [of "Suc i" r'] by (simp add: ts)
  qed (use len "3.prems" in simp_all)
  have "lex (x @ CHR '','' # print_sep (y # xs) @ r) =
      map_option ((@) t) (lex (CHR '','' # print_sep (y # xs) @ r))"
    using "3.prems"(1) [of 0] by (simp add: ts)
  then show ?case
    by (simp add: ts IH option.map_comp comp_def)
qed

lemma lex_json_print:
  "printable j \<Longrightarrow> num_stop r \<Longrightarrow> lex (json_print j @ r) = map_option ((@) (tokens_of j)) (lex r)"
proof (induction j arbitrary: r)
  case JNull
  then show ?case by (simp add: lex.simps(2) is_json_space_def starts_with_def cong: option.map_cong)
next
  case (JBool b)
  then show ?case by (simp add: lex.simps(2) is_json_space_def starts_with_def cong: option.map_cong)
next
  case (JNum s)
  then show ?case by (simp add: lex_num cong: option.map_cong)
next
  case (JStr s)
  then show ?case by (simp add: lex_print_string cong: option.map_cong)
next
  case (JArr js)
  have "lex (print_sep (map json_print js) @ CHR '']'' # r) =
      map_option ((@) (tok_sep (map tokens_of js))) (lex (CHR '']'' # r))"
    using JArr by (intro lex_print_sep) (auto simp: list_all_iff)
  then show ?case by (simp add: option.map_comp comp_def)
next
  case (JObj ms)
  have "lex (print_sep (map (\<lambda>(k, v). print_string k @ CHR '':'' # json_print v) ms) @ CHR ''}'' # r) =
      map_option ((@) (tok_sep (map (\<lambda>(k, v). TStr k # TColon # tokens_of v) ms))) (lex (CHR ''}'' # r))"
  proof (rule lex_print_sep)
    fix i r' assume i: "i < length (map (\<lambda>(k, v). print_string k @ CHR '':'' # json_print v) ms)"
      and r': "num_stop r'"
    obtain k v where kv: "ms ! i = (k, v)" by fastforce
    with i have mem: "(k, v) \<in> set ms" by (metis length_map nth_mem)
    with JObj.prems have "ascii k" "printable v" by (auto simp: list_all_iff)
    moreover have "lex (json_print v @ r') = map_option ((@) (tokens_of v)) (lex r')"
      using JObj.IH [OF mem _ _ r', of v] \<open>printable v\<close> by simp
    ultimately show "lex (map (\<lambda>(k, v). print_string k @ CHR '':'' # json_print v) ms ! i @ r') =
        map_option ((@) (map (\<lambda>(k, v). TStr k # TColon # tokens_of v) ms ! i)) (lex r')"
      using i kv by (simp add: lex_print_string option.map_comp comp_def cong: option.map_cong)
  qed simp_all
  then show ?case by (simp add: option.map_comp comp_def)
qed

subsection \<open>The stack machine rebuilds the value\<close>

lemma tokens_of_first: "\<exists>t ts. tokens_of j = t # ts \<and> t \<noteq> TRBrack \<and> t \<noteq> TRBrace"
  by (cases j) auto

lemma parse_first_value:
  "parse_tokens PFirst st (tokens_of j @ ts) = parse_tokens PValue st (tokens_of j @ ts)"
  using tokens_of_first [of j] by auto

lemma depth_member:
  "j \<in> set js \<Longrightarrow> depth j < depth (JArr js)"
  "(k, v) \<in> set ms \<Longrightarrow> depth v < depth (JObj ms)"
  by (auto simp: less_Suc_eq_le image_iff split: prod.splits intro!: Max_ge)

lemma parse_array_elems:
  assumes "\<And>j acc ts. j \<in> set (j0 # js) \<Longrightarrow>
      parse_tokens PValue (FArr acc # st) (tokens_of j @ ts) = parse_tokens (PAfter j) (FArr acc # st) ts"
    and "length st < 10000"
  shows "parse_tokens PValue (FArr acc # st) (tok_sep (map tokens_of (j0 # js)) @ TRBrack # ts)
    = parse_tokens (PAfter (JArr (rev acc @ j0 # js))) st ts"
  using assms
proof (induction js arbitrary: j0 acc)
  case Nil
  then show ?case by (simp add: close_value_def)
next
  case (Cons j1 js)
  have "parse_tokens PValue (FArr acc # st)
        (tokens_of j0 @ TComma # tok_sep (map tokens_of (j1 # js)) @ TRBrack # ts)
      = parse_tokens PValue (FArr (j0 # acc) # st) (tok_sep (map tokens_of (j1 # js)) @ TRBrack # ts)"
    using Cons.prems by (simp add: close_value_def)
  also have "\<dots> = parse_tokens (PAfter (JArr (rev (j0 # acc) @ j1 # js))) st ts"
    using Cons.prems by (intro Cons.IH) auto
  finally show ?case by simp
qed

lemma parse_object_members:
  assumes "\<And>k v f ts. (k, v) \<in> set (m0 # ms) \<Longrightarrow>
      parse_tokens PValue (f # st) (tokens_of v @ ts) = parse_tokens (PAfter v) (f # st) ts"
    and "length st < 10000" and "p = PKey \<or> p = PFirstKey"
  shows "parse_tokens p (FObj acc k0 # st)
      (tok_sep (map (\<lambda>(k, v). TStr k # TColon # tokens_of v) (m0 # ms)) @ TRBrace # ts)
    = parse_tokens (PAfter (JObj (rev acc @ m0 # ms))) st ts"
  using assms
proof (induction ms arbitrary: m0 acc p k0)
  case Nil
  then show ?case by (cases m0) (auto simp: close_value_def read_key_def)
next
  case (Cons m1 ms)
  obtain k v where m0: "m0 = (k, v)" by fastforce
  have v: "parse_tokens PValue (f # st) (tokens_of v @ us) = parse_tokens (PAfter v) (f # st) us"
    for f us
    using Cons.prems(1) [of k v f us] by (simp add: m0)
  have "parse_tokens p (FObj acc k0 # st)
        (TStr k # TColon # tokens_of v @ TComma #
          tok_sep (map (\<lambda>(k, v). TStr k # TColon # tokens_of v) (m1 # ms)) @ TRBrace # ts)
      = parse_tokens PKey (FObj ((k, v) # acc) k # st)
          (tok_sep (map (\<lambda>(k, v). TStr k # TColon # tokens_of v) (m1 # ms)) @ TRBrace # ts)"
    using Cons.prems(2,3) by (auto simp: close_value_def read_key_def v)
  also have "\<dots> = parse_tokens (PAfter (JObj (rev ((k, v) # acc) @ m1 # ms))) st ts"
    using Cons.prems by (intro Cons.IH) auto
  finally show ?case by (simp add: m0)
qed

lemma parse_tokens_of:
  "length st + depth j \<le> 10000 \<Longrightarrow>
    parse_tokens PValue st (tokens_of j @ ts) = parse_tokens (PAfter j) st ts"
proof (induction j arbitrary: st ts)
  case (JArr js)
  show ?case
  proof (cases js)
    case Nil
    with JArr.prems show ?thesis by (simp add: open_value_def)
  next
    case (Cons j0 rest)
    have d: "j \<in> set (j0 # rest) \<Longrightarrow> length (f # st) + depth j \<le> 10000" for j f
      using JArr.prems depth_member(1) [of j js] by (simp add: Cons del: depth.simps)
    obtain t us where t: "tokens_of j0 = t # us" "t \<noteq> TRBrack"
      using tokens_of_first [of j0] by blast
    have len: "length st < 10000" using JArr.prems by (simp add: Cons)
    have hd: "\<exists>ws. tok_sep (map tokens_of (j0 # rest)) = t # ws"
      using t by (cases rest) auto
    have "parse_tokens PValue st (tokens_of (JArr js) @ ts)
        = parse_tokens PValue (FArr [] # st) (tok_sep (map tokens_of (j0 # rest)) @ TRBrack # ts)"
      using hd t len by (auto simp: open_value_def Cons simp del: list.map)
    also have "\<dots> = parse_tokens (PAfter (JArr (rev [] @ j0 # rest))) st ts"
      using JArr.IH d len by (intro parse_array_elems) (auto simp: Cons)
    finally show ?thesis by (simp add: Cons)
  qed
next
  case (JObj ms)
  show ?case
  proof (cases ms)
    case Nil
    with JObj.prems show ?thesis by (simp add: open_value_def)
  next
    case (Cons m0 rest)
    have d: "(k, v) \<in> set (m0 # rest) \<Longrightarrow> length (f # st) + depth v \<le> 10000" for k v f
      using JObj.prems depth_member(2) [of k v ms] by (simp add: Cons del: depth.simps)
    have len: "length st < 10000" using JObj.prems by (simp add: Cons)
    have IH: "parse_tokens PValue (f # st) (tokens_of v @ ts') = parse_tokens (PAfter v) (f # st) ts'"
      if "(k, v) \<in> set (m0 # rest)" for k v f ts'
      using JObj.IH [of "(k, v)" v "f # st" ts'] that d [OF that] by (simp add: Cons)
    have "parse_tokens PValue st (tokens_of (JObj ms) @ ts)
        = parse_tokens PFirstKey (FObj [] [] # st)
            (tok_sep (map (\<lambda>(k, v). TStr k # TColon # tokens_of v) (m0 # rest)) @ TRBrace # ts)"
      using len by (simp add: open_value_def Cons del: list.map)
    also have "\<dots> = parse_tokens (PAfter (JObj (rev [] @ m0 # rest))) st ts"
      using IH len by (intro parse_object_members) auto
    finally show ?thesis by (simp add: Cons)
  qed
qed (auto simp: open_value_def)

text \<open>Printing and reading back is the identity, for ASCII strings and well-formed numbers.\<close>

lemma parse_single_print:
  assumes "printable j" "depth j \<le> 10000"
  shows "parse_single (json_print j) = Some j"
proof -
  have "lex (json_print j @ []) = Some (tokens_of j)"
    using assms(1) by (subst lex_json_print) simp_all
  then show ?thesis
    using parse_tokens_of [of "[]" j "[]"] assms(2) by (simp add: parse_single_def)
qed

end
