(* ===== verification/Contract.thy ===== *)
theory Contract
  imports JsonPrint
begin

section \<open>The metric batch contract\<close>

text \<open>
  The abstract specification both validators are measured against: what the README and
  \<open>api.md\<close> promise of a batch that enters the pipeline. The HTTP layer
  (theory \<open>IngestHttp\<close>) and the worker's message decoder (theory \<open>Message\<close>) each implement
  it with their own constants, patterns and loops.
\<close>

definition spec_task_id :: "string \<Rightarrow> bool" where
  "spec_task_id s \<longleftrightarrow>
     s \<noteq> [] \<and> length s \<le> 64 \<and> is_alnum (hd s) \<and> (\<forall>c \<in> set s. is_ident_char c)"

definition spec_key :: "string \<Rightarrow> bool" where
  "spec_key s \<longleftrightarrow> s \<noteq> [] \<and> length s \<le> 32 \<and> (\<forall>c \<in> set s. is_ident_char c)"

definition spec_step :: "int \<Rightarrow> bool" where
  "spec_step i \<longleftrightarrow> 0 \<le> i \<and> i \<le> 2147483647"

definition spec_ts :: "int \<Rightarrow> bool" where
  "spec_ts i \<longleftrightarrow> 0 < i \<and> i \<le> 253402300799999"

definition spec_metrics :: "metric_map \<Rightarrow> bool" where
  "spec_metrics m \<longleftrightarrow>
     m \<noteq> [] \<and> go_map m \<and> (\<forall>(k, v) \<in> set m. spec_key k \<and> float_finite v)"

definition spec_sample :: "metric_sample \<Rightarrow> bool" where
  "spec_sample s \<longleftrightarrow>
     spec_step (ms_Step s) \<and> spec_ts (ms_TimestampMillis s) \<and> spec_metrics (ms_Metrics s)"

definition spec_batch :: "metric_batch \<Rightarrow> bool" where
  "spec_batch b \<longleftrightarrow>
     spec_task_id (mb_TaskID b) \<and> mb_Samples b \<noteq> [] \<and> length (mb_Samples b) \<le> 500 \<and>
     (\<forall>s \<in> set (mb_Samples b). spec_sample s)"

lemmas spec_defs = spec_task_id_def spec_key_def spec_step_def spec_ts_def

lemma spec_task_id_no_colon: "spec_task_id s \<Longrightarrow> CHR '':'' \<notin> set s"
  using ident_char_not by (auto simp: spec_task_id_def)

lemma ident_char_ascii: "is_ident_char c \<Longrightarrow> byte c < 0x80"
  by (auto simp: char_class_defs less_eq_char_def byte_def)

lemma spec_task_id_ascii: "spec_task_id s \<Longrightarrow> ascii s"
  by (auto simp: spec_task_id_def ascii_def list_all_iff ident_char_ascii)

lemma spec_key_ascii: "spec_key s \<Longrightarrow> ascii s"
  by (auto simp: spec_key_def ascii_def list_all_iff ident_char_ascii)

lemma spec_step_int64: "spec_step i \<Longrightarrow> in_int64 i"
  by (simp add: spec_step_def in_int64_def)

lemma spec_ts_int64: "spec_ts i \<Longrightarrow> in_int64 i"
  by (simp add: spec_ts_def in_int64_def)

subsection \<open>Copying a map\<close>

text \<open>The loop \<open>for key, value := range src { dst[key] = value }\<close>.\<close>

definition copy_map :: "('k \<times> 'v) list \<Rightarrow> ('k \<times> 'v) list" where
  "copy_map m = fold (\<lambda>(k, v) acc. AList.update k v acc) m []"

lemma update_new: "k \<notin> fst ` set m \<Longrightarrow> AList.update k v m = m @ [(k, v)]"
  by (induction m) auto

lemma fold_update_distinct:
  "distinct (map fst (acc @ m)) \<Longrightarrow> fold (\<lambda>(k, v) acc. AList.update k v acc) m acc = acc @ m"
proof (induction m arbitrary: acc)
  case Nil
  then show ?case by simp
next
  case (Cons kv m)
  obtain k v where kv: "kv = (k, v)" by fastforce
  have "AList.update k v acc = acc @ [(k, v)]"
    using Cons.prems by (intro update_new) (auto simp: kv)
  then show ?case
    using Cons.IH [of "acc @ [(k, v)]"] Cons.prems by (simp add: kv)
qed

lemma copy_map_id [simp]: "go_map m \<Longrightarrow> copy_map m = m"
  using fold_update_distinct [of "[]" m] by (simp add: copy_map_def go_map_def)

lemma spec_metrics_copy [simp]: "spec_metrics m \<Longrightarrow> copy_map m = m"
  by (simp add: spec_metrics_def)

end
