(* ===== verification/Reply.thy ===== *)
theory Reply
  imports Contract
begin

section \<open>HTTP replies\<close>

text \<open>
  What a handler writes: \<open>WriteError\<close> of \<open>response.go\<close> (status, code, message), a JSON
  document, a bare status (\<open>gin.Recovery\<close> after a panic). The document type is the
  handler's.
\<close>

datatype 'b reply =
    ReplyError nat string string
  | ReplyJSON nat 'b
  | ReplyStatus nat

definition StatusOK :: nat where "StatusOK = 200"
definition StatusBadRequest :: nat where "StatusBadRequest = 400"
definition StatusNotFound :: nat where "StatusNotFound = 404"
definition StatusInternalServerError :: nat where "StatusInternalServerError = 500"
definition StatusServiceUnavailable :: nat where "StatusServiceUnavailable = 503"

lemmas status_defs = StatusOK_def StatusBadRequest_def StatusNotFound_def
  StatusInternalServerError_def StatusServiceUnavailable_def

definition ErrorCodeInvalidParams :: string where
  "ErrorCodeInvalidParams = ''INVALID_PARAMS''"
definition ErrorCodeTaskNotFound :: string where
  "ErrorCodeTaskNotFound = ''TASK_NOT_FOUND''"
definition ErrorCodeMQUnavailable :: string where
  "ErrorCodeMQUnavailable = ''MQ_UNAVAILABLE''"
definition ErrorCodeInternal :: string where
  "ErrorCodeInternal = ''INTERNAL''"

definition WriteError :: "nat \<Rightarrow> string \<Rightarrow> string \<Rightarrow> 'b reply" where
  "WriteError status code message = ReplyError status code message"

fun reply_status :: "'b reply \<Rightarrow> nat" where
  "reply_status (ReplyError s _ _) = s"
| "reply_status (ReplyJSON s _) = s"
| "reply_status (ReplyStatus s) = s"

lemma reply_status_WriteError [simp]: "reply_status (WriteError s c m) = s"
  by (simp add: WriteError_def)

end
