(* ===== verification/IngestHttp.thy ===== *)
theory IngestHttp
  imports Reply
begin

section \<open>POST /api/v1/ingest/metrics\<close>

text \<open>
  The ingest handler of \<open>internal/transport/http/ingest.go\<close> and the use case of
  \<open>internal/service/ingest\<close>: content type, body limit and strict decoding, validation of
  every field, conversion to the domain batch, submission. \<open>mime.ParseMediaType\<close> and
  \<open>strconv.ParseFloat\<close> are the parameters \<open>pmt\<close> and \<open>pf\<close>.
\<close>

definition maxIngestBodyBytes :: nat where "maxIngestBodyBytes = 1048576"
definition http_maxMetricBatchSize :: nat where "http_maxMetricBatchSize = 500"
definition http_maxTaskIDLength :: nat where "http_maxTaskIDLength = 64"
definition http_maxMetricKeyLength :: nat where "http_maxMetricKeyLength = 32"
definition http_maxStepValue :: int where "http_maxStepValue = 2147483647"
definition http_maxTimestampMillis :: int where "http_maxTimestampMillis = 253402300799999"
definition jsonContentType :: string where "jsonContentType = ''application/json''"

lemmas http_limit_defs = http_maxMetricBatchSize_def http_maxTaskIDLength_def
  http_maxMetricKeyLength_def http_maxStepValue_def http_maxTimestampMillis_def

text \<open>\<open>^[A-Za-z0-9][A-Za-z0-9._-]*$\<close> and \<open>^[A-Za-z0-9._-]+$\<close>.\<close>

definition http_taskIDPattern :: "string \<Rightarrow> bool" where
  "http_taskIDPattern s =
     (case s of [] \<Rightarrow> False | c # cs \<Rightarrow> is_alnum c \<and> list_all is_ident_char cs)"

definition http_metricKeyPattern :: "string \<Rightarrow> bool" where
  "http_metricKeyPattern s = (s \<noteq> [] \<and> list_all is_ident_char s)"

record metric_sample_request =
  msr_Step :: "int option"
  msr_TS :: "int option"
  msr_Metrics :: metric_map

record ingest_metrics_request =
  imr_TaskID :: string
  imr_Batch :: "metric_sample_request list"

subsection \<open>Validation\<close>

datatype validation_error =
    TaskIDRequired | TaskIDTooLong | TaskIDFormat | BatchEmpty | BatchTooLarge
  | StepRequired nat | StepNegative nat | StepTooLarge nat
  | TSRequired nat | TSNotPositive nat | TSOutOfRange nat
  | MetricsEmpty nat | KeyEmpty nat | KeyTooLong nat string | KeyFormat nat string
  | ValueNotFinite nat string

fun validate_metrics :: "nat \<Rightarrow> metric_map \<Rightarrow> validation_error option" where
  "validate_metrics index [] = None"
| "validate_metrics index ((key, value) # rest) =
     (if key = [] then Some (KeyEmpty index)
      else if length key > http_maxMetricKeyLength then Some (KeyTooLong index key)
      else if \<not> http_metricKeyPattern key then Some (KeyFormat index key)
      else if math_IsNaN value \<or> math_IsInf value then Some (ValueNotFinite index key)
      else validate_metrics index rest)"

definition MetricSampleRequest_Validate ::
  "metric_sample_request \<Rightarrow> nat \<Rightarrow> validation_error option" where
  "MetricSampleRequest_Validate s index =
     (case msr_Step s of
        None \<Rightarrow> Some (StepRequired index)
      | Some step \<Rightarrow>
          if step < 0 then Some (StepNegative index)
          else if step > http_maxStepValue then Some (StepTooLarge index)
          else (case msr_TS s of
                  None \<Rightarrow> Some (TSRequired index)
                | Some ts \<Rightarrow>
                    if ts \<le> 0 then Some (TSNotPositive index)
                    else if ts > http_maxTimestampMillis then Some (TSOutOfRange index)
                    else if length (msr_Metrics s) = 0 then Some (MetricsEmpty index)
                    else validate_metrics index (msr_Metrics s)))"

fun validate_samples :: "nat \<Rightarrow> metric_sample_request list \<Rightarrow> validation_error option" where
  "validate_samples index [] = None"
| "validate_samples index (s # ss) =
     (case MetricSampleRequest_Validate s index of
        Some e \<Rightarrow> Some e
      | None \<Rightarrow> validate_samples (Suc index) ss)"

definition IngestMetricsRequest_Validate :: "ingest_metrics_request \<Rightarrow> validation_error option" where
  "IngestMetricsRequest_Validate r =
     (if imr_TaskID r = [] then Some TaskIDRequired
      else if length (imr_TaskID r) > http_maxTaskIDLength then Some TaskIDTooLong
      else if \<not> http_taskIDPattern (imr_TaskID r) then Some TaskIDFormat
      else if length (imr_Batch r) = 0 then Some BatchEmpty
      else if length (imr_Batch r) > http_maxMetricBatchSize then Some BatchTooLarge
      else validate_samples 0 (imr_Batch r))"

subsection \<open>Conversion\<close>

text \<open>Dereferencing a nil pointer panics: \<open>None\<close>.\<close>

definition to_metric_sample :: "metric_sample_request \<Rightarrow> metric_sample option" where
  "to_metric_sample s =
     (case (msr_Step s, msr_TS s) of
        (Some step, Some ts) \<Rightarrow>
          Some \<lparr>ms_Step = step, ms_TimestampMillis = ts, ms_Metrics = copy_map (msr_Metrics s)\<rparr>
      | _ \<Rightarrow> None)"

fun to_metric_samples :: "metric_sample_request list \<Rightarrow> metric_sample list option" where
  "to_metric_samples [] = Some []"
| "to_metric_samples (s # ss) =
     (case to_metric_sample s of
        None \<Rightarrow> None
      | Some x \<Rightarrow> map_option (Cons x) (to_metric_samples ss))"

definition ToMetricBatch :: "ingest_metrics_request \<Rightarrow> metric_batch option" where
  "ToMetricBatch r =
     map_option (\<lambda>samples. \<lparr>mb_TaskID = imr_TaskID r, mb_Samples = samples\<rparr>)
       (to_metric_samples (imr_Batch r))"

subsection \<open>Decoding the body\<close>

definition put_sample_field ::
  "(string \<Rightarrow> float64 option) \<Rightarrow> string \<Rightarrow> json \<Rightarrow> metric_sample_request \<Rightarrow> metric_sample_request option" where
  "put_sample_field pf n v s =
     (if n = ''step'' then map_option (\<lambda>x. s\<lparr>msr_Step := x\<rparr>) (decode_int_ptr v (msr_Step s))
      else if n = ''ts'' then map_option (\<lambda>x. s\<lparr>msr_TS := x\<rparr>) (decode_int_ptr v (msr_TS s))
      else map_option (\<lambda>x. s\<lparr>msr_Metrics := x\<rparr>) (decode_metrics pf v (msr_Metrics s)))"

definition zero_sample_request :: metric_sample_request where
  "zero_sample_request = \<lparr>msr_Step = None, msr_TS = None, msr_Metrics = []\<rparr>"

definition decode_sample_request ::
  "(string \<Rightarrow> float64 option) \<Rightarrow> json \<Rightarrow> metric_sample_request \<Rightarrow> metric_sample_request option" where
  "decode_sample_request pf = decode_struct [''step'', ''ts'', ''metrics''] (put_sample_field pf)"

definition put_request_field ::
  "(string \<Rightarrow> float64 option) \<Rightarrow> string \<Rightarrow> json \<Rightarrow> string \<times> metric_sample_request slice
    \<Rightarrow> (string \<times> metric_sample_request slice) option" where
  "put_request_field pf n v r =
     (if n = ''task_id'' then map_option (\<lambda>x. (x, snd r)) (decode_string v (fst r))
      else map_option (\<lambda>x. (fst r, x))
             (decode_slice (decode_sample_request pf) zero_sample_request v (snd r)))"

text \<open>
  \<open>http.MaxBytesReader\<close> turns any read past the limit into an error, and the second
  \<open>Decode\<close> reads to the end of the body, so a longer body is always refused.
\<close>

definition decodeIngestMetricsRequest ::
  "(string \<Rightarrow> float64 option) \<Rightarrow> string \<Rightarrow> ingest_metrics_request option" where
  "decodeIngestMetricsRequest pf body =
     (if length body > maxIngestBodyBytes then None
      else case parse_single body of
             None \<Rightarrow> None
           | Some j \<Rightarrow>
               map_option (\<lambda>r. \<lparr>imr_TaskID = fst r, imr_Batch = fst (snd r)\<rparr>)
                 (decode_struct [''task_id'', ''batch''] (put_request_field pf) j ([], [], [])))"

definition hasJSONContentType :: "(string \<Rightarrow> string option) \<Rightarrow> string \<Rightarrow> bool" where
  "hasJSONContentType pmt header =
     (case pmt header of None \<Rightarrow> False | Some mediaType \<Rightarrow> mediaType = jsonContentType)"

subsection \<open>The use case and the handler\<close>

text \<open>
  \<open>NewService\<close> replaces a nil publisher by one that discards; \<open>None\<close> is the nil interface
  of a zero \<open>Service\<close>. The world \<open>'w\<close> is whatever the publisher acts on.
\<close>

type_synonym 'w batch_publisher = "metric_batch \<Rightarrow> 'w \<Rightarrow> go_error option \<times> 'w"

definition discardPublisher :: "'w batch_publisher" where
  "discardPublisher b w = (None, w)"

definition NewIngestService :: "'w batch_publisher option \<Rightarrow> 'w batch_publisher option" where
  "NewIngestService p = (case p of None \<Rightarrow> Some discardPublisher | Some q \<Rightarrow> Some q)"

definition IngestMetricBatch ::
  "'w batch_publisher option \<Rightarrow> metric_batch \<Rightarrow> 'w \<Rightarrow> go_error option \<times> 'w" where
  "IngestMetricBatch svc b w = (case svc of None \<Rightarrow> (None, w) | Some p \<Rightarrow> p b w)"

record ingest_ok =
  io_accepted :: nat
  io_task_id :: string

definition IngestMetrics ::
  "(string \<Rightarrow> string option) \<Rightarrow> (string \<Rightarrow> float64 option) \<Rightarrow> 'w batch_publisher option
    \<Rightarrow> string \<Rightarrow> string \<Rightarrow> 'w \<Rightarrow> ingest_ok reply \<times> 'w" where
  "IngestMetrics pmt pf svc header body w =
     (if \<not> hasJSONContentType pmt header then
        (WriteError StatusBadRequest ErrorCodeInvalidParams ''content type must be application/json'', w)
      else case decodeIngestMetricsRequest pf body of
        None \<Rightarrow> (WriteError StatusBadRequest ErrorCodeInvalidParams ''invalid request body'', w)
      | Some request \<Rightarrow>
          (case IngestMetricsRequest_Validate request of
             Some e \<Rightarrow> (WriteError StatusBadRequest ErrorCodeInvalidParams ''invalid metric batch'', w)
           | None \<Rightarrow>
               (case ToMetricBatch request of
                  None \<Rightarrow> (ReplyStatus StatusInternalServerError, w)
                | Some batch \<Rightarrow>
                    (case IngestMetricBatch svc batch w of
                       (Some e, w') \<Rightarrow>
                         (WriteError StatusServiceUnavailable ErrorCodeMQUnavailable
                            ''message queue unavailable'', w')
                     | (None, w') \<Rightarrow>
                         (ReplyJSON StatusOK
                            \<lparr>io_accepted = length (imr_Batch request),
                             io_task_id = imr_TaskID request\<rparr>, w')))))"

subsection \<open>Validation implements the batch contract\<close>

lemma http_taskIDPattern_iff:
  "s \<noteq> [] \<and> length s \<le> http_maxTaskIDLength \<and> http_taskIDPattern s \<longleftrightarrow> spec_task_id s"
  by (cases s) (auto simp: http_taskIDPattern_def spec_task_id_def http_limit_defs list_all_iff
      is_ident_char_def)

lemma http_metricKey_iff:
  "s \<noteq> [] \<and> length s \<le> http_maxMetricKeyLength \<and> http_metricKeyPattern s \<longleftrightarrow> spec_key s"
  by (auto simp: http_metricKeyPattern_def spec_key_def http_limit_defs list_all_iff)

lemma validate_metrics_None_iff:
  "validate_metrics i m = None \<longleftrightarrow> (\<forall>(k, v) \<in> set m. spec_key k \<and> float_finite v)"
  by (induction i m rule: validate_metrics.induct)
    (auto simp: float_finite_iff simp flip: http_metricKey_iff)

definition sample_request_maps :: "metric_sample_request \<Rightarrow> bool" where
  "sample_request_maps s \<longleftrightarrow> go_map (msr_Metrics s)"

definition request_maps :: "ingest_metrics_request \<Rightarrow> bool" where
  "request_maps r \<longleftrightarrow> (\<forall>s \<in> set (imr_Batch r). sample_request_maps s)"

lemma MetricSampleRequest_Validate_iff:
  assumes "sample_request_maps s"
  shows "MetricSampleRequest_Validate s i = None \<longleftrightarrow>
    (\<exists>x. to_metric_sample s = Some x \<and> spec_sample x)"
  using assms
  by (auto simp: MetricSampleRequest_Validate_def to_metric_sample_def spec_sample_def
      spec_metrics_def sample_request_maps_def validate_metrics_None_iff spec_step_def spec_ts_def
      http_limit_defs split: option.splits)

lemma validate_samples_iff:
  assumes "\<forall>s \<in> set ss. sample_request_maps s"
  shows "validate_samples i ss = None \<longleftrightarrow>
    (\<exists>xs. to_metric_samples ss = Some xs \<and> (\<forall>x \<in> set xs. spec_sample x))"
  using assms
proof (induction i ss rule: validate_samples.induct)
  case (1 i)
  then show ?case by simp
next
  case (2 i s ss)
  then have s: "MetricSampleRequest_Validate s i = None \<longleftrightarrow>
      (\<exists>x. to_metric_sample s = Some x \<and> spec_sample x)"
    by (intro MetricSampleRequest_Validate_iff) simp
  show ?case
    using "2.IH" "2.prems" s by (auto split: option.splits)
qed

lemma to_metric_samples_length: "to_metric_samples ss = Some xs \<Longrightarrow> length xs = length ss"
  by (induction ss arbitrary: xs) (auto split: option.splits)

lemma Validate_iff_spec_batch:
  assumes "request_maps r"
  shows "IngestMetricsRequest_Validate r = None \<longleftrightarrow> (\<exists>b. ToMetricBatch r = Some b \<and> spec_batch b)"
proof -
  have v: "validate_samples 0 (imr_Batch r) = None \<longleftrightarrow>
      (\<exists>xs. to_metric_samples (imr_Batch r) = Some xs \<and> (\<forall>x \<in> set xs. spec_sample x))"
    using assms by (intro validate_samples_iff) (simp add: request_maps_def)
  have "IngestMetricsRequest_Validate r = None \<longleftrightarrow>
      spec_task_id (imr_TaskID r) \<and> imr_Batch r \<noteq> [] \<and> length (imr_Batch r) \<le> 500 \<and>
      validate_samples 0 (imr_Batch r) = None"
    by (auto simp: IngestMetricsRequest_Validate_def http_maxMetricBatchSize_def
        simp flip: http_taskIDPattern_iff)
  moreover have "length xs = length (imr_Batch r)" if "to_metric_samples (imr_Batch r) = Some xs" for xs
    using that by (rule to_metric_samples_length)
  ultimately show ?thesis
    using v by (fastforce simp: ToMetricBatch_def spec_batch_def)
qed

subsection \<open>Decoded maps have distinct keys\<close>

lemma decode_members_go_map:
  "decode_members pf ms cur = Some m \<Longrightarrow> go_map cur \<Longrightarrow> go_map m"
  by (induction pf ms cur rule: decode_members.induct) (auto split: option.splits)

lemma decode_metrics_go_map: "decode_metrics pf j cur = Some m \<Longrightarrow> go_map cur \<Longrightarrow> go_map m"
  by (auto simp: decode_metrics_def split: json.splits dest: decode_members_go_map)

text \<open>An invariant of the stored value is kept by struct and slice decoding.\<close>

lemma decode_fields_inv:
  assumes "decode_fields names put ms cur = Some x" "P cur"
    and "\<And>n v c c'. put n v c = Some c' \<Longrightarrow> P c \<Longrightarrow> P c'"
  shows "P x"
  using assms
proof (induction names put ms cur rule: decode_fields.induct)
  case (1 names put cur)
  then show ?case by simp
next
  case (2 names put k v ms cur)
  then show ?case by (auto split: option.splits)
qed

lemma decode_struct_inv:
  assumes "decode_struct names put j cur = Some x" "P cur"
    and "\<And>n v c c'. put n v c = Some c' \<Longrightarrow> P c \<Longrightarrow> P c'"
  shows "P x"
  using assms decode_fields_inv [of names put _ cur x P]
  by (auto simp: decode_struct_def split: json.splits)

lemma decode_elems_inv:
  assumes "decode_elems dec zero vs arr = Some (xs, rest)" "\<forall>b \<in> set arr. P b" "P zero"
    and "\<And>v c c'. dec v c = Some c' \<Longrightarrow> P c \<Longrightarrow> P c'"
  shows "(\<forall>x \<in> set xs. P x) \<and> (\<forall>x \<in> set rest. P x)"
  using assms
proof (induction dec zero vs arr arbitrary: xs rule: decode_elems.induct)
  case (1 dec zero arr)
  then show ?case by simp
next
  case (2 dec zero v vs arr)
  from "2.prems"(1) obtain x ys where x: "dec v (case arr of [] \<Rightarrow> zero | b # _ \<Rightarrow> b) = Some x"
    and ys: "decode_elems dec zero vs (tl arr) = Some (ys, rest)" and xs: "xs = x # ys"
    by (auto split: option.splits)
  have cur: "P (case arr of [] \<Rightarrow> zero | b # _ \<Rightarrow> b)"
    using "2.prems"(2,3) by (cases arr) auto
  then have "P x" by (rule "2.prems"(4) [OF x])
  moreover have "\<forall>b \<in> set (tl arr). P b"
    using "2.prems"(2) by (cases arr) auto
  then have "(\<forall>x \<in> set ys. P x) \<and> (\<forall>x \<in> set rest. P x)"
    by (rule "2.IH" [OF x ys _ "2.prems"(3,4)])
  ultimately show ?case by (simp add: xs)
qed

lemma decode_slice_inv:
  assumes "decode_slice dec zero j cur = Some (xs, rest)"
    and "\<forall>b \<in> set (fst cur @ snd cur). P b" "P zero"
    and "\<And>v c c'. dec v c = Some c' \<Longrightarrow> P c \<Longrightarrow> P c'"
  shows "\<forall>x \<in> set (xs @ rest). P x"
  using assms decode_elems_inv [of dec zero _ "fst cur @ snd cur" xs rest P]
  by (auto simp: decode_slice_def split: json.splits if_splits)

lemma decode_sample_request_maps:
  "decode_sample_request pf j cur = Some s \<Longrightarrow> sample_request_maps cur \<Longrightarrow> sample_request_maps s"
  unfolding decode_sample_request_def
  by (erule decode_struct_inv)
    (auto simp: put_sample_field_def sample_request_maps_def split: if_splits
      dest: decode_metrics_go_map)

lemma decodeIngestMetricsRequest_maps:
  assumes "decodeIngestMetricsRequest pf body = Some r"
  shows "request_maps r"
proof -
  let ?P = "\<lambda>r :: string \<times> metric_sample_request slice.
      \<forall>s \<in> set (fst (snd r) @ snd (snd r)). sample_request_maps s"
  from assms obtain j x where
    x: "decode_struct [''task_id'', ''batch''] (put_request_field pf) j ([], [], []) = Some x"
    and r: "r = \<lparr>imr_TaskID = fst x, imr_Batch = fst (snd x)\<rparr>"
    by (auto simp: decodeIngestMetricsRequest_def split: if_splits option.splits)
  have "?P x"
  proof (rule decode_struct_inv [OF x])
    fix n v and c c' :: "string \<times> metric_sample_request slice"
    assume put: "put_request_field pf n v c = Some c'" and c: "?P c"
    show "?P c'"
    proof (cases "n = ''task_id''")
      case True
      with put c show ?thesis by (auto simp: put_request_field_def)
    next
      case False
      with put obtain xs rest where
        d: "decode_slice (decode_sample_request pf) zero_sample_request v (snd c) = Some (xs, rest)"
        and c': "c' = (fst c, xs, rest)"
        by (auto simp: put_request_field_def)
      have "sample_request_maps zero_sample_request"
        by (simp add: sample_request_maps_def zero_sample_request_def)
      then have "\<forall>s \<in> set (xs @ rest). sample_request_maps s"
        using decode_slice_inv [OF d, of sample_request_maps] c decode_sample_request_maps by blast
      then show ?thesis by (simp add: c')
    qed
  qed simp
  then show ?thesis by (auto simp: request_maps_def r)
qed

end
