(* ===== verification/Message.thy ===== *)
theory Message
  imports IngestHttp
begin

section \<open>The ingest message protocol\<close>

text \<open>
  \<open>internal/messaging/message.go\<close>: building a message from a batch, its AMQP publishing, the
  strict decoding the worker does, and the expansion into metric points.
\<close>

definition IngestSchemaVersion :: int where "IngestSchemaVersion = 1"
definition maxIngestBatchSize :: nat where "maxIngestBatchSize = 500"
definition maxTaskIDLength :: nat where "maxTaskIDLength = 64"
definition maxMetricKeyLength :: nat where "maxMetricKeyLength = 32"
definition maxStepValue :: int where "maxStepValue = 2147483647"
definition maxTimestampMillis :: int where "maxTimestampMillis = 253402300799999"

lemmas msg_limit_defs = maxIngestBatchSize_def maxTaskIDLength_def maxMetricKeyLength_def
  maxStepValue_def maxTimestampMillis_def

definition taskIDPattern :: "string \<Rightarrow> bool" where
  "taskIDPattern s =
     (case s of [] \<Rightarrow> False | c # cs \<Rightarrow> is_alnum c \<and> list_all is_ident_char cs)"

definition metricKeyPattern :: "string \<Rightarrow> bool" where
  "metricKeyPattern s = (s \<noteq> [] \<and> list_all is_ident_char s)"

record ingest_sample =
  is_Step :: int
  is_TS :: int
  is_Metrics :: metric_map

record ingest_message =
  im_SchemaVersion :: int
  im_MessageID :: string
  im_CorrelationID :: string
  im_TaskID :: string
  im_Batch :: "ingest_sample list"

text \<open>The wire types, whose pointers tell an absent field from a zero.\<close>

record ingest_sample_wire =
  isw_Step :: "int option"
  isw_TS :: "int option"
  isw_Metrics :: metric_map

record ingest_message_wire =
  imw_SchemaVersion :: "int option"
  imw_MessageID :: string
  imw_CorrelationID :: string
  imw_TaskID :: string
  imw_Batch :: "ingest_sample_wire slice"

subsection \<open>Building a message\<close>

definition message_sample :: "metric_sample \<Rightarrow> ingest_sample" where
  "message_sample s =
     \<lparr>is_Step = ms_Step s, is_TS = ms_TimestampMillis s, is_Metrics = copy_map (ms_Metrics s)\<rparr>"

text \<open>The ID generator's outcome is the argument: an error or the identifier.\<close>

definition NewIngestMessage :: "metric_batch \<Rightarrow> go_error + string \<Rightarrow> go_error + ingest_message" where
  "NewIngestMessage batch generated =
     (case generated of
        Inl err \<Rightarrow> Inl (ErrWrap ''generate message id'' [err])
      | Inr messageID \<Rightarrow>
          Inr \<lparr>im_SchemaVersion = IngestSchemaVersion, im_MessageID = messageID,
               im_CorrelationID = messageID, im_TaskID = mb_TaskID batch,
               im_Batch = map message_sample (mb_Samples batch)\<rparr>)"

text \<open>\<open>GenerateMessageID\<close>: the hexadecimal text of the 16 bytes \<open>crypto/rand\<close> returned.\<close>

definition hex_encode :: "string \<Rightarrow> string" where
  "hex_encode bs = concat (map (\<lambda>b. [hex_digit (byte b div 16), hex_digit (byte b mod 16)]) bs)"

definition GenerateMessageID :: "go_error + string \<Rightarrow> go_error + string" where
  "GenerateMessageID rand_read =
     (case rand_read of Inl err \<Rightarrow> Inl err | Inr bs \<Rightarrow> Inr (hex_encode bs))"

subsection \<open>The publishing\<close>

text \<open>Values of an \<open>amqp.Table\<close>, by Go type.\<close>

datatype amqp_value =
    AInt8 int | AInt16 int | AInt32 int | AInt64 int | AInt int | AString string | AOther

type_synonym amqp_table = "(string \<times> amqp_value) list"

record amqp_publishing =
  ap_Headers :: amqp_table
  ap_ContentType :: string
  ap_DeliveryMode :: nat
  ap_Priority :: nat
  ap_CorrelationId :: string
  ap_MessageId :: string
  ap_Timestamp :: int
  ap_Body :: string

definition amqp_Persistent :: nat where "amqp_Persistent = 2"

text \<open>
  \<open>json.Marshal\<close> of the message. \<open>ff\<close> formats a float; a float that is not finite is the
  \<open>UnsupportedValueError\<close> (\<open>None\<close>). Map keys are written in sorted order.
\<close>

definition sorted_entries :: "(string \<times> 'v) list \<Rightarrow> (string \<times> 'v) list" where
  "sorted_entries m = map (\<lambda>k. (k, the (map_of m k))) (sort (map fst m))"

definition metrics_json :: "(float64 \<Rightarrow> string) \<Rightarrow> metric_map \<Rightarrow> json option" where
  "metrics_json ff m =
     (if \<forall>(k, v) \<in> set m. float_finite v
      then Some (JObj (map (\<lambda>(k, v). (k, JNum (ff v))) (sorted_entries m)))
      else None)"

definition sample_json :: "(float64 \<Rightarrow> string) \<Rightarrow> ingest_sample \<Rightarrow> json option" where
  "sample_json ff s =
     map_option (\<lambda>m. JObj [(''step'', JNum (int_digits (is_Step s))),
                           (''ts'', JNum (int_digits (is_TS s))), (''metrics'', m)])
       (metrics_json ff (is_Metrics s))"

fun those_json :: "json option list \<Rightarrow> json list option" where
  "those_json [] = Some []"
| "those_json (x # xs) =
     (case x of None \<Rightarrow> None | Some j \<Rightarrow> map_option (Cons j) (those_json xs))"

definition message_json :: "(float64 \<Rightarrow> string) \<Rightarrow> ingest_message \<Rightarrow> json option" where
  "message_json ff msg =
     map_option (\<lambda>batch. JObj
         [(''schema_version'', JNum (int_digits (im_SchemaVersion msg))),
          (''message_id'', JStr (im_MessageID msg)),
          (''correlation_id'', JStr (im_CorrelationID msg)),
          (''task_id'', JStr (im_TaskID msg)),
          (''batch'', JArr batch)])
       (those_json (map (sample_json ff) (im_Batch msg)))"

text \<open>\<open>int32(message.SchemaVersion)\<close> truncates to 32 bits.\<close>

definition int32_of :: "int \<Rightarrow> int" where
  "int32_of i = (i + 2 ^ 31) mod 2 ^ 32 - 2 ^ 31"

definition MarshalIngestPublishing ::
  "(float64 \<Rightarrow> string) \<Rightarrow> ingest_message \<Rightarrow> int \<Rightarrow> go_error + amqp_publishing" where
  "MarshalIngestPublishing ff msg now =
     (case message_json ff msg of
        None \<Rightarrow> Inl (ErrWrap ''marshal ingest message'' [ErrNew ''json: unsupported value''])
      | Some body \<Rightarrow>
          Inr \<lparr>ap_Headers = [(''schema_version'', AInt32 (int32_of (im_SchemaVersion msg))),
                             (''message_id'', AString (im_MessageID msg)),
                             (''correlation_id'', AString (im_CorrelationID msg))],
               ap_ContentType = ''application/json'', ap_DeliveryMode = amqp_Persistent,
               ap_Priority = 0, ap_CorrelationId = im_CorrelationID msg,
               ap_MessageId = im_MessageID msg, ap_Timestamp = now,
               ap_Body = json_print body\<rparr>)"

subsection \<open>Decoding\<close>

definition put_sample_wire ::
  "(string \<Rightarrow> float64 option) \<Rightarrow> string \<Rightarrow> json \<Rightarrow> ingest_sample_wire \<Rightarrow> ingest_sample_wire option" where
  "put_sample_wire pf n v s =
     (if n = ''step'' then map_option (\<lambda>x. s\<lparr>isw_Step := x\<rparr>) (decode_int_ptr v (isw_Step s))
      else if n = ''ts'' then map_option (\<lambda>x. s\<lparr>isw_TS := x\<rparr>) (decode_int_ptr v (isw_TS s))
      else map_option (\<lambda>x. s\<lparr>isw_Metrics := x\<rparr>) (decode_metrics pf v (isw_Metrics s)))"

definition zero_sample_wire :: ingest_sample_wire where
  "zero_sample_wire = \<lparr>isw_Step = None, isw_TS = None, isw_Metrics = []\<rparr>"

definition decode_sample_wire ::
  "(string \<Rightarrow> float64 option) \<Rightarrow> json \<Rightarrow> ingest_sample_wire \<Rightarrow> ingest_sample_wire option" where
  "decode_sample_wire pf = decode_struct [''step'', ''ts'', ''metrics''] (put_sample_wire pf)"

definition put_message_wire ::
  "(string \<Rightarrow> float64 option) \<Rightarrow> string \<Rightarrow> json \<Rightarrow> ingest_message_wire \<Rightarrow> ingest_message_wire option" where
  "put_message_wire pf n v w =
     (if n = ''schema_version'' then
        map_option (\<lambda>x. w\<lparr>imw_SchemaVersion := x\<rparr>) (decode_int_ptr v (imw_SchemaVersion w))
      else if n = ''message_id'' then
        map_option (\<lambda>x. w\<lparr>imw_MessageID := x\<rparr>) (decode_string v (imw_MessageID w))
      else if n = ''correlation_id'' then
        map_option (\<lambda>x. w\<lparr>imw_CorrelationID := x\<rparr>) (decode_string v (imw_CorrelationID w))
      else if n = ''task_id'' then
        map_option (\<lambda>x. w\<lparr>imw_TaskID := x\<rparr>) (decode_string v (imw_TaskID w))
      else map_option (\<lambda>x. w\<lparr>imw_Batch := x\<rparr>)
             (decode_slice (decode_sample_wire pf) zero_sample_wire v (imw_Batch w)))"

definition zero_message_wire :: ingest_message_wire where
  "zero_message_wire =
     \<lparr>imw_SchemaVersion = None, imw_MessageID = [], imw_CorrelationID = [], imw_TaskID = [],
      imw_Batch = ([], [])\<rparr>"

datatype protocol_error =
    DecodeError | SchemaVersionRequired | SchemaVersionUnsupported int | MessageIDRequired
  | CorrelationIDRequired | TaskIDInvalid | BatchSizeInvalid | StepInvalid nat | TSInvalid nat
  | MetricsMissing nat | KeyInvalid nat string | ValueInvalid nat string
  | ContentTypeInvalid | MessageIDMismatch | CorrelationIDMismatch | SchemaHeaderInvalid
  | MessageIDHeaderInvalid | CorrelationIDHeaderInvalid

fun decode_wire_metrics :: "nat \<Rightarrow> metric_map \<Rightarrow> metric_map \<Rightarrow> protocol_error + metric_map" where
  "decode_wire_metrics index [] acc = Inr acc"
| "decode_wire_metrics index ((key, value) # rest) acc =
     (if key = [] \<or> length key > maxMetricKeyLength \<or> \<not> metricKeyPattern key
      then Inl (KeyInvalid index key)
      else if math_IsNaN value \<or> math_IsInf value then Inl (ValueInvalid index key)
      else decode_wire_metrics index rest (AList.update key value acc))"

definition decode_wire_sample :: "nat \<Rightarrow> ingest_sample_wire \<Rightarrow> protocol_error + ingest_sample" where
  "decode_wire_sample index s =
     (case isw_Step s of
        None \<Rightarrow> Inl (StepInvalid index)
      | Some step \<Rightarrow>
          if step < 0 \<or> step > maxStepValue then Inl (StepInvalid index)
          else (case isw_TS s of
                  None \<Rightarrow> Inl (TSInvalid index)
                | Some ts \<Rightarrow>
                    if ts \<le> 0 \<or> ts > maxTimestampMillis then Inl (TSInvalid index)
                    else if length (isw_Metrics s) = 0 then Inl (MetricsMissing index)
                    else (case decode_wire_metrics index (isw_Metrics s) [] of
                            Inl e \<Rightarrow> Inl e
                          | Inr m \<Rightarrow> Inr \<lparr>is_Step = step, is_TS = ts, is_Metrics = m\<rparr>)))"

fun decode_wire_samples ::
  "nat \<Rightarrow> ingest_sample_wire list \<Rightarrow> protocol_error + ingest_sample list" where
  "decode_wire_samples index [] = Inr []"
| "decode_wire_samples index (s # ss) =
     (case decode_wire_sample index s of
        Inl e \<Rightarrow> Inl e
      | Inr x \<Rightarrow>
          (case decode_wire_samples (Suc index) ss of Inl e \<Rightarrow> Inl e | Inr xs \<Rightarrow> Inr (x # xs)))"

definition validate_wire :: "ingest_message_wire \<Rightarrow> protocol_error + ingest_message" where
  "validate_wire w =
     (case imw_SchemaVersion w of
        None \<Rightarrow> Inl SchemaVersionRequired
      | Some version \<Rightarrow>
          if version \<noteq> IngestSchemaVersion then Inl (SchemaVersionUnsupported version)
          else if imw_MessageID w = [] then Inl MessageIDRequired
          else if imw_CorrelationID w = [] then Inl CorrelationIDRequired
          else if imw_TaskID w = [] \<or> length (imw_TaskID w) > maxTaskIDLength
                  \<or> \<not> taskIDPattern (imw_TaskID w) then Inl TaskIDInvalid
          else if length (fst (imw_Batch w)) = 0 \<or> length (fst (imw_Batch w)) > maxIngestBatchSize
            then Inl BatchSizeInvalid
          else (case decode_wire_samples 0 (fst (imw_Batch w)) of
                  Inl e \<Rightarrow> Inl e
                | Inr samples \<Rightarrow>
                    Inr \<lparr>im_SchemaVersion = version, im_MessageID = imw_MessageID w,
                         im_CorrelationID = imw_CorrelationID w, im_TaskID = imw_TaskID w,
                         im_Batch = samples\<rparr>))"

definition DecodeIngestMessage ::
  "(string \<Rightarrow> float64 option) \<Rightarrow> string \<Rightarrow> protocol_error + ingest_message" where
  "DecodeIngestMessage pf body =
     (case parse_single body of
        None \<Rightarrow> Inl DecodeError
      | Some j \<Rightarrow>
          (case decode_struct
                  [''schema_version'', ''message_id'', ''correlation_id'', ''task_id'', ''batch'']
                  (put_message_wire pf) j zero_message_wire of
             None \<Rightarrow> Inl DecodeError
           | Some w \<Rightarrow> validate_wire w))"

subsection \<open>Expansion\<close>

definition expand_sample :: "string \<Rightarrow> ingest_sample \<Rightarrow> metric_point list" where
  "expand_sample task s =
     map (\<lambda>key. \<lparr>mp_TaskID = task, mp_Key = key, mp_Step = is_Step s,
                 mp_TimestampMillis = is_TS s, mp_Value = the (map_of (is_Metrics s) key)\<rparr>)
       (sort (map fst (is_Metrics s)))"

definition ExpandMetricPoints :: "ingest_message \<Rightarrow> metric_point list" where
  "ExpandMetricPoints msg = concat (map (expand_sample (im_TaskID msg)) (im_Batch msg))"

subsection \<open>What a decoded message satisfies\<close>

text \<open>The batch a message carries, and the contract of a message.\<close>

definition batch_sample :: "ingest_sample \<Rightarrow> metric_sample" where
  "batch_sample s =
     \<lparr>ms_Step = is_Step s, ms_TimestampMillis = is_TS s, ms_Metrics = is_Metrics s\<rparr>"

definition message_batch :: "ingest_message \<Rightarrow> metric_batch" where
  "message_batch msg =
     \<lparr>mb_TaskID = im_TaskID msg, mb_Samples = map batch_sample (im_Batch msg)\<rparr>"

definition spec_message :: "ingest_message \<Rightarrow> bool" where
  "spec_message msg \<longleftrightarrow>
     im_SchemaVersion msg = 1 \<and> im_MessageID msg \<noteq> [] \<and> im_CorrelationID msg \<noteq> [] \<and>
     spec_batch (message_batch msg)"

lemma taskIDPattern_iff:
  "s \<noteq> [] \<and> length s \<le> maxTaskIDLength \<and> taskIDPattern s \<longleftrightarrow> spec_task_id s"
  by (cases s) (auto simp: taskIDPattern_def spec_task_id_def msg_limit_defs list_all_iff
      is_ident_char_def)

lemma metricKey_iff:
  "s \<noteq> [] \<and> length s \<le> maxMetricKeyLength \<and> metricKeyPattern s \<longleftrightarrow> spec_key s"
  by (auto simp: metricKeyPattern_def spec_key_def msg_limit_defs list_all_iff)

lemma decode_wire_metrics_Inr:
  "decode_wire_metrics i m acc = Inr r \<longleftrightarrow>
    (\<forall>(k, v) \<in> set m. spec_key k \<and> float_finite v) \<and>
    r = fold (\<lambda>(k, v) acc. AList.update k v acc) m acc"
  by (induction i m acc rule: decode_wire_metrics.induct)
    (auto simp: float_finite_iff simp flip: metricKey_iff)

lemma decode_wire_metrics_copy:
  "decode_wire_metrics i m [] = Inr r \<longleftrightarrow>
    (\<forall>(k, v) \<in> set m. spec_key k \<and> float_finite v) \<and> r = copy_map m"
  by (simp add: decode_wire_metrics_Inr copy_map_def)

lemma fold_update_set:
  "set (fold (\<lambda>(k, v) acc. AList.update k v acc) m acc) \<subseteq> set m \<union> set acc"
proof (induction m arbitrary: acc)
  case (Cons kv m)
  obtain k v where kv: "kv = (k, v)" by fastforce
  have "set (AList.update k v acc) \<subseteq> insert (k, v) (set acc)"
    by (induction acc) auto
  then show ?case using Cons [of "AList.update k v acc"] by (auto simp: kv)
qed simp

lemma fold_update_go_map:
  "go_map acc \<Longrightarrow> go_map (fold (\<lambda>(k, v) acc. AList.update k v acc) m acc)"
  by (induction m arbitrary: acc) auto

lemma fold_update_keys:
  "fst ` set (fold (\<lambda>(k, v) acc. AList.update k v acc) m acc) = fst ` set m \<union> fst ` set acc"
proof (induction m arbitrary: acc)
  case (Cons kv m)
  obtain k v where kv: "kv = (k, v)" by fastforce
  have "fst ` set (AList.update k v acc) = insert k (fst ` set acc)"
    by (induction acc) auto
  then show ?case by (simp add: Cons kv)
qed simp

lemma spec_metrics_copy_map:
  assumes "m \<noteq> []" "\<forall>(k, v) \<in> set m. spec_key k \<and> float_finite v"
  shows "spec_metrics (copy_map m)"
proof -
  have "fst ` set (copy_map m) = fst ` set m"
    by (simp add: copy_map_def fold_update_keys)
  with assms(1) have "copy_map m \<noteq> []" by auto
  moreover have "set (copy_map m) \<subseteq> set m"
    using fold_update_set [of m "[]"] by (simp add: copy_map_def)
  moreover have "go_map (copy_map m)"
    using fold_update_go_map [of "[]" m] by (simp add: copy_map_def)
  ultimately show ?thesis
    using assms(2) by (auto simp: spec_metrics_def)
qed

lemma decode_wire_sample_spec:
  "decode_wire_sample i s = Inr x \<Longrightarrow> spec_sample (batch_sample x)"
  by (auto simp: decode_wire_sample_def batch_sample_def spec_sample_def spec_step_def spec_ts_def
      msg_limit_defs decode_wire_metrics_copy spec_metrics_copy_map
      split: option.splits if_splits sum.splits)

lemma decode_wire_samples_spec:
  "decode_wire_samples i ss = Inr xs \<Longrightarrow>
    length xs = length ss \<and> (\<forall>x \<in> set xs. spec_sample (batch_sample x))"
  by (induction i ss arbitrary: xs rule: decode_wire_samples.induct)
    (auto split: sum.splits dest: decode_wire_sample_spec)

lemma validate_wire_spec: "validate_wire w = Inr msg \<Longrightarrow> spec_message msg"
  unfolding validate_wire_def spec_message_def spec_batch_def message_batch_def
  by (auto simp: IngestSchemaVersion_def maxIngestBatchSize_def taskIDPattern_iff [symmetric]
      split: option.splits if_splits sum.splits dest!: decode_wire_samples_spec)

lemma DecodeIngestMessage_spec: "DecodeIngestMessage pf body = Inr msg \<Longrightarrow> spec_message msg"
  by (auto simp: DecodeIngestMessage_def split: option.splits dest: validate_wire_spec)

subsection \<open>Expansion does not depend on the iteration order of maps\<close>

lemma expand_sample_cong:
  assumes "go_map (is_Metrics s)" "go_map (is_Metrics t)"
    and "map_of (is_Metrics s) = map_of (is_Metrics t)"
    and "is_Step s = is_Step t" "is_TS s = is_TS t"
  shows "expand_sample task s = expand_sample task t"
proof -
  have "set (map fst (is_Metrics s)) = set (map fst (is_Metrics t))"
    using assms(3) by (metis dom_map_of_conv_image_fst set_map)
  then have "sort (map fst (is_Metrics s)) = sort (map fst (is_Metrics t))"
    using assms(1,2) by (intro sort_set_eq) (auto simp: go_map_def)
  with assms(3-5) show ?thesis by (simp add: expand_sample_def)
qed

lemma sorted_entries_keys: "map fst (sorted_entries m) = sort (map fst m)"
  by (simp add: sorted_entries_def comp_def)

lemma sorted_entries_go_map: "go_map m \<Longrightarrow> go_map (sorted_entries m)"
  by (simp add: go_map_def sorted_entries_keys)

lemma map_of_sorted_entries:
  assumes "go_map m"
  shows "map_of (sorted_entries m) = map_of m"
proof
  fix k
  have "map_of (sorted_entries m) k =
      (if k \<in> set (sort (map fst m)) then Some (the (map_of m k)) else None)"
    by (simp add: sorted_entries_def map_of_map_restrict)
  also have "\<dots> = map_of m k"
    by (auto simp: map_of_eq_None_iff) (metis domI domIff dom_map_of_conv_image_fst option.collapse
        image_eqI fst_conv)
  finally show "map_of (sorted_entries m) k = map_of m k" .
qed

lemma set_sorted_entries:
  assumes "go_map m"
  shows "set (sorted_entries m) = set m"
proof -
  have "distinct (map fst m)" "distinct (map fst (sorted_entries m))"
    using assms sorted_entries_go_map by (auto simp: go_map_def)
  then show ?thesis
    using map_of_sorted_entries [OF assms] by (metis graph_map_of_if_distinct_dom)
qed

text \<open>The message as the worker rebuilds it: the metrics of each sample in key order.\<close>

definition canonical_sample :: "ingest_sample \<Rightarrow> ingest_sample" where
  "canonical_sample s = s\<lparr>is_Metrics := sorted_entries (is_Metrics s)\<rparr>"

definition canonical_message :: "ingest_message \<Rightarrow> ingest_message" where
  "canonical_message msg = msg\<lparr>im_Batch := map canonical_sample (im_Batch msg)\<rparr>"

lemma Expand_canonical:
  assumes "spec_message msg"
  shows "ExpandMetricPoints (canonical_message msg) = ExpandMetricPoints msg"
proof -
  have "expand_sample task (canonical_sample s) = expand_sample task s" if "s \<in> set (im_Batch msg)"
    for task s
  proof (rule expand_sample_cong)
    have "go_map (is_Metrics s)"
      using assms that by (auto simp: spec_message_def spec_batch_def message_batch_def
          spec_sample_def batch_sample_def spec_metrics_def)
    then show "go_map (is_Metrics (canonical_sample s))" "go_map (is_Metrics s)"
      "map_of (is_Metrics (canonical_sample s)) = map_of (is_Metrics s)"
      by (simp_all add: canonical_sample_def sorted_entries_go_map map_of_sorted_entries)
  qed (simp_all add: canonical_sample_def)
  then show ?thesis
    by (simp add: ExpandMetricPoints_def canonical_message_def comp_def cong: map_cong)
qed

lemma length_expand_sample [simp]: "length (expand_sample task s) = length (is_Metrics s)"
  by (simp add: expand_sample_def)

lemma length_ExpandMetricPoints:
  "length (ExpandMetricPoints msg) = sum_list (map (\<lambda>s. length (is_Metrics s)) (im_Batch msg))"
  by (simp add: ExpandMetricPoints_def length_concat comp_def)

lemma ExpandMetricPoints_not_Nil:
  assumes "spec_message msg"
  shows "ExpandMetricPoints msg \<noteq> []"
proof -
  obtain s ss where "im_Batch msg = s # ss" "is_Metrics s \<noteq> []"
    using assms by (cases "im_Batch msg")
      (auto simp: spec_message_def spec_batch_def message_batch_def spec_sample_def batch_sample_def
        spec_metrics_def)
  then have "length (ExpandMetricPoints msg) > 0"
    by (simp add: length_ExpandMetricPoints)
  then show ?thesis by auto
qed

end
