(* ===== verification/Amqp.thy ===== *)
theory Amqp
  imports Message
begin

section \<open>AMQP deliveries, calls and topology\<close>

text \<open>
  The messages and calls exchanged with the broker client: what a delivery carries, the calls
  the sessions make, in order, and the topology of \<open>internal/messaging/topology.go\<close>. The
  broker itself is outside the repository: how it answers a call is a function of the world.
\<close>

record delivery =
  dl_ContentType :: string
  dl_MessageId :: string
  dl_CorrelationId :: string
  dl_Headers :: amqp_table
  dl_DeliveryTag :: nat
  dl_Redelivered :: bool
  dl_Body :: string

text \<open>\<open>strings.EqualFold(contentType, "application/json")\<close> and header look-ups.\<close>

definition json_content_type :: "string \<Rightarrow> bool" where
  "json_content_type s \<longleftrightarrow> equal_fold s ''application/json''"

definition integerHeader :: "amqp_value option \<Rightarrow> int option" where
  "integerHeader value =
     (case value of
        Some (AInt8 i) \<Rightarrow> Some i
      | Some (AInt16 i) \<Rightarrow> Some i
      | Some (AInt32 i) \<Rightarrow> Some i
      | Some (AInt64 i) \<Rightarrow> Some i
      | Some (AInt i) \<Rightarrow> Some i
      | _ \<Rightarrow> None)"

definition string_header :: "amqp_value option \<Rightarrow> string option" where
  "string_header value = (case value of Some (AString s) \<Rightarrow> Some s | _ \<Rightarrow> None)"

subsection \<open>Calls\<close>

datatype amqp_call =
    ExchangeDeclare string string bool bool bool bool amqp_table
  | QueueDeclare string bool bool bool bool amqp_table
  | QueueBind string string string bool amqp_table
  | Confirm bool
  | Qos int int bool
  | Consume string string bool bool bool bool amqp_table

type_synonym 'w caller = "amqp_call \<Rightarrow> 'w \<Rightarrow> go_error option \<times> 'w"

text \<open>Calls in sequence, stopping at the first error.\<close>

fun run_calls :: "'w caller \<Rightarrow> amqp_call list \<Rightarrow> 'w \<Rightarrow> go_error option \<times> 'w" where
  "run_calls call [] w = (None, w)"
| "run_calls call (c # cs) w =
     (case call c w of (Some err, w') \<Rightarrow> (Some err, w') | (None, w') \<Rightarrow> run_calls call cs w')"

subsection \<open>Topology\<close>

record topology =
  tp_IngestExchange :: string
  tp_IngestExchangeKind :: string
  tp_IngestQueue :: string
  tp_IngestRoutingKey :: string
  tp_DeadLetterExchange :: string
  tp_DeadLetterQueue :: string
  tp_DeadLetterRoutingKey :: string
  tp_RealtimeExchange :: string
  tp_RealtimeExchangeKind :: string

definition IngestExchangeKind :: string where "IngestExchangeKind = ''direct''"

definition DefaultTopology :: topology where
  "DefaultTopology =
     \<lparr>tp_IngestExchange = ''metrics.exchange'', tp_IngestExchangeKind = IngestExchangeKind,
      tp_IngestQueue = ''metrics.ingest.v1'', tp_IngestRoutingKey = ''metrics.ingest'',
      tp_DeadLetterExchange = ''metrics.dlx'', tp_DeadLetterQueue = ''metrics.ingest.dlq'',
      tp_DeadLetterRoutingKey = ''metrics.ingest.dlq'', tp_RealtimeExchange = ''metrics.realtime'',
      tp_RealtimeExchangeKind = ''fanout''\<rparr>"

definition zero_topology :: topology where
  "zero_topology =
     \<lparr>tp_IngestExchange = [], tp_IngestExchangeKind = [], tp_IngestQueue = [],
      tp_IngestRoutingKey = [], tp_DeadLetterExchange = [], tp_DeadLetterQueue = [],
      tp_DeadLetterRoutingKey = [], tp_RealtimeExchange = [], tp_RealtimeExchangeKind = []\<rparr>"

definition or_default_topology :: "topology \<Rightarrow> topology" where
  "or_default_topology t = (if t = zero_topology then DefaultTopology else t)"

definition realtime_topology_calls :: "topology \<Rightarrow> amqp_call list" where
  "realtime_topology_calls t =
     [ExchangeDeclare (tp_RealtimeExchange t) (tp_RealtimeExchangeKind t) True False False False []]"

definition declareRealtimeTopology :: "'w caller \<Rightarrow> topology \<Rightarrow> 'w \<Rightarrow> go_error option \<times> 'w" where
  "declareRealtimeTopology call t = run_calls call (realtime_topology_calls (or_default_topology t))"

definition topology_calls :: "topology \<Rightarrow> amqp_call list" where
  "topology_calls t =
     [ExchangeDeclare (tp_DeadLetterExchange t) IngestExchangeKind True False False False [],
      QueueDeclare (tp_DeadLetterQueue t) True False False False [],
      QueueBind (tp_DeadLetterQueue t) (tp_DeadLetterRoutingKey t) (tp_DeadLetterExchange t) False [],
      ExchangeDeclare (tp_IngestExchange t) (tp_IngestExchangeKind t) True False False False [],
      QueueDeclare (tp_IngestQueue t) True False False False
        [(''x-dead-letter-exchange'', AString (tp_DeadLetterExchange t)),
         (''x-dead-letter-routing-key'', AString (tp_DeadLetterRoutingKey t))],
      QueueBind (tp_IngestQueue t) (tp_IngestRoutingKey t) (tp_IngestExchange t) False []]"

definition declareTopology :: "'w caller \<Rightarrow> topology \<Rightarrow> 'w \<Rightarrow> go_error option \<times> 'w" where
  "declareTopology call t = run_calls call (topology_calls (or_default_topology t))"

text \<open>
  A caller that only records: the sequence of calls is observable, and a failing call is the
  last one made.
\<close>

lemma run_calls_append:
  "run_calls call (xs @ ys) w =
     (case run_calls call xs w of
        (Some err, w') \<Rightarrow> (Some err, w')
      | (None, w') \<Rightarrow> run_calls call ys w')"
  by (induction xs arbitrary: w) (auto split: prod.splits option.splits)

text \<open>An invariant of the world that every call keeps is kept by the whole sequence.\<close>

lemma run_calls_inv:
  assumes "run_calls call cs w = (r, w')" "P w"
    and "\<And>c w r w'. c \<in> set cs \<Longrightarrow> call c w = (r, w') \<Longrightarrow> P w \<Longrightarrow> P w'"
  shows "P w'"
  using assms
proof (induction cs arbitrary: w)
  case (Cons c cs)
  obtain e v where c: "call c w = (e, v)" by fastforce
  have "P v" by (rule Cons.prems(3) [OF _ c Cons.prems(2)]) simp
  with Cons.IH [of v] Cons.prems c show ?case by (auto split: option.splits)
qed simp

subsection \<open>Connections\<close>

text \<open>
  \<open>dialAMQPSession\<close> of \<open>publisher.go\<close>: what the network and the client library answer at each step.
  The result is the error and whether the connection is left open.
\<close>

record dial_env =
  de_ctx_err :: "go_error option"
  de_ctx_deadline :: "int option"
  de_now :: int
  de_dialed :: "go_error option"
  de_set_deadline :: "int \<Rightarrow> go_error option"
  de_handshake :: "go_error option"   \<comment> \<open>of \<open>amqp.DialConfig\<close>, once the dialer has a connection\<close>
  de_channel :: "go_error option"

definition handshake_deadline :: "dial_env \<Rightarrow> int" where
  "handshake_deadline e =
     (let deadline = de_now e + 30 * second
      in case de_ctx_deadline e of
           Some contextDeadline \<Rightarrow> if contextDeadline < deadline then contextDeadline else deadline
         | None \<Rightarrow> deadline)"

definition dial_network :: "dial_env \<Rightarrow> go_error option" where
  "dial_network e =
     (case de_dialed e of
        Some err \<Rightarrow> Some err
      | None \<Rightarrow> de_set_deadline e (handshake_deadline e))"

definition dialAMQPSession :: "dial_env \<Rightarrow> go_error option \<times> bool" where
  "dialAMQPSession e =
     (case de_ctx_err e of
        Some err \<Rightarrow> (Some err, False)
      | None \<Rightarrow>
          (case (case dial_network e of Some err \<Rightarrow> Some err | None \<Rightarrow> de_handshake e) of
             Some err \<Rightarrow> (Some err, False)
           | None \<Rightarrow>
               (case de_channel e of
                  Some err \<Rightarrow> (Some err, False)
                | None \<Rightarrow> (None, True))))"

text \<open>A dial leaves a connection open exactly when it has no error, and never waits past the context.\<close>

lemma dialAMQPSession_open: "snd (dialAMQPSession e) \<longleftrightarrow> fst (dialAMQPSession e) = None"
  by (simp add: dialAMQPSession_def split: option.split)

lemma handshake_deadline_bounds:
  "handshake_deadline e \<le> de_now e + 30 * second"
  "de_ctx_deadline e = Some d \<Longrightarrow> handshake_deadline e \<le> d"
  by (auto simp: handshake_deadline_def Let_def split: option.split)

text \<open>Every write has its own deadline; closing a session closes the channel and the connection.\<close>

definition deadline_Write ::
  "duration \<Rightarrow> int \<Rightarrow> (int \<Rightarrow> go_error option) \<Rightarrow> (string \<Rightarrow> int \<times> go_error option) \<Rightarrow> string \<Rightarrow> int \<times> go_error option" where
  "deadline_Write timeout now set_deadline write data =
     (case set_deadline (now + timeout) of Some err \<Rightarrow> (0, Some err) | None \<Rightarrow> write data)"

definition session_Close :: "go_error option \<Rightarrow> go_error option \<Rightarrow> go_error option" where
  "session_Close channelErr connectionErr = (if channelErr \<noteq> None then channelErr else connectionErr)"

end
