(* ===== verification/Consumer.thy ===== *)
theory Consumer
  imports Amqp
begin

section \<open>The ingest consumer\<close>

text \<open>
  \<open>internal/messaging/consumer.go\<close>. A consume session is a loop over the events its
  \<open>select\<close> picks. Its state is the heap of \<open>deliveryState\<close> structs (a list; a pointer is an
  index), the buffer of points with the pointer of the delivery they came from, whether the
  flush timer is armed, the failure backoff, and the world the sink and the channel act on.
  The calls the loop makes are recorded, newest first, in a log that nothing reads.
\<close>

subsection \<open>Configuration\<close>

record consumer_config =
  cc_URL :: string
  cc_Prefetch :: int
  cc_BatchMax :: int
  cc_FlushInterval :: duration
  cc_FailureBackoff :: duration
  cc_FailureMaxBackoff :: duration
  cc_ReconnectBackoff :: duration
  cc_ReconnectMaxBackoff :: duration
  cc_ShutdownTimeout :: duration
  cc_Topology :: topology
  cc_ConsumerTag :: string

definition or_default :: "'a \<Rightarrow> 'a \<Rightarrow> 'a \<Rightarrow> 'a" where
  "or_default zero d x = (if x = zero then d else x)"

definition consumer_withDefaults :: "consumer_config \<Rightarrow> consumer_config" where
  "consumer_withDefaults c =
     \<lparr>cc_URL = cc_URL c,
      cc_Prefetch = or_default 0 500 (cc_Prefetch c),
      cc_BatchMax = or_default 0 500 (cc_BatchMax c),
      cc_FlushInterval = or_default 0 (100 * millisecond) (cc_FlushInterval c),
      cc_FailureBackoff = or_default 0 (100 * millisecond) (cc_FailureBackoff c),
      cc_FailureMaxBackoff = or_default 0 (30 * second) (cc_FailureMaxBackoff c),
      cc_ReconnectBackoff = or_default 0 (100 * millisecond) (cc_ReconnectBackoff c),
      cc_ReconnectMaxBackoff = or_default 0 (5 * second) (cc_ReconnectMaxBackoff c),
      cc_ShutdownTimeout = or_default 0 (5 * second) (cc_ShutdownTimeout c),
      cc_Topology = or_default_topology (cc_Topology c),
      cc_ConsumerTag = or_default [] ''metrics-worker'' (cc_ConsumerTag c)\<rparr>"

definition consumer_validate :: "consumer_config \<Rightarrow> go_error option" where
  "consumer_validate c =
     (if cc_URL c = [] then Some (ErrNew ''AMQP_URL must not be empty'')
      else if cc_Prefetch c \<le> 0 \<or> cc_BatchMax c \<le> 0
        then Some (ErrNew ''consumer prefetch and batch max must be greater than zero'')
      else if cc_FlushInterval c \<le> 0 \<or> cc_FailureBackoff c \<le> 0 \<or> cc_ReconnectBackoff c \<le> 0
          \<or> cc_ShutdownTimeout c \<le> 0
        then Some (ErrNew ''consumer durations must be greater than zero'')
      else if cc_FailureMaxBackoff c < cc_FailureBackoff c
        then Some (ErrNew ''consumer failure max backoff must be at least the initial backoff'')
      else if cc_ReconnectMaxBackoff c < cc_ReconnectBackoff c
        then Some (ErrNew ''consumer reconnect max backoff must be at least the initial backoff'')
      else None)"

text \<open>The sink argument only matters by being nil or not.\<close>

definition NewRabbitMQMetricConsumer ::
  "consumer_config \<Rightarrow> bool \<Rightarrow> go_error + consumer_config" where
  "NewRabbitMQMetricConsumer config sink_is_nil =
     (let config = consumer_withDefaults config
      in case consumer_validate config of
           Some err \<Rightarrow> Inl err
         | None \<Rightarrow> if sink_is_nil then Inl (ErrNew ''metric point sink is required'') else Inr config)"

subsection \<open>Validating a delivery\<close>

definition validateDelivery ::
  "(string \<Rightarrow> float64 option) \<Rightarrow> delivery \<Rightarrow> protocol_error + ingest_message" where
  "validateDelivery pf d =
     (if \<not> json_content_type (dl_ContentType d) then Inl ContentTypeInvalid
      else case DecodeIngestMessage pf (dl_Body d) of
        Inl e \<Rightarrow> Inl e
      | Inr message \<Rightarrow>
          if dl_MessageId d = [] \<or> dl_MessageId d \<noteq> im_MessageID message
          then Inl MessageIDMismatch
          else if dl_CorrelationId d = [] \<or> dl_CorrelationId d \<noteq> im_CorrelationID message
          then Inl CorrelationIDMismatch
          else if integerHeader (map_of (dl_Headers d) ''schema_version'') \<noteq> Some IngestSchemaVersion
          then Inl SchemaHeaderInvalid
          else if string_header (map_of (dl_Headers d) ''message_id'') \<noteq> Some (im_MessageID message)
          then Inl MessageIDHeaderInvalid
          else if string_header (map_of (dl_Headers d) ''correlation_id'')
              \<noteq> Some (im_CorrelationID message)
          then Inl CorrelationIDHeaderInvalid
          else Inr message)"

subsection \<open>State and environment of a consume session\<close>

record delivery_state =
  ds_delivery :: delivery
  ds_totalRows :: nat
  ds_committedRows :: nat
  ds_terminal :: bool

type_synonym buffered_point = "metric_point \<times> nat"

text \<open>The context of a flush: the session's, or the one of the shutdown with its timeout.\<close>

datatype flush_ctx = SessionCtx | ShutdownCtx

datatype effect =
    EFlush "buffered_point list" bool   \<comment> \<open>sink call and whether it succeeded\<close>
  | EWait duration bool
  | EAck nat bool                       \<comment> \<open>of a delivery state\<close>
  | ERequeue nat bool                   \<comment> \<open>nack with requeue of a delivery state\<close>
  | EReject delivery bool               \<comment> \<open>nack without requeue of an invalid delivery\<close>

text \<open>
  The environment: the sink, the wait (the configured sleep, or the timer racing the context),
  the state of a context, the acknowledgements, the jitter, and the order in which \<open>range\<close>
  visits the map of committed rows.
\<close>

record 'w consumer_env =
  ce_flush :: "flush_ctx \<Rightarrow> metric_point list \<Rightarrow> 'w \<Rightarrow> go_error option \<times> 'w"
  ce_wait :: "flush_ctx \<Rightarrow> duration \<Rightarrow> 'w \<Rightarrow> go_error option \<times> 'w"
  ce_ctx_err :: "flush_ctx \<Rightarrow> 'w \<Rightarrow> go_error option"
  ce_ack :: "delivery \<Rightarrow> 'w \<Rightarrow> go_error option \<times> 'w"
  ce_nack :: "delivery \<Rightarrow> bool \<Rightarrow> 'w \<Rightarrow> go_error option \<times> 'w"
  ce_jitter :: "duration \<Rightarrow> 'w \<Rightarrow> duration \<times> 'w"
  ce_order :: "(nat \<times> nat) list \<Rightarrow> 'w \<Rightarrow> (nat \<times> nat) list"

record 'w consumer =
  cs_states :: "delivery_state list"
  cs_buffer :: "buffered_point list"
  cs_timer :: bool
  cs_failureBackoff :: duration
  cs_log :: "effect list"
  cs_world :: 'w

definition note_effect :: "effect \<Rightarrow> 'w \<Rightarrow> 'w consumer \<Rightarrow> 'w consumer" where
  "note_effect ev w s = s\<lparr>cs_log := ev # cs_log s, cs_world := w\<rparr>"

definition set_terminal :: "nat \<Rightarrow> 'w consumer \<Rightarrow> 'w consumer" where
  "set_terminal i s = s\<lparr>cs_states := (cs_states s)[i := (cs_states s ! i)\<lparr>ds_terminal := True\<rparr>]\<rparr>"

definition add_committed :: "nat \<Rightarrow> nat \<Rightarrow> 'w consumer \<Rightarrow> 'w consumer" where
  "add_committed i rows s =
     s\<lparr>cs_states := (cs_states s)[i := (cs_states s ! i)
         \<lparr>ds_committedRows := ds_committedRows (cs_states s ! i) + rows\<rparr>]\<rparr>"

subsection \<open>Flushing\<close>

definition uniqueDeliveryStates :: "buffered_point list \<Rightarrow> nat list" where
  "uniqueDeliveryStates batch = first_occurrences [] (map snd batch)"

definition committedRowsByDelivery :: "buffered_point list \<Rightarrow> (nat \<times> nat) list" where
  "committedRowsByDelivery batch = count_rows [] (map snd batch)"

fun requeue_states :: "'w consumer_env \<Rightarrow> nat list \<Rightarrow> 'w consumer \<Rightarrow> go_error option \<times> 'w consumer" where
  "requeue_states e [] s = (None, s)"
| "requeue_states e (i # is) s =
     (let s1 = set_terminal i s
      in case ce_nack e (ds_delivery (cs_states s1 ! i)) True (cs_world s1) of
           (Some err, w) \<Rightarrow>
             (Some (ErrWrap ''requeue delivery after flush failure'' [err]),
              note_effect (ERequeue i False) w s1)
         | (None, w) \<Rightarrow> requeue_states e is (note_effect (ERequeue i True) w s1))"

fun commit_rows ::
  "'w consumer_env \<Rightarrow> (nat \<times> nat) list \<Rightarrow> 'w consumer \<Rightarrow> go_error option \<times> 'w consumer" where
  "commit_rows e [] s = (None, s)"
| "commit_rows e ((i, rows) # rest) s =
     (if ds_terminal (cs_states s ! i) then commit_rows e rest s
      else let s1 = add_committed i rows s
           in if ds_committedRows (cs_states s1 ! i) = ds_totalRows (cs_states s1 ! i)
              then (case ce_ack e (ds_delivery (cs_states s1 ! i)) (cs_world s1) of
                      (Some err, w) \<Rightarrow>
                        (Some (ErrWrap ''ack delivery'' [err]), note_effect (EAck i False) w s1)
                    | (None, w) \<Rightarrow>
                        commit_rows e rest (set_terminal i (note_effect (EAck i True) w s1)))
              else commit_rows e rest s1)"

text \<open>The method \<open>flush\<close>: whether the flush failed, and the error that ends the session.\<close>

definition consumer_flush ::
  "'w consumer_env \<Rightarrow> flush_ctx \<Rightarrow> buffered_point list \<Rightarrow> duration \<Rightarrow> 'w consumer
    \<Rightarrow> (bool \<times> go_error option) \<times> 'w consumer" where
  "consumer_flush e ctx batch failureBackoff s =
     (case ce_flush e ctx (map fst batch) (cs_world s) of
        (Some err, w) \<Rightarrow>
          (let s1 = note_effect (EFlush batch False) w s;
               (d, w1) = ce_jitter e failureBackoff (cs_world s1)
           in case ce_wait e ctx d w1 of
                (waitErr, w2) \<Rightarrow>
                  (let s2 = note_effect (EWait d (waitErr = None)) w2 s1
                   in if waitErr \<noteq> None \<and> ce_ctx_err e ctx w2 \<noteq> None
                      then ((True, waitErr), s2)
                      else (case requeue_states e (uniqueDeliveryStates batch) s2 of
                              (r, s3) \<Rightarrow> ((True, r), s3))))
      | (None, w) \<Rightarrow>
          (let s1 = note_effect (EFlush batch True) w s
           in case commit_rows e (ce_order e (committedRowsByDelivery batch) (cs_world s1)) s1 of
                (r, s2) \<Rightarrow> ((False, r), s2)))"

text \<open>The closure \<open>flush\<close> of \<open>consumeSession\<close>.\<close>

definition flush_buffer ::
  "'w consumer_env \<Rightarrow> consumer_config \<Rightarrow> flush_ctx \<Rightarrow> 'w consumer \<Rightarrow> go_error option \<times> 'w consumer" where
  "flush_buffer e cfg ctx s =
     (let s0 = s\<lparr>cs_timer := False\<rparr>
      in if cs_buffer s0 = [] then (None, s0)
         else case consumer_flush e ctx (cs_buffer s0) (cs_failureBackoff s0) (s0\<lparr>cs_buffer := []\<rparr>) of
                ((failed, err), s1) \<Rightarrow>
                  (err,
                   if failed
                   then s1\<lparr>cs_failureBackoff := next_backoff (cc_FailureMaxBackoff cfg) (cs_failureBackoff s1)\<rparr>
                   else if err = None then s1\<lparr>cs_failureBackoff := cc_FailureBackoff cfg\<rparr>
                   else s1))"

subsection \<open>The session loop\<close>

definition start_timer :: "'w consumer \<Rightarrow> 'w consumer" where
  "start_timer s = (if \<not> cs_timer s \<and> cs_buffer s \<noteq> [] then s\<lparr>cs_timer := True\<rparr> else s)"

fun buffer_points ::
  "'w consumer_env \<Rightarrow> consumer_config \<Rightarrow> nat \<Rightarrow> metric_point list \<Rightarrow> 'w consumer
    \<Rightarrow> go_error option \<times> 'w consumer" where
  "buffer_points e cfg i [] s = (None, s)"
| "buffer_points e cfg i (p # ps) s =
     (if ds_terminal (cs_states s ! i) then (None, s)
      else let s1 = start_timer (s\<lparr>cs_buffer := cs_buffer s @ [(p, i)]\<rparr>)
           in if int (length (cs_buffer s1)) = cc_BatchMax cfg
              then (case flush_buffer e cfg SessionCtx s1 of
                      (Some err, s2) \<Rightarrow> (Some err, s2)
                    | (None, s2) \<Rightarrow> buffer_points e cfg i ps s2)
              else buffer_points e cfg i ps s1)"

text \<open>What the \<open>select\<close> picks.\<close>

datatype consumer_event = EvDelivery delivery | EvStreamClosed | EvTimer | EvDone

definition ErrDeliveryStreamClosed :: go_error where
  "ErrDeliveryStreamClosed = Sentinel ''ErrDeliveryStreamClosed''"

text \<open>\<open>Inl\<close> is the session's return value (nil as \<open>None\<close>), \<open>Inr\<close> the state of the next turn.\<close>

definition consume_delivery ::
  "(string \<Rightarrow> float64 option) \<Rightarrow> 'w consumer_env \<Rightarrow> consumer_config \<Rightarrow> delivery \<Rightarrow> 'w consumer
    \<Rightarrow> go_error option \<times> 'w consumer" where
  "consume_delivery pf e cfg d s =
     (case validateDelivery pf d of
        Inl perr \<Rightarrow>
          (case ce_nack e d False (cs_world s) of
             (Some err, w) \<Rightarrow>
               (Some (ErrWrap ''dead-letter delivery'' [err]), note_effect (EReject d False) w s)
           | (None, w) \<Rightarrow> (None, note_effect (EReject d True) w s))
      | Inr message \<Rightarrow>
          (let points = ExpandMetricPoints message;
               i = length (cs_states s);
               state = \<lparr>ds_delivery = d, ds_totalRows = length points, ds_committedRows = 0,
                        ds_terminal = False\<rparr>
           in buffer_points e cfg i points (s\<lparr>cs_states := cs_states s @ [state]\<rparr>)))"

definition consume_event ::
  "(string \<Rightarrow> float64 option) \<Rightarrow> 'w consumer_env \<Rightarrow> consumer_config \<Rightarrow> consumer_event
    \<Rightarrow> 'w consumer \<Rightarrow> go_error option option \<times> 'w consumer" where
  "consume_event pf e cfg ev s =
     (case ev of
        EvStreamClosed \<Rightarrow> (Some (Some ErrDeliveryStreamClosed), s)
      | EvDelivery d \<Rightarrow>
          (case consume_delivery pf e cfg d s of
             (Some err, s1) \<Rightarrow> (Some (Some err), s1)
           | (None, s1) \<Rightarrow> (None, s1))
      | EvTimer \<Rightarrow>
          (case flush_buffer e cfg SessionCtx (s\<lparr>cs_timer := False\<rparr>) of
             (Some err, s1) \<Rightarrow> (Some (Some err), s1)
           | (None, s1) \<Rightarrow> (None, s1))
      | EvDone \<Rightarrow>
          (case flush_buffer e cfg ShutdownCtx s of
             (Some err, s1) \<Rightarrow> (Some (Some err), s1)
           | (None, s1) \<Rightarrow> (Some (ce_ctx_err e SessionCtx (cs_world s1)), s1)))"

fun consume_loop ::
  "(string \<Rightarrow> float64 option) \<Rightarrow> 'w consumer_env \<Rightarrow> consumer_config \<Rightarrow> consumer_event list
    \<Rightarrow> 'w consumer \<Rightarrow> go_error option option \<times> 'w consumer" where
  "consume_loop pf e cfg [] s = (None, s)"
| "consume_loop pf e cfg (ev # evs) s =
     (case consume_event pf e cfg ev s of
        (Some r, s1) \<Rightarrow> (Some r, s1)
      | (None, s1) \<Rightarrow> consume_loop pf e cfg evs s1)"

definition new_session :: "consumer_config \<Rightarrow> 'w \<Rightarrow> 'w consumer" where
  "new_session cfg w =
     \<lparr>cs_states = [], cs_buffer = [], cs_timer = False,
      cs_failureBackoff = cc_FailureBackoff cfg, cs_log = [], cs_world = w\<rparr>"

definition consumeSession ::
  "(string \<Rightarrow> float64 option) \<Rightarrow> 'w consumer_env \<Rightarrow> consumer_config \<Rightarrow> consumer_event list
    \<Rightarrow> 'w \<Rightarrow> go_error option option \<times> 'w consumer" where
  "consumeSession pf e cfg evs w = consume_loop pf e cfg evs (new_session cfg w)"

subsection \<open>Sessions and reconnects\<close>

definition consumer_openSession ::
  "('w \<Rightarrow> go_error option \<times> 'w) \<Rightarrow> 'w caller \<Rightarrow> ('w \<Rightarrow> 'w) \<Rightarrow> consumer_config \<Rightarrow> 'w
    \<Rightarrow> go_error option \<times> 'w" where
  "consumer_openSession dial call close cfg w =
     (case dial w of
        (Some err, w1) \<Rightarrow> (Some (ErrWrap ''open consumer session'' [err]), w1)
      | (None, w1) \<Rightarrow>
          (case declareTopology call (cc_Topology cfg) w1 of
             (Some err, w2) \<Rightarrow> (Some (ErrWrap ''declare topology'' [err]), close w2)
           | (None, w2) \<Rightarrow>
               (case call (Qos (cc_Prefetch cfg) 0 False) w2 of
                  (Some err, w3) \<Rightarrow> (Some (ErrWrap ''configure qos'' [err]), close w3)
                | (None, w3) \<Rightarrow>
                    (case call (Consume (tp_IngestQueue (cc_Topology cfg)) (cc_ConsumerTag cfg)
                                 False False False False []) w3 of
                       (Some err, w4) \<Rightarrow> (Some (ErrWrap ''start manual-ack consumer'' [err]), close w4)
                     | (None, w4) \<Rightarrow> (None, w4)))))"

text \<open>
  \<open>jitterDuration\<close>; \<open>rand.Int64N(n)\<close> is the parameter, a number from 0 to n - 1.
\<close>

definition jitterDuration :: "(int \<Rightarrow> int) \<Rightarrow> duration \<Rightarrow> duration" where
  "jitterDuration rand_Int64N d =
     (let half = go_div d 2 in if half \<le> 0 then d else half + rand_Int64N (d - half + 1))"

definition consumerErrorClass :: "go_error option \<Rightarrow> string" where
  "consumerErrorClass err =
     (case err of
        None \<Rightarrow> ''none''
      | Some e \<Rightarrow>
          if errors_is e ErrDeliveryStreamClosed then ''delivery_stream_closed''
          else if errors_is e context_Canceled then ''context_canceled''
          else if errors_is e context_DeadlineExceeded then ''context_deadline''
          else ''amqp'')"

text \<open>
  One turn of \<open>Run\<close>: \<open>opened\<close> is the result of \<open>openSession\<close>, \<open>evs\<close> the events of the
  session it opened. The result is \<open>None\<close> when \<open>Run\<close> returns nil, or the next backoff.
  A session that has not ended by the last event is still running (\<open>Some\<close> the same backoff).
\<close>

record 'w run_env =
  re_dial :: "'w \<Rightarrow> go_error option \<times> 'w"
  re_call :: "'w caller"
  re_close :: "'w \<Rightarrow> 'w"

definition reconnect ::
  "'w consumer_env \<Rightarrow> consumer_config \<Rightarrow> duration \<Rightarrow> 'w \<Rightarrow> duration option \<times> 'w" where
  "reconnect e cfg backoff w =
     (case ce_jitter e backoff w of
        (d, w1) \<Rightarrow>
          (case ce_wait e SessionCtx d w1 of
             (Some err, w2) \<Rightarrow> (None, w2)
           | (None, w2) \<Rightarrow> (Some (next_backoff (cc_ReconnectMaxBackoff cfg) backoff), w2)))"

definition run_turn ::
  "(string \<Rightarrow> float64 option) \<Rightarrow> 'w consumer_env \<Rightarrow> 'w run_env \<Rightarrow> consumer_config
    \<Rightarrow> consumer_event list \<Rightarrow> duration \<Rightarrow> 'w \<Rightarrow> duration option \<times> 'w" where
  "run_turn pf e r cfg evs backoff w =
     (if ce_ctx_err e SessionCtx w \<noteq> None then (None, w)
      else case consumer_openSession (re_dial r) (re_call r) (re_close r) cfg w of
        (Some err, w1) \<Rightarrow> reconnect e cfg backoff w1
      | (None, w1) \<Rightarrow>
          (case consumeSession pf e cfg evs w1 of
             (None, s) \<Rightarrow> (Some (cc_ReconnectBackoff cfg), cs_world s)
           | (Some err, s) \<Rightarrow>
               (let w2 = re_close r (cs_world s)
                in if ce_ctx_err e SessionCtx w2 \<noteq> None then (None, w2)
                   else reconnect e cfg (cc_ReconnectBackoff cfg) w2)))"

text \<open>The turns of \<open>Run\<close>, one list of events per turn.\<close>

fun consumer_Run ::
  "(string \<Rightarrow> float64 option) \<Rightarrow> 'w consumer_env \<Rightarrow> 'w run_env \<Rightarrow> consumer_config
    \<Rightarrow> consumer_event list list \<Rightarrow> duration \<Rightarrow> 'w \<Rightarrow> duration option \<times> 'w" where
  "consumer_Run pf e r cfg [] backoff w = (Some backoff, w)"
| "consumer_Run pf e r cfg (evs # rest) backoff w =
     (case run_turn pf e r cfg evs backoff w of
        (None, w1) \<Rightarrow> (None, w1)
      | (Some backoff1, w1) \<Rightarrow> consumer_Run pf e r cfg rest backoff1 w1)"

end
