(* ===== verification/IngestRequest.thy ===== *)
theory IngestRequest
  imports IngestHttp
begin

section \<open>What an ingest request says\<close>

text \<open>
  The request contract as a relation between a JSON document and the batch it describes, stated on
  the document, independently of the decoder of \<open>IngestHttp\<close>; the decoder is shown to accept
  exactly the documents that describe a batch. A document that names a field twice is not plain: it describes nothing, and
  the decoder merges the two. A metric value \<open>null\<close> is read as 0, although \<open>src/api.md\<close> asks for a number.
\<close>

subsection \<open>The contract\<close>

text \<open>Field names are matched as \<open>encoding/json\<close> does it, up to case.\<close>

definition members :: "string \<Rightarrow> (string \<times> json) list \<Rightarrow> json list" where
  "members n ms = map snd (filter (\<lambda>(k, v). equal_fold n k) ms)"

definition known_fields_only :: "string list \<Rightarrow> (string \<times> json) list \<Rightarrow> bool" where
  "known_fields_only names ms \<longleftrightarrow> (\<forall>(k, v) \<in> set ms. \<exists>n \<in> set names. equal_fold n k)"

definition request_fields :: "string list" where "request_fields = [''task_id'', ''batch'']"
definition sample_fields :: "string list" where "sample_fields = [''step'', ''ts'', ''metrics'']"

definition describes_number :: "(string \<Rightarrow> float64 option) \<Rightarrow> json \<Rightarrow> float64 \<Rightarrow> bool" where
  "describes_number pf j v \<longleftrightarrow> (\<exists>s. j = JNum s \<and> pf s = Some v) \<or> j = JNull \<and> v = 0"

definition describes_int :: "json \<Rightarrow> int \<Rightarrow> bool" where
  "describes_int j i \<longleftrightarrow> (\<exists>s. j = JNum s \<and> parse_int64 s = Some i)"

definition describes_metrics :: "(string \<Rightarrow> float64 option) \<Rightarrow> json \<Rightarrow> metric_map \<Rightarrow> bool" where
  "describes_metrics pf j m \<longleftrightarrow>
     (\<exists>ms. j = JObj ms \<and> distinct (map fst ms) \<and>
        list_all2 (\<lambda>(k, x) (k', v). k = k' \<and> describes_number pf x v) ms m)"

definition describes_sample :: "(string \<Rightarrow> float64 option) \<Rightarrow> json \<Rightarrow> metric_sample \<Rightarrow> bool" where
  "describes_sample pf j s \<longleftrightarrow>
     (\<exists>ms step ts metrics. j = JObj ms \<and> known_fields_only sample_fields ms \<and>
        members ''step'' ms = [step] \<and> describes_int step (ms_Step s) \<and>
        members ''ts'' ms = [ts] \<and> describes_int ts (ms_TimestampMillis s) \<and>
        members ''metrics'' ms = [metrics] \<and> describes_metrics pf metrics (ms_Metrics s))"

definition describes :: "(string \<Rightarrow> float64 option) \<Rightarrow> json \<Rightarrow> metric_batch \<Rightarrow> bool" where
  "describes pf j b \<longleftrightarrow>
     (\<exists>ms js. j = JObj ms \<and> known_fields_only request_fields ms \<and>
        members ''task_id'' ms = [JStr (mb_TaskID b)] \<and> members ''batch'' ms = [JArr js] \<and>
        list_all2 (describes_sample pf) js (mb_Samples b))"

text \<open>No field or key occurs twice; every field is known.\<close>

definition plain_sample :: "json \<Rightarrow> bool" where
  "plain_sample j \<longleftrightarrow>
     (\<forall>ms. j = JObj ms \<longrightarrow> (\<forall>n \<in> set sample_fields. length (members n ms) \<le> 1) \<and>
        (\<forall>es. JObj es \<in> set (members ''metrics'' ms) \<longrightarrow> distinct (map fst es)))"

definition plain_request :: "json \<Rightarrow> bool" where
  "plain_request j \<longleftrightarrow>
     (\<forall>ms. j = JObj ms \<longrightarrow> (\<forall>n \<in> set request_fields. length (members n ms) \<le> 1) \<and>
        (\<forall>js. JArr js \<in> set (members ''batch'' ms) \<longrightarrow> (\<forall>x \<in> set js. plain_sample x)))"

definition known_request :: "json \<Rightarrow> bool" where
  "known_request j \<longleftrightarrow>
     (\<exists>ms. j = JObj ms \<and> known_fields_only request_fields ms \<and>
        (\<forall>js es. JArr js \<in> set (members ''batch'' ms) \<longrightarrow> JObj es \<in> set js \<longrightarrow> known_fields_only sample_fields es))"

text \<open>
  The request as HTTP delivers it: media type, size, and one JSON document with nothing after it.
\<close>

definition request_document ::
  "(string \<Rightarrow> string option) \<Rightarrow> string \<Rightarrow> string \<Rightarrow> json \<Rightarrow> bool" where
  "request_document pmt header body j \<longleftrightarrow>
     pmt header = Some ''application/json'' \<and> length body \<le> 1048576 \<and> parse_single body = Some j"

definition requested_batch ::
  "(string \<Rightarrow> string option) \<Rightarrow> (string \<Rightarrow> float64 option) \<Rightarrow> string \<Rightarrow> string \<Rightarrow> metric_batch \<Rightarrow> bool" where
  "requested_batch pmt pf header body b \<longleftrightarrow>
     spec_batch b \<and> (\<exists>j. request_document pmt header body j \<and> known_request j \<and> (plain_request j \<longrightarrow> describes pf j b))"

subsection \<open>Fields and their decoders\<close>

text \<open>The members of a field are decoded one after the other into it.\<close>

fun decode_all :: "(json \<Rightarrow> 'a \<Rightarrow> 'a option) \<Rightarrow> json list \<Rightarrow> 'a \<Rightarrow> 'a option" where
  "decode_all dec [] c = Some c"
| "decode_all dec (v # vs) c = (case dec v c of None \<Rightarrow> None | Some c' \<Rightarrow> decode_all dec vs c')"

lemma members_simps [simp]:
  "members n [] = []"
  "members n ((k, v) # ms) = (if equal_fold n k then v # members n ms else members n ms)"
  by (simp_all add: members_def)

lemma known_fields_simps [simp]:
  "known_fields_only names []"
  "known_fields_only names ((k, v) # ms) \<longleftrightarrow> (\<exists>n \<in> set names. equal_fold n k) \<and> known_fields_only names ms"
  by (auto simp: known_fields_only_def)

lemma sample_names_apart:
  "\<not> equal_fold ''step'' ''ts''" "\<not> equal_fold ''step'' ''metrics''" "\<not> equal_fold ''ts'' ''metrics''"
  "\<not> equal_fold ''task_id'' ''batch''" "\<not> equal_fold ''ts'' ''step''" "\<not> equal_fold ''metrics'' ''step''"
  "\<not> equal_fold ''metrics'' ''ts''" "\<not> equal_fold ''batch'' ''task_id''"
  by code_simp+

lemma equal_fold_unique: "equal_fold n k \<Longrightarrow> equal_fold n' k \<Longrightarrow> equal_fold n n'"
  by (simp add: equal_fold_def)

lemma equal_fold_sym: "equal_fold n k \<Longrightarrow> equal_fold k n"
  by (simp add: equal_fold_def)

text \<open>With names that are different up to case, the exact match goes first makes no difference.\<close>

lemma match_field_apart:
  assumes "\<And>n n'. n \<in> set names \<Longrightarrow> n' \<in> set names \<Longrightarrow> equal_fold n n' \<Longrightarrow> n = n'"
  shows "match_field names k = Some n \<longleftrightarrow> n \<in> set names \<and> equal_fold n k"
proof (cases "k \<in> set names")
  case True
  then show ?thesis using assms [of n k] assms [of k n] by (auto simp: match_field_def)
next
  case False
  have "find (\<lambda>n. equal_fold n k) names = Some n \<longleftrightarrow> n \<in> set names \<and> equal_fold n k"
  proof
    assume "find (\<lambda>n. equal_fold n k) names = Some n"
    then show "n \<in> set names \<and> equal_fold n k" by (auto simp: find_Some_iff)
  next
    assume n: "n \<in> set names \<and> equal_fold n k"
    then obtain n' where "find (\<lambda>n. equal_fold n k) names = Some n'"
      by (metis (mono_tags, lifting) find_None_iff option.exhaust)
    moreover from this have "n' \<in> set names" "equal_fold n' k" by (auto simp: find_Some_iff)
    then have "n' = n" using n assms equal_fold_unique by blast
    ultimately show "find (\<lambda>n. equal_fold n k) names = Some n" by simp
  qed
  with False show ?thesis by (simp add: match_field_def)
qed

lemma sample_field:
  "match_field sample_fields k = Some n \<longleftrightarrow> n \<in> set sample_fields \<and> equal_fold n k"
  using sample_names_apart by (intro match_field_apart) (auto simp: sample_fields_def dest: equal_fold_sym)

lemma request_field:
  "match_field request_fields k = Some n \<longleftrightarrow> n \<in> set request_fields \<and> equal_fold n k"
  using sample_names_apart by (intro match_field_apart) (auto simp: request_fields_def dest: equal_fold_sym)

lemma decode_sample_fields:
  "decode_fields sample_fields (put_sample_field pf) ms cur = Some s \<longleftrightarrow>
     known_fields_only sample_fields ms \<and>
     decode_all decode_int_ptr (members ''step'' ms) (msr_Step cur) = Some (msr_Step s) \<and>
     decode_all decode_int_ptr (members ''ts'' ms) (msr_TS cur) = Some (msr_TS s) \<and>
     decode_all (decode_metrics pf) (members ''metrics'' ms) (msr_Metrics cur) = Some (msr_Metrics s)"
proof (induction ms arbitrary: cur)
  case Nil
  show ?case by (cases cur; cases s) auto
next
  case (Cons x ms)
  obtain k v where x: "x = (k, v)" by fastforce
  show ?case
  proof (cases "match_field sample_fields k")
    case None
    then have "\<not> (\<exists>n \<in> set sample_fields. equal_fold n k)" using sample_field by (metis option.distinct(1))
    with None show ?thesis by (simp add: x)
  next
    case (Some n)
    then have n: "n \<in> set sample_fields" "equal_fold n k" using sample_field by blast+
    have other: "equal_fold n' k \<longleftrightarrow> n' = n" if "n' \<in> set sample_fields" for n'
      using that n Some sample_field by (metis option.inject)
    then have folds: "equal_fold ''step'' k \<longleftrightarrow> n = ''step''" "equal_fold ''ts'' k \<longleftrightarrow> n = ''ts''"
      "equal_fold ''metrics'' k \<longleftrightarrow> n = ''metrics''" by (auto simp: sample_fields_def)
    from n(1) consider "n = ''step''" | "n = ''ts''" | "n = ''metrics''" by (auto simp: sample_fields_def)
    then show ?thesis
      by cases (use n Some Cons.IH folds in \<open>auto simp: x put_sample_field_def split: option.splits\<close>)
  qed
qed

lemma decode_request_fields:
  "decode_fields request_fields (put_request_field pf) ms cur = Some r \<longleftrightarrow>
     known_fields_only request_fields ms \<and>
     decode_all decode_string (members ''task_id'' ms) (fst cur) = Some (fst r) \<and>
     decode_all (decode_slice (decode_sample_request pf) zero_sample_request) (members ''batch'' ms) (snd cur) = Some (snd r)"
proof (induction ms arbitrary: cur)
  case Nil
  show ?case by (cases cur; cases r) auto
next
  case (Cons x ms)
  obtain k v where x: "x = (k, v)" by fastforce
  show ?case
  proof (cases "match_field request_fields k")
    case None
    then have "\<not> (\<exists>n \<in> set request_fields. equal_fold n k)" using request_field by (metis option.distinct(1))
    with None show ?thesis by (simp add: x)
  next
    case (Some n)
    then have n: "n \<in> set request_fields" "equal_fold n k" using request_field by blast+
    have other: "equal_fold n' k \<longleftrightarrow> n' = n" if "n' \<in> set request_fields" for n'
      using that n Some request_field by (metis option.inject)
    then have folds: "equal_fold ''task_id'' k \<longleftrightarrow> n = ''task_id''" "equal_fold ''batch'' k \<longleftrightarrow> n = ''batch''"
      by (auto simp: request_fields_def)
    from n(1) consider "n = ''task_id''" | "n = ''batch''" by (auto simp: request_fields_def)
    then show ?thesis
      by cases (use n Some Cons.IH folds in \<open>auto simp: x put_request_field_def split: option.splits\<close>)
  qed
qed

subsection \<open>The decoder accepts what describes a batch\<close>

lemma decode_float_number: "decode_float pf j 0 = Some v \<longleftrightarrow> describes_number pf j v"
  by (cases j) (auto simp: decode_float_def describes_number_def)

lemma decode_int_number: "decode_int_ptr j c = Some (Some i) \<longleftrightarrow> describes_int j i"
  by (cases j) (auto simp: decode_int_ptr_def describes_int_def split: option.splits)

lemma decode_members_distinct:
  "distinct (map fst cur @ map fst es) \<Longrightarrow> decode_members pf es cur = Some m \<longleftrightarrow>
     (\<exists>m'. m = cur @ m' \<and> list_all2 (\<lambda>(k, x) (k', v). k = k' \<and> describes_number pf x v) es m')"
proof (induction es arbitrary: cur)
  case (Cons e es)
  obtain k x where e: "e = (k, x)" by fastforce
  show ?case
  proof (cases "decode_float pf x 0")
    case None
    then have "\<not> describes_number pf x v" for v by (simp flip: decode_float_number)
    with None show ?thesis by (auto simp: e list_all2_Cons1)
  next
    case (Some v)
    have u: "AList.update k v cur = cur @ [(k, v)]" using Cons.prems by (intro update_new) (auto simp: e)
    have v: "describes_number pf x v' \<longleftrightarrow> v' = v" for v' using Some by (auto simp flip: decode_float_number)
    have "decode_members pf es (cur @ [(k, v)]) = Some m \<longleftrightarrow>
        (\<exists>m'. m = (cur @ [(k, v)]) @ m' \<and> list_all2 (\<lambda>(k, x) (k', v). k = k' \<and> describes_number pf x v) es m')"
      using Cons.prems by (intro Cons.IH) (auto simp: e)
    with Some u v show ?thesis by (auto simp: e list_all2_Cons1)
  qed
qed auto

lemma describes_metrics_map: "describes_metrics pf j m \<Longrightarrow> go_map m"
proof -
  assume "describes_metrics pf j m"
  then obtain ms where ms: "distinct (map fst ms)"
    "list_all2 (\<lambda>(k, x) (k', v). k = k' \<and> describes_number pf x v) ms m" by (auto simp: describes_metrics_def)
  from ms(2) have "map fst ms = map fst m" by (induction rule: list_all2_induct) auto
  with ms(1) show ?thesis by (simp add: go_map_def)
qed

lemma decode_metrics_described:
  assumes "\<And>es. j = JObj es \<Longrightarrow> distinct (map fst es)"
  shows "decode_metrics pf j [] = Some m \<longleftrightarrow> describes_metrics pf j m \<or> j = JNull \<and> m = []"
  using assms decode_members_distinct [of "[]" _ pf m]
  by (cases j) (auto simp: decode_metrics_def describes_metrics_def)

text \<open>A sample that is valid after decoding was described, and a described one is decoded.\<close>

lemma at_most_one: "length xs \<le> 1 \<longleftrightarrow> xs = [] \<or> (\<exists>x. xs = [x])"
  by (cases xs; cases "tl xs") auto

lemma decoded_int_field:
  assumes "length vs \<le> 1" "decode_all decode_int_ptr vs None = Some (Some i)"
  shows "\<exists>v. vs = [v] \<and> describes_int v i"
  using assms unfolding at_most_one by (auto simp: decode_int_number split: option.splits)

lemma decoded_sample_described:
  assumes "plain_sample j" "decode_sample_request pf j zero_sample_request = Some r"
    and "to_metric_sample r = Some s" "spec_sample s"
  shows "describes_sample pf j s"
proof -
  have fields: "msr_Step r = Some (ms_Step s)" "msr_TS r = Some (ms_TimestampMillis s)"
    "ms_Metrics s = copy_map (msr_Metrics r)"
    using assms(3) by (auto simp: to_metric_sample_def split: option.splits)
  have "ms_Metrics s \<noteq> []" using assms(4) by (simp add: spec_sample_def spec_metrics_def)
  then have m: "msr_Metrics r \<noteq> []" using fields(3) by (auto simp: copy_map_def)
  obtain ms where j: "j = JObj ms"
    and d: "decode_fields sample_fields (put_sample_field pf) ms zero_sample_request = Some r"
    using assms(2) fields(1)
    by (auto simp: decode_sample_request_def decode_struct_def zero_sample_request_def sample_fields_def split: json.splits)
  note D = d [unfolded decode_sample_fields]
  have few: "length (members ''step'' ms) \<le> 1" "length (members ''ts'' ms) \<le> 1" "length (members ''metrics'' ms) \<le> 1"
    using assms(1) by (auto simp: plain_sample_def j sample_fields_def)
  obtain step where step: "members ''step'' ms = [step]" "describes_int step (ms_Step s)"
    using decoded_int_field [OF few(1), of "ms_Step s"] D fields(1) by (auto simp: zero_sample_request_def)
  obtain ts where ts: "members ''ts'' ms = [ts]" "describes_int ts (ms_TimestampMillis s)"
    using decoded_int_field [OF few(2), of "ms_TimestampMillis s"] D fields(2) by (auto simp: zero_sample_request_def)
  obtain metrics where metrics: "members ''metrics'' ms = [metrics]" "decode_metrics pf metrics [] = Some (msr_Metrics r)"
    using D few(3) m unfolding at_most_one by (auto simp: zero_sample_request_def split: option.splits)
  have "distinct (map fst es)" if "metrics = JObj es" for es
    using assms(1) metrics(1) that by (auto simp: plain_sample_def j)
  then have dm: "describes_metrics pf metrics (msr_Metrics r)"
    using metrics(2) m decode_metrics_described [of metrics pf "msr_Metrics r"] by auto
  then have "ms_Metrics s = msr_Metrics r" using fields(3) describes_metrics_map by simp
  with D j step ts metrics(1) dm show ?thesis by (auto simp: describes_sample_def)
qed

lemma described_sample_decoded:
  assumes "describes_sample pf j s"
  shows "decode_sample_request pf j zero_sample_request =
      Some \<lparr>msr_Step = Some (ms_Step s), msr_TS = Some (ms_TimestampMillis s), msr_Metrics = ms_Metrics s\<rparr>"
    and "to_metric_sample \<lparr>msr_Step = Some (ms_Step s), msr_TS = Some (ms_TimestampMillis s), msr_Metrics = ms_Metrics s\<rparr> = Some s"
proof -
  let ?r = "\<lparr>msr_Step = Some (ms_Step s), msr_TS = Some (ms_TimestampMillis s), msr_Metrics = ms_Metrics s\<rparr>"
  obtain ms step ts metrics where j: "j = JObj ms" "known_fields_only sample_fields ms"
    and f: "members ''step'' ms = [step]" "describes_int step (ms_Step s)"
      "members ''ts'' ms = [ts]" "describes_int ts (ms_TimestampMillis s)"
      "members ''metrics'' ms = [metrics]" "describes_metrics pf metrics (ms_Metrics s)"
    using assms by (auto simp: describes_sample_def)
  have "decode_int_ptr step c = Some (Some (ms_Step s))" "decode_int_ptr ts c = Some (Some (ms_TimestampMillis s))" for c
    using f by (simp_all add: decode_int_number)
  moreover have "decode_metrics pf metrics [] = Some (ms_Metrics s)"
    using f(6) by (subst decode_metrics_described) (auto simp: describes_metrics_def)
  ultimately have "decode_fields sample_fields (put_sample_field pf) ms zero_sample_request = Some ?r"
    using j(2) f by (subst decode_sample_fields) (simp add: zero_sample_request_def)
  then show "decode_sample_request pf j zero_sample_request = Some ?r"
    by (simp add: decode_sample_request_def decode_struct_def j sample_fields_def)
  show "to_metric_sample ?r = Some s"
    using describes_metrics_map [OF f(6)] by (simp add: to_metric_sample_def)
qed

lemma decode_elems_fresh:
  "decode_elems dec zero vs [] = Some (xs, rest) \<longleftrightarrow> rest = [] \<and> list_all2 (\<lambda>v x. dec v zero = Some x) vs xs"
proof (induction vs arbitrary: xs rest)
  case (Cons v vs)
  then show ?case by (cases "dec v zero"; cases xs) (auto split: option.splits)
qed auto

lemma to_metric_samples_all2:
  "to_metric_samples rs = Some ss \<longleftrightarrow> list_all2 (\<lambda>r s. to_metric_sample r = Some s) rs ss"
  by (induction rs arbitrary: ss) (auto simp: list_all2_Cons1 split: option.splits)

lemma describes_plain: "describes_sample pf j s \<Longrightarrow> plain_sample j" "describes pf j b \<Longrightarrow> plain_request j"
proof -
  have p: "plain_sample j" if "describes_sample pf j s" for j s
    using that by (auto simp: describes_sample_def plain_sample_def describes_metrics_def sample_fields_def)
  then show "describes_sample pf j s \<Longrightarrow> plain_sample j" .
  assume "describes pf j b"
  then obtain ms js where "j = JObj ms" "members ''task_id'' ms = [JStr (mb_TaskID b)]" "members ''batch'' ms = [JArr js]"
    "list_all2 (describes_sample pf) js (mb_Samples b)" by (auto simp: describes_def)
  moreover from this(4) have "\<forall>x \<in> set js. plain_sample x"
    by (metis p list_all2_conv_all_nth in_set_conv_nth)
  ultimately show "plain_request j" by (auto simp: plain_request_def request_fields_def)
qed

subsection \<open>The decoder implements the contract\<close>

lemma decode_elems_each:
  "decode_elems dec zero vs arr = Some r \<Longrightarrow> v \<in> set vs \<Longrightarrow> \<exists>c x. dec v c = Some x"
proof (induction dec zero vs arr arbitrary: r rule: decode_elems.induct)
  case (2 dec zero w vs arr)
  then show ?case by (auto split: option.splits list.splits)
qed simp

lemma decode_slice_each:
  "decode_slice dec zero (JArr vs) cur = Some r \<Longrightarrow> v \<in> set vs \<Longrightarrow> \<exists>c x. dec v c = Some x"
  by (auto simp: decode_slice_def split: if_splits dest: decode_elems_each)

lemma decode_all_each: "decode_all dec vs c = Some r \<Longrightarrow> v \<in> set vs \<Longrightarrow> \<exists>c x. dec v c = Some x"
  by (induction vs arbitrary: c) (auto split: option.splits)

lemma decodeIngestMetricsRequest_Some:
  "decodeIngestMetricsRequest pf body = Some r \<longleftrightarrow> length body \<le> 1048576 \<and>
     (\<exists>j x. parse_single body = Some j \<and>
        decode_struct request_fields (put_request_field pf) j ([], [], []) = Some x \<and>
        r = \<lparr>imr_TaskID = fst x, imr_Batch = fst (snd x)\<rparr>)"
  by (auto simp: decodeIngestMetricsRequest_def maxIngestBodyBytes_def request_fields_def split: option.splits)

lemma decoded_request_described:
  assumes "decode_struct request_fields (put_request_field pf) j ([], [], []) = Some x"
    and "ToMetricBatch \<lparr>imr_TaskID = fst x, imr_Batch = fst (snd x)\<rparr> = Some b" "spec_batch b"
  shows "known_request j" "plain_request j \<Longrightarrow> describes pf j b"
proof -
  have task: "fst x = mb_TaskID b" and samples: "to_metric_samples (fst (snd x)) = Some (mb_Samples b)"
    using assms(2) by (auto simp: ToMetricBatch_def)
  have "mb_TaskID b \<noteq> []" and some: "mb_Samples b \<noteq> []" using assms(3) by (auto simp: spec_batch_def spec_task_id_def)
  with task obtain ms where j: "j = JObj ms"
    and "decode_fields request_fields (put_request_field pf) ms ([], [], []) = Some x"
    using assms(1) by (auto simp: decode_struct_def split: json.splits)
  then have D: "known_fields_only request_fields ms"
    "decode_all decode_string (members ''task_id'' ms) [] = Some (mb_TaskID b)"
    "decode_all (decode_slice (decode_sample_request pf) zero_sample_request) (members ''batch'' ms) ([], []) = Some (snd x)"
    using task by (auto simp: decode_request_fields)
  have "known_fields_only sample_fields es" if a: "JArr js \<in> set (members ''batch'' ms)" and e: "JObj es \<in> set js" for js es
  proof -
    obtain c y where "decode_sample_request pf (JObj es) c = Some y"
      using decode_all_each [OF D(3) a] decode_slice_each [OF _ e] by metis
    then show ?thesis
      by (auto simp: decode_sample_request_def decode_struct_def decode_sample_fields simp flip: sample_fields_def)
  qed
  with j D(1) show "known_request j" by (auto simp: known_request_def)
  assume plain: "plain_request j"
  then have few: "length (members ''task_id'' ms) \<le> 1" "length (members ''batch'' ms) \<le> 1"
    by (auto simp: plain_request_def j request_fields_def)
  have t: "members ''task_id'' ms = [JStr (mb_TaskID b)]"
    using D(2) few(1) \<open>mb_TaskID b \<noteq> []\<close> unfolding at_most_one
    by (auto simp: decode_string_def split: option.splits json.splits)
  obtain xs rest where sx: "snd x = (xs, rest)" by fastforce
  then have "xs \<noteq> []" using samples some by auto
  with sx obtain js where b: "members ''batch'' ms = [JArr js]"
    and "decode_elems (decode_sample_request pf) zero_sample_request js [] = Some (xs, rest)"
    using D(3) few(2) unfolding at_most_one
    by (auto simp: decode_slice_def split: option.splits json.splits if_splits)
  then have "list_all2 (\<lambda>v x. decode_sample_request pf v zero_sample_request = Some x) js (fst (snd x))"
    by (simp add: decode_elems_fresh sx)
  moreover have "list_all2 (\<lambda>r s. to_metric_sample r = Some s) (fst (snd x)) (mb_Samples b)"
    using samples by (simp add: to_metric_samples_all2)
  moreover have "\<forall>v \<in> set js. plain_sample v" using plain b by (auto simp: plain_request_def j)
  moreover have "\<forall>s \<in> set (mb_Samples b). spec_sample s" using assms(3) by (simp add: spec_batch_def)
  ultimately have "list_all2 (describes_sample pf) js (mb_Samples b)"
    by (auto simp: list_all2_conv_all_nth intro!: decoded_sample_described)
  with D(1) j t b show "describes pf j b" by (auto simp: describes_def)
qed

lemma described_request_decoded:
  assumes "describes pf j b" "spec_batch b"
  shows "\<exists>x. decode_struct request_fields (put_request_field pf) j ([], [], []) = Some x \<and>
    ToMetricBatch \<lparr>imr_TaskID = fst x, imr_Batch = fst (snd x)\<rparr> = Some b"
proof -
  let ?r = "\<lambda>s. \<lparr>msr_Step = Some (ms_Step s), msr_TS = Some (ms_TimestampMillis s), msr_Metrics = ms_Metrics s\<rparr>"
  obtain ms js where j: "j = JObj ms" "known_fields_only request_fields ms"
    and f: "members ''task_id'' ms = [JStr (mb_TaskID b)]" "members ''batch'' ms = [JArr js]"
    and s: "list_all2 (describes_sample pf) js (mb_Samples b)"
    using assms(1) by (auto simp: describes_def)
  have "js \<noteq> []" using s assms(2) by (auto simp: spec_batch_def)
  have "list_all2 (\<lambda>v x. decode_sample_request pf v zero_sample_request = Some x) js (map ?r (mb_Samples b))"
    using s by (auto simp: list_all2_conv_all_nth described_sample_decoded)
  then have "decode_slice (decode_sample_request pf) zero_sample_request (JArr js) ([], []) = Some (map ?r (mb_Samples b), [])"
    using \<open>js \<noteq> []\<close> by (simp add: decode_slice_def decode_elems_fresh)
  then have "decode_struct request_fields (put_request_field pf) j ([], [], []) = Some (mb_TaskID b, map ?r (mb_Samples b), [])"
    using j f by (simp add: decode_struct_def decode_request_fields decode_string_def)
  moreover have "to_metric_samples (map ?r (mb_Samples b)) = Some (mb_Samples b)"
    using s unfolding to_metric_samples_all2
    by (auto simp: list_all2_conv_all_nth described_sample_decoded)
  ultimately show ?thesis by (simp add: ToMetricBatch_def)
qed

lemma describes_unique: "describes pf j b \<Longrightarrow> spec_batch b \<Longrightarrow> describes pf j b' \<Longrightarrow> spec_batch b' \<Longrightarrow> b = b'"
  by (drule (1) described_request_decoded)+ auto

end
