(* ===== verification/Protocol.thy ===== *)
theory Protocol
  imports Message IngestRequest
begin

section \<open>From the HTTP body to the worker's points\<close>

text \<open>
  Properties that span the ingest handler (\<open>IngestHttp\<close>) and the message protocol
  (\<open>Message\<close>): what the handler answers and when it publishes, and that the worker decodes
  exactly the message the API published.
\<close>

subsection \<open>The float format\<close>

text \<open>
  \<open>strconv\<close>'s float formatter and parser, as documented: a finite float is written as a JSON
  number that parses back to the same float.
\<close>

definition float_codec :: "(string \<Rightarrow> float64 option) \<Rightarrow> (float64 \<Rightarrow> string) \<Rightarrow> bool" where
  "float_codec pf ff \<longleftrightarrow>
     (\<forall>x. float_finite x \<longrightarrow>
        valid_number (ff x) \<and> list_all is_num_char (ff x) \<and> pf (ff x) = Some x)"

text \<open>A concrete pair with the property: the 64 bits in decimal.\<close>

definition bits_format :: "float64 \<Rightarrow> string" where
  "bits_format x = int_digits (uint x)"

definition bits_parse :: "string \<Rightarrow> float64 option" where
  "bits_parse s = map_option (\<lambda>n. word_of_nat n) (parse_unsigned s)"

lemma hd_nat_digits: "n > 0 \<Longrightarrow> hd (nat_digits n) \<noteq> CHR ''0''"
proof (induction n rule: nat_digits.induct)
  case (1 n)
  show ?case
  proof (cases "n < 10")
    case True
    have "of_char (digit_char n) = n + (48::nat)" using True by simp
    moreover have "of_char (CHR ''0'') = (48::nat)" by simp
    ultimately have "digit_char n \<noteq> CHR ''0''" using "1.prems" by auto
    with True show ?thesis by (simp add: nat_digits.simps [of n])
  next
    case False
    then show ?thesis using 1 by (simp add: nat_digits.simps [of n])
  qed
qed

lemma num_char_digit: "is_digit c \<Longrightarrow> is_num_char c"
  by (simp add: is_num_char_def)

lemma valid_nat_digits:
  "valid_number (nat_digits n)" "valid_number (CHR ''-'' # nat_digits n)"
proof -
  obtain c cs where cs: "nat_digits n = c # cs" by (cases "nat_digits n") auto
  then have c: "is_digit c" and all: "list_all is_digit cs"
    using nat_digits_all_digits [of _ n] by (auto simp: list_all_iff)
  have "c = CHR ''0'' \<Longrightarrow> cs = []"
    using hd_nat_digits [of n] cs by (cases "n = 0") (auto simp: nat_digits.simps [of 0])
  moreover have "dropWhile is_digit cs = []"
    using all by (simp add: list_all_iff dropWhile_eq_Nil_conv)
  then have "valid_frac (dropWhile is_digit cs)" by (simp only: valid_frac_def list.case)
  moreover have "valid_frac []" by (simp add: valid_frac_def)
  ultimately show "valid_number (nat_digits n)" "valid_number (CHR ''-'' # nat_digits n)"
    using c digit_not_sign [OF c] by (auto simp: valid_number_def cs)
qed

lemma valid_int_digits: "valid_number (int_digits i)"
  by (simp add: int_digits_def valid_nat_digits)

lemma num_chars_int_digits: "list_all is_num_char (int_digits i)"
  using nat_digits_all_digits num_char_digit
  by (auto simp: int_digits_def list_all_iff is_num_char_def)

lemma float_codec_bits: "float_codec bits_parse bits_format"
proof -
  have "bits_parse (bits_format x) = Some x" for x
    by (simp add: bits_parse_def bits_format_def int_digits_def)
  then show ?thesis
    by (auto simp: float_codec_def bits_format_def valid_int_digits num_chars_int_digits)
qed

subsection \<open>A published message is decoded as itself\<close>

lemma metrics_json_spec:
  assumes "spec_metrics m"
  shows "metrics_json ff m = Some (JObj (map (\<lambda>(k, v). (k, JNum (ff v))) (sorted_entries m)))"
  using assms by (auto simp: metrics_json_def spec_metrics_def)

lemma decode_members_codec:
  assumes "float_codec pf ff" "\<forall>(k, v) \<in> set es. float_finite v"
  shows "decode_members pf (map (\<lambda>(k, v). (k, JNum (ff v))) es) cur
    = Some (fold (\<lambda>(k, v) acc. AList.update k v acc) es cur)"
  using assms(2)
proof (induction es arbitrary: cur)
  case (Cons e es)
  obtain k v where e: "e = (k, v)" by fastforce
  with Cons.prems assms(1) have "pf (ff v) = Some v" by (simp add: float_codec_def)
  with Cons show ?case by (simp add: e decode_float_def)
qed simp

lemma spec_metrics_sorted: "spec_metrics m \<Longrightarrow> spec_metrics (sorted_entries m)"
  unfolding spec_metrics_def
  by (auto simp: sorted_entries_go_map set_sorted_entries)
    (metis set_empty set_sorted_entries)

lemma spec_metrics_finite: "spec_metrics m \<Longrightarrow> \<forall>(k, v) \<in> set m. float_finite v"
  by (auto simp: spec_metrics_def)

lemma decode_wire_metrics_id:
  "spec_metrics m \<Longrightarrow> decode_wire_metrics i m [] = Inr m"
  by (auto simp: decode_wire_metrics_copy spec_metrics_def)

definition sample_wire :: "ingest_sample \<Rightarrow> ingest_sample_wire" where
  "sample_wire s = \<lparr>isw_Step = Some (is_Step s), isw_TS = Some (is_TS s), isw_Metrics = is_Metrics s\<rparr>"

lemma decode_sample_json:
  assumes "float_codec pf ff" "spec_sample (batch_sample s)" "sample_json ff s = Some j"
  shows "decode_sample_wire pf j zero_sample_wire = Some (sample_wire (canonical_sample s))"
proof -
  have m: "spec_metrics (is_Metrics s)" and i: "in_int64 (is_Step s)" "in_int64 (is_TS s)"
    using assms(2) by (auto simp: spec_sample_def batch_sample_def spec_step_int64 spec_ts_int64)
  have e: "spec_metrics (sorted_entries (is_Metrics s))" by (rule spec_metrics_sorted [OF m])
  have "decode_members pf (map (\<lambda>(k, v). (k, JNum (ff v))) (sorted_entries (is_Metrics s))) []
      = Some (copy_map (sorted_entries (is_Metrics s)))"
    using decode_members_codec [OF assms(1) spec_metrics_finite [OF e]] by (simp add: copy_map_def)
  with e have d: "decode_members pf (map (\<lambda>(k, v). (k, JNum (ff v))) (sorted_entries (is_Metrics s))) []
      = Some (sorted_entries (is_Metrics s))" by simp
  from assms(3) have j: "j = JObj [(''step'', JNum (int_digits (is_Step s))),
      (''ts'', JNum (int_digits (is_TS s))),
      (''metrics'', JObj (map (\<lambda>(k, v). (k, JNum (ff v))) (sorted_entries (is_Metrics s))))]"
    by (auto simp: sample_json_def metrics_json_spec [OF m])
  show ?thesis
    by (simp add: j decode_sample_wire_def decode_struct_def match_field_def put_sample_wire_def
        decode_int_ptr_def decode_metrics_def zero_sample_wire_def i d sample_wire_def
        canonical_sample_def)
qed

lemma decode_samples_json:
  assumes "float_codec pf ff" "\<forall>s \<in> set ss. spec_sample (batch_sample s)"
    and "those_json (map (sample_json ff) ss) = Some js"
  shows "decode_elems (decode_sample_wire pf) zero_sample_wire js []
    = Some (map (sample_wire \<circ> canonical_sample) ss, []) \<and> length js = length ss"
  using assms(2,3)
proof (induction ss arbitrary: js)
  case (Cons s ss)
  then obtain j js' where "sample_json ff s = Some j" "js = j # js'"
    "those_json (map (sample_json ff) ss) = Some js'"
    by (auto split: option.splits)
  moreover from this Cons.prems(1) have
    "decode_sample_wire pf j zero_sample_wire = Some (sample_wire (canonical_sample s))"
    by (intro decode_sample_json [OF assms(1)]) simp_all
  ultimately show ?case using Cons by simp
qed simp

lemma spec_sample_canonical:
  "spec_sample (batch_sample s) \<Longrightarrow> spec_sample (batch_sample (canonical_sample s))"
  by (simp add: spec_sample_def batch_sample_def canonical_sample_def spec_metrics_sorted)

lemma decode_wire_sample_id:
  "spec_sample (batch_sample s) \<Longrightarrow> decode_wire_sample i (sample_wire s) = Inr s"
  by (auto simp: decode_wire_sample_def sample_wire_def spec_sample_def batch_sample_def
      spec_step_def spec_ts_def msg_limit_defs decode_wire_metrics_id)
    (simp_all add: spec_metrics_def)

lemma decode_wire_samples_id:
  "\<forall>s \<in> set ss. spec_sample (batch_sample s) \<Longrightarrow>
    decode_wire_samples i (map (sample_wire \<circ> canonical_sample) ss) = Inr (map canonical_sample ss)"
  by (induction ss arbitrary: i) (simp_all add: decode_wire_sample_id spec_sample_canonical)

lemma depth_JObj_le: "\<forall>(k, v) \<in> set ms. depth v \<le> n \<Longrightarrow> depth (JObj ms) \<le> Suc n"
  by (auto simp: image_iff split: prod.splits)

lemma depth_JArr_le: "\<forall>v \<in> set js. depth v \<le> n \<Longrightarrow> depth (JArr js) \<le> Suc n"
  by auto

lemma printable_sample_json:
  assumes "float_codec pf ff" "spec_sample (batch_sample s)" "sample_json ff s = Some j"
  shows "printable j \<and> depth j \<le> 2"
proof -
  have m: "spec_metrics (is_Metrics s)"
    using assms(2) by (simp add: spec_sample_def batch_sample_def)
  let ?ms = "map (\<lambda>(k, v). (k, JNum (ff v))) (sorted_entries (is_Metrics s))"
  have j: "j = JObj [(''step'', JNum (int_digits (is_Step s))),
      (''ts'', JNum (int_digits (is_TS s))), (''metrics'', JObj ?ms)]"
    using assms(3) by (auto simp: sample_json_def metrics_json_spec [OF m])
  have "printable (JNum (ff v)) \<and> ascii k" if "(k, v) \<in> set (sorted_entries (is_Metrics s))" for k v
    using spec_metrics_sorted [OF m] assms(1) that
    by (auto simp: spec_metrics_def float_codec_def spec_key_ascii)
  then have p: "printable (JObj ?ms)"
    by (auto simp: list_all_iff)
  have "depth (JObj ?ms) \<le> Suc 0"
    by (rule depth_JObj_le) auto
  then have "depth j \<le> Suc 1"
    unfolding j by (intro depth_JObj_le) auto
  moreover have "ascii ''step''" "ascii ''ts''" "ascii ''metrics''"
    by (simp_all add: ascii_def byte_def)
  ultimately show ?thesis
    using p by (simp add: j valid_int_digits num_chars_int_digits)
qed

lemma printable_samples_json:
  assumes "float_codec pf ff" "\<forall>s \<in> set ss. spec_sample (batch_sample s)"
    and "those_json (map (sample_json ff) ss) = Some js"
  shows "\<forall>j \<in> set js. printable j \<and> depth j \<le> 2"
  using assms(2,3)
proof (induction ss arbitrary: js)
  case (Cons s ss)
  then obtain j js' where *: "sample_json ff s = Some j" "js = j # js'"
    "those_json (map (sample_json ff) ss) = Some js'"
    by (auto split: option.splits)
  with Cons.prems have "printable j \<and> depth j \<le> 2"
    by (intro printable_sample_json [OF assms(1)]) simp_all
  with Cons * show ?case by simp
qed simp

lemma samples_json_Some:
  "\<forall>s \<in> set ss. spec_sample (batch_sample s) \<Longrightarrow>
    \<exists>js. those_json (map (sample_json ff) ss) = Some js"
proof (induction ss)
  case (Cons s ss)
  then have "spec_metrics (is_Metrics s)" by (simp add: spec_sample_def batch_sample_def)
  then have "sample_json ff s \<noteq> None" by (simp add: sample_json_def metrics_json_spec)
  with Cons show ?case by auto
qed simp

lemma spec_message_samples:
  "spec_message msg \<Longrightarrow> s \<in> set (im_Batch msg) \<Longrightarrow> spec_sample (batch_sample s)"
  by (auto simp: spec_message_def spec_batch_def message_batch_def)

lemma validate_wire_canonical:
  assumes "spec_message msg"
  shows "validate_wire \<lparr>imw_SchemaVersion = Some (im_SchemaVersion msg),
      imw_MessageID = im_MessageID msg, imw_CorrelationID = im_CorrelationID msg,
      imw_TaskID = im_TaskID msg,
      imw_Batch = (map (sample_wire \<circ> canonical_sample) (im_Batch msg), [])\<rparr>
    = Inr (canonical_message msg)"
proof -
  have "decode_wire_samples 0 (map (sample_wire \<circ> canonical_sample) (im_Batch msg))
      = Inr (map canonical_sample (im_Batch msg))"
    using spec_message_samples [OF assms] by (intro decode_wire_samples_id) simp
  moreover have "im_TaskID msg \<noteq> [] \<and> length (im_TaskID msg) \<le> maxTaskIDLength
      \<and> taskIDPattern (im_TaskID msg)"
    using assms by (simp only: taskIDPattern_iff spec_message_def spec_batch_def message_batch_def
        metric_batch.simps)
  ultimately show ?thesis
    using assms by (auto simp: validate_wire_def spec_message_def spec_batch_def message_batch_def
        IngestSchemaVersion_def maxIngestBatchSize_def canonical_message_def)
qed

lemma message_json_decode:
  assumes "float_codec pf ff" "spec_message msg" "message_json ff msg = Some j"
  shows "decode_struct
      [''schema_version'', ''message_id'', ''correlation_id'', ''task_id'', ''batch'']
      (put_message_wire pf) j zero_message_wire
    = Some \<lparr>imw_SchemaVersion = Some (im_SchemaVersion msg), imw_MessageID = im_MessageID msg,
        imw_CorrelationID = im_CorrelationID msg, imw_TaskID = im_TaskID msg,
        imw_Batch = (map (sample_wire \<circ> canonical_sample) (im_Batch msg), [])\<rparr>"
proof -
  from assms(3) obtain js where js: "those_json (map (sample_json ff) (im_Batch msg)) = Some js"
    and j: "j = JObj [(''schema_version'', JNum (int_digits (im_SchemaVersion msg))),
      (''message_id'', JStr (im_MessageID msg)), (''correlation_id'', JStr (im_CorrelationID msg)),
      (''task_id'', JStr (im_TaskID msg)), (''batch'', JArr js)]"
    by (auto simp: message_json_def)
  have d: "decode_elems (decode_sample_wire pf) zero_sample_wire js []
      = Some (map (sample_wire \<circ> canonical_sample) (im_Batch msg), [])" and len: "length js = length (im_Batch msg)"
    using decode_samples_json [OF assms(1) _ js] spec_message_samples [OF assms(2)] by auto
  have "js \<noteq> []" and "in_int64 (im_SchemaVersion msg)"
    using len assms(2) by (auto simp: spec_message_def spec_batch_def message_batch_def in_int64_def)
  then show ?thesis
    by (simp add: j decode_struct_def match_field_def put_message_wire_def decode_int_ptr_def
        decode_string_def decode_slice_def zero_message_wire_def d)
qed

lemma printable_message_json:
  assumes "float_codec pf ff" "spec_message msg" "message_json ff msg = Some j"
    and "ascii (im_MessageID msg)" "ascii (im_CorrelationID msg)"
  shows "printable j \<and> depth j \<le> 10000"
proof -
  from assms(3) obtain js where js: "those_json (map (sample_json ff) (im_Batch msg)) = Some js"
    and j: "j = JObj [(''schema_version'', JNum (int_digits (im_SchemaVersion msg))),
      (''message_id'', JStr (im_MessageID msg)), (''correlation_id'', JStr (im_CorrelationID msg)),
      (''task_id'', JStr (im_TaskID msg)), (''batch'', JArr js)]"
    by (auto simp: message_json_def)
  have p: "\<forall>j \<in> set js. printable j \<and> depth j \<le> 2"
    using printable_samples_json [OF assms(1) _ js] spec_message_samples [OF assms(2)] by auto
  then have "depth (JArr js) \<le> Suc 2"
    by (intro depth_JArr_le) simp
  then have d: "depth j \<le> Suc 3"
    unfolding j by (intro depth_JObj_le) (auto simp del: depth.simps(1))
  have "ascii (im_TaskID msg)"
    using assms(2) by (auto simp: spec_message_def spec_batch_def message_batch_def
        spec_task_id_ascii)
  moreover have "ascii ''schema_version''" "ascii ''message_id''" "ascii ''correlation_id''"
    "ascii ''task_id''" "ascii ''batch''"
    by (simp_all add: ascii_def byte_def)
  ultimately have "printable j"
    using p assms(4,5) by (simp add: j list_all_iff valid_int_digits
        num_chars_int_digits [unfolded list_all_iff])
  with d show ?thesis by simp
qed

lemma Marshal_decode:
  assumes "float_codec pf ff" "spec_message msg"
    and "ascii (im_MessageID msg)" "ascii (im_CorrelationID msg)"
  shows "\<exists>pub. MarshalIngestPublishing ff msg now = Inr pub
    \<and> DecodeIngestMessage pf (ap_Body pub) = Inr (canonical_message msg)"
proof -
  obtain js where "those_json (map (sample_json ff) (im_Batch msg)) = Some js"
    using samples_json_Some spec_message_samples [OF assms(2)] by blast
  then obtain j where j: "message_json ff msg = Some j" by (simp add: message_json_def)
  have "parse_single (json_print j) = Some j"
    using printable_message_json [OF assms(1,2) j assms(3,4)] parse_single_print by blast
  then show ?thesis
    by (simp add: MarshalIngestPublishing_def j DecodeIngestMessage_def
        message_json_decode [OF assms(1,2) j] validate_wire_canonical [OF assms(2)])
qed

text \<open>The points of a batch, sample by sample in key order.\<close>

definition batch_points :: "metric_batch \<Rightarrow> metric_point list" where
  "batch_points b =
     concat (map (\<lambda>s. map (\<lambda>(k, v). \<lparr>mp_TaskID = mb_TaskID b, mp_Key = k, mp_Step = ms_Step s,
                     mp_TimestampMillis = ms_TimestampMillis s, mp_Value = v\<rparr>)
                   (sorted_entries (ms_Metrics s))) (mb_Samples b))"

lemma spec_batch_message:
  assumes "spec_batch b" "NewIngestMessage b (Inr messageID) = Inr msg" "messageID \<noteq> []"
  shows "spec_message msg" "message_batch msg = b" "im_MessageID msg = messageID"
    "im_CorrelationID msg = messageID" "ExpandMetricPoints msg = batch_points b"
proof -
  have "batch_sample (message_sample s) = s" if "s \<in> set (mb_Samples b)" for s
  proof -
    have "spec_metrics (ms_Metrics s)"
      using assms(1) that by (auto simp: spec_batch_def spec_sample_def)
    then show ?thesis by (simp add: batch_sample_def message_sample_def)
  qed
  then show b: "message_batch msg = b"
    using assms(2) by (auto simp: NewIngestMessage_def message_batch_def comp_def
        intro!: metric_batch.equality map_idI)
  show "spec_message msg"
    using assms b by (auto simp: spec_message_def NewIngestMessage_def IngestSchemaVersion_def)
  show "im_MessageID msg = messageID" "im_CorrelationID msg = messageID"
    using assms(2) by (auto simp: NewIngestMessage_def)
  have "ExpandMetricPoints msg = batch_points (message_batch msg)"
    by (simp add: ExpandMetricPoints_def expand_sample_def [abs_def] batch_points_def message_batch_def
        batch_sample_def sorted_entries_def comp_def)
  then show "ExpandMetricPoints msg = batch_points b" by (simp only: b)
qed

text \<open>
  C18. For every batch of the contract and every non-empty ASCII message identifier, the API
  builds and marshals a message, and the worker decodes its body to a message with the same
  task, identifiers and schema version whose expansion is the batch's points.
\<close>

theorem published_batch_decodes:
  assumes "float_codec pf ff" "spec_batch b" "messageID \<noteq> []" "ascii messageID"
  shows "\<exists>msg pub got. NewIngestMessage b (Inr messageID) = Inr msg \<and>
    MarshalIngestPublishing ff msg now = Inr pub \<and> ap_MessageId pub = messageID \<and>
    DecodeIngestMessage pf (ap_Body pub) = Inr got \<and>
    im_TaskID got = mb_TaskID b \<and> im_MessageID got = messageID \<and>
    im_CorrelationID got = messageID \<and> im_SchemaVersion got = 1 \<and>
    ExpandMetricPoints got = batch_points b"
proof -
  obtain msg where msg: "NewIngestMessage b (Inr messageID) = Inr msg"
    by (simp add: NewIngestMessage_def)
  note spec = spec_batch_message [OF assms(2) msg assms(3)]
  obtain pub where pub: "MarshalIngestPublishing ff msg now = Inr pub"
    and dec: "DecodeIngestMessage pf (ap_Body pub) = Inr (canonical_message msg)"
    using Marshal_decode [OF assms(1) spec(1)] spec(3,4) assms(4) by auto
  have "ap_MessageId pub = messageID"
    using pub spec(3) by (auto simp: MarshalIngestPublishing_def split: option.splits)
  moreover have "im_TaskID msg = mb_TaskID b"
    using spec(2) by (auto simp: message_batch_def)
  moreover have "im_SchemaVersion msg = 1"
    using spec(1) by (simp add: spec_message_def)
  ultimately show ?thesis
    using msg pub dec spec Expand_canonical [OF spec(1)]
    by (simp add: canonical_message_def)
qed

definition example_batch :: metric_batch where
  "example_batch = \<lparr>mb_TaskID = ''t'', mb_Samples =
     [\<lparr>ms_Step = 1, ms_TimestampMillis = 1, ms_Metrics = [(''b'', 7), (''a'', 0)]\<rparr>]\<rparr>"

lemma example_batch_spec: "spec_batch example_batch"
  by (simp add: example_batch_def spec_batch_def spec_sample_def spec_metrics_def spec_defs go_map_def
      char_class_defs less_eq_char_def float_finite_def float_exponent_def)

lemma published_batch_decodes_witness:
  "\<exists>msg pub got. NewIngestMessage example_batch (Inr ''id'') = Inr msg \<and>
    MarshalIngestPublishing bits_format msg 0 = Inr pub \<and>
    DecodeIngestMessage bits_parse (ap_Body pub) = Inr got \<and>
    ExpandMetricPoints got = batch_points example_batch \<and> length (batch_points example_batch) = 2"
proof -
  have "ascii ''id''" by (simp add: ascii_def byte_def)
  moreover have "length (batch_points example_batch) = 2"
    by (simp add: batch_points_def example_batch_def sorted_entries_def less_char_def)
  ultimately show ?thesis
    using published_batch_decodes [OF float_codec_bits example_batch_spec, of "''id''" 0] by auto
qed

subsection \<open>The ingest handler\<close>

text \<open>
  The batch the decoder reads from a request; it relates to \<open>requested_batch\<close>, the contract of theory
  \<open>IngestRequest\<close>, by the two lemmas that follow.
\<close>

definition decoded_batch ::
  "(string \<Rightarrow> string option) \<Rightarrow> (string \<Rightarrow> float64 option) \<Rightarrow> string \<Rightarrow> string \<Rightarrow> metric_batch \<Rightarrow> bool" where
  "decoded_batch pmt pf header body b \<longleftrightarrow>
     pmt header = Some ''application/json'' \<and> spec_batch b \<and>
     (\<exists>r. decodeIngestMetricsRequest pf body = Some r \<and> ToMetricBatch r = Some b)"

lemma decoded_batch_requested:
  assumes "decoded_batch pmt pf header body b"
  shows "requested_batch pmt pf header body b"
proof -
  obtain j x where j: "request_document pmt header body j"
    and x: "decode_struct request_fields (put_request_field pf) j ([], [], []) = Some x"
    "ToMetricBatch \<lparr>imr_TaskID = fst x, imr_Batch = fst (snd x)\<rparr> = Some b" "spec_batch b"
    using assms by (auto simp: decoded_batch_def decodeIngestMetricsRequest_Some request_document_def)
  show ?thesis using decoded_request_described [OF x] j x(3) by (auto simp: requested_batch_def)
qed

lemma described_batch_decoded:
  assumes "request_document pmt header body j" "describes pf j b" "spec_batch b"
  shows "decoded_batch pmt pf header body b"
  using described_request_decoded [OF assms(2,3)] assms(1,3)
  by (auto simp: decoded_batch_def decodeIngestMetricsRequest_Some request_document_def)

lemma IngestMetrics_accepts:
  assumes "decoded_batch pmt pf header body b"
  shows "IngestMetrics pmt pf (Some p) header body w =
    (case p b w of
       (None, w') \<Rightarrow>
         (ReplyJSON StatusOK \<lparr>io_accepted = length (mb_Samples b), io_task_id = mb_TaskID b\<rparr>, w')
     | (Some e, w') \<Rightarrow>
         (WriteError StatusServiceUnavailable ErrorCodeMQUnavailable ''message queue unavailable'', w'))"
proof -
  from assms obtain r where r: "decodeIngestMetricsRequest pf body = Some r"
    and b: "ToMetricBatch r = Some b" and s: "spec_batch b" and h: "hasJSONContentType pmt header"
    by (auto simp: decoded_batch_def hasJSONContentType_def jsonContentType_def)
  have "IngestMetricsRequest_Validate r = None"
    using Validate_iff_spec_batch [OF decodeIngestMetricsRequest_maps [OF r]] b s by blast
  moreover have "length (imr_Batch r) = length (mb_Samples b)" "imr_TaskID r = mb_TaskID b"
    using b by (auto simp: ToMetricBatch_def dest: to_metric_samples_length)
  ultimately show ?thesis
    using r b h by (simp add: IngestMetrics_def IngestMetricBatch_def split: prod.splits option.splits)
qed

lemma IngestMetrics_rejects:
  assumes "\<nexists>b. decoded_batch pmt pf header body b"
  shows "\<exists>m. IngestMetrics pmt pf svc header body w =
    (WriteError StatusBadRequest ErrorCodeInvalidParams m, w)"
proof (cases "hasJSONContentType pmt header")
  case h: True
  show ?thesis
  proof (cases "decodeIngestMetricsRequest pf body")
    case (Some r)
    have "IngestMetricsRequest_Validate r \<noteq> None"
    proof
      assume "IngestMetricsRequest_Validate r = None"
      then obtain b where "ToMetricBatch r = Some b" "spec_batch b"
        using Validate_iff_spec_batch [OF decodeIngestMetricsRequest_maps [OF Some]] by blast
      then have "decoded_batch pmt pf header body b"
        using h Some
        by (auto simp: decoded_batch_def hasJSONContentType_def jsonContentType_def
            split: option.splits)
      with assms show False by blast
    qed
    with h Some show ?thesis by (auto simp: IngestMetrics_def)
  qed (use h in \<open>auto simp: IngestMetrics_def\<close>)
qed (auto simp add: IngestMetrics_def)

text \<open>
  C17. The ingest handler answers by exactly three outcomes, measured against a contract that is
  stated on the JSON document and not through the decoder (theory \<open>IngestRequest\<close>): media type
  \<open>application/json\<close>, at most 1 MiB, one document and nothing after it, the known fields only, integer
  \<open>step\<close> and \<open>ts\<close>, and the ranges, names and finite values of \<open>src/api.md\<close>; one clause
  departs from \<open>src/api.md\<close>: a metric value \<open>null\<close> counts as 0. A batch that reaches the publisher is
  a batch of the contract: it is the one the document describes, when no field or key occurs
  twice in it (with repeated fields, which \<open>encoding/json\<close> merges, only the known fields and the
  limits of the batch are guaranteed). It is handed over once, and answered 200 with the number of its samples when
  the publisher succeeds and 503 when it fails. The third outcome is 400: the world is left as it was, the publisher
  never sees the request, and the document describes no batch of the contract; so every
  document that describes one is handed over, and nothing is refused that the contract allows. In particular converting a validated
  request never hits a nil pointer, so 500 is impossible.
\<close>

theorem IngestMetrics_contract:
  "case IngestMetrics pmt pf (Some p) header body w of (r, w') \<Rightarrow>
     (reply_status r = 200 \<and> (\<exists>b. requested_batch pmt pf header body b \<and> p b w = (None, w') \<and>
        r = ReplyJSON 200 \<lparr>io_accepted = length (mb_Samples b), io_task_id = mb_TaskID b\<rparr>))
   \<or> (reply_status r = 503 \<and> (\<exists>b e. requested_batch pmt pf header body b \<and> p b w = (Some e, w')))
   \<or> (reply_status r = 400 \<and> w' = w \<and>
        (\<nexists>j b. request_document pmt header body j \<and> describes pf j b \<and> spec_batch b))"
proof (cases "\<exists>b. decoded_batch pmt pf header body b")
  case True
  then obtain b where b: "decoded_batch pmt pf header body b" by blast
  show ?thesis
  proof (cases "p b w")
    case (Pair e w')
    then show ?thesis
      using decoded_batch_requested [OF b] by (cases e) (auto simp: IngestMetrics_accepts [OF b] status_defs)
  qed
next
  case False
  then have "\<nexists>j b. request_document pmt header body j \<and> describes pf j b \<and> spec_batch b"
    using described_batch_decoded by blast
  with IngestMetrics_rejects [OF False, of "Some p" w] show ?thesis
    by (auto simp: status_defs)
qed

text \<open>The request whose only metric value is \<open>null\<close>.\<close>

definition null_metric_request :: json where
  "null_metric_request =
     JObj [(''task_id'', JStr ''t''),
           (''batch'', JArr [JObj [(''step'', JNum ''1''), (''ts'', JNum ''1''),
                                   (''metrics'', JObj [(''a'', JNull)])]])]"

definition null_metric_batch :: metric_batch where
  "null_metric_batch = \<lparr>mb_TaskID = ''t'', mb_Samples =
     [\<lparr>ms_Step = 1, ms_TimestampMillis = 1, ms_Metrics = [(''a'', 0)]\<rparr>]\<rparr>"

text \<open>
  A metric value \<open>null\<close> is not rejected: the decoder stores the zero value for it, the
  request passes validation, and the batch that is published holds 0 for the key, although
  \<open>src/api.md\<close> asks for a finite JSON number.
\<close>

lemma null_metric_described:
  "request_document (\<lambda>_. Some ''application/json'') header (json_print null_metric_request) null_metric_request"
  "describes pf null_metric_request null_metric_batch" "spec_batch null_metric_batch"
proof -
  have d: "parse_int64 ''1'' = Some 1"
    by (simp add: parse_int64_def parse_unsigned_def Let_def is_digit_def less_eq_char_def digit_val_def in_int64_def)
  have "printable null_metric_request"
    by (simp add: null_metric_request_def ascii_def byte_def valid_number_def valid_frac_def
        is_num_char_def is_digit_def less_eq_char_def)
  moreover have "depth null_metric_request \<le> 10000"
    by (simp add: null_metric_request_def)
  ultimately have "parse_single (json_print null_metric_request) = Some null_metric_request"
    by (rule parse_single_print)
  moreover have "length (json_print null_metric_request) \<le> 1048576"
    by (simp add: null_metric_request_def print_string_def escape_byte_def byte_def)
  ultimately show "request_document (\<lambda>_. Some ''application/json'') header (json_print null_metric_request) null_metric_request"
    by (simp add: request_document_def)
  show "spec_batch null_metric_batch"
    by (simp add: null_metric_batch_def spec_batch_def spec_sample_def spec_metrics_def spec_defs
        go_map_def char_class_defs less_eq_char_def float_finite_def float_exponent_def)
  show "describes pf null_metric_request null_metric_batch"
    by (simp add: null_metric_request_def null_metric_batch_def describes_def describes_sample_def
        describes_metrics_def describes_number_def describes_int_def request_fields_def sample_fields_def
        sample_names_apart d)
qed

lemma null_metric_accepted:
  "decoded_batch (\<lambda>_. Some ''application/json'') pf header (json_print null_metric_request) null_metric_batch"
  by (rule described_batch_decoded [OF null_metric_described])

lemma requested_null_unique:
  assumes "requested_batch (\<lambda>_. Some ''application/json'') pf header (json_print null_metric_request) b"
  shows "b = null_metric_batch"
proof -
  obtain j where "parse_single (json_print null_metric_request) = Some j" "plain_request j \<longrightarrow> describes pf j b" "spec_batch b"
    using assms by (auto simp: requested_batch_def request_document_def)
  moreover have "parse_single (json_print null_metric_request) = Some null_metric_request"
    using null_metric_described(1) by (simp add: request_document_def)
  moreover have "plain_request null_metric_request" using null_metric_described(2) by (rule describes_plain(2))
  ultimately show ?thesis using describes_unique null_metric_described(2,3) by auto
qed

end
