(* ===== verification/ConsumerSafety.thy ===== *)
theory ConsumerSafety
  imports Consumer Protocol
begin

section \<open>What a consume session guarantees\<close>

text \<open>
  The invariant of the session loop of theory \<open>Consumer\<close> and its preservation, one lemma per
  operation: an acknowledgement is only sent after every point of the delivery was in a
  successful flush, each delivery is settled at most once, and every delivery that is not
  settled yet still has points in the buffer with the flush timer armed.
\<close>

subsection \<open>Reading the log\<close>

definition points_of :: "nat \<Rightarrow> buffered_point list \<Rightarrow> metric_point list" where
  "points_of i b = map fst (filter (\<lambda>x. snd x = i) b)"

lemma points_of_simps [simp]:
  "points_of i [] = []"
  "points_of i (x # b) = (if snd x = i then fst x # points_of i b else points_of i b)"
  "points_of i (b @ c) = points_of i b @ points_of i c"
  by (simp_all add: points_of_def)

lemma length_points_of: "length (points_of i b) = count_list (map snd b) i"
  by (induction b) auto

text \<open>The points of delivery \<open>i\<close> in the successful flushes of a log, oldest first.\<close>

fun flushed :: "nat \<Rightarrow> effect list \<Rightarrow> metric_point list" where
  "flushed i [] = []"
| "flushed i (EFlush b ok # l) = flushed i l @ (if ok then points_of i b else [])"
| "flushed i (_ # l) = flushed i l"

text \<open>How often delivery \<open>i\<close> was settled (acknowledged or given back).\<close>

fun settles :: "nat \<Rightarrow> effect list \<Rightarrow> nat" where
  "settles i [] = 0"
| "settles i (EAck j ok # l) = (if j = i then Suc (settles i l) else settles i l)"
| "settles i (ERequeue j ok # l) = (if j = i then Suc (settles i l) else settles i l)"
| "settles i (_ # l) = settles i l"

text \<open>What holds of an entry, given the older ones and the deliveries accepted so far.\<close>

fun entry_ok ::
  "(string \<Rightarrow> float64 option) \<Rightarrow> int \<Rightarrow> delivery list \<Rightarrow> effect \<Rightarrow> effect list \<Rightarrow> bool" where
  "entry_ok pf m ds (EFlush b ok) l \<longleftrightarrow>
     b \<noteq> [] \<and> int (length b) \<le> m \<and> (\<forall>(p, i) \<in> set b. i < length ds \<and> settles i l = 0 \<and>
        (\<exists>msg. validateDelivery pf (ds ! i) = Inr msg \<and> p \<in> set (ExpandMetricPoints msg)))"
| "entry_ok pf m ds (EAck i ok) l \<longleftrightarrow>
     i < length ds \<and> settles i l = 0 \<and>
     (\<exists>msg. validateDelivery pf (ds ! i) = Inr msg \<and> flushed i l = ExpandMetricPoints msg)"
| "entry_ok pf m ds (ERequeue i ok) l \<longleftrightarrow>
     i < length ds \<and> settles i l = 0 \<and> (\<exists>msg. validateDelivery pf (ds ! i) = Inr msg)"
| "entry_ok pf m ds (EReject d ok) l \<longleftrightarrow> (\<exists>perr. validateDelivery pf d = Inl perr)"
| "entry_ok pf m ds (EWait d ok) l \<longleftrightarrow> True"

fun log_safe ::
  "(string \<Rightarrow> float64 option) \<Rightarrow> int \<Rightarrow> delivery list \<Rightarrow> effect list \<Rightarrow> bool" where
  "log_safe pf m ds [] \<longleftrightarrow> True"
| "log_safe pf m ds (ev # l) \<longleftrightarrow> entry_ok pf m ds ev l \<and> log_safe pf m ds l"

lemma entry_ok_more: "entry_ok pf m ds ev l \<Longrightarrow> entry_ok pf m (ds @ xs) ev l"
  by (cases ev) (auto simp: nth_append)

lemma log_safe_more: "log_safe pf m ds l \<Longrightarrow> log_safe pf m (ds @ xs) l"
  by (induction l) (simp_all add: entry_ok_more)

lemma log_safe_append: "log_safe pf m ds (l1 @ l2) \<Longrightarrow> log_safe pf m ds l2"
  by (induction l1) auto

lemma log_safe_entry: "log_safe pf m ds (l1 @ ev # l2) \<Longrightarrow> entry_ok pf m ds ev l2"
  by (drule log_safe_append) simp

lemma settles_le_1: "log_safe pf m ds l \<Longrightarrow> settles i l \<le> 1"
proof (induction l)
  case (Cons ev l)
  then show ?case by (cases ev) auto
qed simp

subsection \<open>State updates\<close>

definition deliveries :: "'w consumer \<Rightarrow> delivery list" where
  "deliveries s = map ds_delivery (cs_states s)"

lemma length_deliveries [simp]: "length (deliveries s) = length (cs_states s)"
  by (simp add: deliveries_def)

lemma map_delivery_update:
  "ds_delivery x = ds_delivery (xs ! i) \<Longrightarrow> map ds_delivery (xs[i := x]) = map ds_delivery xs"
proof (cases "i < length xs")
  case True
  then show "ds_delivery x = ds_delivery (xs ! i) \<Longrightarrow> ?thesis"
    by (simp add: map_update list_update_same_conv)
qed (simp add: list_update_beyond)

text \<open>What settling operations leave alone.\<close>

definition same_frame :: "'w consumer \<Rightarrow> 'w consumer \<Rightarrow> bool" where
  "same_frame s t \<longleftrightarrow>
     deliveries t = deliveries s \<and> cs_buffer t = cs_buffer s \<and> cs_timer t = cs_timer s \<and>
     cs_failureBackoff t = cs_failureBackoff s \<and> (\<forall>i. flushed i (cs_log t) = flushed i (cs_log s))"

lemma same_frame_refl [simp]: "same_frame s s"
  by (simp add: same_frame_def)

lemma same_frame_trans [trans]: "same_frame s t \<Longrightarrow> same_frame t u \<Longrightarrow> same_frame s u"
  by (simp add: same_frame_def)

lemma set_terminal_frame [simp]: "same_frame s (set_terminal i s)"
  by (simp add: same_frame_def set_terminal_def deliveries_def map_delivery_update)

lemma add_committed_frame [simp]: "same_frame s (add_committed i k s)"
  by (simp add: same_frame_def add_committed_def deliveries_def map_delivery_update)

lemma settle_frame [simp]:
  "same_frame s (note_effect (EAck i ok) w s)" "same_frame s (note_effect (ERequeue i ok) w s)"
  by (simp_all add: same_frame_def note_effect_def deliveries_def)

lemma note_effect_simps [simp]:
  "cs_states (note_effect ev w s) = cs_states s" "cs_log (note_effect ev w s) = ev # cs_log s"
  "cs_buffer (note_effect ev w s) = cs_buffer s" "cs_world (note_effect ev w s) = w"
  "cs_timer (note_effect ev w s) = cs_timer s"
  "cs_failureBackoff (note_effect ev w s) = cs_failureBackoff s"
  "deliveries (note_effect ev w s) = deliveries s"
  by (simp_all add: note_effect_def deliveries_def)

lemma set_terminal_simps [simp]:
  "cs_log (set_terminal i s) = cs_log s" "cs_world (set_terminal i s) = cs_world s"
  "length (cs_states (set_terminal i s)) = length (cs_states s)"
  "deliveries (set_terminal i s) = deliveries s"
  "j \<noteq> i \<Longrightarrow> cs_states (set_terminal i s) ! j = cs_states s ! j"
  "i < length (cs_states s) \<Longrightarrow>
    cs_states (set_terminal i s) ! i = (cs_states s ! i)\<lparr>ds_terminal := True\<rparr>"
  using set_terminal_frame [of s i] by (simp_all add: set_terminal_def same_frame_def)

lemma add_committed_simps [simp]:
  "cs_log (add_committed i k s) = cs_log s" "cs_world (add_committed i k s) = cs_world s"
  "length (cs_states (add_committed i k s)) = length (cs_states s)"
  "deliveries (add_committed i k s) = deliveries s"
  "j \<noteq> i \<Longrightarrow> cs_states (add_committed i k s) ! j = cs_states s ! j"
  "i < length (cs_states s) \<Longrightarrow> cs_states (add_committed i k s) ! i =
    (cs_states s ! i)\<lparr>ds_committedRows := ds_committedRows (cs_states s ! i) + k\<rparr>"
  using add_committed_frame [of s i k] by (simp_all add: add_committed_def same_frame_def)

lemma same_frame_length: "same_frame s t \<Longrightarrow> length (cs_states t) = length (cs_states s)"
  by (metis length_deliveries same_frame_def)

subsection \<open>Giving deliveries back\<close>

lemma requeue_states_spec:
  assumes "requeue_states e is s = (r, t)" "distinct is"
    and "log_safe pf m (deliveries s) (cs_log s)"
    and "\<forall>i \<in> set is. i < length (cs_states s) \<and> settles i (cs_log s) = 0 \<and>
      (\<exists>msg. validateDelivery pf (deliveries s ! i) = Inr msg)"
  shows "same_frame s t \<and> log_safe pf m (deliveries s) (cs_log t) \<and>
    (\<forall>i. i \<notin> set is \<longrightarrow> cs_states t ! i = cs_states s ! i \<and> settles i (cs_log t) = settles i (cs_log s)) \<and>
    (r = None \<longrightarrow> (\<forall>i \<in> set is. cs_states t ! i = (cs_states s ! i)\<lparr>ds_terminal := True\<rparr> \<and>
       settles i (cs_log t) = 1))"
  using assms
proof (induction "is" arbitrary: s)
  case Nil
  then show ?case by simp
next
  case (Cons i "is")
  let ?s1 = "set_terminal i s"
  obtain err w where n: "ce_nack e (ds_delivery (cs_states ?s1 ! i)) True (cs_world ?s1) = (err, w)"
    by fastforce
  have f: "same_frame s (note_effect (ERequeue i ok) w ?s1)" for ok
    by (rule same_frame_trans [OF set_terminal_frame settle_frame(2)])
  show ?case
  proof (cases err)
    case (Some x)
    then show ?thesis using Cons.prems n f by (auto simp: Let_def)
  next
    case None
    let ?s2 = "note_effect (ERequeue i True) w ?s1"
    have rec: "requeue_states e is ?s2 = (r, t)"
      using Cons.prems(1) n None by (simp add: Let_def)
    have "log_safe pf m (deliveries ?s2) (cs_log ?s2)"
      using Cons.prems(3,4) by simp
    moreover have "\<forall>j \<in> set is. j < length (cs_states ?s2) \<and> settles j (cs_log ?s2) = 0 \<and>
        (\<exists>msg. validateDelivery pf (deliveries ?s2 ! j) = Inr msg)"
      using Cons.prems(2,4) by auto
    ultimately have IH: "same_frame ?s2 t \<and> log_safe pf m (deliveries s) (cs_log t) \<and>
      (\<forall>j. j \<notin> set is \<longrightarrow> cs_states t ! j = cs_states ?s2 ! j \<and>
        settles j (cs_log t) = settles j (cs_log ?s2)) \<and>
      (r = None \<longrightarrow> (\<forall>j \<in> set is. cs_states t ! j = (cs_states ?s2 ! j)\<lparr>ds_terminal := True\<rparr> \<and>
        settles j (cs_log t) = 1))"
      using Cons.IH [OF rec] Cons.prems(2) by simp
    have "same_frame s t" using f IH same_frame_trans by blast
    moreover have "\<forall>j \<in> set is. cs_states ?s1 ! j = cs_states s ! j"
      using Cons.prems(2) by (metis distinct.simps(2) set_terminal_simps(5))
    ultimately show ?thesis using IH Cons.prems(2,4) by auto
  qed
qed

subsection \<open>Committing rows\<close>

text \<open>A delivery whose \<open>k\<close> rows have just been flushed but not counted.\<close>

definition pending :: "(string \<Rightarrow> float64 option) \<Rightarrow> 'w consumer \<Rightarrow> nat \<Rightarrow> nat \<Rightarrow> bool" where
  "pending pf s i k \<longleftrightarrow>
     i < length (cs_states s) \<and> \<not> ds_terminal (cs_states s ! i) \<and> settles i (cs_log s) = 0 \<and>
     ds_committedRows (cs_states s ! i) + k = length (flushed i (cs_log s)) \<and>
     (\<exists>msg rest. validateDelivery pf (deliveries s ! i) = Inr msg \<and>
        ds_totalRows (cs_states s ! i) = length (ExpandMetricPoints msg) \<and>
        flushed i (cs_log s) @ rest = ExpandMetricPoints msg)"

lemma pending_entry_ok:
  assumes "pending pf s i k" "ds_committedRows (cs_states s ! i) + k = ds_totalRows (cs_states s ! i)"
  shows "entry_ok pf m (deliveries s) (EAck i ok) (cs_log s)"
proof -
  from assms(1) obtain msg rest where v: "validateDelivery pf (deliveries s ! i) = Inr msg"
    and t: "ds_totalRows (cs_states s ! i) = length (ExpandMetricPoints msg)"
    and f: "flushed i (cs_log s) @ rest = ExpandMetricPoints msg"
    by (auto simp: pending_def)
  have "length (flushed i (cs_log s)) = length (ExpandMetricPoints msg)"
    using assms t by (simp add: pending_def)
  with f have "flushed i (cs_log s) = ExpandMetricPoints msg"
    by (metis append_eq_conv_conj take_all_iff order_refl)
  with v assms(1) show ?thesis by (simp add: pending_def)
qed

lemma pending_other:
  assumes "pending pf s j k" "same_frame s t" "cs_states t ! j = cs_states s ! j"
    and "settles j (cs_log t) = settles j (cs_log s)"
  shows "pending pf t j k"
  using assms same_frame_length [OF assms(2)] by (simp add: pending_def same_frame_def)

text \<open>What counting the rows does to a delivery.\<close>

definition counted :: "'w consumer \<Rightarrow> 'w consumer \<Rightarrow> nat \<Rightarrow> nat \<Rightarrow> bool" where
  "counted s t i k \<longleftrightarrow>
     (let st = (cs_states s ! i)\<lparr>ds_committedRows := ds_committedRows (cs_states s ! i) + k\<rparr>
      in if ds_committedRows st = ds_totalRows st
         then cs_states t ! i = st\<lparr>ds_terminal := True\<rparr> \<and> settles i (cs_log t) = 1
         else cs_states t ! i = st \<and> settles i (cs_log t) = 0)"

lemma counted_cong:
  "cs_states s' ! i = cs_states s ! i \<Longrightarrow> counted s' t i k = counted s t i k"
  "cs_states t' ! i = cs_states t ! i \<Longrightarrow> settles i (cs_log t') = settles i (cs_log t) \<Longrightarrow>
    counted s t' i k = counted s t i k"
  by (simp_all add: counted_def)

text \<open>The rows of \<open>rs\<close> counted, from \<open>s\<close> to \<open>t\<close>; the result is nil when none of them failed.\<close>

definition rows_done ::
  "(string \<Rightarrow> float64 option) \<Rightarrow> int \<Rightarrow> 'w consumer \<Rightarrow> (nat \<times> nat) list \<Rightarrow> go_error option \<Rightarrow> 'w consumer \<Rightarrow> bool" where
  "rows_done pf m s rs r t \<longleftrightarrow>
     same_frame s t \<and> log_safe pf m (deliveries s) (cs_log t) \<and>
     (\<forall>i. i \<notin> fst ` set rs \<longrightarrow>
        cs_states t ! i = cs_states s ! i \<and> settles i (cs_log t) = settles i (cs_log s)) \<and>
     (r = None \<longrightarrow> (\<forall>(i, k) \<in> set rs. counted s t i k))"

lemma pending_later:
  assumes "\<forall>(j, l) \<in> set rs. pending pf s j l" "i \<notin> fst ` set rs" "same_frame s u"
    and "\<And>j. j \<noteq> i \<Longrightarrow> cs_states u ! j = cs_states s ! j \<and> settles j (cs_log u) = settles j (cs_log s)"
  shows "\<forall>(j, l) \<in> set rs. pending pf u j l"
proof clarify
  fix j l assume jl: "(j, l) \<in> set rs"
  then have "j \<noteq> i" using assms(2) by (metis fst_conv imageI)
  moreover have "pending pf s j l" using assms(1) jl by auto
  ultimately show "pending pf u j l" using assms(4) [of j] by (intro pending_other [OF _ assms(3)]) simp_all
qed

text \<open>One delivery counted by the step from \<open>s\<close> to \<open>u\<close>, the others by the rest of the loop.\<close>

lemma rows_done_Cons:
  assumes later: "rows_done pf m u rs r t" and frame: "same_frame s u" and fresh: "i \<notin> fst ` set rs"
    and other: "\<And>j. j \<noteq> i \<Longrightarrow> cs_states u ! j = cs_states s ! j \<and> settles j (cs_log u) = settles j (cs_log s)"
    and this_row: "counted s u i k"
  shows "rows_done pf m s ((i, k) # rs) r t"
proof -
  have "counted s t i k"
    using this_row later fresh counted_cong(2) [of t i u s k] by (simp add: rows_done_def)
  moreover have "counted s t j l" if "(j, l) \<in> set rs" "r = None" for j l
  proof -
    have "j \<noteq> i" using fresh that(1) by (metis fst_conv imageI)
    moreover have "counted u t j l" using later that by (auto simp: rows_done_def)
    ultimately show ?thesis using other [of j] counted_cong(1) [of u j s t l] by simp
  qed
  moreover have "cs_states t ! j = cs_states s ! j \<and> settles j (cs_log t) = settles j (cs_log s)"
    if "j \<notin> fst ` set ((i, k) # rs)" for j
    using that later other [of j] by (simp add: rows_done_def)
  moreover have "same_frame s t" using later same_frame_trans [OF frame] by (simp add: rows_done_def)
  moreover have "deliveries u = deliveries s" using frame by (simp add: same_frame_def)
  ultimately show ?thesis using later unfolding rows_done_def by (intro conjI allI impI ballI) auto
qed

lemma commit_rows_done:
  assumes "commit_rows e rs s = (r, t)" "distinct (map fst rs)"
    and "log_safe pf m (deliveries s) (cs_log s)"
    and "\<forall>(i, k) \<in> set rs. pending pf s i k"
  shows "rows_done pf m s rs r t"
  using assms
proof (induction rs arbitrary: s)
  case Nil
  then show ?case by (simp add: rows_done_def)
next
  case (Cons x rs)
  obtain i k where x: "x = (i, k)" by fastforce
  have pend: "pending pf s i k" and fresh: "i \<notin> fst ` set rs" using Cons.prems(2,4) by (simp_all add: x)
  then have i: "i < length (cs_states s)" "\<not> ds_terminal (cs_states s ! i)"
    "settles i (cs_log s) = 0"
    by (simp_all add: pending_def)
  let ?s1 = "add_committed i k s"
  let ?full = "ds_committedRows (cs_states s ! i) + k = ds_totalRows (cs_states s ! i)"
  have rest: ?case
    if "commit_rows e rs u = (r, t)" "same_frame s u" "log_safe pf m (deliveries s) (cs_log u)"
      and "\<And>j. j \<noteq> i \<Longrightarrow> cs_states u ! j = cs_states s ! j \<and> settles j (cs_log u) = settles j (cs_log s)"
      and "counted s u i k" for u
  proof -
    have "deliveries u = deliveries s" using that(2) by (simp add: same_frame_def)
    moreover have "\<forall>(j, l) \<in> set rs. pending pf u j l"
      using Cons.prems(4) by (intro pending_later [OF _ fresh that(2,4)]) simp_all
    ultimately have "rows_done pf m u rs r t" using Cons.IH [OF that(1)] Cons.prems(2) that(3) by simp
    from rows_done_Cons [OF this that(2) fresh that(4,5)] show ?thesis by (simp add: x)
  qed
  show ?case
  proof (cases ?full)
    case full: True
    obtain err w where a: "ce_ack e (ds_delivery (cs_states ?s1 ! i)) (cs_world ?s1) = (err, w)"
      by fastforce
    have ok: "entry_ok pf m (deliveries s) (EAck i b) (cs_log s)" for b
      by (rule pending_entry_ok [OF pend full])
    show ?thesis
    proof (cases err)
      case (Some y)
      have fr: "same_frame s (note_effect (EAck i False) w ?s1)"
        by (rule same_frame_trans [OF add_committed_frame settle_frame(1)])
      have t: "t = note_effect (EAck i False) w ?s1" "r = Some (ErrWrap ''ack delivery'' [y])"
        using Cons.prems(1) i full a Some by (auto simp: x Let_def)
      show ?thesis
        using fr ok [of False] Cons.prems(3) by (auto simp: rows_done_def t x)
    next
      case None
      let ?u = "set_terminal i (note_effect (EAck i True) w ?s1)"
      have "same_frame s ?u"
        using add_committed_frame settle_frame(1) set_terminal_frame same_frame_trans by metis
      moreover have "commit_rows e rs ?u = (r, t)"
        using Cons.prems(1) i full a None by (simp add: x Let_def)
      moreover have "counted s ?u i k"
        using full i by (simp add: counted_def)
      ultimately show ?thesis
        using ok [of True] Cons.prems(3) by (intro rest) auto
    qed
  next
    case False
    have "commit_rows e rs ?s1 = (r, t)"
      using Cons.prems(1) i False by (simp add: x Let_def)
    moreover have "counted s ?s1 i k"
      using False i by (simp add: counted_def)
    ultimately show ?thesis
      using Cons.prems(3) by (intro rest) auto
  qed
qed

lemma commit_rows_spec:
  assumes "commit_rows e rs s = (r, t)" "distinct (map fst rs)"
    and "log_safe pf m (deliveries s) (cs_log s)"
    and "\<forall>(i, k) \<in> set rs. pending pf s i k"
  shows "same_frame s t \<and> log_safe pf m (deliveries s) (cs_log t) \<and>
    (\<forall>i. i \<notin> fst ` set rs \<longrightarrow>
      cs_states t ! i = cs_states s ! i \<and> settles i (cs_log t) = settles i (cs_log s)) \<and>
    (r = None \<longrightarrow> (\<forall>(i, k) \<in> set rs. counted s t i k))"
  using commit_rows_done [OF assms] by (simp add: rows_done_def)

subsection \<open>The invariant of the loop\<close>

text \<open>
  \<open>rem\<close> are the points of the newest delivery that the inner loop has not buffered yet. A
  delivery that is not settled has all its points, in order, in the successful flushes, the
  buffer and \<open>rem\<close>, and at least one of them is not committed.
\<close>

definition state_inv ::
  "(string \<Rightarrow> float64 option) \<Rightarrow> metric_point list \<Rightarrow> 'w consumer \<Rightarrow> nat \<Rightarrow> bool" where
  "state_inv pf rem s i \<longleftrightarrow>
     (\<exists>msg. validateDelivery pf (deliveries s ! i) = Inr msg \<and>
        ds_totalRows (cs_states s ! i) = length (ExpandMetricPoints msg) \<and>
        (if ds_terminal (cs_states s ! i) then settles i (cs_log s) = 1
         else settles i (cs_log s) = 0 \<and>
              ds_committedRows (cs_states s ! i) = length (flushed i (cs_log s)) \<and>
              ds_committedRows (cs_states s ! i) < ds_totalRows (cs_states s ! i) \<and>
              flushed i (cs_log s) @ points_of i (cs_buffer s) @
                (if Suc i = length (cs_states s) then rem else []) = ExpandMetricPoints msg))"

definition core_inv ::
  "(string \<Rightarrow> float64 option) \<Rightarrow> int \<Rightarrow> metric_point list \<Rightarrow> 'w consumer \<Rightarrow> bool" where
  "core_inv pf m rem s \<longleftrightarrow>
     log_safe pf m (deliveries s) (cs_log s) \<and>
     (\<forall>i < length (cs_states s). state_inv pf rem s i) \<and>
     (\<forall>i \<in> snd ` set (cs_buffer s). i < length (cs_states s) \<and> \<not> ds_terminal (cs_states s ! i))"

definition session_inv :: "(string \<Rightarrow> float64 option) \<Rightarrow> int \<Rightarrow> 'w consumer \<Rightarrow> bool" where
  "session_inv pf m s \<longleftrightarrow>
     core_inv pf m [] s \<and> (cs_timer s \<longleftrightarrow> cs_buffer s \<noteq> []) \<and> int (length (cs_buffer s)) < m"

text \<open>\<open>range\<close> over a map visits every entry exactly once.\<close>

definition visits_all :: "'w consumer_env \<Rightarrow> bool" where
  "visits_all e \<longleftrightarrow> (\<forall>rows w. mset (ce_order e rows w) = mset rows)"

lemma core_invD:
  assumes "core_inv pf m rem s" "i < length (cs_states s)"
  shows "state_inv pf rem s i"
  using assms by (simp add: core_inv_def)

lemma core_inv_buffer:
  assumes "core_inv pf m rem s" "(p, i) \<in> set (cs_buffer s)"
  shows "i < length (cs_states s)" "\<not> ds_terminal (cs_states s ! i)"
  using assms by (force simp: core_inv_def)+

lemma state_inv_unchanged:
  assumes "state_inv pf rem s i" "deliveries t = deliveries s"
    and "cs_states t ! i = cs_states s ! i \<and> settles i (cs_log t) = settles i (cs_log s)"
    and "flushed i (cs_log t) = flushed i (cs_log s)"
    and "points_of i (cs_buffer t) = points_of i (cs_buffer s)"
  shows "state_inv pf rem t i"
proof -
  have n: "length (cs_states t) = length (cs_states s)"
    using assms(2) by (metis length_deliveries)
  from assms(1) show ?thesis
    unfolding state_inv_def assms(2,4,5) n by (simp only: assms(3))
qed

lemma points_of_mem: "(p, i) \<in> set b \<Longrightarrow> p \<in> set (points_of i b)"
  by (force simp: points_of_def)

lemma points_of_empty: "i \<notin> snd ` set b \<Longrightarrow> points_of i b = []"
  by (auto simp: points_of_def filter_empty_conv)

lemma flush_entry_ok:
  assumes "core_inv pf m rem s" "cs_buffer s \<noteq> []" "int (length (cs_buffer s)) \<le> m"
  shows "entry_ok pf m (deliveries s) (EFlush (cs_buffer s) ok) (cs_log s)"
proof -
  have "i < length (deliveries s) \<and> settles i (cs_log s) = 0 \<and>
      (\<exists>msg. validateDelivery pf (deliveries s ! i) = Inr msg \<and> p \<in> set (ExpandMetricPoints msg))"
    if pi: "(p, i) \<in> set (cs_buffer s)" for p i
  proof -
    note b = core_inv_buffer [OF assms(1) pi]
    obtain msg where v: "validateDelivery pf (deliveries s ! i) = Inr msg"
      and z: "settles i (cs_log s) = 0"
      and f: "flushed i (cs_log s) @ points_of i (cs_buffer s) @
        (if Suc i = length (cs_states s) then rem else []) = ExpandMetricPoints msg"
      using core_invD [OF assms(1) b(1)] b(2) by (auto simp: state_inv_def)
    have "p \<in> set (ExpandMetricPoints msg)"
      using points_of_mem [OF pi] by (simp flip: f)
    with v z b(1) show ?thesis by simp
  qed
  with assms(2,3) show ?thesis by auto
qed

lemma set_unique [simp]: "set (uniqueDeliveryStates b) = snd ` set b"
  by (simp add: uniqueDeliveryStates_def)

lemma distinct_unique [simp]: "distinct (uniqueDeliveryStates b)"
  by (simp add: uniqueDeliveryStates_def)

lemma committedRows_order:
  assumes "visits_all e"
  shows "distinct (map fst (ce_order e (committedRowsByDelivery b) w))"
    and "set (ce_order e (committedRowsByDelivery b) w) =
      {(i, length (points_of i b)) | i. i \<in> snd ` set b}"
proof -
  let ?o = "ce_order e (committedRowsByDelivery b) w" and ?c = "committedRowsByDelivery b"
  have m: "mset ?o = mset ?c" using assms by (simp add: visits_all_def)
  then have "mset (map fst ?o) = mset (map fst ?c)" by simp
  moreover have "distinct (map fst ?c)"
    unfolding committedRowsByDelivery_def by (rule distinct_count_rows) simp
  ultimately show "distinct (map fst ?o)" using mset_eq_imp_distinct_iff by blast
  have "set ?o = set ?c" using m by (rule mset_eq_setD)
  then show "set ?o = {(i, length (points_of i b)) | i. i \<in> snd ` set b}"
    by (simp add: committedRowsByDelivery_def set_count_rows_Nil length_points_of)
qed

text \<open>The state in which the settling of a flushed batch starts.\<close>

definition after_flush :: "bool \<Rightarrow> 'w \<Rightarrow> 'w consumer \<Rightarrow> 'w consumer" where
  "after_flush ok w s =
     note_effect (EFlush (cs_buffer s) ok) w (s\<lparr>cs_timer := False, cs_buffer := []\<rparr>)"

lemma after_flush_simps [simp]:
  "cs_states (after_flush ok w s) = cs_states s"
  "cs_log (after_flush ok w s) = EFlush (cs_buffer s) ok # cs_log s"
  "cs_buffer (after_flush ok w s) = []" "\<not> cs_timer (after_flush ok w s)"
  "deliveries (after_flush ok w s) = deliveries s"
  by (simp_all add: after_flush_def deliveries_def)

lemma failed_flush_inv:
  assumes inv: "core_inv pf m rem s" and b: "cs_buffer s \<noteq> []" "int (length (cs_buffer s)) \<le> m"
    and q: "requeue_states e (uniqueDeliveryStates (cs_buffer s))
      (note_effect (EWait d k) w1 (after_flush False w s)) = (r, t)"
  shows "deliveries t = deliveries s \<and> log_safe pf m (deliveries s) (cs_log t) \<and>
    cs_buffer t = [] \<and> \<not> cs_timer t \<and> (r = None \<longrightarrow> core_inv pf m rem t)"
proof -
  let ?u = "note_effect (EWait d k) w1 (after_flush False w s)"
  have "log_safe pf m (deliveries ?u) (cs_log ?u)"
    using inv flush_entry_ok [OF inv b, of False] by (simp add: core_inv_def)
  moreover have "settles i (cs_log s) = 0 \<and> (\<exists>msg. validateDelivery pf (deliveries s ! i) = Inr msg)"
    if i: "i \<in> snd ` set (cs_buffer s)" for i
  proof -
    have "i < length (cs_states s)" "\<not> ds_terminal (cs_states s ! i)"
      using inv i by (auto simp: core_inv_def)
    then show ?thesis using core_invD [OF inv, of i] by (auto simp: state_inv_def)
  qed
  then have "\<forall>i \<in> set (uniqueDeliveryStates (cs_buffer s)).
      i < length (cs_states ?u) \<and> settles i (cs_log ?u) = 0 \<and>
      (\<exists>msg. validateDelivery pf (deliveries ?u ! i) = Inr msg)"
    using inv by (auto simp: core_inv_def)
  ultimately have spec: "same_frame ?u t" "log_safe pf m (deliveries s) (cs_log t)"
    "\<And>i. i \<notin> snd ` set (cs_buffer s) \<Longrightarrow>
      cs_states t ! i = cs_states s ! i \<and> settles i (cs_log t) = settles i (cs_log s)"
    "\<And>i. r = None \<Longrightarrow> i \<in> snd ` set (cs_buffer s) \<Longrightarrow>
      cs_states t ! i = (cs_states s ! i)\<lparr>ds_terminal := True\<rparr> \<and> settles i (cs_log t) = 1"
    using requeue_states_spec [OF q distinct_unique, of pf m] by auto
  have d: "deliveries t = deliveries s" and bt: "cs_buffer t = []" and tm: "\<not> cs_timer t"
    and fl: "flushed i (cs_log t) = flushed i (cs_log s)" for i
    using spec(1) by (auto simp: same_frame_def)
  have n: "length (cs_states t) = length (cs_states s)" using d by (metis length_deliveries)
  have "state_inv pf rem t i" if r: "r = None" and i: "i < length (cs_states s)" for i
  proof (cases "i \<in> snd ` set (cs_buffer s)")
    case True
    then show ?thesis
      using spec(4) [OF r True] core_invD [OF inv i] by (auto simp: state_inv_def d)
  next
    case False
    then show ?thesis
      using points_of_empty [OF False]
      by (intro state_inv_unchanged [OF core_invD [OF inv i] d spec(3) [OF False]]) (simp_all add: bt fl)
  qed
  with spec(2) d bt tm n show ?thesis by (simp add: core_inv_def)
qed

text \<open>The points of a delivery in the buffer are its uncommitted ones, up to \<open>rem\<close>.\<close>

lemma buffered_delivery:
  assumes "core_inv pf m rem s" "i \<in> snd ` set (cs_buffer s)"
  obtains msg where "i < length (cs_states s)" "\<not> ds_terminal (cs_states s ! i)" "settles i (cs_log s) = 0"
    "validateDelivery pf (deliveries s ! i) = Inr msg"
    "ds_totalRows (cs_states s ! i) = length (ExpandMetricPoints msg)"
    "ds_committedRows (cs_states s ! i) = length (flushed i (cs_log s))"
    "flushed i (cs_log s) @ points_of i (cs_buffer s) @ (if Suc i = length (cs_states s) then rem else [])
      = ExpandMetricPoints msg"
proof -
  have nt: "i < length (cs_states s)" "\<not> ds_terminal (cs_states s ! i)"
    using assms by (auto simp: core_inv_def)
  then show ?thesis using that core_invD [OF assms(1) nt(1)] by (auto simp: state_inv_def)
qed

lemma buffered_pending:
  assumes "core_inv pf m rem s" "i \<in> snd ` set (cs_buffer s)"
  shows "pending pf (after_flush True w s) i (length (points_of i (cs_buffer s)))"
proof -
  let ?u = "after_flush True w s"
  obtain msg where d: "i < length (cs_states s)" "\<not> ds_terminal (cs_states s ! i)" "settles i (cs_log s) = 0"
    "validateDelivery pf (deliveries s ! i) = Inr msg"
    "ds_totalRows (cs_states s ! i) = length (ExpandMetricPoints msg)"
    "ds_committedRows (cs_states s ! i) = length (flushed i (cs_log s))"
    and "flushed i (cs_log s) @ points_of i (cs_buffer s) @ (if Suc i = length (cs_states s) then rem else [])
      = ExpandMetricPoints msg" by (rule buffered_delivery [OF assms])
  then have "flushed i (cs_log ?u) @ (if Suc i = length (cs_states s) then rem else []) = ExpandMetricPoints msg"
    by simp
  with d(4,5) have "\<exists>msg rest. validateDelivery pf (deliveries ?u ! i) = Inr msg \<and>
      ds_totalRows (cs_states ?u ! i) = length (ExpandMetricPoints msg) \<and>
      flushed i (cs_log ?u) @ rest = ExpandMetricPoints msg"
    unfolding after_flush_simps by blast
  with d show ?thesis unfolding pending_def by simp
qed

text \<open>Counting them leaves the delivery as the invariant wants it.\<close>

lemma counted_state_inv:
  assumes inv: "core_inv pf m rem s" and i: "i \<in> snd ` set (cs_buffer s)"
    and c: "counted (after_flush True w s) t i (length (points_of i (cs_buffer s)))"
    and t: "deliveries t = deliveries s" "cs_buffer t = []"
      "flushed i (cs_log t) = flushed i (cs_log s) @ points_of i (cs_buffer s)"
  shows "state_inv pf rem t i"
proof -
  let ?n = "length (flushed i (cs_log s)) + length (points_of i (cs_buffer s))"
  have n: "length (cs_states t) = length (cs_states s)" using t(1) by (metis length_deliveries)
  obtain msg where nt: "\<not> ds_terminal (cs_states s ! i)" "settles i (cs_log s) = 0"
    and v: "validateDelivery pf (deliveries s ! i) = Inr msg"
    and tot: "ds_totalRows (cs_states s ! i) = length (ExpandMetricPoints msg)"
    and com: "ds_committedRows (cs_states s ! i) = length (flushed i (cs_log s))"
    and f: "flushed i (cs_log s) @ points_of i (cs_buffer s) @ (if Suc i = length (cs_states s) then rem else [])
      = ExpandMetricPoints msg" by (rule buffered_delivery [OF inv i])
  have le: "?n \<le> length (ExpandMetricPoints msg)" by (simp flip: f)
  show ?thesis
  proof (cases "?n = length (ExpandMetricPoints msg)")
    case True
    then have "ds_terminal (cs_states t ! i)" "settles i (cs_log t) = 1"
      "ds_totalRows (cs_states t ! i) = length (ExpandMetricPoints msg)"
      using c tot com by (auto simp: counted_def)
    then show ?thesis by (simp add: state_inv_def t(1) v)
  next
    case part: False
    then have "cs_states t ! i = (cs_states s ! i)\<lparr>ds_committedRows := ?n\<rparr>" "settles i (cs_log t) = 0"
      using c tot com by (auto simp: counted_def)
    then show ?thesis using nt part le by (simp add: state_inv_def t v tot n f)
  qed
qed

lemma ok_flush_inv:
  assumes inv: "core_inv pf m rem s" and b: "cs_buffer s \<noteq> []" "int (length (cs_buffer s)) \<le> m"
    and e: "visits_all e"
    and c: "commit_rows e (ce_order e (committedRowsByDelivery (cs_buffer s)) w') (after_flush True w s)
      = (r, t)"
  shows "deliveries t = deliveries s \<and> log_safe pf m (deliveries s) (cs_log t) \<and>
    cs_buffer t = [] \<and> \<not> cs_timer t \<and> (r = None \<longrightarrow> core_inv pf m rem t)"
proof -
  let ?u = "after_flush True w s" and ?b = "cs_buffer s"
  let ?rows = "ce_order e (committedRowsByDelivery ?b) w'"
  note rows = committedRows_order [OF e, of ?b w']
  have safe: "log_safe pf m (deliveries ?u) (cs_log ?u)"
    using inv flush_entry_ok [OF inv b, of True] by (simp add: core_inv_def)
  have pend: "\<forall>(i, k) \<in> set ?rows. pending pf ?u i k"
    using rows(2) buffered_pending [OF inv] by auto
  have keys: "fst ` set ?rows = snd ` set ?b"
    unfolding rows(2) by (simp add: Setcompr_eq_image image_image)
  note spec_all = commit_rows_spec [OF c rows(1) safe pend, unfolded keys]
  have spec: "same_frame ?u t" "log_safe pf m (deliveries s) (cs_log t)"
    using spec_all by simp_all
  have spec3: "cs_states t ! i = cs_states s ! i \<and> settles i (cs_log t) = settles i (cs_log s)"
    if "i \<notin> snd ` set ?b" for i
    using spec_all that by simp
  have spec4: "counted ?u t i (length (points_of i ?b))" if "r = None" "i \<in> snd ` set ?b" for i
  proof -
    have "(i, length (points_of i ?b)) \<in> set ?rows" using that(2) rows(2) by blast
    then show ?thesis using spec_all that(1) by blast
  qed
  have d: "deliveries t = deliveries s" and bt: "cs_buffer t = []" and tm: "\<not> cs_timer t"
    and fl: "flushed i (cs_log t) = flushed i (cs_log s) @ points_of i ?b" for i
    using spec(1) by (auto simp: same_frame_def)
  have n: "length (cs_states t) = length (cs_states s)" using d by (metis length_deliveries)
  have "state_inv pf rem t i" if r: "r = None" and i: "i < length (cs_states s)" for i
  proof (cases "i \<in> snd ` set ?b")
    case True
    then show ?thesis using counted_state_inv [OF inv True spec4 [OF r True] d bt fl] by simp
  next
    case False
    then show ?thesis
      using points_of_empty [OF False]
      by (intro state_inv_unchanged [OF core_invD [OF inv i] d spec3 [OF False]]) (simp_all add: bt fl)
  qed
  with spec(2) d bt tm n show ?thesis by (simp add: core_inv_def)
qed

lemma core_inv_frame:
  assumes "core_inv pf m rem s"
    and "cs_states t = cs_states s" "cs_buffer t = cs_buffer s" "cs_log t = cs_log s"
  shows "core_inv pf m rem t"
  using assms(1) unfolding core_inv_def state_inv_def deliveries_def assms(2-4) .

lemma deliveries_cong: "cs_states t = cs_states s \<Longrightarrow> deliveries t = deliveries s"
  by (simp add: deliveries_def)

lemma flush_buffer_inv:
  assumes inv: "core_inv pf m rem s" and b: "int (length (cs_buffer s)) \<le> m" and e: "visits_all e"
    and f: "flush_buffer e cfg ctx s = (r, t)"
  shows "deliveries t = deliveries s \<and> log_safe pf m (deliveries s) (cs_log t) \<and>
    cs_buffer t = [] \<and> \<not> cs_timer t \<and> (r = None \<longrightarrow> core_inv pf m rem t)"
proof (cases "cs_buffer s = []")
  case True
  then have "t = s\<lparr>cs_timer := False\<rparr>" "r = None"
    using f by (auto simp: flush_buffer_def Let_def)
  with True inv core_inv_frame [OF inv, of t] show ?thesis
    by (auto simp: core_inv_def deliveries_def)
next
  case ne: False
  let ?s0 = "s\<lparr>cs_timer := False\<rparr>"
  let ?s = "?s0\<lparr>cs_buffer := []\<rparr>"
  obtain failed err s1 where cf: "consumer_flush e ctx (cs_buffer s) (cs_failureBackoff s) ?s
      = ((failed, err), s1)"
    by (metis surj_pair)
  have t: "r = err" "cs_states t = cs_states s1" "cs_buffer t = cs_buffer s1"
    "cs_log t = cs_log s1" "cs_timer t = cs_timer s1"
    using f ne cf by (auto simp: flush_buffer_def Let_def split: if_splits)
  have main: "deliveries s1 = deliveries s \<and> log_safe pf m (deliveries s) (cs_log s1) \<and>
      cs_buffer s1 = [] \<and> \<not> cs_timer s1 \<and> (err = None \<longrightarrow> core_inv pf m rem s1)"
  proof (cases "ce_flush e ctx (map fst (cs_buffer s)) (cs_world s)")
    case (Pair ferr w)
    show ?thesis
    proof (cases ferr)
      case None
      let ?u = "after_flush True w s"
      obtain r2 s2 where
        "commit_rows e (ce_order e (committedRowsByDelivery (cs_buffer s)) w) ?u = (r2, s2)"
        by fastforce
      moreover from this have "err = r2" "s1 = s2"
        using cf Pair None by (simp_all add: consumer_flush_def after_flush_def Let_def)
      ultimately have "commit_rows e (ce_order e (committedRowsByDelivery (cs_buffer s)) w) ?u = (err, s1)"
        by simp
      then show ?thesis by (rule ok_flush_inv [OF inv ne b e])
    next
      case (Some x)
      obtain d w1 where j: "ce_jitter e (cs_failureBackoff s) w = (d, w1)" by fastforce
      obtain werr w2 where wt: "ce_wait e ctx d w1 = (werr, w2)" by fastforce
      let ?u = "note_effect (EWait d (werr = None)) w2 (after_flush False w s)"
      show ?thesis
      proof (cases "werr \<noteq> None \<and> ce_ctx_err e ctx w2 \<noteq> None")
        case True
        then have "s1 = ?u" "err \<noteq> None"
          using cf Pair Some j wt by (auto simp: consumer_flush_def after_flush_def Let_def)
        then show ?thesis
          using flush_entry_ok [OF inv ne b, of False] inv by (auto simp: core_inv_def)
      next
        case False
        obtain r2 s2 where q: "requeue_states e (uniqueDeliveryStates (cs_buffer s)) ?u = (r2, s2)"
          by fastforce
        then have "err = r2" "s1 = s2"
          using cf Pair Some j wt False by (auto simp: consumer_flush_def after_flush_def Let_def)
        then have "requeue_states e (uniqueDeliveryStates (cs_buffer s)) ?u = (err, s1)"
          using q by simp
        then show ?thesis by (rule failed_flush_inv [OF inv ne b])
      qed
    qed
  qed
  have "deliveries t = deliveries s1" using t by (simp add: deliveries_def)
  moreover have "err = None \<longrightarrow> core_inv pf m rem t"
    using main t core_inv_frame by blast
  ultimately show ?thesis using main t by simp
qed

subsection \<open>The inner loop and the events\<close>

lemma core_inv_buffer_point:
  assumes inv: "core_inv pf m (p # ps) s" and i: "Suc i = length (cs_states s)"
    and nt: "\<not> ds_terminal (cs_states s ! i)"
  shows "core_inv pf m ps (s\<lparr>cs_buffer := cs_buffer s @ [(p, i)]\<rparr>)"
proof -
  let ?t = "s\<lparr>cs_buffer := cs_buffer s @ [(p, i)]\<rparr>"
  have d: "deliveries ?t = deliveries s" by (simp add: deliveries_def)
  have "state_inv pf ps ?t j" if j: "j < length (cs_states s)" for j
    using core_invD [OF inv j] i nt unfolding state_inv_def d by (cases "j = i") auto
  with inv i nt show ?thesis by (auto simp: core_inv_def d)
qed

lemma core_inv_drop_rem:
  assumes inv: "core_inv pf m rem s" and i: "Suc i = length (cs_states s)"
    and t: "ds_terminal (cs_states s ! i)"
  shows "core_inv pf m rem' s"
proof -
  have "state_inv pf rem' s j" if j: "j < length (cs_states s)" for j
    using core_invD [OF inv j] i t unfolding state_inv_def by (cases "j = i") auto
  with inv show ?thesis by (simp add: core_inv_def)
qed

lemma buffer_points_inv:
  assumes "buffer_points e cfg i ps s = (r, t)" "visits_all e"
    and "core_inv pf (cc_BatchMax cfg) ps s" "cs_timer s \<longleftrightarrow> cs_buffer s \<noteq> []"
    and "int (length (cs_buffer s)) < cc_BatchMax cfg" "Suc i = length (cs_states s)"
  shows "deliveries t = deliveries s \<and> log_safe pf (cc_BatchMax cfg) (deliveries s) (cs_log t) \<and>
    (r = None \<longrightarrow> session_inv pf (cc_BatchMax cfg) t)"
  using assms
proof (induction e cfg i ps s rule: buffer_points.induct)
  case (1 e cfg i s)
  then show ?case by (simp add: session_inv_def core_inv_def)
next
  case (2 e cfg i p ps s)
  let ?m = "cc_BatchMax cfg"
  let ?s1 = "start_timer (s\<lparr>cs_buffer := cs_buffer s @ [(p, i)]\<rparr>)"
  show ?case
  proof (cases "ds_terminal (cs_states s ! i)")
    case True
    then have "t = s" "r = None" using "2.prems"(1) by auto
    moreover have "core_inv pf ?m [] s"
      by (rule core_inv_drop_rem [OF "2.prems"(3) "2.prems"(6) True])
    ultimately show ?thesis using "2.prems" by (simp add: session_inv_def core_inv_def)
  next
    case nt: False
    have c1: "core_inv pf ?m ps ?s1"
      using core_inv_buffer_point [OF "2.prems"(3) "2.prems"(6) nt]
      by (rule core_inv_frame) (simp_all add: start_timer_def)
    have s1: "cs_timer ?s1" "cs_buffer ?s1 = cs_buffer s @ [(p, i)]"
      "cs_states ?s1 = cs_states s" "deliveries ?s1 = deliveries s"
      by (simp_all add: start_timer_def deliveries_def)
    show ?thesis
    proof (cases "int (length (cs_buffer ?s1)) = ?m")
      case full: True
      obtain err s2 where fl: "flush_buffer e cfg SessionCtx ?s1 = (err, s2)" by fastforce
      have b: "int (length (cs_buffer ?s1)) \<le> ?m" using full by simp
      note f = flush_buffer_inv [OF c1 b "2.prems"(2) fl]
      show ?thesis
      proof (cases err)
        case (Some x)
        then have "r = Some x" "t = s2" using "2.prems"(1) nt full fl by (simp_all add: Let_def)
        then show ?thesis using f s1 by simp
      next
        case None
        have n: "length (cs_states s2) = length (cs_states s)"
          using f s1 by (metis length_deliveries)
        have "0 < ?m" using "2.prems"(5) by simp
        then have "deliveries t = deliveries s2 \<and> log_safe pf ?m (deliveries s2) (cs_log t) \<and>
            (r = None \<longrightarrow> session_inv pf ?m t)"
          using "2.prems" nt full fl None f n
          by (intro "2.IH"(1) [OF nt refl full fl [symmetric] None]) (simp_all add: Let_def)
        then show ?thesis using f s1 by simp
      qed
    next
      case False
      have "int (length (cs_buffer ?s1)) < ?m" using "2.prems"(5) False s1 by simp
      then have "deliveries t = deliveries ?s1 \<and> log_safe pf ?m (deliveries ?s1) (cs_log t) \<and>
          (r = None \<longrightarrow> session_inv pf ?m t)"
        using "2.prems" nt False c1 s1
        by (intro "2.IH"(2) [OF nt refl False]) (simp_all add: Let_def)
      then show ?thesis using s1 by simp
    qed
  qed
qed

lemma session_inv_new_delivery:
  assumes inv: "session_inv pf m s" and v: "validateDelivery pf d = Inr msg"
  shows "core_inv pf m (ExpandMetricPoints msg)
    (s\<lparr>cs_states := cs_states s @ [\<lparr>ds_delivery = d, ds_totalRows = length (ExpandMetricPoints msg),
        ds_committedRows = 0, ds_terminal = False\<rparr>]\<rparr>)" (is "core_inv pf m ?ps ?t")
proof -
  let ?n = "length (cs_states s)"
  have d: "deliveries ?t = deliveries s @ [d]" by (simp add: deliveries_def)
  have safe: "log_safe pf m (deliveries s) (cs_log s)"
    using inv by (simp add: session_inv_def core_inv_def)
  have fresh: "flushed ?n l = [] \<and> settles ?n l = 0" if "log_safe pf m (deliveries s) l" for l
    using that
  proof (induction l)
    case (Cons ev l)
    then show ?case
    proof (cases ev)
      case (EFlush b ok)
      then have "?n \<notin> snd ` set b" using Cons.prems by fastforce
      with EFlush Cons show ?thesis by (simp add: points_of_empty)
    qed auto
  qed simp
  have nb: "?n \<notin> snd ` set (cs_buffer s)"
    using inv by (auto simp: session_inv_def core_inv_def)
  have "spec_message msg"
    using v DecodeIngestMessage_spec by (auto simp: validateDelivery_def split: sum.splits if_splits)
  then have "?ps \<noteq> []" by (rule ExpandMetricPoints_not_Nil)
  then have new: "state_inv pf ?ps ?t ?n"
    using v fresh [OF safe] points_of_empty [OF nb] by (simp add: state_inv_def d nth_append)
  have old: "state_inv pf ?ps ?t i" if i: "i < ?n" for i
  proof -
    have "state_inv pf [] s i" using inv i by (simp add: session_inv_def core_inv_def)
    with i show ?thesis by (auto simp: state_inv_def d nth_append)
  qed
  have "state_inv pf ?ps ?t i" if "i < length (cs_states ?t)" for i
    using that new old by (cases "i = ?n") auto
  moreover have "\<forall>i \<in> snd ` set (cs_buffer s). i < ?n \<and> \<not> ds_terminal (cs_states s ! i)"
    using inv by (simp add: session_inv_def core_inv_def)
  ultimately show ?thesis
    using log_safe_more [OF safe, of "[d]"] by (auto simp: core_inv_def d nth_append)
qed

text \<open>Deliveries accepted so far are never lost: the list of an older state is a prefix.\<close>

lemma consume_delivery_inv:
  assumes inv: "session_inv pf (cc_BatchMax cfg) s" and e: "visits_all e"
    and c: "consume_delivery pf e cfg d s = (r, t)"
  shows "log_safe pf (cc_BatchMax cfg) (deliveries t) (cs_log t) \<and>
    (r = None \<longrightarrow> session_inv pf (cc_BatchMax cfg) t)"
proof (cases "validateDelivery pf d")
  case (Inl perr)
  obtain err w where n: "ce_nack e d False (cs_world s) = (err, w)" by fastforce
  have t: "t = note_effect (EReject d (err = None)) w s"
    using c Inl n by (cases err) (auto simp: consume_delivery_def)
  have safe: "log_safe pf (cc_BatchMax cfg) (deliveries t) (cs_log t)"
    using inv Inl by (simp add: t session_inv_def core_inv_def)
  moreover have "state_inv pf [] t i" if "i < length (cs_states s)" for i
  proof -
    have "state_inv pf [] s i" using inv that by (simp add: session_inv_def core_inv_def)
    then show ?thesis by (rule state_inv_unchanged) (simp_all add: t)
  qed
  then have "session_inv pf (cc_BatchMax cfg) t"
    using inv safe by (simp add: t session_inv_def core_inv_def)
  ultimately show ?thesis by blast
next
  case (Inr msg)
  let ?ps = "ExpandMetricPoints msg"
  let ?s = "s\<lparr>cs_states := cs_states s @ [\<lparr>ds_delivery = d, ds_totalRows = length ?ps,
      ds_committedRows = 0, ds_terminal = False\<rparr>]\<rparr>"
  have b: "buffer_points e cfg (length (cs_states s)) ?ps ?s = (r, t)"
    using c Inr by (simp add: consume_delivery_def Let_def)
  have "deliveries t = deliveries ?s \<and> log_safe pf (cc_BatchMax cfg) (deliveries ?s) (cs_log t) \<and>
      (r = None \<longrightarrow> session_inv pf (cc_BatchMax cfg) t)"
    using inv by (intro buffer_points_inv [OF b e session_inv_new_delivery [OF inv Inr]])
      (simp_all add: session_inv_def)
  then show ?thesis by simp
qed

lemma consume_event_inv:
  assumes inv: "session_inv pf (cc_BatchMax cfg) s" and e: "visits_all e"
    and c: "consume_event pf e cfg ev s = (r, t)"
  shows "log_safe pf (cc_BatchMax cfg) (deliveries t) (cs_log t) \<and>
    (r = None \<longrightarrow> session_inv pf (cc_BatchMax cfg) t)"
proof -
  let ?m = "cc_BatchMax cfg"
  have core: "core_inv pf ?m [] s" "int (length (cs_buffer s)) \<le> ?m"
    using inv by (simp_all add: session_inv_def)
  show ?thesis
  proof (cases ev)
    case (EvDelivery d)
    then show ?thesis
      using c consume_delivery_inv [OF inv e, of d]
      by (auto simp: consume_event_def split: prod.splits option.splits)
  next
    case EvStreamClosed
    then show ?thesis using c inv by (auto simp: consume_event_def session_inv_def core_inv_def)
  next
    case EvTimer
    have "core_inv pf ?m [] (s\<lparr>cs_timer := False\<rparr>)"
      by (rule core_inv_frame [OF core(1)]) simp_all
    then have "deliveries t' = deliveries s \<and> log_safe pf ?m (deliveries s) (cs_log t') \<and>
        cs_buffer t' = [] \<and> \<not> cs_timer t' \<and> (r' = None \<longrightarrow> core_inv pf ?m [] t')"
      if "flush_buffer e cfg SessionCtx (s\<lparr>cs_timer := False\<rparr>) = (r', t')" for r' t'
      using flush_buffer_inv [OF _ _ e that] core(2) by (simp add: deliveries_def)
    moreover have "0 < ?m" using inv by (auto simp: session_inv_def)
    ultimately show ?thesis
      using c EvTimer
      by (auto simp: consume_event_def session_inv_def split: prod.splits option.splits)
  next
    case EvDone
    then show ?thesis
      using c flush_buffer_inv [OF core e]
      by (auto simp: consume_event_def split: prod.splits option.splits)
  qed
qed

lemma consume_loop_inv:
  assumes "session_inv pf (cc_BatchMax cfg) s" "visits_all e"
    and "consume_loop pf e cfg evs s = (r, t)"
  shows "log_safe pf (cc_BatchMax cfg) (deliveries t) (cs_log t) \<and>
    (r = None \<longrightarrow> session_inv pf (cc_BatchMax cfg) t)"
  using assms
proof (induction evs arbitrary: s)
  case Nil
  then show ?case by (simp add: session_inv_def core_inv_def)
next
  case (Cons ev evs)
  obtain r1 s1 where ev: "consume_event pf e cfg ev s = (r1, s1)" by fastforce
  note step = consume_event_inv [OF Cons.prems(1,2) ev]
  show ?case
  proof (cases r1)
    case None
    then show ?thesis using Cons.IH [of s1] Cons.prems ev step by simp
  next
    case (Some x)
    then show ?thesis using Cons.prems(3) ev step by simp
  qed
qed

lemma new_session_inv: "0 < m \<Longrightarrow> session_inv pf m (new_session cfg w)"
  by (simp add: session_inv_def core_inv_def new_session_def)

lemma consumeSession_safe:
  assumes "0 < cc_BatchMax cfg" "visits_all e" "consumeSession pf e cfg evs w = (r, t)"
  shows "log_safe pf (cc_BatchMax cfg) (deliveries t) (cs_log t)"
    and "r = None \<Longrightarrow> session_inv pf (cc_BatchMax cfg) t"
  using consume_loop_inv [OF new_session_inv [OF assms(1)] assms(2)] assms(3)
  by (auto simp: consumeSession_def)

subsection \<open>Backoffs\<close>

lemma requeue_states_backoff:
  "requeue_states e is s = (r, t) \<Longrightarrow> cs_failureBackoff t = cs_failureBackoff s"
proof (induction "is" arbitrary: s)
  case (Cons i "is")
  then show ?case
    by (auto simp: Let_def set_terminal_def split: prod.splits option.splits)
qed simp

lemma commit_rows_backoff:
  "commit_rows e rs s = (r, t) \<Longrightarrow> cs_failureBackoff t = cs_failureBackoff s"
proof (induction rs arbitrary: s)
  case (Cons x rs)
  then show ?case
    by (cases x)
      (force simp: Let_def set_terminal_def add_committed_def split: prod.splits option.splits if_splits)
qed simp

lemma consumer_flush_backoff:
  "consumer_flush e ctx b d s = (r, t) \<Longrightarrow> cs_failureBackoff t = cs_failureBackoff s"
  by (auto simp: consumer_flush_def Let_def split: prod.splits option.splits if_splits
      dest: requeue_states_backoff commit_rows_backoff)

definition backoff_in :: "consumer_config \<Rightarrow> 'w consumer \<Rightarrow> bool" where
  "backoff_in cfg s \<longleftrightarrow>
     cc_FailureBackoff cfg \<le> cs_failureBackoff s \<and> cs_failureBackoff s \<le> cc_FailureMaxBackoff cfg"

definition valid_backoffs :: "consumer_config \<Rightarrow> bool" where
  "valid_backoffs cfg \<longleftrightarrow>
     0 < cc_FailureBackoff cfg \<and> cc_FailureBackoff cfg \<le> cc_FailureMaxBackoff cfg \<and>
     cc_FailureMaxBackoff cfg < 2 ^ 62 \<and>
     0 < cc_ReconnectBackoff cfg \<and> cc_ReconnectBackoff cfg \<le> cc_ReconnectMaxBackoff cfg \<and>
     cc_ReconnectMaxBackoff cfg < 2 ^ 62"

lemma flush_buffer_backoff:
  assumes "flush_buffer e cfg ctx s = (r, t)" "valid_backoffs cfg" "backoff_in cfg s"
  shows "backoff_in cfg t"
proof (cases "cs_buffer s = []")
  case True
  then show ?thesis using assms by (auto simp: flush_buffer_def backoff_in_def)
next
  case False
  obtain failed err s1 where f: "consumer_flush e ctx (cs_buffer s) (cs_failureBackoff s)
      (s\<lparr>cs_timer := False, cs_buffer := []\<rparr>) = ((failed, err), s1)"
    by (metis surj_pair)
  then have b: "cs_failureBackoff s1 = cs_failureBackoff s"
    by (drule_tac consumer_flush_backoff) simp
  have "cc_FailureBackoff cfg \<le> next_backoff (cc_FailureMaxBackoff cfg) (cs_failureBackoff s) \<and>
      next_backoff (cc_FailureMaxBackoff cfg) (cs_failureBackoff s) \<le> cc_FailureMaxBackoff cfg"
    using assms(2,3) next_backoff_bounds [of "cc_FailureBackoff cfg" "cs_failureBackoff s"
        "cc_FailureMaxBackoff cfg"]
    by (simp add: valid_backoffs_def backoff_in_def)
  then show ?thesis
    using assms False f b
    by (auto simp: flush_buffer_def Let_def backoff_in_def valid_backoffs_def split: if_splits)
qed

lemma backoff_in_cong: "cs_failureBackoff t = cs_failureBackoff s \<Longrightarrow> backoff_in cfg t = backoff_in cfg s"
  by (simp add: backoff_in_def)

lemma buffer_points_backoff:
  assumes "buffer_points e cfg i ps s = (r, t)" "valid_backoffs cfg" "backoff_in cfg s"
  shows "backoff_in cfg t"
  using assms
proof (induction e cfg i ps s rule: buffer_points.induct)
  case (2 e cfg i p ps s)
  let ?s1 = "start_timer (s\<lparr>cs_buffer := cs_buffer s @ [(p, i)]\<rparr>)"
  have s1: "backoff_in cfg ?s1"
    using "2.prems"(3) by (simp add: start_timer_def backoff_in_def)
  show ?case
  proof (cases "ds_terminal (cs_states s ! i)")
    case False
    obtain err s2 where f: "flush_buffer e cfg SessionCtx ?s1 = (err, s2)" by fastforce
    have s2: "backoff_in cfg s2" by (rule flush_buffer_backoff [OF f "2.prems"(2) s1])
    show ?thesis
    proof (cases "int (length (cs_buffer ?s1)) = cc_BatchMax cfg")
      case full: True
      show ?thesis
      proof (cases err)
        case None
        then have "buffer_points e cfg i ps s2 = (r, t)"
          using "2.prems"(1) False full f by (simp add: Let_def)
        then show ?thesis
          by (rule "2.IH"(1) [OF False refl full f [symmetric] None _ "2.prems"(2) s2])
      next
        case (Some x)
        then show ?thesis using "2.prems"(1) False full f s2 by (simp add: Let_def)
      qed
    next
      case part: False
      then have "buffer_points e cfg i ps ?s1 = (r, t)"
        using "2.prems"(1) False by (simp add: Let_def)
      then show ?thesis by (rule "2.IH"(2) [OF False refl part _ "2.prems"(2) s1])
    qed
  qed (use 2 in simp)
qed simp

lemma consume_event_backoff:
  assumes "consume_event pf e cfg ev s = (r, t)" "valid_backoffs cfg" "backoff_in cfg s"
  shows "backoff_in cfg t"
proof -
  have t: "backoff_in cfg (s\<lparr>cs_timer := False\<rparr>)" "backoff_in cfg (s\<lparr>cs_states := xs\<rparr>)"
    "backoff_in cfg (note_effect x w s)" for xs x w
    using assms(3) by (simp_all add: backoff_in_def)
  show ?thesis
    using assms(1,3) t
    by (cases ev)
      (auto simp: consume_event_def consume_delivery_def Let_def
        split: prod.splits option.splits sum.splits
        intro: flush_buffer_backoff [OF _ assms(2)] buffer_points_backoff [OF _ assms(2)])
qed

lemma consume_loop_backoff:
  assumes "consume_loop pf e cfg evs s = (r, t)" "valid_backoffs cfg" "backoff_in cfg s"
  shows "backoff_in cfg t"
  using assms
proof (induction evs arbitrary: s)
  case (Cons ev evs)
  obtain r1 s1 where ev: "consume_event pf e cfg ev s = (r1, s1)" by fastforce
  have "backoff_in cfg s1" by (rule consume_event_backoff [OF ev Cons.prems(2,3)])
  then show ?case using Cons ev by (cases r1) simp_all
qed simp

lemma reconnect_backoff:
  "reconnect e cfg b w = (Some b', w') \<Longrightarrow> b' = next_backoff (cc_ReconnectMaxBackoff cfg) b"
  by (auto simp: reconnect_def split: prod.splits option.splits)

lemma run_turn_next:
  assumes "run_turn pf e r cfg evs b w = (Some b', w')"
  shows "b' = cc_ReconnectBackoff cfg \<or> b' = next_backoff (cc_ReconnectMaxBackoff cfg) b \<or>
    b' = next_backoff (cc_ReconnectMaxBackoff cfg) (cc_ReconnectBackoff cfg)"
proof -
  obtain err w1 where o: "consumer_openSession (re_dial r) (re_call r) (re_close r) cfg w = (err, w1)"
    by fastforce
  obtain res s where c: "consumeSession pf e cfg evs w1 = (res, s)" by fastforce
  show ?thesis
    using assms o c
    by (cases err; cases res)
      (auto simp: run_turn_def Let_def split: if_splits dest: reconnect_backoff)
qed

lemma run_turn_backoff:
  assumes "run_turn pf e r cfg evs b w = (Some b', w')" "valid_backoffs cfg"
    and "cc_ReconnectBackoff cfg \<le> b" "b \<le> cc_ReconnectMaxBackoff cfg"
  shows "cc_ReconnectBackoff cfg \<le> b' \<and> b' \<le> cc_ReconnectMaxBackoff cfg"
proof -
  have "cc_ReconnectBackoff cfg \<le> next_backoff (cc_ReconnectMaxBackoff cfg) d \<and>
      next_backoff (cc_ReconnectMaxBackoff cfg) d \<le> cc_ReconnectMaxBackoff cfg"
    if "cc_ReconnectBackoff cfg \<le> d" "d \<le> cc_ReconnectMaxBackoff cfg" for d
    using that assms(2)
      next_backoff_bounds [of "cc_ReconnectBackoff cfg" d "cc_ReconnectMaxBackoff cfg"]
    by (simp add: valid_backoffs_def)
  note step = this
  have "cc_ReconnectBackoff cfg \<le> cc_ReconnectMaxBackoff cfg"
    using assms(2) by (simp add: valid_backoffs_def)
  then show ?thesis
    using run_turn_next [OF assms(1)] step [OF assms(3,4)] step [of "cc_ReconnectBackoff cfg"] by auto
qed

lemma consumer_Run_backoff:
  assumes "consumer_Run pf e r cfg evss b w = (Some b', w')" "valid_backoffs cfg"
    and "cc_ReconnectBackoff cfg \<le> b" "b \<le> cc_ReconnectMaxBackoff cfg"
  shows "cc_ReconnectBackoff cfg \<le> b' \<and> b' \<le> cc_ReconnectMaxBackoff cfg"
  using assms
proof (induction evss arbitrary: b w)
  case (Cons evs evss)
  obtain o1 w1 where t: "run_turn pf e r cfg evs b w = (o1, w1)" by fastforce
  with Cons.prems(1) obtain b1 where b1: "o1 = Some b1" by (cases o1) auto
  have "cc_ReconnectBackoff cfg \<le> b1 \<and> b1 \<le> cc_ReconnectMaxBackoff cfg"
    using run_turn_backoff [OF t [unfolded b1] Cons.prems(2-4)] .
  then show ?case using Cons t b1 by simp
qed simp

subsection \<open>The configuration a consumer runs with\<close>

lemma NewRabbitMQMetricConsumer_config:
  assumes "NewRabbitMQMetricConsumer config nil = Inr cfg"
  shows "0 < cc_BatchMax cfg" "0 < cc_Prefetch cfg" "0 < cc_FlushInterval cfg" "\<not> nil"
    "0 < cc_FailureBackoff cfg" "cc_FailureBackoff cfg \<le> cc_FailureMaxBackoff cfg"
    "0 < cc_ReconnectBackoff cfg" "cc_ReconnectBackoff cfg \<le> cc_ReconnectMaxBackoff cfg"
    "cc_URL cfg \<noteq> []"
  using assms
  by (auto simp: NewRabbitMQMetricConsumer_def consumer_validate_def Let_def
      split: if_splits option.splits)

lemma jitterDuration_bounds:
  assumes "\<forall>n > 0. 0 \<le> rnd n \<and> rnd n < n" "0 \<le> d"
  shows "d div 2 \<le> jitterDuration rnd d \<and> jitterDuration rnd d \<le> d"
proof -
  have "0 \<le> rnd (d - d div 2 + 1) \<and> rnd (d - d div 2 + 1) < d - d div 2 + 1"
    using assms(2) by (intro assms(1) [rule_format]) simp
  then show ?thesis using assms(2) by (auto simp: jitterDuration_def go_div_nonneg Let_def)
qed

end
