(* ===== verification/ConsumerProps.thy ===== *)
theory ConsumerProps
  imports ConsumerSafety
begin

section \<open>Properties of the ingest consumer\<close>

text \<open>
  What theories \<open>Consumer\<close> and \<open>ConsumerSafety\<close> give for a whole session, for every sequence
  of events, every answer of the sink, the channel and the waits, and every iteration order.
\<close>

subsection \<open>A published message as the consumer receives it\<close>

text \<open>The broker carries the properties, headers and body of a publishing unchanged.\<close>

definition delivery_of :: "amqp_publishing \<Rightarrow> nat \<Rightarrow> bool \<Rightarrow> delivery" where
  "delivery_of pub tag redelivered =
     \<lparr>dl_ContentType = ap_ContentType pub, dl_MessageId = ap_MessageId pub,
      dl_CorrelationId = ap_CorrelationId pub, dl_Headers = ap_Headers pub,
      dl_DeliveryTag = tag, dl_Redelivered = redelivered, dl_Body = ap_Body pub\<rparr>"

lemma delivery_of_marshalled:
  assumes "float_codec pf ff" "spec_batch b" "messageID \<noteq> []" "ascii messageID"
    and msg: "NewIngestMessage b (Inr messageID) = Inr msg"
    and pub: "MarshalIngestPublishing ff msg now = Inr pub"
  shows "validateDelivery pf (delivery_of pub tag red) = Inr (canonical_message msg)"
    and "ExpandMetricPoints (canonical_message msg) = batch_points b"
proof -
  note spec = spec_batch_message [OF assms(2) msg assms(3)]
  have dec: "DecodeIngestMessage pf (ap_Body pub) = Inr (canonical_message msg)"
    using Marshal_decode [OF assms(1) spec(1), of now] spec(3,4) assms(4) pub by auto
  have v: "im_SchemaVersion msg = 1" using spec(1) by (simp add: spec_message_def)
  have h: "ap_Headers pub = [(''schema_version'', AInt32 1), (''message_id'', AString messageID),
        (''correlation_id'', AString messageID)]"
    "ap_ContentType pub = ''application/json''" "ap_MessageId pub = messageID"
    "ap_CorrelationId pub = messageID"
    using pub spec(3,4) v by (auto simp: MarshalIngestPublishing_def int32_of_def split: option.splits)
  show "validateDelivery pf (delivery_of pub tag red) = Inr (canonical_message msg)"
    using dec h assms(3) spec(3,4)
    by (simp add: validateDelivery_def delivery_of_def json_content_type_def integerHeader_def
        string_header_def IngestSchemaVersion_def canonical_message_def)
  show "ExpandMetricPoints (canonical_message msg) = batch_points b"
    using Expand_canonical [OF spec(1)] spec(5) by simp
qed

text \<open>
  What the API publishes for a batch of the contract passes the consumer's delivery
  validation (content type, identifiers and headers against the body), and the points it is
  expanded into are the batch's: a message of the API is never dead-lettered.
\<close>

theorem published_delivery_accepted:
  assumes "float_codec pf ff" "spec_batch b" "messageID \<noteq> []" "ascii messageID"
    and "NewIngestMessage b (Inr messageID) = Inr msg"
    and "MarshalIngestPublishing ff msg now = Inr pub"
  shows "\<exists>got. validateDelivery pf (delivery_of pub tag red) = Inr got \<and>
    ExpandMetricPoints got = batch_points b \<and> im_TaskID got = mb_TaskID b"
proof -
  have "im_TaskID msg = mb_TaskID b"
    using assms(5) by (auto simp: NewIngestMessage_def)
  with delivery_of_marshalled [OF assms] show ?thesis
    by (auto simp: canonical_message_def)
qed

text \<open>The running example of the witnesses: one delivery of two points.\<close>

definition example_message :: ingest_message where
  "example_message =
     \<lparr>im_SchemaVersion = 1, im_MessageID = ''id'', im_CorrelationID = ''id'', im_TaskID = ''t'',
      im_Batch = [\<lparr>is_Step = 1, is_TS = 1, is_Metrics = [(''b'', 7), (''a'', 0)]\<rparr>]\<rparr>"

definition example_publishing :: amqp_publishing where
  "example_publishing =
     (case MarshalIngestPublishing bits_format example_message 0 of
        Inr pub \<Rightarrow> pub
      | Inl _ \<Rightarrow> \<lparr>ap_Headers = [], ap_ContentType = [], ap_DeliveryMode = 0, ap_Priority = 0,
                  ap_CorrelationId = [], ap_MessageId = [], ap_Timestamp = 0, ap_Body = []\<rparr>)"

definition example_delivery :: delivery where
  "example_delivery = delivery_of example_publishing 1 False"

definition example_point :: "string \<Rightarrow> float64 \<Rightarrow> metric_point" where
  "example_point k v =
     \<lparr>mp_TaskID = ''t'', mp_Key = k, mp_Step = 1, mp_TimestampMillis = 1, mp_Value = v\<rparr>"

lemma example_new: "NewIngestMessage example_batch (Inr ''id'') = Inr example_message"
  by (simp add: NewIngestMessage_def example_batch_def example_message_def IngestSchemaVersion_def
      message_sample_def copy_map_def)

lemma example_marshal: "MarshalIngestPublishing bits_format example_message 0 = Inr example_publishing"
proof -
  obtain pub where "MarshalIngestPublishing bits_format example_message 0 = Inr pub"
    using Marshal_decode [OF float_codec_bits spec_batch_message(1) [OF example_batch_spec example_new],
        of 0]
    by (auto simp: example_message_def ascii_def byte_def)
  then show ?thesis by (simp add: example_publishing_def)
qed

lemma example_valid:
  "\<exists>got. validateDelivery bits_parse example_delivery = Inr got \<and>
    ExpandMetricPoints got = [example_point ''a'' 0, example_point ''b'' 7]"
proof -
  have "ascii ''id''" by (simp add: ascii_def byte_def)
  moreover have "batch_points example_batch = [example_point ''a'' 0, example_point ''b'' 7]"
    by (simp add: batch_points_def example_batch_def sorted_entries_def less_char_def
        example_point_def)
  ultimately show ?thesis
    using delivery_of_marshalled(1) [OF float_codec_bits example_batch_spec _ _ example_new
        example_marshal, of 1 False]
      delivery_of_marshalled(2) [OF float_codec_bits example_batch_spec _ _ example_new
        example_marshal]
    by (auto simp: example_delivery_def)
qed

lemma published_delivery_accepted_witness:
  "\<exists>got. validateDelivery bits_parse (delivery_of example_publishing 9 True) = Inr got \<and>
    ExpandMetricPoints got = batch_points example_batch \<and> im_TaskID got = ''t''"
proof -
  have "ascii ''id''" by (simp add: ascii_def byte_def)
  then show ?thesis
    using published_delivery_accepted [OF float_codec_bits example_batch_spec _ _ example_new
        example_marshal, of 9 True]
    by (simp add: example_batch_def)
qed

definition example_config :: consumer_config where
  "example_config =
     \<lparr>cc_URL = ''amqp'', cc_Prefetch = 500, cc_BatchMax = 2, cc_FlushInterval = 100 * millisecond,
      cc_FailureBackoff = 100 * millisecond, cc_FailureMaxBackoff = 30 * second,
      cc_ReconnectBackoff = 100 * millisecond, cc_ReconnectMaxBackoff = 5 * second,
      cc_ShutdownTimeout = 5 * second, cc_Topology = DefaultTopology,
      cc_ConsumerTag = ''metrics-worker''\<rparr>"

lemma example_config_new: "NewRabbitMQMetricConsumer example_config False = Inr example_config"
  by (simp add: NewRabbitMQMetricConsumer_def example_config_def consumer_withDefaults_def
      or_default_def or_default_topology_def consumer_validate_def duration_defs Let_def
      DefaultTopology_def zero_topology_def)

text \<open>An environment in which everything succeeds, and one whose sink always fails.\<close>

definition ok_env :: "unit consumer_env" where
  "ok_env =
     \<lparr>ce_flush = (\<lambda>_ _ w. (None, w)), ce_wait = (\<lambda>_ _ w. (None, w)),
      ce_ctx_err = (\<lambda>_ _. None), ce_ack = (\<lambda>_ w. (None, w)), ce_nack = (\<lambda>_ _ w. (None, w)),
      ce_jitter = (\<lambda>d w. (d, w)), ce_order = (\<lambda>rows _. rows)\<rparr>"

definition failing_env :: "unit consumer_env" where
  "failing_env = ok_env\<lparr>ce_flush := (\<lambda>_ _ w. (Some (ErrNew ''down''), w))\<rparr>"

lemma env_visits_all [simp]: "visits_all ok_env" "visits_all failing_env"
  by (simp_all add: visits_all_def ok_env_def failing_env_def)

definition example_buffered :: "buffered_point list" where
  "example_buffered = [(example_point ''a'' 0, 0), (example_point ''b'' 7, 0)]"

lemma example_ok_run:
  "\<exists>t. consumeSession bits_parse ok_env example_config [EvDelivery example_delivery] () = (None, t) \<and>
    cs_log t = [EAck 0 True, EFlush example_buffered True] \<and> cs_buffer t = [] \<and>
    length (cs_states t) = 1"
proof -
  obtain got where "validateDelivery bits_parse example_delivery = Inr got"
    "ExpandMetricPoints got = [example_point ''a'' 0, example_point ''b'' 7]"
    using example_valid by blast
  then show ?thesis
    by (simp add: consumeSession_def consume_event_def consume_delivery_def new_session_def
        start_timer_def flush_buffer_def consumer_flush_def ok_env_def example_config_def Let_def
        note_effect_def committedRowsByDelivery_def count_bump_def add_committed_def set_terminal_def
        example_buffered_def)
qed

subsection \<open>Acknowledgements\<close>

text \<open>
  C10. No point is lost by an early acknowledgement: whenever a delivery is acknowledged, at
  whatever moment of a session, the points of its message (all of them, in order, each once)
  had already been in successful flushes of the sink, and the delivery had not been settled.
\<close>

theorem ack_only_after_commit:
  assumes "NewRabbitMQMetricConsumer config False = Inr cfg" "visits_all e"
    and "consumeSession pf e cfg evs w = (r, t)"
    and "cs_log t = newer @ EAck i ok # older"
  shows "i < length (cs_states t) \<and> settles i older = 0 \<and>
    (\<exists>msg. validateDelivery pf (ds_delivery (cs_states t ! i)) = Inr msg \<and>
       flushed i older = ExpandMetricPoints msg)"
proof -
  have "log_safe pf (cc_BatchMax cfg) (deliveries t) (newer @ EAck i ok # older)"
    using consumeSession_safe(1) [OF NewRabbitMQMetricConsumer_config(1) [OF assms(1)] assms(2,3)]
    by (simp add: assms(4))
  then have "entry_ok pf (cc_BatchMax cfg) (deliveries t) (EAck i ok) older"
    by (rule log_safe_entry)
  then show ?thesis by (auto simp: deliveries_def)
qed

lemma ack_only_after_commit_witness:
  "\<exists>t msg. consumeSession bits_parse ok_env example_config [EvDelivery example_delivery] () = (None, t)
    \<and> validateDelivery bits_parse (ds_delivery (cs_states t ! 0)) = Inr msg
    \<and> flushed 0 [EFlush example_buffered True] = ExpandMetricPoints msg"
proof -
  obtain t where t: "consumeSession bits_parse ok_env example_config [EvDelivery example_delivery] ()
      = (None, t)" "cs_log t = [] @ EAck 0 True # [EFlush example_buffered True]"
    using example_ok_run by auto
  from ack_only_after_commit [OF example_config_new _ t] t(1) show ?thesis by auto
qed

text \<open>
  A delivery is settled at most once in a session: acknowledged once or given back once,
  never both, even when the call that settles it fails.
\<close>

theorem settled_at_most_once:
  assumes "NewRabbitMQMetricConsumer config False = Inr cfg" "visits_all e"
    and "consumeSession pf e cfg evs w = (r, t)"
  shows "settles i (cs_log t) \<le> 1"
  using consumeSession_safe(1) [OF NewRabbitMQMetricConsumer_config(1) [OF assms(1)] assms(2,3)]
  by (rule settles_le_1)

lemma settled_at_most_once_witness:
  "\<exists>t. consumeSession bits_parse ok_env example_config [EvDelivery example_delivery] () = (None, t) \<and>
    settles 0 (cs_log t) = 1 \<and> settles 0 (cs_log t) \<le> 1"
  using example_ok_run settled_at_most_once [OF example_config_new env_visits_all(1)] by fastforce

text \<open>
  C19. No accepted delivery is forgotten: while a session runs, every delivery that is not
  settled has uncommitted points in the buffer, these are exactly the points of its message
  that no successful flush has had, and the flush timer is armed.
\<close>

theorem unsettled_has_pending_points:
  assumes "NewRabbitMQMetricConsumer config False = Inr cfg" "visits_all e"
    and "consumeSession pf e cfg evs w = (None, t)"
    and "i < length (cs_states t)" "settles i (cs_log t) = 0"
  shows "cs_timer t \<and> points_of i (cs_buffer t) \<noteq> [] \<and>
    (\<exists>msg. validateDelivery pf (ds_delivery (cs_states t ! i)) = Inr msg \<and>
       flushed i (cs_log t) @ points_of i (cs_buffer t) = ExpandMetricPoints msg)"
proof -
  have inv: "session_inv pf (cc_BatchMax cfg) t"
    by (rule consumeSession_safe(2)
        [OF NewRabbitMQMetricConsumer_config(1) [OF assms(1)] assms(2,3) refl])
  then have "state_inv pf [] t i"
    using assms(4) by (simp add: session_inv_def core_inv_def)
  then obtain msg where v: "validateDelivery pf (ds_delivery (cs_states t ! i)) = Inr msg"
    and lt: "length (flushed i (cs_log t)) < length (ExpandMetricPoints msg)"
    and f: "flushed i (cs_log t) @ points_of i (cs_buffer t) = ExpandMetricPoints msg"
    using assms(4,5) by (auto simp: state_inv_def deliveries_def split: if_splits)
  have "points_of i (cs_buffer t) \<noteq> []" using f lt by auto
  moreover from this have "cs_buffer t \<noteq> []" by auto
  ultimately show ?thesis using v f inv by (simp add: session_inv_def)
qed

definition wide_config :: consumer_config where
  "wide_config = example_config\<lparr>cc_BatchMax := 500\<rparr>"

lemma wide_config_new: "NewRabbitMQMetricConsumer wide_config False = Inr wide_config"
  by (simp add: NewRabbitMQMetricConsumer_def wide_config_def example_config_def
      consumer_withDefaults_def or_default_def or_default_topology_def consumer_validate_def
      duration_defs Let_def DefaultTopology_def zero_topology_def)

lemma example_wide_run:
  "\<exists>t. consumeSession bits_parse e wide_config [EvDelivery example_delivery] w = (None, t) \<and>
    cs_log t = [] \<and> cs_buffer t = example_buffered \<and> length (cs_states t) = 1 \<and>
    ds_terminal (cs_states t ! 0) = False"
proof -
  obtain got where "validateDelivery bits_parse example_delivery = Inr got"
    "ExpandMetricPoints got = [example_point ''a'' 0, example_point ''b'' 7]"
    using example_valid by blast
  then show ?thesis
    by (simp add: consumeSession_def consume_event_def consume_delivery_def new_session_def
        start_timer_def wide_config_def example_config_def Let_def example_buffered_def)
qed

lemma unsettled_has_pending_points_witness:
  "\<exists>t. consumeSession bits_parse failing_env wide_config [EvDelivery example_delivery] () = (None, t) \<and>
    cs_timer t \<and> points_of 0 (cs_buffer t) \<noteq> []"
proof -
  obtain t where t: "consumeSession bits_parse failing_env wide_config [EvDelivery example_delivery] ()
      = (None, t)" "0 < length (cs_states t)" "settles 0 (cs_log t) = 0"
    using example_wide_run [of failing_env "()"]
    by (metis length_0_conv less_numeral_extra(1) settles.simps(1))
  from unsettled_has_pending_points [OF wide_config_new env_visits_all(2) t] t(1) show ?thesis by blast
qed

text \<open>
  C27. Only valid deliveries reach the sink, and an invalid one is only ever rejected. In every
  session: each flush, failed or not, has between one
  and \<open>BatchMax\<close> points, each a point of a delivery that passed validation and was not yet
  settled; each acknowledgement and each requeue is of a delivery that passed validation. A
  delivery that fails validation, at any moment of a session, is answered by one nack without
  requeue, which sends it to the dead-letter queue, and by nothing else: buffer, deliveries, timer and
  backoff stay as they are; when the nack fails the session ends with its error.
\<close>

theorem sink_only_sees_valid_points:
  assumes "NewRabbitMQMetricConsumer config False = Inr cfg" "visits_all e"
    and "consumeSession pf e cfg evs w = (r, t)"
  shows "(\<forall>newer b ok older. cs_log t = newer @ EFlush b ok # older \<longrightarrow>
      0 < length b \<and> int (length b) \<le> cc_BatchMax cfg \<and>
      (\<forall>(p, i) \<in> set b. i < length (cs_states t) \<and> settles i older = 0 \<and>
         (\<exists>msg. validateDelivery pf (ds_delivery (cs_states t ! i)) = Inr msg \<and>
            p \<in> set (ExpandMetricPoints msg)))) \<and>
    (\<forall>i ok. EAck i ok \<in> set (cs_log t) \<or> ERequeue i ok \<in> set (cs_log t) \<longrightarrow>
      i < length (cs_states t) \<and> (\<exists>msg. validateDelivery pf (ds_delivery (cs_states t ! i)) = Inr msg)) \<and>
    (\<forall>d perr nerr w'. validateDelivery pf d = Inl perr \<longrightarrow> ce_nack e d False (cs_world t) = (nerr, w') \<longrightarrow>
      consume_delivery pf e cfg d t =
        (case nerr of None \<Rightarrow> None | Some err \<Rightarrow> Some (ErrWrap ''dead-letter delivery'' [err]),
         t\<lparr>cs_log := EReject d (nerr = None) # cs_log t, cs_world := w'\<rparr>))"
proof (intro conjI allI impI)
  have safe: "log_safe pf (cc_BatchMax cfg) (deliveries t) (cs_log t)"
    by (rule consumeSession_safe(1) [OF NewRabbitMQMetricConsumer_config(1) [OF assms(1)] assms(2,3)])
  have entry: "entry_ok pf (cc_BatchMax cfg) (deliveries t) x older" if "cs_log t = newer @ x # older" for newer x older
    using safe unfolding that by (rule log_safe_entry)
  {
    fix newer b ok older
    assume "cs_log t = newer @ EFlush b ok # older"
    from entry [OF this] show "0 < length b" "int (length b) \<le> cc_BatchMax cfg"
      "\<forall>(p, i) \<in> set b. i < length (cs_states t) \<and> settles i older = 0 \<and>
         (\<exists>msg. validateDelivery pf (ds_delivery (cs_states t ! i)) = Inr msg \<and> p \<in> set (ExpandMetricPoints msg))"
      by (fastforce simp: deliveries_def)+
  next
    fix i ok
    assume "EAck i ok \<in> set (cs_log t) \<or> ERequeue i ok \<in> set (cs_log t)"
    then obtain x newer older where x: "cs_log t = newer @ x # older" "x = EAck i ok \<or> x = ERequeue i ok"
      by (metis split_list)
    from entry [OF x(1)] x(2) show "i < length (cs_states t)"
      "\<exists>msg. validateDelivery pf (ds_delivery (cs_states t ! i)) = Inr msg"
      by (auto simp: deliveries_def)
  next
    fix d perr nerr w'
    assume "validateDelivery pf d = Inl perr" "ce_nack e d False (cs_world t) = (nerr, w')"
    then show "consume_delivery pf e cfg d t =
        (case nerr of None \<Rightarrow> None | Some err \<Rightarrow> Some (ErrWrap ''dead-letter delivery'' [err]),
         t\<lparr>cs_log := EReject d (nerr = None) # cs_log t, cs_world := w'\<rparr>)"
      by (cases nerr) (simp_all add: consume_delivery_def note_effect_def)
  }
qed

lemma sink_only_sees_valid_points_witness:
  "\<exists>t. consumeSession bits_parse ok_env example_config [EvDelivery example_delivery] () = (None, t) \<and>
    int (length example_buffered) \<le> cc_BatchMax example_config \<and>
    (\<forall>(p, i) \<in> set example_buffered. i < length (cs_states t)) \<and> 0 < length (cs_states t)"
proof -
  obtain t where t: "consumeSession bits_parse ok_env example_config [EvDelivery example_delivery] ()
      = (None, t)" and log: "cs_log t = [EAck 0 True] @ EFlush example_buffered True # []"
    using example_ok_run by auto
  note valid = sink_only_sees_valid_points [OF example_config_new env_visits_all(1) t]
  from conjunct1 [OF valid, rule_format, OF log] conjunct1 [OF conjunct2 [OF valid], rule_format, of 0 True] log t
  show ?thesis by fastforce
qed

text \<open>
  C24. Shutdown drains: when the context is done and the last flush and its acknowledgements
  succeed, the session returns the context's error with an empty buffer and every delivery it
  accepted settled exactly once.
\<close>

theorem shutdown_settles_everything:
  assumes "NewRabbitMQMetricConsumer config False = Inr cfg" "visits_all e"
    and "consumeSession pf e cfg evs w = (None, s)"
    and "flush_buffer e cfg ShutdownCtx s = (None, t)"
  shows "consumeSession pf e cfg (evs @ [EvDone]) w = (Some (ce_ctx_err e SessionCtx (cs_world t)), t)
    \<and> cs_buffer t = [] \<and> (\<forall>i < length (cs_states t). settles i (cs_log t) = 1)"
proof -
  let ?m = "cc_BatchMax cfg"
  have inv: "session_inv pf ?m s"
    by (rule consumeSession_safe(2)
        [OF NewRabbitMQMetricConsumer_config(1) [OF assms(1)] assms(2,3) refl])
  then have core: "core_inv pf ?m [] s" "int (length (cs_buffer s)) \<le> ?m"
    by (simp_all add: session_inv_def)
  have t: "core_inv pf ?m [] t" "cs_buffer t = []"
    using flush_buffer_inv [OF core assms(2,4)] by simp_all
  have "consume_loop pf e cfg (evs @ [EvDone]) s0 = (Some (ce_ctx_err e SessionCtx (cs_world t)), t)"
    if "consume_loop pf e cfg evs s0 = (None, s)" for s0
    using that assms(4)
    by (induction evs arbitrary: s0) (auto simp: consume_event_def split: prod.splits option.splits)
  moreover have "settles i (cs_log t) = 1" if i: "i < length (cs_states t)" for i
    using core_invD [OF t(1) i] t(2) by (auto simp: state_inv_def split: if_splits)
  ultimately show ?thesis using assms(3) t(2) by (simp add: consumeSession_def)
qed

lemma shutdown_settles_everything_witness:
  "\<exists>t. consumeSession bits_parse ok_env example_config ([EvDelivery example_delivery] @ [EvDone]) ()
      = (Some (ce_ctx_err ok_env SessionCtx (cs_world t)), t)
    \<and> settles 0 (cs_log t) = 1"
proof -
  obtain s where s: "consumeSession bits_parse ok_env example_config [EvDelivery example_delivery] ()
      = (None, s)" "cs_buffer s = []" "length (cs_states s) = 1"
    using example_ok_run by auto
  have f: "flush_buffer ok_env example_config ShutdownCtx s = (None, s\<lparr>cs_timer := False\<rparr>)"
    by (simp add: flush_buffer_def s Let_def)
  from shutdown_settles_everything [OF example_config_new env_visits_all(1) s(1) f] s(3)
  show ?thesis by (intro exI [of _ "s\<lparr>cs_timer := False\<rparr>"]) simp
qed

text \<open>
  Both retry delays stay within their configured range, for every limit below
  \<open>2 ^ 62\<close> nanoseconds: the flush-failure backoff at every moment of a session and the
  reconnect backoff after any number of sessions; doubling never wraps around.
\<close>

theorem consumer_backoffs_bounded:
  assumes "NewRabbitMQMetricConsumer config False = Inr cfg"
    and "cc_FailureMaxBackoff cfg < 2 ^ 62" "cc_ReconnectMaxBackoff cfg < 2 ^ 62"
  shows "(\<forall>evs w. cc_FailureBackoff cfg \<le> cs_failureBackoff (snd (consumeSession pf e cfg evs w)) \<and>
       cs_failureBackoff (snd (consumeSession pf e cfg evs w)) \<le> cc_FailureMaxBackoff cfg) \<and>
    (\<forall>evss w b w'. consumer_Run pf e r cfg evss (cc_ReconnectBackoff cfg) w = (Some b, w') \<longrightarrow>
       cc_ReconnectBackoff cfg \<le> b \<and> b \<le> cc_ReconnectMaxBackoff cfg)"
proof -
  note c = NewRabbitMQMetricConsumer_config [OF assms(1)]
  have v: "valid_backoffs cfg" using c assms(2,3) by (simp add: valid_backoffs_def)
  have "backoff_in cfg (snd (consumeSession pf e cfg evs w))" for evs w
  proof -
    have "backoff_in cfg (new_session cfg w)"
      using c by (simp add: backoff_in_def new_session_def)
    then show ?thesis
      unfolding consumeSession_def by (rule consume_loop_backoff [OF surjective_pairing v])
  qed
  moreover have "cc_ReconnectBackoff cfg \<le> b \<and> b \<le> cc_ReconnectMaxBackoff cfg"
    if "consumer_Run pf e r cfg evss (cc_ReconnectBackoff cfg) w = (Some b, w')" for evss w b w'
    by (rule consumer_Run_backoff [OF that v]) (use c in simp_all)
  ultimately show ?thesis by (simp add: backoff_in_def)
qed

lemma consumer_backoffs_bounded_witness:
  "cs_failureBackoff (snd (consumeSession bits_parse failing_env example_config
       [EvDelivery example_delivery] ())) \<le> 30 * second"
  using consumer_backoffs_bounded [OF example_config_new, of bits_parse failing_env]
  by (simp add: example_config_def duration_defs)

end
