(* ===== verification/Sink.thy ===== *)
theory Sink
  imports ConsumerProps
begin

section \<open>The sink the consumer relies on\<close>

text \<open>
  The interface between \<open>consumer.go\<close> and its \<open>MetricPointSink\<close>: a flush that returns nil has
  stored its points, and no flush loses what was stored. From it follows that at every moment of
  a session the points of all successful flushes are stored.
\<close>

locale metric_sink =
  fixes flush :: "flush_ctx \<Rightarrow> metric_point list \<Rightarrow> 'w \<Rightarrow> go_error option \<times> 'w"
    and stored :: "'w \<Rightarrow> metric_point \<Rightarrow> bool"
  assumes flush_stores: "flush ctx ps w = (None, w') \<Longrightarrow> p \<in> set ps \<Longrightarrow> stored w' p"
    and flush_keeps: "flush ctx ps w = (r, w') \<Longrightarrow> stored w p \<Longrightarrow> stored w' p"

text \<open>The other calls of the environment do not touch what is stored.\<close>

definition env_keeps :: "('w \<Rightarrow> metric_point \<Rightarrow> bool) \<Rightarrow> 'w consumer_env \<Rightarrow> bool" where
  "env_keeps stored e \<longleftrightarrow>
     (\<forall>w p. stored w p \<longrightarrow>
        (\<forall>d. stored (snd (ce_ack e d w)) p) \<and> (\<forall>d b. stored (snd (ce_nack e d b w)) p) \<and>
        (\<forall>c d. stored (snd (ce_wait e c d w)) p) \<and> (\<forall>d. stored (snd (ce_jitter e d w)) p))"

definition batch_stored :: "('w \<Rightarrow> metric_point \<Rightarrow> bool) \<Rightarrow> 'w \<Rightarrow> buffered_point list \<Rightarrow> bool" where
  "batch_stored stored w b \<longleftrightarrow> (\<forall>p \<in> set (map fst b). stored w p)"

definition sunk :: "('w \<Rightarrow> metric_point \<Rightarrow> bool) \<Rightarrow> 'w consumer \<Rightarrow> bool" where
  "sunk stored s \<longleftrightarrow>
     (\<forall>b. EFlush b True \<in> set (cs_log s) \<longrightarrow> batch_stored stored (cs_world s) b)"

lemma batch_stored_mono:
  "batch_stored stored w b \<Longrightarrow> (\<And>p. stored w p \<Longrightarrow> stored w' p) \<Longrightarrow> batch_stored stored w' b"
  by (simp add: batch_stored_def)

text \<open>One more entry in the log, one more state of the world.\<close>

lemma sunk_step:
  assumes "sunk stored s" "\<And>p. stored (cs_world s) p \<Longrightarrow> stored (cs_world t) p"
    and "cs_log t = x # cs_log s \<or> cs_log t = cs_log s"
    and "\<And>b. x = EFlush b True \<Longrightarrow> batch_stored stored (cs_world t) b"
  shows "sunk stored t"
  unfolding sunk_def
proof (intro allI impI)
  fix b
  assume "EFlush b True \<in> set (cs_log t)"
  then have "x = EFlush b True \<or> EFlush b True \<in> set (cs_log s)" using assms(3) by auto
  then show "batch_stored stored (cs_world t) b"
    using assms(4) batch_stored_mono [of stored "cs_world s" b "cs_world t"] assms(1,2)
    unfolding sunk_def by blast
qed

lemma sunk_frame:
  "cs_log t = cs_log s \<Longrightarrow> cs_world t = cs_world s \<Longrightarrow> sunk stored s \<Longrightarrow> sunk stored t"
  by (simp add: sunk_def)

lemma env_keepsD:
  assumes "env_keeps stored e" "stored w p"
  shows "ce_ack e d w = (r, w') \<Longrightarrow> stored w' p" "ce_nack e d b w = (r, w') \<Longrightarrow> stored w' p"
    "ce_wait e c n w = (r, w') \<Longrightarrow> stored w' p" "ce_jitter e n w = (m, w') \<Longrightarrow> stored w' p"
  using assms unfolding env_keeps_def by (metis snd_conv)+

lemma requeue_states_sunk:
  "requeue_states e is s = (r, t) \<Longrightarrow> env_keeps stored e \<Longrightarrow> sunk stored s \<Longrightarrow> sunk stored t"
proof (induction "is" arbitrary: s)
  case (Cons i "is")
  obtain err w where n: "ce_nack e (ds_delivery (cs_states (set_terminal i s) ! i)) True
      (cs_world (set_terminal i s)) = (err, w)" by fastforce
  have "sunk stored (note_effect (ERequeue i ok) w (set_terminal i s))" for ok
    using Cons.prems(3) env_keepsD(2) [OF Cons.prems(2) _ n]
    by (intro sunk_step [OF Cons.prems(3)]) auto
  then show ?case using Cons n by (cases err) (auto simp: Let_def)
qed simp

lemma commit_rows_sunk:
  "commit_rows e rows s = (r, t) \<Longrightarrow> env_keeps stored e \<Longrightarrow> sunk stored s \<Longrightarrow> sunk stored t"
proof (induction rows arbitrary: s)
  case (Cons x rest)
  obtain i k where x: "x = (i, k)" by fastforce
  let ?s1 = "add_committed i k s"
  have s1: "sunk stored ?s1" by (rule sunk_frame [OF _ _ Cons.prems(3)]) simp_all
  obtain err w where n: "ce_ack e (ds_delivery (cs_states ?s1 ! i)) (cs_world ?s1) = (err, w)" by fastforce
  have noted: "sunk stored (note_effect (EAck i ok) w ?s1)" for ok
    using env_keepsD(1) [OF Cons.prems(2) _ n] by (intro sunk_step [OF s1]) auto
  have term_sunk: "sunk stored (set_terminal i (note_effect (EAck i True) w ?s1))"
    by (rule sunk_frame [OF _ _ noted]) simp_all
  show ?case
  proof (cases "ds_terminal (cs_states s ! i)")
    case True
    then show ?thesis using Cons x by auto
  next
    case False
    show ?thesis
    proof (cases "ds_committedRows (cs_states ?s1 ! i) = ds_totalRows (cs_states ?s1 ! i)")
      case True
      then show ?thesis
        using Cons.prems(1) Cons.IH [OF _ Cons.prems(2) term_sunk] noted [of False] x False n
        by (cases err) (auto simp: Let_def)
    next
      case ne: False
      then show ?thesis using Cons.prems(1) Cons.IH [OF _ Cons.prems(2) s1] x False by (simp add: Let_def)
    qed
  qed
qed simp

lemma flushed_in_flush:
  "p \<in> set (flushed i l) \<Longrightarrow> \<exists>b. EFlush b True \<in> set l \<and> p \<in> set (map fst b)"
proof (induction i l rule: flushed.induct)
  case (2 i b ok l)
  show ?case
  proof (cases "p \<in> set (flushed i l)")
    case True
    then show ?thesis using 2 by auto
  next
    case False
    then have "ok" "p \<in> set (points_of i b)" using 2 by (auto split: if_splits)
    then have "EFlush b True \<in> set (EFlush b ok # l)" "p \<in> set (map fst b)"
      by (auto simp: points_of_def)
    then show ?thesis by blast
  qed
qed auto

context metric_sink
begin

lemma consumer_flush_sunk:
  assumes "consumer_flush e ctx batch d s = (r, t)" "ce_flush e = flush" "env_keeps stored e"
    and "sunk stored s"
  shows "sunk stored t"
proof -
  obtain ferr w where f: "flush ctx (map fst batch) (cs_world s) = (ferr, w)" by fastforce
  have noted: "sunk stored (note_effect (EFlush batch (ferr = None)) w s)"
    using flush_stores [of ctx "map fst batch" "cs_world s" w] flush_keeps [OF f] f
    by (intro sunk_step [OF assms(4)]) (auto simp: batch_stored_def)
  show ?thesis
  proof (cases ferr)
    case None
    let ?s1 = "note_effect (EFlush batch True) w s"
    obtain q s2 where c: "commit_rows e (ce_order e (committedRowsByDelivery batch) (cs_world ?s1)) ?s1 = (q, s2)"
      by fastforce
    have s1: "sunk stored ?s1" using noted None by simp
    have "consumer_flush e ctx batch d s = ((False, q), s2)"
      unfolding consumer_flush_def assms(2) f None Let_def prod.case option.case c ..
    then have "t = s2" using assms(1) by simp
    then show ?thesis using commit_rows_sunk [OF c assms(3) s1] by blast
  next
    case (Some x)
    let ?s1 = "note_effect (EFlush batch False) w s"
    obtain d1 w1 where j: "ce_jitter e d (cs_world ?s1) = (d1, w1)" by fastforce
    obtain waitErr w2 where wt: "ce_wait e ctx d1 w1 = (waitErr, w2)" by fastforce
    let ?s2 = "note_effect (EWait d1 (waitErr = None)) w2 ?s1"
    have s1: "sunk stored ?s1" using noted Some by simp
    have "stored (cs_world ?s1) p \<Longrightarrow> stored (cs_world ?s2) p" for p
      using env_keepsD(4) [OF assms(3) _ j] env_keepsD(3) [OF assms(3) _ wt] by simp
    then have s2: "sunk stored ?s2" by (intro sunk_step [OF s1, where t = ?s2 and x = "EWait d1 (waitErr = None)"]) simp_all
    have "consumer_flush e ctx batch d s = (if waitErr \<noteq> None \<and> ce_ctx_err e ctx w2 \<noteq> None then ((True, waitErr), ?s2)
        else (case requeue_states e (uniqueDeliveryStates batch) ?s2 of (q, s3) \<Rightarrow> ((True, q), s3)))"
      unfolding consumer_flush_def assms(2) f Some Let_def prod.case option.case j wt ..
    then have run: "(r, t) = (if waitErr \<noteq> None \<and> ce_ctx_err e ctx w2 \<noteq> None then ((True, waitErr), ?s2)
        else (case requeue_states e (uniqueDeliveryStates batch) ?s2 of (q, s3) \<Rightarrow> ((True, q), s3)))"
      using assms(1) by simp
    obtain q s3 where rq: "requeue_states e (uniqueDeliveryStates batch) ?s2 = (q, s3)" by fastforce
    have "t = ?s2 \<or> t = s3" using run rq by (auto split: if_splits)
    then show ?thesis using s2 requeue_states_sunk [OF rq assms(3) s2] by blast
  qed
qed

lemma flush_buffer_sunk:
  assumes "flush_buffer e cfg ctx s = (r, t)" "ce_flush e = flush" "env_keeps stored e" "sunk stored s"
  shows "sunk stored t"
proof (cases "cs_buffer s = []")
  case True
  then show ?thesis
    using assms by (auto simp: flush_buffer_def Let_def intro: sunk_frame [OF _ _ assms(4)])
next
  case False
  let ?s0 = "s\<lparr>cs_timer := False, cs_buffer := []\<rparr>"
  obtain failed err s1 where f: "consumer_flush e ctx (cs_buffer s) (cs_failureBackoff s) ?s0 = ((failed, err), s1)"
    by (metis prod.collapse)
  have "sunk stored ?s0" by (rule sunk_frame [OF _ _ assms(4)]) simp_all
  then have "sunk stored s1" by (rule consumer_flush_sunk [OF f assms(2,3)])
  then have "sunk stored (s1\<lparr>cs_failureBackoff := b\<rparr>)" for b by (rule sunk_frame [rotated 2]) simp_all
  then show ?thesis
    using assms(1) f False \<open>sunk stored s1\<close> by (auto simp: flush_buffer_def Let_def split: if_splits)
qed

lemma buffer_points_sunk:
  "buffer_points e cfg i ps s = (r, t) \<Longrightarrow> ce_flush e = flush \<Longrightarrow> env_keeps stored e \<Longrightarrow> sunk stored s
    \<Longrightarrow> sunk stored t"
proof (induction ps arbitrary: s)
  case (Cons p ps)
  let ?s1 = "start_timer (s\<lparr>cs_buffer := cs_buffer s @ [(p, i)]\<rparr>)"
  have s1: "sunk stored ?s1"
    by (rule sunk_frame [OF _ _ Cons.prems(4)]) (simp_all add: start_timer_def)
  show ?case
  proof (cases "ds_terminal (cs_states s ! i)")
    case True
    then show ?thesis using Cons.prems by simp
  next
    case False
    show ?thesis
    proof (cases "int (length (cs_buffer ?s1)) = cc_BatchMax cfg")
      case True
      obtain err s2 where f: "flush_buffer e cfg SessionCtx ?s1 = (err, s2)" by fastforce
      have s2: "sunk stored s2" by (rule flush_buffer_sunk [OF f Cons.prems(2,3) s1])
      then show ?thesis
        using Cons.prems(1) Cons.IH [OF _ Cons.prems(2,3) s2] False True f
        by (cases err) (simp_all add: Let_def)
    next
      case ne: False
      then show ?thesis
        using Cons.prems(1) Cons.IH [OF _ Cons.prems(2,3) s1] False by (simp add: Let_def)
    qed
  qed
qed simp

lemma consume_event_sunk:
  assumes "consume_event pf e cfg ev s = (r, t)" "ce_flush e = flush" "env_keeps stored e" "sunk stored s"
  shows "sunk stored t"
proof (cases ev)
  case (EvDelivery d)
  obtain err s1 where c: "consume_delivery pf e cfg d s = (err, s1)" by fastforce
  have "sunk stored s1"
  proof (cases "validateDelivery pf d")
    case (Inl perr)
    obtain nerr w where n: "ce_nack e d False (cs_world s) = (nerr, w)" by fastforce
    have "sunk stored (note_effect (EReject d ok) w s)" for ok
      using env_keepsD(2) [OF assms(3) _ n] by (intro sunk_step [OF assms(4)]) auto
    then show ?thesis using c Inl n by (cases nerr) (auto simp: consume_delivery_def)
  next
    case (Inr message)
    have "sunk stored (s\<lparr>cs_states := x\<rparr>)" for x
      by (rule sunk_frame [OF _ _ assms(4)]) simp_all
    then show ?thesis
      using c Inr buffer_points_sunk [OF _ assms(2,3)] by (simp add: consume_delivery_def Let_def)
  qed
  then show ?thesis using assms(1) EvDelivery c by (cases err) (auto simp: consume_event_def)
next
  case EvTimer
  obtain err s1 where f: "flush_buffer e cfg SessionCtx (s\<lparr>cs_timer := False\<rparr>) = (err, s1)" by fastforce
  have "sunk stored (s\<lparr>cs_timer := False\<rparr>)" by (rule sunk_frame [OF _ _ assms(4)]) simp_all
  then have "sunk stored s1" by (rule flush_buffer_sunk [OF f assms(2,3)])
  then show ?thesis using assms(1) EvTimer f by (cases err) (auto simp: consume_event_def)
next
  case EvDone
  obtain err s1 where f: "flush_buffer e cfg ShutdownCtx s = (err, s1)" by fastforce
  have "sunk stored s1" by (rule flush_buffer_sunk [OF f assms(2-4)])
  then show ?thesis using assms(1) EvDone f by (cases err) (auto simp: consume_event_def)
next
  case EvStreamClosed
  then show ?thesis using assms by (simp add: consume_event_def)
qed

lemma session_sunk:
  assumes "consumeSession pf e cfg evs w = (r, t)" "ce_flush e = flush" "env_keeps stored e"
  shows "sunk stored t"
proof -
  have "consume_loop pf e cfg evs s = (r, t) \<Longrightarrow> sunk stored s \<Longrightarrow> sunk stored t" for s
  proof (induction evs arbitrary: s)
    case (Cons ev evs)
    obtain r1 s1 where c: "consume_event pf e cfg ev s = (r1, s1)" by fastforce
    have "sunk stored s1" by (rule consume_event_sunk [OF c assms(2,3) Cons.prems(2)])
    then show ?case using Cons c by (cases r1) auto
  qed simp
  moreover have "sunk stored (new_session cfg w)" by (simp add: sunk_def new_session_def)
  ultimately show ?thesis using assms(1) by (simp add: consumeSession_def)
qed

text \<open>An acknowledged delivery's points are stored.\<close>

lemma acked_stored:
  assumes "NewRabbitMQMetricConsumer config False = Inr cfg" "visits_all e"
    and "consumeSession pf e cfg evs w = (r, t)" "ce_flush e = flush" "env_keeps stored e"
    and "EAck i ok \<in> set (cs_log t)"
  shows "\<exists>msg. validateDelivery pf (ds_delivery (cs_states t ! i)) = Inr msg \<and>
    (\<forall>p \<in> set (ExpandMetricPoints msg). stored (cs_world t) p)"
proof -
  obtain newer older where l: "cs_log t = newer @ EAck i ok # older"
    using assms(6) by (metis split_list)
  have "log_safe pf (cc_BatchMax cfg) (deliveries t) (newer @ EAck i ok # older)"
    using consumeSession_safe(1) [OF NewRabbitMQMetricConsumer_config(1) [OF assms(1)] assms(2,3)]
    by (simp add: l)
  then have "entry_ok pf (cc_BatchMax cfg) (deliveries t) (EAck i ok) older"
    by (rule log_safe_entry)
  then obtain msg where msg: "validateDelivery pf (ds_delivery (cs_states t ! i)) = Inr msg"
    "flushed i older = ExpandMetricPoints msg" by (auto simp: deliveries_def)
  have "stored (cs_world t) p" if p: "p \<in> set (ExpandMetricPoints msg)" for p
  proof -
    obtain b where "EFlush b True \<in> set older" "p \<in> set (map fst b)"
      using flushed_in_flush [of p i older] msg(2) p by auto
    moreover from this have "batch_stored stored (cs_world t) b"
      using session_sunk [OF assms(3-5)] l by (simp add: sunk_def)
    ultimately show ?thesis unfolding batch_stored_def by blast
  qed
  with msg(1) show ?thesis by blast
qed

end

end
