(* ===== verification/Outbox.thy ===== *)
theory Outbox
  imports Message
begin

section \<open>The outbox table and its store\<close>

text \<open>
  The table \<open>metric_outbox\<close>, the four statements the relay runs on it
  (\<open>internal/storage/postgres/sql/*outbox*.sql\<close>) and the methods of
  \<open>internal/storage/postgres/outbox_store.go\<close> around them. A statement is one atomic step at
  one instant \<open>now\<close>; rows are listed in the order of their \<open>id\<close>. A database call either
  answers, or fails, having been applied or not.
\<close>

record outbox_row =
  or_id :: int
  or_task :: string
  or_seq :: int
  or_payload :: string
  or_created :: int
  or_claimed_until :: "int option"
  or_token :: "string option"
  or_published :: "int option"
  or_attempts :: nat
  or_next :: int

type_synonym outbox = "outbox_row list"

subsection \<open>The statements\<close>

text \<open>\<open>claim_metric_outbox.sql\<close>: the conditions of the \<open>candidates\<close> sub-select.\<close>

definition candidate :: "int \<Rightarrow> outbox \<Rightarrow> outbox_row \<Rightarrow> bool" where
  "candidate now t r \<longleftrightarrow>
     or_published r = None \<and> or_next r \<le> now \<and>
     (case or_claimed_until r of None \<Rightarrow> True | Some u \<Rightarrow> u \<le> now) \<and>
     \<not> list_ex (\<lambda>p. or_task p = or_task r \<and> or_seq p < or_seq r \<and> or_published p = None) t"

text \<open>
  \<open>LIMIT\<close> rows in \<open>id\<close> order, skipping the rows other transactions have locked
  (\<open>FOR UPDATE SKIP LOCKED\<close>).
\<close>

definition candidates :: "int \<Rightarrow> nat \<Rightarrow> (int \<Rightarrow> bool) \<Rightarrow> outbox \<Rightarrow> outbox_row list" where
  "candidates now limit locked t =
     take limit (filter (\<lambda>r. candidate now t r \<and> \<not> locked (or_id r)) t)"

definition claim_row :: "int \<Rightarrow> string \<Rightarrow> duration \<Rightarrow> outbox_row \<Rightarrow> outbox_row" where
  "claim_row now token lease r = r\<lparr>or_token := Some token, or_claimed_until := Some (now + lease)\<rparr>"

definition update_where :: "(outbox_row \<Rightarrow> bool) \<Rightarrow> (outbox_row \<Rightarrow> outbox_row) \<Rightarrow> outbox \<Rightarrow> nat \<times> outbox" where
  "update_where P f t = (length (filter P t), map (\<lambda>r. if P r then f r else r) t)"

definition row_event :: "string \<Rightarrow> outbox_row \<Rightarrow> outbox_event" where
  "row_event token r =
     \<lparr>oe_ID = or_id r, oe_TaskID = or_task r, oe_EventSeq = or_seq r, oe_Payload = or_payload r,
      oe_ClaimToken = token\<rparr>"

definition claim_metric_outbox ::
  "int \<Rightarrow> nat \<Rightarrow> string \<Rightarrow> duration \<Rightarrow> (int \<Rightarrow> bool) \<Rightarrow> outbox \<Rightarrow> outbox_event list \<times> outbox" where
  "claim_metric_outbox now limit token lease locked t =
     (let cs = candidates now limit locked t
      in (map (row_event token) cs,
          snd (update_where (\<lambda>r. or_id r \<in> set (map or_id cs)) (claim_row now token lease) t)))"

text \<open>The rows the other three statements change: claimed with this token, not published.\<close>

definition held_row :: "int \<Rightarrow> string \<Rightarrow> outbox_row \<Rightarrow> bool" where
  "held_row i token r \<longleftrightarrow> or_id r = i \<and> or_token r = Some token \<and> or_published r = None"

definition mark_metric_outbox_published :: "int \<Rightarrow> int \<Rightarrow> string \<Rightarrow> outbox \<Rightarrow> nat \<times> outbox" where
  "mark_metric_outbox_published now i token =
     update_where (held_row i token)
       (\<lambda>r. r\<lparr>or_published := Some now, or_claimed_until := None, or_token := None\<rparr>)"

definition mark_metric_outbox_failed :: "int \<Rightarrow> int \<Rightarrow> string \<Rightarrow> duration \<Rightarrow> outbox \<Rightarrow> nat \<times> outbox" where
  "mark_metric_outbox_failed now i token backoff =
     update_where (held_row i token)
       (\<lambda>r. r\<lparr>or_attempts := or_attempts r + 1, or_next := now + backoff, or_claimed_until := None,
              or_token := None\<rparr>)"

definition release_metric_outbox_claim :: "int \<Rightarrow> string \<Rightarrow> outbox \<Rightarrow> nat \<times> outbox" where
  "release_metric_outbox_claim i token =
     update_where (held_row i token) (\<lambda>r. r\<lparr>or_claimed_until := None, or_token := None\<rparr>)"

text \<open>The outbox part of \<open>persist_metric_flush.sql\<close> and of \<open>maintain_metric_retention\<close>.\<close>

definition insert_metric_outbox :: "int \<Rightarrow> int \<Rightarrow> string \<Rightarrow> int \<Rightarrow> string \<Rightarrow> outbox \<Rightarrow> outbox" where
  "insert_metric_outbox now i task seq payload t =
     insort_key or_id
       \<lparr>or_id = i, or_task = task, or_seq = seq, or_payload = payload, or_created = now,
        or_claimed_until = None, or_token = None, or_published = None, or_attempts = 0,
        or_next = now\<rparr> t"

definition expired_outbox :: "int \<Rightarrow> nat \<Rightarrow> outbox \<Rightarrow> outbox_row list" where
  "expired_outbox cutoff batch t =
     take batch (filter (\<lambda>r. or_created r < cutoff \<and> or_published r \<noteq> None) t)"

definition delete_expired_outbox :: "int \<Rightarrow> nat \<Rightarrow> outbox \<Rightarrow> nat \<times> outbox" where
  "delete_expired_outbox cutoff batch t =
     (let ids = map or_id (expired_outbox cutoff batch t)
      in (length ids, filter (\<lambda>r. or_id r \<notin> set ids) t))"

subsection \<open>The store\<close>

datatype db_reply = DbOk | DbFailed go_error bool   \<comment> \<open>whether the statement took effect\<close>

text \<open>\<open>newClaimToken\<close>: the 16 random bytes in the 8-4-4-4-12 form of a UUID.\<close>

definition newClaimToken :: "go_error + string \<Rightarrow> go_error + string" where
  "newClaimToken rand_read =
     (case rand_read of
        Inl err \<Rightarrow> Inl err
      | Inr b \<Rightarrow>
          Inr (hex_encode (take 4 b) @ ''-'' @ hex_encode (take 2 (drop 4 b)) @ ''-'' @
               hex_encode (take 2 (drop 6 b)) @ ''-'' @ hex_encode (take 2 (drop 8 b)) @ ''-'' @
               hex_encode (take 6 (drop 10 b))))"

definition OutboxStore_Claim ::
  "db_reply \<Rightarrow> go_error + string \<Rightarrow> int \<Rightarrow> (int \<Rightarrow> bool) \<Rightarrow> int \<Rightarrow> duration \<Rightarrow> outbox
    \<Rightarrow> (go_error + outbox_event list \<times> string) \<times> outbox" where
  "OutboxStore_Claim reply rand_read now locked limit lease t =
     (if limit < 1 \<or> lease \<le> 0 then (Inl (ErrNew ''invalid outbox claim parameters''), t)
      else case newClaimToken rand_read of
        Inl err \<Rightarrow> (Inl (ErrWrap ''generate outbox claim token'' [err]), t)
      | Inr token \<Rightarrow>
          (case claim_metric_outbox now (nat limit) token lease locked t of
             (events, t') \<Rightarrow>
               (case reply of
                  DbOk \<Rightarrow> (Inr (events, token), t')
                | DbFailed err applied \<Rightarrow>
                    (Inl (ErrWrap ''claim metric outbox'' [err]), if applied then t' else t))))"

definition exec_claimed ::
  "db_reply \<Rightarrow> string \<Rightarrow> nat \<times> outbox \<Rightarrow> outbox \<Rightarrow> go_error option \<times> outbox" where
  "exec_claimed reply what result t =
     (case reply of
        DbFailed err applied \<Rightarrow> (Some (ErrWrap what [err]), if applied then snd result else t)
      | DbOk \<Rightarrow>
          (if fst result \<noteq> 1 then (Some (ErrNew what), snd result) else (None, snd result)))"

definition OutboxStore_MarkPublished ::
  "db_reply \<Rightarrow> int \<Rightarrow> outbox_event \<Rightarrow> outbox \<Rightarrow> go_error option \<times> outbox" where
  "OutboxStore_MarkPublished reply now ev t =
     exec_claimed reply ''mark metric outbox published''
       (mark_metric_outbox_published now (oe_ID ev) (oe_ClaimToken ev) t) t"

definition OutboxStore_MarkFailed ::
  "db_reply \<Rightarrow> int \<Rightarrow> outbox_event \<Rightarrow> duration \<Rightarrow> outbox \<Rightarrow> go_error option \<times> outbox" where
  "OutboxStore_MarkFailed reply now ev backoff t =
     exec_claimed reply ''mark metric outbox failed''
       (mark_metric_outbox_failed now (oe_ID ev) (oe_ClaimToken ev) backoff t) t"

definition OutboxStore_ReleaseClaim ::
  "db_reply \<Rightarrow> outbox_event \<Rightarrow> outbox \<Rightarrow> go_error option \<times> outbox" where
  "OutboxStore_ReleaseClaim reply ev t =
     exec_claimed reply ''release metric outbox claim''
       (release_metric_outbox_claim (oe_ID ev) (oe_ClaimToken ev) t) t"

text \<open>
  \<open>TryAcquireLeader\<close>: a connection is acquired, the advisory lock tried. The lock is the state:
  whether some session holds it. \<open>None\<close> as result is an error.
\<close>

definition TryAcquireLeader ::
  "go_error option \<Rightarrow> db_reply \<Rightarrow> bool \<Rightarrow> (go_error + bool) \<times> bool" where
  "TryAcquireLeader pool_err reply lock_held =
     (case pool_err of
        Some err \<Rightarrow> (Inl (ErrWrap ''acquire outbox leader connection'' [err]), lock_held)
      | None \<Rightarrow>
          (case reply of
             DbFailed err applied \<Rightarrow>
               (Inl (ErrWrap ''try acquire outbox leader lock'' [err]), lock_held \<or> applied)
           | DbOk \<Rightarrow> if lock_held then (Inr False, True) else (Inr True, True)))"

subsection \<open>Facts about the statements\<close>

lemma snd_update_where: "snd (update_where P f t) = map (\<lambda>r. if P r then f r else r) t"
  by (simp add: update_where_def)

lemma fst_update_where: "fst (update_where P f t) = length (filter P t)"
  by (simp add: update_where_def)

text \<open>No statement of the relay touches identity, task, sequence number or payload.\<close>

definition row_key :: "outbox_row \<Rightarrow> int \<times> string \<times> int \<times> string \<times> int" where
  "row_key r = (or_id r, or_task r, or_seq r, or_payload r, or_created r)"

lemma update_keeps_keys:
  "(\<And>r. row_key (f r) = row_key r) \<Longrightarrow> map row_key (snd (update_where P f t)) = map row_key t"
  by (simp add: snd_update_where)

lemma row_key_updates [simp]:
  "row_key (claim_row now token lease r) = row_key r"
  "row_key (or_published_update f1 r) = row_key r"
  "row_key (or_claimed_until_update f2 r) = row_key r" "row_key (or_token_update f3 r) = row_key r"
  "row_key (or_attempts_update f4 r) = row_key r" "row_key (or_next_update f5 r) = row_key r"
  by (simp_all add: row_key_def claim_row_def)

lemmas outbox_statements = claim_metric_outbox_def mark_metric_outbox_published_def
  mark_metric_outbox_failed_def release_metric_outbox_claim_def

lemma statements_keep_keys:
  "map row_key (snd (claim_metric_outbox now limit token lease locked t)) = map row_key t"
  "map row_key (snd (mark_metric_outbox_published now i token t)) = map row_key t"
  "map row_key (snd (mark_metric_outbox_failed now i token backoff t)) = map row_key t"
  "map row_key (snd (release_metric_outbox_claim i token t)) = map row_key t"
  by (simp_all add: outbox_statements Let_def update_keeps_keys)

text \<open>Only the publication statement sets \<open>published_at\<close>, and nothing resets it.\<close>

definition published_set :: "outbox \<Rightarrow> (string \<times> int) set" where
  "published_set t = {(or_task r, or_seq r) | r. r \<in> set t \<and> or_published r \<noteq> None}"

lemma published_setI:
  "r \<in> set t \<Longrightarrow> or_published r \<noteq> None \<Longrightarrow> (or_task r, or_seq r) \<in> published_set t"
  by (auto simp: published_set_def)

lemma published_set_simps [simp]:
  "published_set [] = {}"
  "published_set (r # t) =
    (if or_published r \<noteq> None then insert (or_task r, or_seq r) (published_set t) else published_set t)"
  by (auto simp: published_set_def)

lemma published_set_update:
  assumes "\<And>r. or_published (f r) = or_published r" "\<And>r. row_key (f r) = row_key r"
  shows "published_set (snd (update_where P f t)) = published_set t"
proof -
  have "or_task (f r) = or_task r" "or_seq (f r) = or_seq r" for r
    using assms(2) [of r] by (simp_all add: row_key_def)
  then show ?thesis by (induction t) (auto simp: snd_update_where assms(1))
qed

lemma claim_keeps_published:
  "published_set (snd (claim_metric_outbox now limit token lease locked t)) = published_set t"
  unfolding claim_metric_outbox_def Let_def snd_conv
  by (rule published_set_update) (simp_all add: claim_row_def row_key_def)

lemma failed_keeps_published:
  "published_set (snd (mark_metric_outbox_failed now i token backoff t)) = published_set t"
  "published_set (snd (release_metric_outbox_claim i token t)) = published_set t"
  unfolding mark_metric_outbox_failed_def release_metric_outbox_claim_def
  by (rule published_set_update; simp add: row_key_def)+

lemma mark_published_set:
  "published_set (snd (mark_metric_outbox_published now i token t)) =
    published_set t \<union> {(or_task r, or_seq r) | r. r \<in> set t \<and> held_row i token r}"
  by (induction t) (auto simp: mark_metric_outbox_published_def snd_update_where held_row_def)

text \<open>What a claim hands out.\<close>

lemma claimed_event:
  assumes "ev \<in> set (fst (claim_metric_outbox now limit token lease locked t))"
  obtains r where "r \<in> set t" "candidate now t r" "ev = row_event token r" "\<not> locked (or_id r)"
  using assms by (auto simp: claim_metric_outbox_def Let_def candidates_def dest!: in_set_takeD)

lemma claimed_predecessors:
  assumes "ev \<in> set (fst (claim_metric_outbox now limit token lease locked t))"
    and "p \<in> set t" "or_task p = oe_TaskID ev" "or_seq p < oe_EventSeq ev"
  shows "or_published p \<noteq> None"
proof -
  obtain r where r: "candidate now t r" "ev = row_event token r"
    using assms(1) by (rule claimed_event)
  then show ?thesis using assms(2-4) by (auto simp: candidate_def list_ex_iff row_event_def)
qed

end
