(* ===== verification/Store.thy ===== *)
theory Store
  imports Outbox
begin

section \<open>The metric point store: writing\<close>

text \<open>
  \<open>MetricPointStore.Flush\<close> of \<open>internal/storage/postgres/metric_point_store.go\<close> with the two
  statements it runs (\<open>seed_task_event_counters.sql\<close>, \<open>persist_metric_flush.sql\<close>) and the partition
  functions of \<open>partition_maintainer.go\<close> and the migrations. The database is a record; a
  transaction is a function on it whose result is kept when the commit is. Instants are
  milliseconds since the Unix epoch and a partition is the number of its UTC day (the code formats
  a day as \<open>YYYY-MM-DD\<close>, which sorts like the number from year 1 to 9999).
\<close>

subsection \<open>The tables\<close>

record metric_row =
  mr_task :: string
  mr_key :: string
  mr_step :: int
  mr_ts :: int
  mr_value :: float64

record event_row =
  er_created :: int
  er_task :: string
  er_seq :: int
  er_payload :: string

record pg =
  pg_points :: "metric_row list"
  pg_counters :: "string \<rightharpoonup> int"
  pg_events :: "event_row list"
  pg_outbox :: outbox
  pg_next_id :: int
  pg_point_days :: "int list"
  pg_event_days :: "int list"

definition day_of :: "int \<Rightarrow> int" where
  "day_of millis = millis div 86400000"

text \<open>The primary key of \<open>metric_points\<close>.\<close>

definition point_key :: "metric_row \<Rightarrow> string \<times> string \<times> int \<times> int" where
  "point_key r = (mr_task r, mr_key r, mr_step r, mr_ts r)"

text \<open>What an insert checks: the column sizes, the two constraints, and that a partition exists.\<close>

definition point_admissible :: "int list \<Rightarrow> metric_row \<Rightarrow> bool" where
  "point_admissible days r \<longleftrightarrow>
     length (mr_task r) \<le> 64 \<and> length (mr_key r) \<le> 32 \<and> 0 \<le> mr_step r \<and> float_finite (mr_value r) \<and>
     day_of (mr_ts r) \<in> set days"

subsection \<open>Partitions\<close>

definition add_days :: "int list \<Rightarrow> int list \<Rightarrow> int list" where
  "add_days new days = days @ filter (\<lambda>d. d \<notin> set days) new"

text \<open>The SQL function \<open>ensure_metric_daily_partitions\<close>.\<close>

definition ensure_metric_daily_partitions :: "int \<Rightarrow> int \<Rightarrow> int \<Rightarrow> pg \<Rightarrow> pg" where
  "ensure_metric_daily_partitions day past future db =
     db\<lparr>pg_point_days := add_days [day - past..day + future] (pg_point_days db),
        pg_event_days := add_days [day - past..day + future] (pg_event_days db)\<rparr>"

definition partitionPastDays :: int where "partitionPastDays = 8"
definition partitionFutureDays :: int where "partitionFutureDays = 2"

text \<open>
  \<open>ensureMetricPointPartitions\<close>: the days outside the window of the maintenance, in order;
  \<open>exec\<close> is the outcome of each \<open>tx.Exec\<close>.
\<close>

definition missing_days :: "int list \<Rightarrow> int \<Rightarrow> int list" where
  "missing_days timestamps now =
     (let windowStart = day_of now - partitionPastDays;
          windowEnd = day_of now + partitionFutureDays + 1
      in sort (remdups (filter (\<lambda>d. \<not> (\<not> d < windowStart \<and> d < windowEnd)) (map day_of timestamps))))"

fun ensure_days :: "(int \<Rightarrow> go_error option) \<Rightarrow> int list \<Rightarrow> pg \<Rightarrow> go_error option \<times> pg" where
  "ensure_days exec [] db = (None, db)"
| "ensure_days exec (d # ds) db =
     (case exec d of
        Some err \<Rightarrow> (Some (ErrWrap ''ensure metric point partition'' [err]), db)
      | None \<Rightarrow> ensure_days exec ds (ensure_metric_daily_partitions d 0 0 db))"

definition ensureMetricPointPartitions ::
  "(int \<Rightarrow> go_error option) \<Rightarrow> int list \<Rightarrow> int \<Rightarrow> pg \<Rightarrow> go_error option \<times> pg" where
  "ensureMetricPointPartitions exec timestamps referenceTime db =
     ensure_days exec (missing_days timestamps referenceTime) db"

subsection \<open>Encoding a flush\<close>

record metric_point_columns =
  mc_taskIDs :: "string list"
  mc_keys :: "string list"
  mc_steps :: "int list"
  mc_timestamps :: "int list"
  mc_values :: "float64 list"

definition empty_columns :: metric_point_columns where
  "empty_columns = \<lparr>mc_taskIDs = [], mc_keys = [], mc_steps = [], mc_timestamps = [], mc_values = []\<rparr>"

definition append_point :: "metric_point_columns \<Rightarrow> metric_point \<Rightarrow> metric_point_columns" where
  "append_point c p =
     \<lparr>mc_taskIDs = mc_taskIDs c @ [mp_TaskID p], mc_keys = mc_keys c @ [mp_Key p],
      mc_steps = mc_steps c @ [mp_Step p], mc_timestamps = mc_timestamps c @ [mp_TimestampMillis p],
      mc_values = mc_values c @ [mp_Value p]\<rparr>"

fun encode_loop ::
  "metric_point list \<Rightarrow> metric_point_columns \<Rightarrow> string list \<Rightarrow> go_error + metric_point_columns \<times> string list" where
  "encode_loop [] c tasks = Inr (c, tasks)"
| "encode_loop (p # ps) c tasks =
     (if mp_Step p < 0 \<or> mp_Step p > 2147483647
      then Inl (ErrNew ''metric point step is outside int32 range'')
      else encode_loop ps (append_point c p) (List.insert (mp_TaskID p) tasks))"

text \<open>\<open>taskSet\<close> is a map whose keys are then sorted.\<close>

definition encodeMetricPoints ::
  "metric_point list \<Rightarrow> go_error + metric_point_columns \<times> string list" where
  "encodeMetricPoints points =
     (case encode_loop points empty_columns [] of
        Inl err \<Rightarrow> Inl err
      | Inr (columns, tasks) \<Rightarrow> Inr (columns, sort tasks))"

subsection \<open>The statements\<close>

text \<open>
  What PostgreSQL decides outside the program: the text of the \<open>jsonb\<close> payload of the rows a task
  gained, and the order in which \<open>UPDATE ... RETURNING\<close> visits the tasks.
\<close>

record pg_impl =
  pi_jsonb :: "metric_row list \<Rightarrow> string"
  pi_order :: "string list \<Rightarrow> string list"

definition orders :: "pg_impl \<Rightarrow> bool" where
  "orders im \<longleftrightarrow> (\<forall>tasks. mset (pi_order im tasks) = mset tasks)"

definition seed_task_event_counters :: "string list \<Rightarrow> pg \<Rightarrow> pg" where
  "seed_task_event_counters tasks db =
     db\<lparr>pg_counters := (\<lambda>t. if t \<in> set tasks \<and> pg_counters db t = None then Some 0 else pg_counters db t)\<rparr>"

definition rows_of :: "metric_point_columns \<Rightarrow> metric_row list" where
  "rows_of c =
     map (\<lambda>(task, key, step, ts, v). \<lparr>mr_task = task, mr_key = key, mr_step = step, mr_ts = ts, mr_value = v\<rparr>)
       (zip (mc_taskIDs c) (zip (mc_keys c) (zip (mc_steps c) (zip (mc_timestamps c) (mc_values c)))))"

text \<open>\<open>INSERT ... ON CONFLICT DO NOTHING RETURNING\<close>: the table and the rows inserted.\<close>

fun insert_points :: "metric_row list \<Rightarrow> metric_row list \<Rightarrow> metric_row list \<times> metric_row list" where
  "insert_points t [] = (t, [])"
| "insert_points t (r # rs) =
     (if point_key r \<in> set (map point_key t) then insert_points t rs
      else case insert_points (t @ [r]) rs of (t', ins) \<Rightarrow> (t', r # ins))"

text \<open>The counter, the event and the outbox row of one task, in the order the tasks are visited.\<close>

fun add_events :: "pg_impl \<Rightarrow> int \<Rightarrow> metric_row list \<Rightarrow> string list \<Rightarrow> pg \<Rightarrow> pg" where
  "add_events im now ins [] db = db"
| "add_events im now ins (t # ts) db =
     (case pg_counters db t of
        None \<Rightarrow> add_events im now ins ts db
      | Some n \<Rightarrow>
          (let payload = pi_jsonb im (filter (\<lambda>r. mr_task r = t) ins)
           in add_events im now ins ts
                (db\<lparr>pg_counters := (pg_counters db)(t \<mapsto> n + 1),
                    pg_events := pg_events db @
                      [\<lparr>er_created = now, er_task = t, er_seq = n + 1, er_payload = payload\<rparr>],
                    pg_outbox := insert_metric_outbox now (pg_next_id db) t (n + 1) payload (pg_outbox db),
                    pg_next_id := pg_next_id db + 1\<rparr>)))"

definition persist_metric_flush ::
  "pg_impl \<Rightarrow> int \<Rightarrow> metric_point_columns \<Rightarrow> pg \<Rightarrow> go_error + pg" where
  "persist_metric_flush im now columns db =
     (if \<not> list_all (point_admissible (pg_point_days db)) (rows_of columns)
      then Inl (ErrNew ''metric_points: constraint or partition violated'')
      else let (t, ins) = insert_points (pg_points db) (rows_of columns)
           in if ins \<noteq> [] \<and> day_of now \<notin> set (pg_event_days db)
              then Inl (ErrNew ''metric_events: no partition'')
              else Inr (add_events im now ins (pi_order im (remdups (map mr_task ins)))
                          (db\<lparr>pg_points := t\<rparr>)))"

subsection \<open>Flush\<close>

text \<open>The outcome of each call of the driver; \<open>DbFailed\<close> on commit may have been applied.\<close>

record flush_replies =
  fl_begin :: "go_error option"
  fl_ensure :: "int \<Rightarrow> go_error option"
  fl_seed :: "go_error option"
  fl_query :: "go_error option"
  fl_scan :: "go_error option"
  fl_rows :: "go_error option"
  fl_close :: "go_error option"
  fl_commit :: db_reply

definition closeBatchWithError :: "go_error option \<Rightarrow> go_error \<Rightarrow> go_error option" where
  "closeBatchWithError close_result operationErr =
     (case close_result of
        Some closeErr \<Rightarrow>
          errors_join [Some operationErr, Some (ErrWrap ''close metric flush batch'' [closeErr])]
      | None \<Rightarrow> Some operationErr)"

text \<open>The statements of the transaction: an error of \<open>Flush\<close>, or the state to commit.\<close>

definition flush_transaction ::
  "pg_impl \<Rightarrow> flush_replies \<Rightarrow> int \<Rightarrow> metric_point_columns \<Rightarrow> string list \<Rightarrow> pg \<Rightarrow> go_error option + pg" where
  "flush_transaction im r now columns taskIDs db =
     (case ensureMetricPointPartitions (fl_ensure r) (mc_timestamps columns) now db of
        (Some err, _) \<Rightarrow> Inl (Some err)
      | (None, db1) \<Rightarrow>
          (case fl_seed r of
             Some err \<Rightarrow> Inl (closeBatchWithError (fl_close r) (ErrWrap ''seed task event counters'' [err]))
           | None \<Rightarrow>
               (case fl_query r of
                  Some err \<Rightarrow> Inl (closeBatchWithError (fl_close r) (ErrWrap ''persist metric flush'' [err]))
                | None \<Rightarrow>
                    (case persist_metric_flush im now columns (seed_task_event_counters taskIDs db1) of
                       Inl err \<Rightarrow>
                         Inl (closeBatchWithError (fl_close r) (ErrWrap ''read generated metric events'' [err]))
                     | Inr db2 \<Rightarrow>
                         (case fl_scan r of
                            Some err \<Rightarrow>
                              Inl (closeBatchWithError (fl_close r)
                                (ErrWrap ''scan generated metric event'' [err]))
                          | None \<Rightarrow>
                              (case fl_rows r of
                                 Some err \<Rightarrow>
                                   Inl (closeBatchWithError (fl_close r)
                                     (ErrWrap ''read generated metric events'' [err]))
                               | None \<Rightarrow>
                                   (case fl_close r of
                                      Some err \<Rightarrow> Inl (Some (ErrWrap ''close metric flush batch'' [err]))
                                    | None \<Rightarrow> Inr db2)))))))"

definition store_Flush ::
  "pg_impl \<Rightarrow> flush_replies \<Rightarrow> int \<Rightarrow> metric_point list \<Rightarrow> pg \<Rightarrow> go_error option \<times> pg" where
  "store_Flush im r now points db =
     (if points = [] then (None, db)
      else case encodeMetricPoints points of
        Inl err \<Rightarrow> (Some err, db)
      | Inr (columns, taskIDs) \<Rightarrow>
          (case fl_begin r of
             Some err \<Rightarrow> (Some (ErrWrap ''begin metric flush transaction'' [err]), db)
           | None \<Rightarrow>
               (case flush_transaction im r now columns taskIDs db of
                  Inl err \<Rightarrow> (err, db)
                | Inr db2 \<Rightarrow>
                    (case fl_commit r of
                       DbOk \<Rightarrow> (None, db2)
                     | DbFailed err applied \<Rightarrow>
                         (Some (ErrWrap ''commit metric flush transaction'' [err]),
                          if applied then db2 else db)))))"

end
