(* ===== verification/OutboxOrder.thy ===== *)
theory OutboxOrder
  imports Outbox
begin

section \<open>In-order publication\<close>

text \<open>
  Everything that can happen to the outbox, by any number of relays, flushes and retention
  runs, as a step relation over the statements of theory \<open>Outbox\<close>: claims that expire while
  their holder is still publishing, calls that fail after taking effect, stale tokens. The
  invariant is that an event is sent to the broker only after the broker has confirmed every smaller
  number of its task.
\<close>

record outbox_sys =
  ob_table :: outbox
  ob_counter :: "string \<Rightarrow> int"          \<comment> \<open>\<open>task_event_counters.last_event_seq\<close>\<close>
  ob_used :: "int set"                    \<comment> \<open>identities handed out\<close>
  ob_held :: "outbox_event set"           \<comment> \<open>events returned to some relay by a claim\<close>
  ob_sent :: "(string \<times> int \<times> bool) list"   \<comment> \<open>calls of \<open>Publish\<close>, newest first, and whether they returned nil\<close>
  ob_confirmed :: "outbox_event set"      \<comment> \<open>events whose \<open>Publish\<close> returned nil\<close>

definition event_key :: "outbox_event \<Rightarrow> string \<times> int" where
  "event_key ev = (oe_TaskID ev, oe_EventSeq ev)"

definition claimed_by :: "(go_error + outbox_event list \<times> string) \<Rightarrow> outbox_event set" where
  "claimed_by r = (case r of Inl _ \<Rightarrow> {} | Inr (events, token) \<Rightarrow> set events)"

inductive outbox_step :: "outbox_sys \<Rightarrow> outbox_sys \<Rightarrow> bool" where
  step_persist: "i \<notin> ob_used s \<Longrightarrow>
    outbox_step s (s\<lparr>ob_counter := (ob_counter s)(task := ob_counter s task + 1),
      ob_used := insert i (ob_used s),
      ob_table := insert_metric_outbox now i task (ob_counter s task + 1) payload (ob_table s)\<rparr>)"
| step_claim: "OutboxStore_Claim reply rnd now locked limit lease (ob_table s) = (res, t) \<Longrightarrow>
    outbox_step s (s\<lparr>ob_table := t, ob_held := ob_held s \<union> claimed_by res\<rparr>)"
| step_send: "ev \<in> ob_held s \<Longrightarrow>
    outbox_step s (s\<lparr>ob_sent := (oe_TaskID ev, oe_EventSeq ev, ok) # ob_sent s,
      ob_confirmed := (if ok then insert ev (ob_confirmed s) else ob_confirmed s)\<rparr>)"
| step_published: "ev \<in> ob_confirmed s \<Longrightarrow>
    OutboxStore_MarkPublished reply now ev (ob_table s) = (r, t) \<Longrightarrow>
    outbox_step s (s\<lparr>ob_table := t\<rparr>)"
| step_failed: "ev \<in> ob_held s \<Longrightarrow>
    OutboxStore_MarkFailed reply now ev backoff (ob_table s) = (r, t) \<Longrightarrow>
    outbox_step s (s\<lparr>ob_table := t\<rparr>)"
| step_release: "ev \<in> ob_held s \<Longrightarrow>
    OutboxStore_ReleaseClaim reply ev (ob_table s) = (r, t) \<Longrightarrow>
    outbox_step s (s\<lparr>ob_table := t\<rparr>)"
| step_retention: "outbox_step s (s\<lparr>ob_table := snd (delete_expired_outbox cutoff batch (ob_table s))\<rparr>)"

inductive_cases outbox_stepE: "outbox_step s s'"

definition outbox_init :: outbox_sys where
  "outbox_init = \<lparr>ob_table = [], ob_counter = (\<lambda>_. 0), ob_used = {}, ob_held = {}, ob_sent = [],
     ob_confirmed = {}\<rparr>"

inductive outbox_reach :: "outbox_sys \<Rightarrow> bool" where
  reach_init: "outbox_reach outbox_init"
| reach_step: "outbox_reach s \<Longrightarrow> outbox_step s s' \<Longrightarrow> outbox_reach s'"

text \<open>The events the broker has confirmed: some \<open>Publish\<close> of them returned nil.\<close>

definition delivered :: "(string \<times> int \<times> bool) list \<Rightarrow> (string \<times> int) set" where
  "delivered l = {(task, n). (task, n, True) \<in> set l}"

lemma delivered_simps [simp]:
  "delivered [] = {}"
  "delivered ((task, n, ok) # l) = (if ok then insert (task, n) (delivered l) else delivered l)"
  by (auto simp: delivered_def)

text \<open>Every call of \<open>Publish\<close> comes after a successful one of each smaller number of its task.\<close>

fun in_order :: "(string \<times> int \<times> bool) list \<Rightarrow> bool" where
  "in_order [] \<longleftrightarrow> True"
| "in_order ((task, n, ok) # l) \<longleftrightarrow> (\<forall>m. 1 \<le> m \<and> m < n \<longrightarrow> (task, m) \<in> delivered l) \<and> in_order l"

definition table_inv :: "outbox_sys \<Rightarrow> bool" where
  "table_inv s \<longleftrightarrow>
     distinct (map or_id (ob_table s)) \<and> (\<forall>task. 0 \<le> ob_counter s task) \<and>
     (\<forall>r \<in> set (ob_table s). or_id r \<in> ob_used s \<and> 1 \<le> or_seq r \<and> or_seq r \<le> ob_counter s (or_task r))"

definition held_inv :: "outbox_sys \<Rightarrow> bool" where
  "held_inv s \<longleftrightarrow>
     (\<forall>ev \<in> ob_held s. oe_ID ev \<in> ob_used s \<and>
        (\<forall>r \<in> set (ob_table s). or_id r = oe_ID ev \<longrightarrow> (or_task r, or_seq r) = event_key ev) \<and>
        (\<forall>m. 1 \<le> m \<and> m < oe_EventSeq ev \<longrightarrow> (oe_TaskID ev, m) \<in> delivered (ob_sent s))) \<and>
     ob_confirmed s \<subseteq> ob_held s \<and> (\<forall>ev \<in> ob_confirmed s. event_key ev \<in> delivered (ob_sent s))"

definition sent_inv :: "outbox_sys \<Rightarrow> bool" where
  "sent_inv s \<longleftrightarrow>
     published_set (ob_table s) \<subseteq> delivered (ob_sent s) \<and>
     (\<forall>task m. 1 \<le> m \<and> m \<le> ob_counter s task \<longrightarrow>
        (task, m) \<in> delivered (ob_sent s) \<or> (\<exists>r \<in> set (ob_table s). or_task r = task \<and> or_seq r = m)) \<and>
     in_order (ob_sent s)"

definition outbox_inv :: "outbox_sys \<Rightarrow> bool" where
  "outbox_inv s \<longleftrightarrow> table_inv s \<and> held_inv s \<and> sent_inv s"

lemmas outbox_inv_defs = outbox_inv_def table_inv_def held_inv_def sent_inv_def

lemma outbox_inv_init: "outbox_inv outbox_init"
  by (auto simp: outbox_inv_defs outbox_init_def)

subsection \<open>One preservation lemma per step\<close>

text \<open>A new table with the same keys and nothing published that was not sent.\<close>

lemma map_row_key_determines:
  assumes "map row_key t = map row_key u" "\<And>r. f r = g (row_key r)"
  shows "map f t = map f u"
proof -
  have "f = g \<circ> row_key" using assms(2) by auto
  then show ?thesis using arg_cong [OF assms(1), of "map g"] by simp
qed

lemma keys_determine:
  assumes "map row_key t = map row_key u"
  shows "map or_id t = map or_id u"
    "(\<exists>r \<in> set t. P (or_id r) (or_task r) (or_seq r)) \<longleftrightarrow> (\<exists>r \<in> set u. P (or_id r) (or_task r) (or_seq r))"
proof -
  show "map or_id t = map or_id u"
    by (rule map_row_key_determines [OF assms, where g = fst]) (simp add: row_key_def)
  have "map (\<lambda>r. (or_id r, or_task r, or_seq r)) t = map (\<lambda>r. (or_id r, or_task r, or_seq r)) u"
    by (rule map_row_key_determines [OF assms, where g = "\<lambda>(i, a, b, _). (i, a, b)"])
      (simp add: row_key_def)
  from arg_cong [OF this, of set]
  have im: "(\<lambda>r. (or_id r, or_task r, or_seq r)) ` set t = (\<lambda>r. (or_id r, or_task r, or_seq r)) ` set u"
    by (simp only: set_map)
  have ex: "(\<exists>r \<in> set v. P (or_id r) (or_task r) (or_seq r)) \<longleftrightarrow>
      (\<exists>(i, a, b) \<in> (\<lambda>r. (or_id r, or_task r, or_seq r)) ` set v. P i a b)" for v
    by auto
  show "(\<exists>r \<in> set t. P (or_id r) (or_task r) (or_seq r)) \<longleftrightarrow>
      (\<exists>r \<in> set u. P (or_id r) (or_task r) (or_seq r))"
    unfolding ex im ..
qed

lemma outbox_inv_same_keys:
  assumes inv: "outbox_inv s" and k: "map row_key t = map row_key (ob_table s)"
    and p: "published_set t \<subseteq> delivered (ob_sent s)"
  shows "outbox_inv (s\<lparr>ob_table := t\<rparr>)"
proof -
  note ex = keys_determine(2) [OF k]
  have all: "(\<forall>r \<in> set t. P (or_id r) (or_task r) (or_seq r)) \<longleftrightarrow>
      (\<forall>r \<in> set (ob_table s). P (or_id r) (or_task r) (or_seq r))" for P
    using ex [of "\<lambda>i a b. \<not> P i a b"] by blast
  have "table_inv (s\<lparr>ob_table := t\<rparr>)"
    using inv all [of "\<lambda>i a b. i \<in> ob_used s \<and> 1 \<le> b \<and> b \<le> ob_counter s a"]
    by (simp add: outbox_inv_def table_inv_def keys_determine(1) [OF k])
  moreover have "held_inv (s\<lparr>ob_table := t\<rparr>)"
    using inv all [of "\<lambda>i a b. i = oe_ID ev \<longrightarrow> (a, b) = event_key ev" for ev]
    by (simp add: outbox_inv_def held_inv_def)
  moreover have "sent_inv (s\<lparr>ob_table := t\<rparr>)"
    using inv p ex [of "\<lambda>i a b. a = task \<and> b = m" for task m]
    by (simp add: outbox_inv_def sent_inv_def)
  ultimately show ?thesis by (simp add: outbox_inv_def)
qed

lemma step_persist_inv:
  assumes inv: "outbox_inv s" and i: "i \<notin> ob_used s"
  shows "outbox_inv (s\<lparr>ob_counter := (ob_counter s)(task := ob_counter s task + 1),
      ob_used := insert i (ob_used s),
      ob_table := insert_metric_outbox now i task (ob_counter s task + 1) payload (ob_table s)\<rparr>)"
    (is "outbox_inv ?s")
proof -
  define row where "row = \<lparr>or_id = i, or_task = task, or_seq = ob_counter s task + 1,
    or_payload = payload, or_created = now, or_claimed_until = None, or_token = None,
    or_published = None, or_attempts = 0, or_next = now\<rparr>"
  have t: "ob_table ?s = insort_key or_id row (ob_table s)"
    by (simp add: insert_metric_outbox_def row_def)
  have set_t: "set (ob_table ?s) = insert row (set (ob_table s))"
    by (simp add: t set_insort_key)
  have ids: "i \<notin> or_id ` set (ob_table s)"
    using inv i by (auto simp: outbox_inv_def table_inv_def)
  have "mset (map or_id (ob_table ?s)) = add_mset i (mset (map or_id (ob_table s)))"
    by (simp add: t row_def)
  then have "distinct (map or_id (ob_table ?s)) \<longleftrightarrow> distinct (i # map or_id (ob_table s))"
    by (intro mset_eq_imp_distinct_iff) simp
  then have d: "distinct (map or_id (ob_table ?s))"
    using inv ids by (auto simp: outbox_inv_def table_inv_def)
  have c: "0 \<le> ob_counter s a" for a
    using inv by (simp add: outbox_inv_def table_inv_def)
  have pub: "published_set (ob_table ?s) = published_set (ob_table s)"
    using set_t by (auto simp: published_set_def row_def)
  have "table_inv ?s"
    using inv d set_t c [of task] by (auto simp: outbox_inv_def table_inv_def row_def)
  moreover have "held_inv ?s"
    using inv set_t i by (auto simp: outbox_inv_def held_inv_def row_def)
  moreover have "sent_inv ?s"
  proof -
    have "(a, m) \<in> delivered (ob_sent s) \<or> (\<exists>r \<in> set (ob_table ?s). or_task r = a \<and> or_seq r = m)"
      if "1 \<le> m" "m \<le> ob_counter ?s a" for a m
    proof (cases "a = task \<and> m = ob_counter s task + 1")
      case True
      then show ?thesis using set_t by (auto simp: row_def)
    next
      case False
      then have "m \<le> ob_counter s a" using that by (auto split: if_splits)
      then show ?thesis
        using inv that(1) set_t unfolding outbox_inv_def sent_inv_def by blast
    qed
    then show ?thesis
      using inv pub by (simp add: outbox_inv_def sent_inv_def del: fun_upd_apply)
  qed
  ultimately show ?thesis by (simp only: outbox_inv_def simp_thms)
qed

lemma step_claim_inv:
  assumes inv: "outbox_inv s"
    and c: "OutboxStore_Claim reply rnd now locked limit lease (ob_table s) = (res, t)"
  shows "outbox_inv (s\<lparr>ob_table := t, ob_held := ob_held s \<union> claimed_by res\<rparr>)"
proof -
  have t: "t = ob_table s \<and> claimed_by res = {} \<or>
    (\<exists>token. t = snd (claim_metric_outbox now (nat limit) token lease locked (ob_table s)) \<and>
      claimed_by res \<subseteq> set (fst (claim_metric_outbox now (nat limit) token lease locked (ob_table s))))"
  proof (cases "limit < 1 \<or> lease \<le> 0 \<or> (\<exists>err. newClaimToken rnd = Inl err)")
    case True
    then show ?thesis using c by (auto simp: OutboxStore_Claim_def claimed_by_def split: if_splits)
  next
    case False
    then obtain token where tk: "newClaimToken rnd = Inr token" by (cases "newClaimToken rnd") auto
    obtain evs u where cl: "claim_metric_outbox now (nat limit) token lease locked (ob_table s) = (evs, u)"
      by fastforce
    have "t = ob_table s \<and> claimed_by res = {} \<or> t = u \<and> claimed_by res \<subseteq> set evs"
      using c False tk cl
      by (auto simp: OutboxStore_Claim_def claimed_by_def split: if_splits db_reply.splits)
    then show ?thesis using cl by (metis fst_conv snd_conv)
  qed
  then show ?thesis
  proof (elim disjE exE conjE)
    assume "t = ob_table s" "claimed_by res = {}"
    then show ?thesis using inv by simp
  next
    fix token
    let ?c = "claim_metric_outbox now (nat limit) token lease locked (ob_table s)"
    assume t: "t = snd ?c" and ev: "claimed_by res \<subseteq> set (fst ?c)"
    have k: "map row_key t = map row_key (ob_table s)" by (simp add: t statements_keep_keys)
    have "published_set t \<subseteq> delivered (ob_sent s)"
      using inv by (simp add: t claim_keeps_published outbox_inv_def sent_inv_def)
    with inv k have s1: "outbox_inv (s\<lparr>ob_table := t\<rparr>)" by (rule outbox_inv_same_keys)
    have "oe_ID e \<in> ob_used s \<and>
        (\<forall>r \<in> set t. or_id r = oe_ID e \<longrightarrow> (or_task r, or_seq r) = event_key e) \<and>
        (\<forall>m. 1 \<le> m \<and> m < oe_EventSeq e \<longrightarrow> (oe_TaskID e, m) \<in> delivered (ob_sent s))"
      if e: "e \<in> set (fst ?c)" for e
    proof -
      obtain r where r: "r \<in> set (ob_table s)" "e = row_event token r"
        using claimed_event [OF e] by blast
      have used: "oe_ID e \<in> ob_used s" and seq: "or_seq r \<le> ob_counter s (or_task r)"
        and d: "distinct (map or_id (ob_table s))"
        using inv r by (auto simp: outbox_inv_def table_inv_def row_event_def)
      have "(or_task q, or_seq q) = event_key e" if "q \<in> set (ob_table s)" "or_id q = oe_ID e" for q
      proof -
        have "q = r" using that r d by (auto simp: distinct_map row_event_def dest: inj_onD)
        then show ?thesis by (simp add: r(2) row_event_def event_key_def)
      qed
      then have "\<forall>q \<in> set t. or_id q = oe_ID e \<longrightarrow> (or_task q, or_seq q) = event_key e"
        using keys_determine(2) [OF k, of "\<lambda>i a b. i = oe_ID e \<and> (a, b) \<noteq> event_key e"] by blast
      moreover have "(oe_TaskID e, m) \<in> delivered (ob_sent s)" if m: "1 \<le> m" "m < oe_EventSeq e" for m
      proof -
        have "m \<le> ob_counter s (oe_TaskID e)" using m seq by (simp add: r(2) row_event_def)
        then consider "(oe_TaskID e, m) \<in> delivered (ob_sent s)"
          | q where "q \<in> set (ob_table s)" "or_task q = oe_TaskID e" "or_seq q = m"
          using inv m(1) unfolding outbox_inv_def sent_inv_def by blast
        then show ?thesis
        proof cases
          case 2
          then have "or_published q \<noteq> None"
            using claimed_predecessors [OF e, of q] m(2) by simp
          with 2 have "(oe_TaskID e, m) \<in> published_set (ob_table s)"
            using published_setI [of q] by simp
          then show ?thesis using inv by (auto simp: outbox_inv_def sent_inv_def)
        qed
      qed
      ultimately show ?thesis using used by blast
    qed
    with ev s1 show ?thesis
      by (auto simp: outbox_inv_def table_inv_def held_inv_def sent_inv_def)
  qed
qed

lemma step_send_inv:
  assumes inv: "outbox_inv s" and ev: "ev \<in> ob_held s"
  shows "outbox_inv (s\<lparr>ob_sent := (oe_TaskID ev, oe_EventSeq ev, ok) # ob_sent s,
      ob_confirmed := (if ok then insert ev (ob_confirmed s) else ob_confirmed s)\<rparr>)"
  using inv ev
  by (auto simp: outbox_inv_def table_inv_def held_inv_def sent_inv_def event_key_def)

lemma exec_claimed_table:
  "exec_claimed reply what res t = (r, t') \<Longrightarrow> t' = snd res \<or> t' = t"
  by (auto simp: exec_claimed_def split: db_reply.splits if_splits)

lemma step_published_inv:
  assumes inv: "outbox_inv s" and ev: "ev \<in> ob_confirmed s"
    and m: "OutboxStore_MarkPublished reply now ev (ob_table s) = (r, t)"
  shows "outbox_inv (s\<lparr>ob_table := t\<rparr>)"
proof -
  let ?u = "snd (mark_metric_outbox_published now (oe_ID ev) (oe_ClaimToken ev) (ob_table s))"
  have "t = ?u \<or> t = ob_table s"
    using m exec_claimed_table by (fastforce simp: OutboxStore_MarkPublished_def)
  moreover have "outbox_inv (s\<lparr>ob_table := ?u\<rparr>)"
  proof (rule outbox_inv_same_keys [OF inv])
    show "map row_key ?u = map row_key (ob_table s)" by (rule statements_keep_keys)
    have "(or_task q, or_seq q) \<in> delivered (ob_sent s)"
      if "q \<in> set (ob_table s)" "held_row (oe_ID ev) (oe_ClaimToken ev) q" for q
    proof -
      have h: "ev \<in> ob_held s" "event_key ev \<in> delivered (ob_sent s)"
        using inv ev by (auto simp: outbox_inv_def held_inv_def)
      then have "(or_task q, or_seq q) = event_key ev"
        using inv that by (auto simp: outbox_inv_def held_inv_def held_row_def)
      with h show ?thesis by simp
    qed
    then show "published_set ?u \<subseteq> delivered (ob_sent s)"
      using inv by (auto simp: mark_published_set outbox_inv_def sent_inv_def)
  qed
  ultimately show ?thesis using inv by auto
qed

lemma step_failed_inv:
  assumes inv: "outbox_inv s"
    and m: "OutboxStore_MarkFailed reply now ev backoff (ob_table s) = (r, t)"
  shows "outbox_inv (s\<lparr>ob_table := t\<rparr>)"
proof -
  let ?u = "snd (mark_metric_outbox_failed now (oe_ID ev) (oe_ClaimToken ev) backoff (ob_table s))"
  have "t = ?u \<or> t = ob_table s"
    using m exec_claimed_table by (fastforce simp: OutboxStore_MarkFailed_def)
  moreover have "outbox_inv (s\<lparr>ob_table := ?u\<rparr>)"
    using inv by (intro outbox_inv_same_keys [OF inv])
      (simp_all add: statements_keep_keys failed_keeps_published outbox_inv_def sent_inv_def)
  ultimately show ?thesis using inv by auto
qed

lemma step_release_inv:
  assumes inv: "outbox_inv s"
    and m: "OutboxStore_ReleaseClaim reply ev (ob_table s) = (r, t)"
  shows "outbox_inv (s\<lparr>ob_table := t\<rparr>)"
proof -
  let ?u = "snd (release_metric_outbox_claim (oe_ID ev) (oe_ClaimToken ev) (ob_table s))"
  have "t = ?u \<or> t = ob_table s"
    using m exec_claimed_table by (fastforce simp: OutboxStore_ReleaseClaim_def)
  moreover have "outbox_inv (s\<lparr>ob_table := ?u\<rparr>)"
    using inv by (intro outbox_inv_same_keys [OF inv])
      (simp_all add: statements_keep_keys failed_keeps_published outbox_inv_def sent_inv_def)
  ultimately show ?thesis using inv by auto
qed

lemma step_retention_inv:
  assumes inv: "outbox_inv s"
  shows "outbox_inv (s\<lparr>ob_table := snd (delete_expired_outbox cutoff batch (ob_table s))\<rparr>)"
proof -
  let ?ids = "set (map or_id (expired_outbox cutoff batch (ob_table s)))"
  let ?t = "filter (\<lambda>r. or_id r \<notin> ?ids) (ob_table s)"
  have t: "snd (delete_expired_outbox cutoff batch (ob_table s)) = ?t"
    by (simp add: delete_expired_outbox_def Let_def)
  have d: "distinct (map or_id (ob_table s))"
    using inv by (simp add: outbox_inv_def table_inv_def)
  have gone: "(or_task r, or_seq r) \<in> delivered (ob_sent s)"
    if r: "r \<in> set (ob_table s)" "or_id r \<in> ?ids" for r
  proof -
    obtain q where "q \<in> set (ob_table s)" "or_published q \<noteq> None" "or_id q = or_id r"
      using r(2) by (auto simp: expired_outbox_def dest!: in_set_takeD)
    moreover from this have "q = r" using r(1) d by (auto simp: distinct_map dest: inj_onD)
    ultimately have "(or_task r, or_seq r) \<in> published_set (ob_table s)"
      using published_setI [of r] by simp
    then show ?thesis using inv by (auto simp: outbox_inv_def sent_inv_def)
  qed
  have "distinct (map or_id ?t)" using d by (simp add: distinct_map_filter)
  then have "table_inv (s\<lparr>ob_table := ?t\<rparr>)"
    using inv by (auto simp: outbox_inv_def table_inv_def)
  moreover have "held_inv (s\<lparr>ob_table := ?t\<rparr>)"
    using inv by (auto simp: outbox_inv_def held_inv_def)
  moreover have "sent_inv (s\<lparr>ob_table := ?t\<rparr>)"
  proof -
    have "published_set ?t \<subseteq> published_set (ob_table s)" by (auto simp: published_set_def)
    then have "published_set ?t \<subseteq> delivered (ob_sent s)"
      using inv by (auto simp: outbox_inv_def sent_inv_def)
    moreover have "(a, m) \<in> delivered (ob_sent s) \<or> (\<exists>r \<in> set ?t. or_task r = a \<and> or_seq r = m)"
      if "1 \<le> m" "m \<le> ob_counter s a" for a m
    proof -
      from that inv consider "(a, m) \<in> delivered (ob_sent s)"
        | r where "r \<in> set (ob_table s)" "or_task r = a" "or_seq r = m"
        unfolding outbox_inv_def sent_inv_def by blast
      then show ?thesis using gone by cases auto
    qed
    ultimately show ?thesis using inv by (simp add: outbox_inv_def sent_inv_def)
  qed
  ultimately show ?thesis unfolding t by (simp add: outbox_inv_def)
qed

lemma outbox_step_inv:
  assumes "outbox_step s s'" "outbox_inv s"
  shows "outbox_inv s'"
  using assms
proof cases
  case step_persist
  then show ?thesis using step_persist_inv assms(2) by blast
next
  case step_claim
  then show ?thesis using step_claim_inv assms(2) by blast
next
  case step_send
  then show ?thesis using step_send_inv assms(2) by blast
next
  case step_published
  then show ?thesis using step_published_inv assms(2) by blast
next
  case step_failed
  then show ?thesis using step_failed_inv assms(2) by blast
next
  case step_release
  then show ?thesis using step_release_inv assms(2) by blast
next
  case step_retention
  then show ?thesis using step_retention_inv assms(2) by blast
qed

lemma outbox_reach_inv: "outbox_reach s \<Longrightarrow> outbox_inv s"
  by (induction rule: outbox_reach.induct) (auto intro: outbox_inv_init outbox_step_inv)

end
