(* ===== verification/StoreFacts.thy ===== *)
theory StoreFacts
  imports Store OutboxOrder
begin

section \<open>Facts about the store\<close>

text \<open>
  Lemmas on each part of a flush: the encoding, the insert, the events, and the ways a
  transaction ends.
\<close>

subsection \<open>Encoding\<close>

definition point_row :: "metric_point \<Rightarrow> metric_row" where
  "point_row p = \<lparr>mr_task = mp_TaskID p, mr_key = mp_Key p, mr_step = mp_Step p,
     mr_ts = mp_TimestampMillis p, mr_value = mp_Value p\<rparr>"

definition columns_aligned :: "metric_point_columns \<Rightarrow> bool" where
  "columns_aligned c \<longleftrightarrow>
     length (mc_keys c) = length (mc_taskIDs c) \<and> length (mc_steps c) = length (mc_taskIDs c) \<and>
     length (mc_timestamps c) = length (mc_taskIDs c) \<and> length (mc_values c) = length (mc_taskIDs c)"

lemma rows_of_append_point:
  assumes "columns_aligned c"
  shows "rows_of (append_point c p) = rows_of c @ [point_row p]" "columns_aligned (append_point c p)"
  using assms by (simp_all add: columns_aligned_def rows_of_def append_point_def point_row_def)

lemma encode_loop_spec:
  assumes "encode_loop ps c tasks = Inr (c', tasks')" "columns_aligned c" "distinct tasks"
  shows "rows_of c' = rows_of c @ map point_row ps \<and>
    mc_timestamps c' = mc_timestamps c @ map mp_TimestampMillis ps \<and>
    distinct tasks' \<and> set tasks' = set tasks \<union> mp_TaskID ` set ps"
  using assms
proof (induction ps arbitrary: c tasks)
  case (Cons p ps)
  have ok: "encode_loop ps (append_point c p) (List.insert (mp_TaskID p) tasks) = Inr (c', tasks')"
    using Cons.prems(1) by (auto split: if_splits)
  have ts: "mc_timestamps (append_point c p) = mc_timestamps c @ [mp_TimestampMillis p]"
    by (simp add: append_point_def)
  show ?case
    using Cons.IH [OF ok rows_of_append_point(2) [OF Cons.prems(2)]] Cons.prems(3)
      rows_of_append_point(1) [OF Cons.prems(2), of p] ts
    by auto
qed simp

lemma encode_loop_defined:
  "(\<exists>v. encode_loop ps c tasks = Inr v) \<longleftrightarrow> (\<forall>p \<in> set ps. 0 \<le> mp_Step p \<and> mp_Step p \<le> 2147483647)"
  by (induction ps arbitrary: c tasks) auto

lemma encodeMetricPoints_spec:
  assumes "encodeMetricPoints ps = Inr (c, tasks)"
  shows "rows_of c = map point_row ps" "mc_timestamps c = map mp_TimestampMillis ps"
    "set tasks = mp_TaskID ` set ps"
proof -
  obtain ts where l: "encode_loop ps empty_columns [] = Inr (c, ts)" "tasks = sort ts"
    using assms by (auto simp: encodeMetricPoints_def split: sum.splits prod.splits)
  have a: "columns_aligned empty_columns" by (simp add: columns_aligned_def empty_columns_def)
  have e: "rows_of empty_columns = []" "mc_timestamps empty_columns = []"
    by (simp_all add: rows_of_def empty_columns_def)
  show "rows_of c = map point_row ps" "mc_timestamps c = map mp_TimestampMillis ps"
    "set tasks = mp_TaskID ` set ps"
    using encode_loop_spec [OF l(1) a] l(2) e by simp_all
qed

subsection \<open>The insert\<close>

lemma insert_points_spec:
  assumes "insert_points t rs = (t', ins)"
  shows "t' = t @ ins \<and> set ins \<subseteq> set rs \<and> point_key ` set t' = point_key ` set t \<union> point_key ` set rs \<and>
    (distinct (map point_key t) \<longrightarrow> distinct (map point_key t'))"
  using assms
proof (induction rs arbitrary: t t' ins)
  case (Cons r rs)
  show ?case
  proof (cases "point_key r \<in> set (map point_key t)")
    case True
    then have "insert_points t rs = (t', ins)" using Cons.prems by simp
    note IH = Cons.IH [OF this]
    have "point_key ` set (r # rs) \<union> point_key ` set t = point_key ` set rs \<union> point_key ` set t"
      using True by auto
    then show ?thesis using IH by (metis Un_commute list.set_intros(2) subset_eq)
  next
    case False
    obtain t1 ins1 where i: "insert_points (t @ [r]) rs = (t1, ins1)" by fastforce
    then have eqs: "t' = t1" "ins = r # ins1" using Cons.prems False by auto
    have IH: "t1 = (t @ [r]) @ ins1" "set ins1 \<subseteq> set rs"
      "point_key ` set t1 = point_key ` set (t @ [r]) \<union> point_key ` set rs"
      "distinct (map point_key (t @ [r])) \<longrightarrow> distinct (map point_key t1)"
      using Cons.IH [OF i] by blast+
    have "point_key ` set t' = point_key ` set t \<union> point_key ` set (r # rs)"
      unfolding eqs IH(3) by auto
    moreover have "distinct (map point_key t) \<longrightarrow> distinct (map point_key t')"
      using IH(4) False unfolding eqs by simp
    ultimately show ?thesis using IH(1,2) eqs by auto
  qed
qed simp

lemma insert_points_present:
  "point_key ` set rs \<subseteq> point_key ` set t \<Longrightarrow> insert_points t rs = (t, [])"
  by (induction rs) simp_all

subsection \<open>Partitions\<close>

lemma set_add_days [simp]: "set (add_days new days) = set days \<union> set new"
  by (auto simp: add_days_def)

lemma ensure_days_spec:
  assumes "ensure_days exec ds db = (None, db')"
  shows "set (pg_point_days db') = set (pg_point_days db) \<union> set ds \<and>
    set (pg_event_days db') = set (pg_event_days db) \<union> set ds \<and>
    pg_points db' = pg_points db \<and> pg_counters db' = pg_counters db \<and> pg_events db' = pg_events db \<and>
    pg_outbox db' = pg_outbox db \<and> pg_next_id db' = pg_next_id db"
  using assms
proof (induction ds arbitrary: db)
  case (Cons d ds)
  then have "ensure_days exec ds (ensure_metric_daily_partitions d 0 0 db) = (None, db')"
    by (auto split: option.splits)
  from Cons.IH [OF this] show ?case by (simp add: ensure_metric_daily_partitions_def)
qed simp

lemma set_missing_days:
  "set (missing_days ts now) = {d \<in> day_of ` set ts. d < day_of now - 8 \<or> day_of now + 2 < d}"
  by (auto simp: missing_days_def Let_def partitionPastDays_def partitionFutureDays_def)

subsection \<open>The events\<close>

lemma add_events_frame [simp]:
  "pg_points (add_events im now ins ts db) = pg_points db"
  "pg_point_days (add_events im now ins ts db) = pg_point_days db"
  "pg_event_days (add_events im now ins ts db) = pg_event_days db"
  by (induction ts arbitrary: db) (simp_all add: Let_def split: option.splits)

text \<open>The events of a task are numbered by its counter, without a gap.\<close>

definition counter_of :: "pg \<Rightarrow> string \<Rightarrow> int" where
  "counter_of db t = (case pg_counters db t of None \<Rightarrow> 0 | Some n \<Rightarrow> n)"

definition numbered :: "pg \<Rightarrow> bool" where
  "numbered db \<longleftrightarrow> (\<forall>t. 0 \<le> counter_of db t \<and>
     map er_seq (filter (\<lambda>e. er_task e = t) (pg_events db)) = [1..counter_of db t])"

lemma add_events_numbered: "numbered db \<Longrightarrow> numbered (add_events im now ins ts db)"
proof (induction ts arbitrary: db)
  case (Cons t ts)
  show ?case
  proof (cases "pg_counters db t")
    case None
    then show ?thesis using Cons by simp
  next
    case (Some n)
    let ?db = "db\<lparr>pg_counters := (pg_counters db)(t \<mapsto> n + 1),
      pg_events := pg_events db @ [\<lparr>er_created = now, er_task = t, er_seq = n + 1,
        er_payload = pi_jsonb im (filter (\<lambda>r. mr_task r = t) ins)\<rparr>],
      pg_outbox := insert_metric_outbox now (pg_next_id db) t (n + 1)
        (pi_jsonb im (filter (\<lambda>r. mr_task r = t) ins)) (pg_outbox db),
      pg_next_id := pg_next_id db + 1\<rparr>"
    have c: "counter_of ?db u = (if u = t then n + 1 else counter_of db u)" "counter_of db t = n" for u
      using Some by (simp_all add: counter_of_def)
    have "0 \<le> n" using Cons.prems c(2) by (auto simp: numbered_def)
    then have "[1..n + 1] = [1..n] @ [n + 1]" by (simp add: upto_rec2)
    then have "numbered ?db"
      using Cons.prems c \<open>0 \<le> n\<close> by (auto simp: numbered_def)
    then show ?thesis using Cons.IH Some by (simp add: Let_def)
  qed
qed simp

lemma seed_counter_of [simp]: "counter_of (seed_task_event_counters tasks db) t = counter_of db t"
  by (simp add: counter_of_def seed_task_event_counters_def split: option.split)

lemma seed_frame [simp]:
  "pg_points (seed_task_event_counters tasks db) = pg_points db"
  "pg_events (seed_task_event_counters tasks db) = pg_events db"
  "pg_outbox (seed_task_event_counters tasks db) = pg_outbox db"
  "pg_next_id (seed_task_event_counters tasks db) = pg_next_id db"
  "pg_point_days (seed_task_event_counters tasks db) = pg_point_days db"
  "pg_event_days (seed_task_event_counters tasks db) = pg_event_days db"
  by (simp_all add: seed_task_event_counters_def)

subsection \<open>How a flush ends\<close>

text \<open>The state a flush commits, with the rows it inserted.\<close>

definition flushed :: "pg_impl \<Rightarrow> int \<Rightarrow> metric_point list \<Rightarrow> pg \<Rightarrow> metric_row list \<Rightarrow> pg \<Rightarrow> bool" where
  "flushed im now ps db ins db' \<longleftrightarrow> (\<exists>db1 tasks t.
     ensure_days (\<lambda>_. None) (missing_days (map mp_TimestampMillis ps) now) db = (None, db1) \<and>
     set tasks = mp_TaskID ` set ps \<and>
     insert_points (pg_points db) (map point_row ps) = (t, ins) \<and>
     list_all (point_admissible (pg_point_days db1)) (map point_row ps) \<and>
     db' = add_events im now ins (pi_order im (remdups (map mr_task ins)))
       ((seed_task_event_counters tasks db1)\<lparr>pg_points := t\<rparr>))"

lemma ensure_days_no_errors:
  "ensure_days exec ds db = (None, db') \<Longrightarrow> ensure_days (\<lambda>_. None) ds db = (None, db')"
  by (induction ds arbitrary: db) (auto split: option.splits)

lemma flush_transaction_ends:
  assumes "flush_transaction im r now c tasks db = x"
    and "rows_of c = map point_row ps" "mc_timestamps c = map mp_TimestampMillis ps"
    and "set tasks = mp_TaskID ` set ps"
  shows "(\<exists>err. x = Inl (Some err)) \<or> (\<exists>ins db'. x = Inr db' \<and> flushed im now ps db ins db')"
proof -
  have close: "\<exists>e'. closeBatchWithError o1 e = Some e'" for o1 e
    by (auto simp: closeBatchWithError_def errors_join_def Let_def split: option.split)
  obtain e1 db1 where e1: "ensureMetricPointPartitions (fl_ensure r) (mc_timestamps c) now db = (e1, db1)"
    by fastforce
  show ?thesis
  proof (cases "e1 = None \<and> fl_seed r = None \<and> fl_query r = None")
    case False
    then show ?thesis
      using assms(1) e1 close by (cases e1; cases "fl_seed r"; cases "fl_query r")
        (auto simp: flush_transaction_def)
  next
    case True
    then have days: "ensure_days (\<lambda>_. None) (missing_days (map mp_TimestampMillis ps) now) db = (None, db1)"
      using e1 ensure_days_no_errors assms(3) by (auto simp: ensureMetricPointPartitions_def)
    have pts: "pg_points db1 = pg_points db" using ensure_days_spec [OF days] by simp
    obtain p where p: "persist_metric_flush im now c (seed_task_event_counters tasks db1) = p" by simp
    show ?thesis
    proof (cases p)
      case (Inl err)
      then show ?thesis using assms(1) e1 True p close by (auto simp: flush_transaction_def)
    next
      case (Inr db2)
      obtain t ins where ins: "insert_points (pg_points db) (map point_row ps) = (t, ins)" by fastforce
      have "flushed im now ps db ins db2"
        using p Inr days pts ins assms(2,4)
        by (auto simp: flushed_def persist_metric_flush_def Let_def split: if_splits)
      moreover have "x = Inr db2 \<or> (\<exists>err. x = Inl (Some err))"
        using assms(1) e1 True p Inr close
        by (cases "fl_scan r"; cases "fl_rows r"; cases "fl_close r") (auto simp: flush_transaction_def)
      ultimately show ?thesis by blast
    qed
  qed
qed

lemma store_Flush_ends:
  assumes "store_Flush im r now ps db = (res, db')"
  shows "(res = None \<longrightarrow> (ps = [] \<and> db' = db) \<or> (\<exists>ins. flushed im now ps db ins db')) \<and>
    (res \<noteq> None \<longrightarrow> db' = db \<or>
       (\<exists>cerr. fl_commit r = DbFailed cerr True \<and>
          store_Flush im (r\<lparr>fl_commit := DbOk\<rparr>) now ps db = (None, db')))"
proof (cases "ps = []")
  case True
  then show ?thesis using assms by (simp add: store_Flush_def)
next
  case ne: False
  obtain enc where enc: "encodeMetricPoints ps = enc" by simp
  show ?thesis
  proof (cases enc)
    case (Inl err)
    then show ?thesis using assms ne enc by (auto simp: store_Flush_def)
  next
    case (Inr ct)
    obtain c tasks where ct: "encodeMetricPoints ps = Inr (c, tasks)" using enc Inr by (cases ct) auto
    obtain x where x: "flush_transaction im r now c tasks db = x" by simp
    have same: "flush_transaction im (r\<lparr>fl_commit := DbOk\<rparr>) now c tasks db = x"
      using x by (simp add: flush_transaction_def cong: option.case_cong sum.case_cong prod.case_cong)
    consider err where "x = Inl (Some err)" | ins db2 where "x = Inr db2" "flushed im now ps db ins db2"
      using flush_transaction_ends [OF x encodeMetricPoints_spec [OF ct]] by blast
    then show ?thesis
    proof cases
      case 1
      then show ?thesis using assms ne ct x by (cases "fl_begin r") (auto simp: store_Flush_def)
    next
      case 2
      then show ?thesis
        using assms ne ct x same
        by (cases "fl_begin r"; cases "fl_commit r") (auto simp: store_Flush_def split: if_splits)
    qed
  qed
qed

end
