(* ===== verification/StoreProps.thy ===== *)
theory StoreProps
  imports StoreFacts
begin

section \<open>Properties of the store\<close>

text \<open>
  Atomicity and idempotence of a flush, the numbering of the events it generates, the
  partitions it needs, and the refinement of the outbox protocol of theory \<open>OutboxOrder\<close>.
\<close>

definition has_point :: "pg \<Rightarrow> metric_point \<Rightarrow> bool" where
  "has_point db p \<longleftrightarrow> point_key (point_row p) \<in> point_key ` set (pg_points db)"

lemma flushed_points:
  assumes "flushed im now ps db ins db'"
  shows "pg_points db' = pg_points db @ ins" "set ins \<subseteq> point_row ` set ps"
    "point_key ` set (pg_points db') = point_key ` set (pg_points db) \<union> point_key ` point_row ` set ps"
    "distinct (map point_key (pg_points db)) \<Longrightarrow> distinct (map point_key (pg_points db'))"
proof -
  obtain db1 tasks t where
    ins: "insert_points (pg_points db) (map point_row ps) = (t, ins)"
    and db': "db' = add_events im now ins (pi_order im (remdups (map mr_task ins)))
       ((seed_task_event_counters tasks db1)\<lparr>pg_points := t\<rparr>)"
    using assms by (auto simp: flushed_def)
  have t: "t = pg_points db'" by (simp add: db')
  show "pg_points db' = pg_points db @ ins" "set ins \<subseteq> point_row ` set ps"
    "point_key ` set (pg_points db') = point_key ` set (pg_points db) \<union> point_key ` point_row ` set ps"
    "distinct (map point_key (pg_points db)) \<Longrightarrow> distinct (map point_key (pg_points db'))"
    using insert_points_spec [OF ins] unfolding t set_map by blast+
qed

lemma flushed_numbered: "flushed im now ps db ins db' \<Longrightarrow> numbered db \<Longrightarrow> numbered db'"
proof -
  assume f: "flushed im now ps db ins db'" and n: "numbered db"
  obtain db1 tasks t where
    d: "ensure_days (\<lambda>_. None) (missing_days (map mp_TimestampMillis ps) now) db = (None, db1)"
    and db': "db' = add_events im now ins (pi_order im (remdups (map mr_task ins)))
       ((seed_task_event_counters tasks db1)\<lparr>pg_points := t\<rparr>)"
    using f by (auto simp: flushed_def)
  have "counter_of db1 u = counter_of db u" for u using ensure_days_spec [OF d] by (simp add: counter_of_def)
  moreover have "counter_of ((seed_task_event_counters tasks db1)\<lparr>pg_points := t\<rparr>) u = counter_of db1 u" for u
    using seed_counter_of [of tasks db1 u] by (simp add: counter_of_def)
  ultimately have "numbered ((seed_task_event_counters tasks db1)\<lparr>pg_points := t\<rparr>)"
    using n ensure_days_spec [OF d] by (simp add: numbered_def)
  then show "numbered db'" unfolding db' by (rule add_events_numbered)
qed

text \<open>With no new row there is nothing to announce.\<close>

lemma flushed_nothing_new:
  assumes "flushed im now ps db ins db'" "orders im" "ins = []"
  shows "pg_events db' = pg_events db" "pg_outbox db' = pg_outbox db" "counter_of db' t = counter_of db t"
proof -
  obtain db1 tasks t' where
    d: "ensure_days (\<lambda>_. None) (missing_days (map mp_TimestampMillis ps) now) db = (None, db1)"
    and db': "db' = add_events im now ins (pi_order im (remdups (map mr_task ins)))
       ((seed_task_event_counters tasks db1)\<lparr>pg_points := t'\<rparr>)"
    using assms(1) by (auto simp: flushed_def)
  have "mset (pi_order im []) = {#}" using assms(2) by (simp add: orders_def)
  then have "db' = (seed_task_event_counters tasks db1)\<lparr>pg_points := t'\<rparr>"
    using db' assms(3) by simp
  then show "pg_events db' = pg_events db" "pg_outbox db' = pg_outbox db" "counter_of db' t = counter_of db t"
    using ensure_days_spec [OF d] seed_counter_of [of tasks db1 t]
    by (simp_all add: counter_of_def)
qed

subsection \<open>Flushes\<close>

text \<open>
  C5. A flush is all or nothing, on every error path: if it returns an error, the database is
  as it was, except when the commit itself failed after taking effect, and then it is exactly
  the state a successful flush leaves.
\<close>

theorem flush_atomic:
  assumes "store_Flush im r now ps db = (Some err, db')"
  shows "db' = db \<or> (\<exists>cerr. fl_commit r = DbFailed cerr True \<and>
    store_Flush im (r\<lparr>fl_commit := DbOk\<rparr>) now ps db = (None, db'))"
  using store_Flush_ends [OF assms] by auto

definition no_errors :: flush_replies where
  "no_errors = \<lparr>fl_begin = None, fl_ensure = (\<lambda>_. None), fl_seed = None, fl_query = None, fl_scan = None,
     fl_rows = None, fl_close = None, fl_commit = DbOk\<rparr>"

definition example_impl :: pg_impl where
  "example_impl = \<lparr>pi_jsonb = (\<lambda>rows. ''{}''), pi_order = (\<lambda>tasks. tasks)\<rparr>"

definition empty_pg :: "int list \<Rightarrow> pg" where
  "empty_pg days = \<lparr>pg_points = [], pg_counters = Map.empty, pg_events = [], pg_outbox = [], pg_next_id = 1,
     pg_point_days = days, pg_event_days = days\<rparr>"

definition store_point :: metric_point where
  "store_point = \<lparr>mp_TaskID = ''t'', mp_Key = ''k'', mp_Step = 3, mp_TimestampMillis = 5, mp_Value = 0\<rparr>"

definition store_row :: metric_row where
  "store_row = \<lparr>mr_task = ''t'', mr_key = ''k'', mr_step = 3, mr_ts = 5, mr_value = 0\<rparr>"

definition one_point_pg :: pg where
  "one_point_pg = (empty_pg [0])\<lparr>pg_points := [store_row], pg_counters := [''t'' \<mapsto> 1],
     pg_events := [\<lparr>er_created = 7, er_task = ''t'', er_seq = 1, er_payload = ''{}''\<rparr>],
     pg_outbox := [\<lparr>or_id = 1, or_task = ''t'', or_seq = 1, or_payload = ''{}'', or_created = 7,
       or_claimed_until = None, or_token = None, or_published = None, or_attempts = 0, or_next = 7\<rparr>],
     pg_next_id := 2\<rparr>"

lemma zero_finite [simp]: "float_finite 0"
  by (simp add: float_finite_def float_exponent_def)

lemma example_flush:
  "store_Flush example_impl (no_errors\<lparr>fl_commit := c\<rparr>) 7 [store_point] (empty_pg [0]) =
    (case c of DbOk \<Rightarrow> (None, one_point_pg)
     | DbFailed err applied \<Rightarrow>
         (Some (ErrWrap ''commit metric flush transaction'' [err]), if applied then one_point_pg else empty_pg [0]))"
proof -
  have "(\<lambda>t. if t = ''t'' then Some 0 else f t)(''t'' \<mapsto> 1) = f(''t'' \<mapsto> (1 :: int))" for f by auto
  then show ?thesis
    by (simp add: store_Flush_def encodeMetricPoints_def store_point_def flush_transaction_def no_errors_def
        ensureMetricPointPartitions_def missing_days_def day_of_def partitionPastDays_def
        partitionFutureDays_def empty_columns_def append_point_def persist_metric_flush_def rows_of_def
        point_admissible_def empty_pg_def seed_task_event_counters_def example_impl_def Let_def
        insert_metric_outbox_def one_point_pg_def store_row_def split: db_reply.split)
qed

lemma flush_atomic_witness:
  "\<exists>db'. store_Flush example_impl (no_errors\<lparr>fl_commit := DbFailed (ErrNew ''lost'') True\<rparr>) 7 [store_point]
      (empty_pg [0]) = (Some (ErrWrap ''commit metric flush transaction'' [ErrNew ''lost'']), db') \<and>
    store_Flush example_impl (no_errors\<lparr>fl_commit := DbOk\<rparr>) 7 [store_point] (empty_pg [0]) = (None, db')"
proof -
  have run: "store_Flush example_impl (no_errors\<lparr>fl_commit := DbFailed (ErrNew ''lost'') True\<rparr>) 7 [store_point]
      (empty_pg [0]) = (Some (ErrWrap ''commit metric flush transaction'' [ErrNew ''lost'']), one_point_pg)"
    by (simp add: example_flush)
  have "one_point_pg \<noteq> empty_pg [0]" by (simp add: one_point_pg_def empty_pg_def)
  with flush_atomic [OF run] run show ?thesis by auto
qed

text \<open>
  C4. Persisting is exactly-once in effect: after a flush that returned nil every point it was
  given is in the table under its key, the rows that were there are unchanged and no key is there
  twice; and a later flush of such points again (a redelivery), with any points of them in any
  order, changes no point, generates no event and no outbox row.
\<close>

theorem flush_exactly_once:
  assumes "distinct (map point_key (pg_points db))" "orders im"
    and "store_Flush im r now ps db = (None, db')"
    and "store_Flush im r2 now2 again db' = (res, db2)" "set again \<subseteq> set ps"
  shows "(\<forall>p \<in> set ps. has_point db' p) \<and> (\<exists>new. pg_points db' = pg_points db @ new) \<and>
    distinct (map point_key (pg_points db')) \<and>
    pg_points db2 = pg_points db' \<and> pg_events db2 = pg_events db' \<and> pg_outbox db2 = pg_outbox db'"
proof -
  have first: "(\<forall>p \<in> set ps. has_point db' p) \<and> (\<exists>new. pg_points db' = pg_points db @ new) \<and>
      distinct (map point_key (pg_points db'))"
  proof (cases "ps = []")
    case True
    then have "db' = db" using assms(3) by (simp add: store_Flush_def)
    then show ?thesis using True assms(1) by simp
  next
    case False
    then obtain ins where f: "flushed im now ps db ins db'" using store_Flush_ends [OF assms(3)] by auto
    show ?thesis using flushed_points [OF f] assms(1) by (auto simp: has_point_def)
  qed
  have keys: "point_key ` set (map point_row again) \<subseteq> point_key ` set (pg_points db')"
    using first assms(5) by (auto simp: has_point_def)
  have quiet: "pg_points d = pg_points db' \<and> pg_events d = pg_events db' \<and> pg_outbox d = pg_outbox db'"
    if "flushed im now2 again db' ins d" for ins d
  proof -
    have "ins = []" using that insert_points_present [OF keys] by (auto simp: flushed_def)
    then show ?thesis
      using flushed_points(1) [OF that] flushed_nothing_new(1,2) [OF that assms(2)] by simp
  qed
  have "pg_points db2 = pg_points db' \<and> pg_events db2 = pg_events db' \<and> pg_outbox db2 = pg_outbox db'"
  proof (cases "res = None")
    case True
    then show ?thesis using store_Flush_ends [OF assms(4)] quiet by blast
  next
    case False
    then show ?thesis
      using store_Flush_ends [OF assms(4)] store_Flush_ends [of im "r2\<lparr>fl_commit := DbOk\<rparr>" now2 again db' None db2] quiet
      by blast
  qed
  with first show ?thesis by blast
qed

lemma flush_exactly_once_witness:
  "\<exists>db2 res. store_Flush example_impl (no_errors\<lparr>fl_commit := DbOk\<rparr>) 7 [store_point] one_point_pg = (res, db2) \<and>
    pg_points db2 = [store_row] \<and> length (pg_events db2) = 1"
proof -
  have run: "store_Flush example_impl (no_errors\<lparr>fl_commit := DbOk\<rparr>) 7 [store_point] (empty_pg [0])
      = (None, one_point_pg)" by (simp add: example_flush)
  obtain res db2 where again: "store_Flush example_impl (no_errors\<lparr>fl_commit := DbOk\<rparr>) 7 [store_point]
      one_point_pg = (res, db2)" by fastforce
  have "distinct (map point_key (pg_points (empty_pg [0])))" "orders example_impl"
    by (simp_all add: empty_pg_def orders_def example_impl_def)
  from flush_exactly_once [OF this run again subset_refl] again show ?thesis
    by (auto simp: one_point_pg_def)
qed

text \<open>The database after a list of flushes, each with its replies, clock and points.\<close>

fun run_flushes :: "pg_impl \<Rightarrow> (flush_replies \<times> int \<times> metric_point list) list \<Rightarrow> pg \<Rightarrow> pg" where
  "run_flushes im [] db = db"
| "run_flushes im ((r, now, ps) # rest) db = run_flushes im rest (snd (store_Flush im r now ps db))"

lemma store_Flush_numbered:
  assumes "store_Flush im r now ps db = (res, db')" "numbered db"
  shows "numbered db'"
proof (cases res)
  case None
  then show ?thesis using store_Flush_ends [OF assms(1)] flushed_numbered assms(2) by blast
next
  case (Some err)
  then show ?thesis
    using store_Flush_ends [OF assms(1)]
      store_Flush_ends [of im "r\<lparr>fl_commit := DbOk\<rparr>" now ps db None db'] flushed_numbered assms(2)
    by blast
qed

text \<open>
  C7. Whatever flushes run and however they end, the events generated for a task are numbered
  1, 2, 3, ... without a gap or a repetition, in the order of the log, and the task's counter
  is the last number.
\<close>

theorem events_numbered_without_gaps:
  "\<exists>n \<ge> 0. counter_of (run_flushes im fs (empty_pg days)) task = n \<and>
    map er_seq (filter (\<lambda>e. er_task e = task) (pg_events (run_flushes im fs (empty_pg days)))) = [1..n]"
proof -
  have "numbered db \<Longrightarrow> numbered (run_flushes im fs db)" for db
  proof (induction im fs db rule: run_flushes.induct)
    case (2 im r now ps rest db)
    have "numbered (snd (store_Flush im r now ps db))"
      by (rule store_Flush_numbered [OF surjective_pairing "2.prems"])
    then show ?case using "2.IH" by simp
  qed simp
  moreover have "numbered (empty_pg days)" by (simp add: numbered_def empty_pg_def counter_of_def)
  ultimately show ?thesis by (auto simp: numbered_def)
qed

text \<open>
  A flush never lacks a partition as long as the days from eight before to two after today
  are there: after \<open>ensureMetricPointPartitions\<close> every timestamp of the flush has its partition,
  however old or far in the future it is.
\<close>

theorem ensured_partitions_cover:
  assumes "set [day_of now - 8..day_of now + 2] \<subseteq> set (pg_point_days db)"
    and "ensureMetricPointPartitions exec timestamps now db = (None, db')" "ts \<in> set timestamps"
  shows "day_of ts \<in> set (pg_point_days db')"
proof -
  have "set (pg_point_days db') = set (pg_point_days db) \<union> set (missing_days timestamps now)"
    using ensure_days_spec [OF assms(2) [unfolded ensureMetricPointPartitions_def]] by simp
  then show ?thesis using assms(1,3)
    by (cases "day_of now - 8 \<le> day_of ts \<and> day_of ts \<le> day_of now + 2") (auto simp: set_missing_days)
qed

lemma ensured_partitions_cover_witness:
  "\<exists>db'. ensureMetricPointPartitions (\<lambda>_. None) [2000000000] 0 (empty_pg [-8..2]) = (None, db') \<and>
    day_of 2000000000 \<in> set (pg_point_days db')"
proof -
  have run: "ensureMetricPointPartitions (\<lambda>_. None) [2000000000] 0 (empty_pg [-8..2]) =
      (None, ensure_metric_daily_partitions 23 0 0 (empty_pg [-8..2]))"
    by (simp add: ensureMetricPointPartitions_def missing_days_def day_of_def partitionPastDays_def
        partitionFutureDays_def)
  have "set [day_of 0 - 8..day_of 0 + 2] \<subseteq> set (pg_point_days (empty_pg [-8..2]))"
    by (simp add: day_of_def empty_pg_def)
  from ensured_partitions_cover [OF this run] run show ?thesis by auto
qed

subsection \<open>Refinement of the outbox protocol\<close>

definition outbox_view :: "pg \<Rightarrow> outbox_sys \<Rightarrow> bool" where
  "outbox_view db s \<longleftrightarrow> ob_table s = pg_outbox db \<and> (\<forall>t. ob_counter s t = counter_of db t) \<and>
     (\<forall>i \<in> ob_used s. i < pg_next_id db)"

lemma add_events_refines:
  "outbox_view db s \<Longrightarrow> outbox_reach s \<Longrightarrow>
    \<exists>s'. outbox_view (add_events im now ins ts db) s' \<and> outbox_reach s' \<and> ob_sent s' = ob_sent s"
proof (induction ts arbitrary: db s)
  case (Cons t ts)
  show ?case
  proof (cases "pg_counters db t")
    case None
    then show ?thesis using Cons by simp
  next
    case (Some n)
    let ?p = "pi_jsonb im (filter (\<lambda>r. mr_task r = t) ins)"
    let ?db = "db\<lparr>pg_counters := (pg_counters db)(t \<mapsto> n + 1),
      pg_events := pg_events db @ [\<lparr>er_created = now, er_task = t, er_seq = n + 1, er_payload = ?p\<rparr>],
      pg_outbox := insert_metric_outbox now (pg_next_id db) t (n + 1) ?p (pg_outbox db),
      pg_next_id := pg_next_id db + 1\<rparr>"
    let ?s = "s\<lparr>ob_counter := (ob_counter s)(t := ob_counter s t + 1),
      ob_used := insert (pg_next_id db) (ob_used s),
      ob_table := insert_metric_outbox now (pg_next_id db) t (ob_counter s t + 1) ?p (ob_table s)\<rparr>"
    have fresh: "pg_next_id db \<notin> ob_used s" using Cons.prems(1) by (auto simp: outbox_view_def)
    have "outbox_reach ?s"
      using reach_step [OF Cons.prems(2) step_persist [OF fresh, where task = t and now = now and payload = ?p]] .
    moreover have "outbox_view ?db ?s"
      using Cons.prems(1) Some by (auto simp: outbox_view_def counter_of_def)
    ultimately show ?thesis using Cons.IH [of ?db ?s] Some by (simp add: Let_def)
  qed
qed auto

lemma flushed_refines:
  assumes "flushed im now ps db ins db'" "outbox_view db s" "outbox_reach s"
  shows "\<exists>s'. outbox_view db' s' \<and> outbox_reach s' \<and> ob_sent s' = ob_sent s"
proof -
  obtain db1 tasks t where
    d: "ensure_days (\<lambda>_. None) (missing_days (map mp_TimestampMillis ps) now) db = (None, db1)"
    and db': "db' = add_events im now ins (pi_order im (remdups (map mr_task ins)))
       ((seed_task_event_counters tasks db1)\<lparr>pg_points := t\<rparr>)"
    using assms(1) by (auto simp: flushed_def)
  have "outbox_view ((seed_task_event_counters tasks db1)\<lparr>pg_points := t\<rparr>) s"
    using assms(2) ensure_days_spec [OF d] seed_counter_of [of tasks db1]
    by (simp add: outbox_view_def counter_of_def)
  from add_events_refines [OF this assms(3)] db' show ?thesis by blast
qed

text \<open>
  C6. A flush is a step of the outbox protocol (theory \<open>OutboxOrder\<close>): seen through its outbox
  table and counters, the store moves from a reachable state of that protocol to a reachable
  one, whatever the flush returns, so the in-order publication proved there holds of the
  outbox this store writes.
\<close>

theorem flush_refines_outbox:
  assumes "store_Flush im r now ps db = (res, db')" "outbox_view db s" "outbox_reach s"
  shows "\<exists>s'. outbox_view db' s' \<and> outbox_reach s' \<and> ob_sent s' = ob_sent s"
proof (cases res)
  case None
  then show ?thesis using store_Flush_ends [OF assms(1)] flushed_refines [OF _ assms(2,3)] assms(2,3) by blast
next
  case (Some err)
  then show ?thesis
    using store_Flush_ends [OF assms(1)] store_Flush_ends [of im "r\<lparr>fl_commit := DbOk\<rparr>" now ps db None db']
      flushed_refines [OF _ assms(2,3)] assms(2,3) by blast
qed

lemma flush_refines_outbox_witness:
  "\<exists>s'. outbox_view one_point_pg s' \<and> outbox_reach s' \<and> ob_sent s' = []"
proof -
  have "store_Flush example_impl (no_errors\<lparr>fl_commit := DbOk\<rparr>) 7 [store_point] (empty_pg [0])
      = (None, one_point_pg)" by (simp add: example_flush)
  moreover have "outbox_view (empty_pg [0]) outbox_init"
    by (simp add: outbox_view_def outbox_init_def empty_pg_def counter_of_def)
  ultimately show ?thesis
    using flush_refines_outbox [OF _ _ reach_init] by (fastforce simp: outbox_init_def)
qed

end
