(* ===== verification/Maintenance.thy ===== *)
theory Maintenance
  imports StoreProps
begin

section \<open>Partitions and retention\<close>

text \<open>
  \<open>internal/storage/postgres/partition_maintainer.go\<close> and the SQL functions it calls
  (\<open>migrations/000001\<close>, \<open>migrations/000002\<close>). A date is the number of its UTC day, an instant is in
  milliseconds, and a zero \<open>time.Time\<close> is \<open>None\<close>.
\<close>

definition day_millis :: int where
  "day_millis = 86400000"

record retention_result =
  PointPartitionsDropped :: int
  EventPartitionsDropped :: int
  MetricPointsDeleted :: int
  MetricEventsDeleted :: int
  MetricOutboxDeleted :: int

subsection \<open>The retention function of the database\<close>

definition drop_point_partitions :: "int \<Rightarrow> pg \<Rightarrow> int \<times> pg" where
  "drop_point_partitions cutoff_day db =
     (int (length (filter (\<lambda>d. d < cutoff_day) (pg_point_days db))),
      db\<lparr>pg_point_days := filter (\<lambda>d. \<not> d < cutoff_day) (pg_point_days db),
         pg_points := filter (\<lambda>r. \<not> day_of (mr_ts r) < cutoff_day) (pg_points db)\<rparr>)"

definition drop_event_partitions :: "int \<Rightarrow> pg \<Rightarrow> int \<times> pg" where
  "drop_event_partitions cutoff_day db =
     (int (length (filter (\<lambda>d. d < cutoff_day) (pg_event_days db))),
      db\<lparr>pg_event_days := filter (\<lambda>d. \<not> d < cutoff_day) (pg_event_days db),
         pg_events := filter (\<lambda>e. \<not> day_of (er_created e) < cutoff_day) (pg_events db)\<rparr>)"

text \<open>
  \<open>DELETE ... USING\<close> the first rows that satisfy a condition, in an order, matched by their key.
\<close>

definition first_rows :: "('r list \<Rightarrow> 'r list) \<Rightarrow> ('r \<Rightarrow> bool) \<Rightarrow> nat \<Rightarrow> 'r list \<Rightarrow> 'r list" where
  "first_rows order P limit t = take limit (order (filter P t))"

definition delete_keys :: "('r \<Rightarrow> 'k) \<Rightarrow> 'r list \<Rightarrow> 'r list \<Rightarrow> 'r list" where
  "delete_keys key rows t = filter (\<lambda>r. key r \<notin> set (map key rows)) t"

definition delete_points :: "int \<Rightarrow> nat \<Rightarrow> pg \<Rightarrow> int \<times> pg" where
  "delete_points cutoff batch db =
     (let expired = first_rows (sort_key mr_ts) (\<lambda>r. mr_ts r < cutoff) batch (pg_points db)
      in (int (length expired), db\<lparr>pg_points := delete_keys point_key expired (pg_points db)\<rparr>))"

definition event_key3 :: "event_row \<Rightarrow> int \<times> string \<times> int" where
  "event_key3 e = (er_created e, er_task e, er_seq e)"

definition delete_events :: "int \<Rightarrow> nat \<Rightarrow> pg \<Rightarrow> int \<times> pg" where
  "delete_events cutoff batch db =
     (let expired = first_rows (sort_key er_created) (\<lambda>e. er_created e < cutoff) batch (pg_events db)
      in (int (length expired), db\<lparr>pg_events := delete_keys event_key3 expired (pg_events db)\<rparr>))"

definition delete_outbox :: "int \<Rightarrow> nat \<Rightarrow> pg \<Rightarrow> int \<times> pg" where
  "delete_outbox cutoff batch db =
     (case delete_expired_outbox cutoff batch (pg_outbox db) of
        (n, t) \<Rightarrow> (int n, db\<lparr>pg_outbox := t\<rparr>))"

definition maintain_metric_retention :: "int \<Rightarrow> nat \<Rightarrow> pg \<Rightarrow> retention_result \<times> pg" where
  "maintain_metric_retention cutoff batch db =
     (case drop_point_partitions (day_of cutoff) db of (a, db1) \<Rightarrow>
     (case drop_event_partitions (day_of cutoff) db1 of (b, db2) \<Rightarrow>
     (case delete_points cutoff batch db2 of (c, db3) \<Rightarrow>
     (case delete_events cutoff batch db3 of (d, db4) \<Rightarrow>
     (case delete_outbox cutoff batch db4 of (e, db5) \<Rightarrow>
       (\<lparr>PointPartitionsDropped = a, EventPartitionsDropped = b, MetricPointsDeleted = c,
         MetricEventsDeleted = d, MetricOutboxDeleted = e\<rparr>, db5))))))"

subsection \<open>The Go functions\<close>

definition ensureDailyPartitions ::
  "bool \<Rightarrow> db_reply \<Rightarrow> int \<Rightarrow> int \<Rightarrow> int \<Rightarrow> pg \<Rightarrow> go_error option \<times> pg" where
  "ensureDailyPartitions executor_nil reply referenceDay pastDays futureDays db =
     (if pastDays < 0 \<or> futureDays < 0 \<or> pastDays > 366 \<or> futureDays > 366
      then (Some (ErrNew ''partition day ranges must be between 0 and 366''), db)
      else if executor_nil then (Some (ErrNew ''partition executor is required''), db)
      else (let db' = ensure_metric_daily_partitions referenceDay pastDays futureDays db
            in case reply of
                 DbOk \<Rightarrow> (None, db')
               | DbFailed err applied \<Rightarrow>
                   (Some (ErrWrap ''ensure daily partitions'' [err]), if applied then db' else db)))"

definition EnsureWorkerDailyPartitions :: "db_reply \<Rightarrow> int \<Rightarrow> pg \<Rightarrow> go_error option \<times> pg" where
  "EnsureWorkerDailyPartitions reply now db =
     ensureDailyPartitions False reply (day_of now) partitionPastDays partitionFutureDays db"

definition MaintainRetention ::
  "bool \<Rightarrow> db_reply \<Rightarrow> int option \<Rightarrow> int \<Rightarrow> pg \<Rightarrow> (go_error + retention_result) \<times> pg" where
  "MaintainRetention executor_nil reply cutoff batchSize db =
     (if executor_nil then (Inl (ErrNew ''retention executor is required''), db)
      else case cutoff of
        None \<Rightarrow> (Inl (ErrNew ''retention cutoff is required''), db)
      | Some c \<Rightarrow>
          if batchSize < 1 \<or> batchSize > 100000
          then (Inl (ErrNew ''retention batch size must be between 1 and 100000''), db)
          else (case maintain_metric_retention c (nat batchSize) db of
                  (result, db') \<Rightarrow>
                    (case reply of
                       DbOk \<Rightarrow> (Inr result, db')
                     | DbFailed err applied \<Rightarrow>
                         (Inl (ErrWrap ''maintain metric retention'' [err]), if applied then db' else db))))"

text \<open>
  The loop of \<open>maintain\<close> with the replies of its statements; it is given a bound on its turns and
  is \<open>None\<close> when it has not returned by then.
\<close>

fun retention_loop ::
  "nat \<Rightarrow> (nat \<Rightarrow> db_reply) \<Rightarrow> int \<Rightarrow> int \<Rightarrow> nat \<Rightarrow> pg \<Rightarrow> (go_error option \<times> pg) option" where
  "retention_loop 0 replies cutoff batchSize n db = None"
| "retention_loop (Suc turns) replies cutoff batchSize n db =
     (case MaintainRetention False (replies n) (Some cutoff) batchSize db of
        (Inl err, db') \<Rightarrow> Some (Some err, db')
      | (Inr result, db') \<Rightarrow>
          if MetricPointsDeleted result < batchSize \<and> MetricEventsDeleted result < batchSize
             \<and> MetricOutboxDeleted result < batchSize
          then Some (None, db')
          else retention_loop turns replies cutoff batchSize (Suc n) db')"

text \<open>
  The clock is read twice: \<open>clock\<close> is its reading in \<open>EnsureWorkerDailyPartitions\<close>, \<open>now\<close> the one the
  cutoff is taken from.
\<close>

definition maintain ::
  "nat \<Rightarrow> db_reply \<Rightarrow> (nat \<Rightarrow> db_reply) \<Rightarrow> int \<Rightarrow> int \<Rightarrow> int \<Rightarrow> int \<Rightarrow> pg \<Rightarrow> (go_error option \<times> pg) option" where
  "maintain turns ensured replies clock now window batchSize db =
     (case EnsureWorkerDailyPartitions ensured clock db of
        (Some err, db1) \<Rightarrow> Some (Some err, db1)
      | (None, db1) \<Rightarrow> retention_loop turns replies (now - window) batchSize 0 db1)"

text \<open>\<open>RunPartitionMaintenance\<close>, one entry per run of \<open>maintain\<close>: its clocks and replies.\<close>

type_synonym maintenance_run = "int \<times> int \<times> db_reply \<times> (nat \<Rightarrow> db_reply)"

fun run_maintenance ::
  "nat \<Rightarrow> int \<Rightarrow> int \<Rightarrow> maintenance_run list \<Rightarrow> pg \<Rightarrow> (go_error option \<times> pg) option" where
  "run_maintenance turns window batchSize [] db = Some (None, db)"
| "run_maintenance turns window batchSize ((clock, now, ensured, replies) # rest) db =
     (case maintain turns ensured replies clock now window batchSize db of
        None \<Rightarrow> None
      | Some (Some err, db1) \<Rightarrow> Some (Some err, db1)
      | Some (None, db1) \<Rightarrow> run_maintenance turns window batchSize rest db1)"

text \<open>The window and the interval are durations in nanoseconds; the window is a whole number of milliseconds.\<close>

definition RunPartitionMaintenance ::
  "nat \<Rightarrow> duration \<Rightarrow> duration \<Rightarrow> int \<Rightarrow> maintenance_run list \<Rightarrow> pg \<Rightarrow> (go_error option \<times> pg) option"
  where
  "RunPartitionMaintenance turns window interval batchSize runs db =
     (if window \<le> 0 then Some (Some (ErrNew ''retention window must be greater than zero''), db)
      else if interval \<le> 0
      then Some (Some (ErrNew ''partition maintenance interval must be greater than zero''), db)
      else if batchSize < 1 \<or> batchSize > 100000
      then Some (Some (ErrNew ''retention batch size must be between 1 and 100000''), db)
      else run_maintenance turns (window div millisecond) batchSize runs db)"

definition RunDailyPartitionMaintenance ::
  "nat \<Rightarrow> maintenance_run list \<Rightarrow> pg \<Rightarrow> (go_error option \<times> pg) option" where
  "RunDailyPartitionMaintenance turns runs db = RunPartitionMaintenance turns (168 * hour) hour 10000 runs db"

subsection \<open>What one statement removes\<close>

definition rows_left :: "pg \<Rightarrow> nat" where
  "rows_left db = length (pg_points db) + length (pg_events db) + length (pg_outbox db)"

text \<open>
  Deleting a batch by key: only rows of \<open>P\<close> go; all go when the batch is not full; a full batch
  shrinks the table.
\<close>

locale batch_delete =
  fixes P :: "'r \<Rightarrow> bool" and key :: "'r \<Rightarrow> 'k" and order :: "'r list \<Rightarrow> 'r list" and t :: "'r list"
  assumes same_key: "r \<in> set t \<Longrightarrow> r' \<in> set t \<Longrightarrow> key r = key r' \<Longrightarrow> P r \<Longrightarrow> P r'"
    and order_set: "set (order xs) = set xs" and order_length: "length (order xs) = length xs"
begin

lemma expired_P: "x \<in> set (first_rows order P n t) \<Longrightarrow> x \<in> set t \<and> P x"
  using order_set by (auto simp: first_rows_def dest!: in_set_takeD)

lemma left_keeps:
  assumes "r \<in> set t" "\<not> P r"
  shows "r \<in> set (delete_keys key (first_rows order P n t) t)"
proof -
  have "key r \<noteq> key x" if "x \<in> set (first_rows order P n t)" for x
    using expired_P [OF that] same_key [of x r] assms by metis
  then show ?thesis using assms(1) by (auto simp: delete_keys_def)
qed

lemma left_subset: "set (delete_keys key xs t) \<subseteq> set t" "length (delete_keys key xs t) \<le> length t"
  by (auto simp: delete_keys_def)

lemma left_clean:
  assumes "length (first_rows order P n t) < n" "r \<in> set (delete_keys key (first_rows order P n t) t)"
  shows "\<not> P r"
proof
  assume "P r"
  have "first_rows order P n t = order (filter P t)" using assms(1) by (simp add: first_rows_def)
  then have "r \<in> set (first_rows order P n t)"
    using \<open>P r\<close> assms(2) order_set by (simp add: delete_keys_def)
  then show False using assms(2) by (auto simp: delete_keys_def)
qed

lemma left_shrinks:
  assumes "1 \<le> n" "\<not> length (first_rows order P n t) < n"
  shows "length (delete_keys key (first_rows order P n t) t) < length t"
proof -
  obtain x where x: "x \<in> set (first_rows order P n t)"
    using assms by (cases "first_rows order P n t") auto
  then have "x \<in> set t" using expired_P by blast
  then show ?thesis using x unfolding delete_keys_def by (intro length_filter_less) auto
qed

end

interpretation points_delete: batch_delete "\<lambda>r. mr_ts r < cutoff" point_key "sort_key mr_ts" t for cutoff t
  by unfold_locales (auto simp: point_key_def)

interpretation events_delete: batch_delete "\<lambda>e. er_created e < cutoff" event_key3 "sort_key er_created" t
  for cutoff t
  by unfold_locales (auto simp: event_key3_def)

subsection \<open>One statement\<close>

definition outbox_expired :: "int \<Rightarrow> outbox_row \<Rightarrow> bool" where
  "outbox_expired cutoff r \<longleftrightarrow> or_created r < cutoff \<and> or_published r \<noteq> None"

lemma delete_outbox_rows:
  "delete_expired_outbox cutoff n t =
    (length (first_rows (\<lambda>xs. xs) (outbox_expired cutoff) n t),
     delete_keys or_id (first_rows (\<lambda>xs. xs) (outbox_expired cutoff) n t) t)"
proof -
  have "outbox_expired cutoff = (\<lambda>r. or_created r < cutoff \<and> or_published r \<noteq> None)"
    by (auto simp: outbox_expired_def)
  then show ?thesis
    by (simp only: delete_expired_outbox_def expired_outbox_def first_rows_def delete_keys_def Let_def length_map)
qed

lemma outbox_delete:
  "distinct (map or_id t) \<Longrightarrow> batch_delete (outbox_expired cutoff) or_id (\<lambda>xs. xs) t"
  by unfold_locales (auto simp: distinct_map inj_on_def)

text \<open>The tables after the partitions are dropped and a batch is deleted.\<close>

definition points_after :: "int \<Rightarrow> pg \<Rightarrow> metric_row list" where
  "points_after cutoff db = filter (\<lambda>r. \<not> day_of (mr_ts r) < day_of cutoff) (pg_points db)"

definition events_after :: "int \<Rightarrow> pg \<Rightarrow> event_row list" where
  "events_after cutoff db = filter (\<lambda>e. \<not> day_of (er_created e) < day_of cutoff) (pg_events db)"

lemma maintain_metric_retention_eq:
  assumes "maintain_metric_retention cutoff n db = (res, db')"
  shows "pg_points db' = delete_keys point_key
      (first_rows (sort_key mr_ts) (\<lambda>r. mr_ts r < cutoff) n (points_after cutoff db)) (points_after cutoff db)"
    and "pg_events db' = delete_keys event_key3
      (first_rows (sort_key er_created) (\<lambda>e. er_created e < cutoff) n (events_after cutoff db))
      (events_after cutoff db)"
    and "pg_outbox db' = delete_keys or_id (first_rows (\<lambda>xs. xs) (outbox_expired cutoff) n (pg_outbox db))
      (pg_outbox db)"
    and "pg_point_days db' = filter (\<lambda>d. \<not> d < day_of cutoff) (pg_point_days db)"
    and "pg_event_days db' = filter (\<lambda>d. \<not> d < day_of cutoff) (pg_event_days db)"
    and "MetricPointsDeleted res = int (length
      (first_rows (sort_key mr_ts) (\<lambda>r. mr_ts r < cutoff) n (points_after cutoff db)))"
    and "MetricEventsDeleted res = int (length
      (first_rows (sort_key er_created) (\<lambda>e. er_created e < cutoff) n (events_after cutoff db)))"
    and "MetricOutboxDeleted res = int (length (first_rows (\<lambda>xs. xs) (outbox_expired cutoff) n (pg_outbox db)))"
  using assms
  by (auto simp: maintain_metric_retention_def drop_point_partitions_def drop_event_partitions_def
      delete_points_def delete_events_def delete_outbox_def delete_outbox_rows points_after_def
      events_after_def Let_def)

lemma day_before: "day_of a < day_of b \<Longrightarrow> a < b"
  unfolding day_of_def by (metis div_le_mono2 linorder_not_le zdiv_mono1 zero_less_numeral)

lemma points_after_lengths:
  "length (points_after cutoff db) \<le> length (pg_points db)"
  "length (events_after cutoff db) \<le> length (pg_events db)"
  by (simp_all add: points_after_def events_after_def)

text \<open>A turn of the loop that goes on has removed a row.\<close>

lemma retention_turn_shrinks:
  assumes "maintain_metric_retention cutoff n db = (res, db')" "1 \<le> n"
    and "\<not> (MetricPointsDeleted res < int n \<and> MetricEventsDeleted res < int n \<and> MetricOutboxDeleted res < int n)"
  shows "rows_left db' < rows_left db"
proof -
  note eq = maintain_metric_retention_eq [OF assms(1)]
  note le = points_after_lengths [of cutoff db]
  have p: "length (pg_points db') \<le> length (points_after cutoff db)"
    and e: "length (pg_events db') \<le> length (events_after cutoff db)"
    and b: "length (pg_outbox db') \<le> length (pg_outbox db)"
    by (simp_all add: eq delete_keys_def)
  consider "\<not> MetricPointsDeleted res < int n" | "\<not> MetricEventsDeleted res < int n"
    | "\<not> MetricOutboxDeleted res < int n" using assms(3) by blast
  then show ?thesis
  proof cases
    case 1
    then have "length (pg_points db') < length (points_after cutoff db)"
      unfolding eq by (intro points_delete.left_shrinks assms(2)) simp
    then show ?thesis using e b le by (simp add: rows_left_def)
  next
    case 2
    then have "length (pg_events db') < length (events_after cutoff db)"
      unfolding eq by (intro events_delete.left_shrinks assms(2)) simp
    then show ?thesis using p b le by (simp add: rows_left_def)
  next
    case 3
    then obtain x where x: "x \<in> set (first_rows (\<lambda>xs. xs) (outbox_expired cutoff) n (pg_outbox db))"
      using assms(2) unfolding eq
      by (cases "first_rows (\<lambda>xs. xs) (outbox_expired cutoff) n (pg_outbox db)") auto
    then have "x \<in> set (pg_outbox db)" by (auto simp: first_rows_def dest!: in_set_takeD)
    then have "length (pg_outbox db') < length (pg_outbox db)"
      using x unfolding eq delete_keys_def by (intro length_filter_less) auto
    then show ?thesis using p e le by (simp add: rows_left_def)
  qed
qed

end
