(* ===== verification/Pipeline.thy ===== *)
theory Pipeline
  imports Sink Maintenance
begin

section \<open>The consumer on the store\<close>

text \<open>
  The worker as it is wired: the sink of the consumer (theory \<open>Sink\<close>) is the store (theory
  \<open>Store\<close>), other writers act on the same database in between, and every call of the driver may
  fail. The other writers are the flushes of other workers, the maintenance of any worker (theory
  \<open>Maintenance\<close>) with its retention, and whatever changes the outbox.
\<close>

datatype other_action =
  OtherFlush flush_replies int "metric_point list"
| OtherMaintenance db_reply "nat \<Rightarrow> db_reply" int int int int
| OtherOutbox outbox

text \<open>The maintenance is given one turn more than there are rows, which is enough for it to return.\<close>

fun other_act :: "pg_impl \<Rightarrow> other_action \<Rightarrow> pg \<Rightarrow> pg" where
  "other_act im (OtherFlush r now ps) db = snd (store_Flush im r now ps db)"
| "other_act im (OtherMaintenance ensured replies clock now window batchSize) db =
     (case maintain (Suc (rows_left db)) ensured replies clock now window batchSize db of
        None \<Rightarrow> db
      | Some (_, db') \<Rightarrow> db')"
| "other_act im (OtherOutbox t) db = db\<lparr>pg_outbox := t\<rparr>"

fun other_cutoff :: "other_action \<Rightarrow> int list" where
  "other_cutoff (OtherMaintenance ensured replies clock now window batchSize) = [now - window]"
| "other_cutoff _ = []"

text \<open>
  The world of a session: the database and the number of flushes of this worker so far. The other two
  fields are for the statements only: the flushes of this worker that returned nil, each with the
  database it found and its points, and the cutoffs of the retention runs of the session.
\<close>

record store_world =
  sw_db :: pg
  sw_flushes :: nat
  sw_taken :: "(pg \<times> metric_point list) list"
  sw_cutoffs :: "int list"

definition new_store_world :: "pg \<Rightarrow> store_world" where
  "new_store_world db = \<lparr>sw_db = db, sw_flushes = 0, sw_taken = [], sw_cutoffs = []\<rparr>"

definition others_act :: "pg_impl \<Rightarrow> other_action list \<Rightarrow> store_world \<Rightarrow> store_world" where
  "others_act im os w =
     w\<lparr>sw_db := fold (other_act im) os (sw_db w), sw_cutoffs := concat (map other_cutoff os) @ sw_cutoffs w\<rparr>"

text \<open>
  \<open>q\<close> gives, for the n-th flush of this worker, the replies of the driver, the clock, and what the
  other writers did since the previous one.
\<close>

type_synonym flush_script = "nat \<Rightarrow> flush_replies \<times> int \<times> other_action list"

definition store_flush_sink ::
  "pg_impl \<Rightarrow> flush_script \<Rightarrow> flush_ctx \<Rightarrow> metric_point list \<Rightarrow> store_world \<Rightarrow> go_error option \<times> store_world" where
  "store_flush_sink im q ctx ps w =
     (case q (sw_flushes w) of
        (r, now, os) \<Rightarrow>
          let w1 = others_act im os w in
          case store_Flush im r now ps (sw_db w1) of
            (res, db) \<Rightarrow>
              (res, w1\<lparr>sw_db := db, sw_flushes := Suc (sw_flushes w1),
                       sw_taken := (if res = None then [(sw_db w1, ps)] else []) @ sw_taken w1\<rparr>))"

text \<open>In the other calls of the session, too, other writers may act; the calls themselves do not write.\<close>

definition env_others :: "pg_impl \<Rightarrow> store_world consumer_env \<Rightarrow> bool" where
  "env_others im e \<longleftrightarrow>
     (\<forall>w. (\<forall>d. \<exists>os. snd (ce_ack e d w) = others_act im os w) \<and>
          (\<forall>d b. \<exists>os. snd (ce_nack e d b w) = others_act im os w) \<and>
          (\<forall>c d. \<exists>os. snd (ce_wait e c d w) = others_act im os w) \<and>
          (\<forall>d. \<exists>os. snd (ce_jitter e d w) = others_act im os w))"

subsection \<open>What a flush stores for a point\<close>

text \<open>
  The row a flush of \<open>ps\<close> on \<open>db\<close> leaves for the key of \<open>p\<close>: the one the table had, else that of
  the first point of \<open>ps\<close> with the key.
\<close>

definition row_for :: "pg \<Rightarrow> metric_point list \<Rightarrow> metric_point \<Rightarrow> metric_row" where
  "row_for db ps p =
     (case find (\<lambda>r. point_key r = point_key (point_row p)) (pg_points db @ map point_row ps) of
        Some r \<Rightarrow> r
      | None \<Rightarrow> point_row p)"

text \<open>The key of \<open>p\<close> is new to the table, and \<open>p\<close> is the first point of the flush to carry it.\<close>

definition first_of_key :: "pg \<Rightarrow> metric_point list \<Rightarrow> metric_point \<Rightarrow> bool" where
  "first_of_key db ps p \<longleftrightarrow>
     point_key (point_row p) \<notin> point_key ` set (pg_points db) \<and>
     find (\<lambda>q. point_key (point_row q) = point_key (point_row p)) ps = Some p"

lemma find_append: "find P (xs @ ys) = (case find P xs of None \<Rightarrow> find P ys | Some x \<Rightarrow> Some x)"
  by (induction xs) auto

lemma find_map_row: "find P (map f xs) = map_option f (find (P \<circ> f) xs)"
  by (induction xs) auto

lemma row_for_key: "point_key (row_for db ps p) = point_key (point_row p)"
  by (auto simp: row_for_def find_Some_iff split: option.splits)

lemma row_for_first: "first_of_key db ps p \<Longrightarrow> row_for db ps p = point_row p"
proof -
  assume f: "first_of_key db ps p"
  then have "find (\<lambda>r. point_key r = point_key (point_row p)) (pg_points db) = None"
    by (auto simp: first_of_key_def find_None_iff image_iff)
  with f show ?thesis by (simp add: row_for_def find_append find_map_row first_of_key_def comp_def)
qed

text \<open>The insert keeps, for every key, the first row in the order of the table and then of the points.\<close>

lemma insert_points_first:
  "insert_points t rs = (t', ins) \<Longrightarrow> find (\<lambda>r. point_key r = k) t' = find (\<lambda>r. point_key r = k) (t @ rs)"
proof (induction rs arbitrary: t t' ins)
  case (Cons r rs)
  show ?case
  proof (cases "point_key r \<in> set (map point_key t)")
    case True
    then have IH: "find (\<lambda>r. point_key r = k) t' = find (\<lambda>r. point_key r = k) (t @ rs)" using Cons by simp
    have "find (\<lambda>r. point_key r = k) t \<noteq> None" if "point_key r = k"
      using True that by (auto simp: find_None_iff)
    then show ?thesis unfolding IH by (auto simp: find_append split: option.splits)
  next
    case False
    then obtain ins' where "insert_points (t @ [r]) rs = (t', ins')" using Cons.prems by (auto split: prod.splits)
    then show ?thesis using Cons.IH by fastforce
  qed
qed simp

lemma store_Flush_row:
  assumes "store_Flush im r now ps db = (None, db')" "p \<in> set ps"
  shows "row_for db ps p \<in> set (pg_points db')"
proof -
  let ?P = "\<lambda>r. point_key r = point_key (point_row p)"
  obtain ins where f: "flushed im now ps db ins db'"
    using store_Flush_ends [OF assms(1)] assms(2) by auto
  then obtain t where t: "insert_points (pg_points db) (map point_row ps) = (t, ins)" "pg_points db' = t"
    by (auto simp: flushed_def)
  have "find ?P (pg_points db @ map point_row ps) \<noteq> None"
    using assms(2) by (auto simp: find_None_iff)
  then have "find ?P t = Some (row_for db ps p)"
    unfolding insert_points_first [OF t(1)] by (auto simp: row_for_def)
  then show ?thesis by (auto simp: t(2) find_Some_iff)
qed

subsection \<open>What keeps a row\<close>

lemma store_Flush_keeps:
  assumes "store_Flush im r now ps db = (res, db')" "x \<in> set (pg_points db)"
  shows "x \<in> set (pg_points db')"
proof -
  have grow: "x \<in> set (pg_points d)" if "flushed im now ps db ins d" for ins d
    using flushed_points(1) [OF that] assms(2) by auto
  show ?thesis
  proof (cases res)
    case None
    then show ?thesis using store_Flush_ends [OF assms(1)] grow assms(2) by blast
  next
    case (Some err)
    then show ?thesis
      using store_Flush_ends [OF assms(1)]
        store_Flush_ends [of im "r\<lparr>fl_commit := DbOk\<rparr>" now ps db None db'] grow assms(2)
      by blast
  qed
qed

lemma MaintainRetention_keeps:
  assumes "MaintainRetention False reply (Some cutoff) batchSize db = (res, db')"
    and "x \<in> set (pg_points db)" "cutoff \<le> mr_ts x"
  shows "x \<in> set (pg_points db')"
proof -
  obtain result d where m: "maintain_metric_retention cutoff (nat batchSize) db = (result, d)" by fastforce
  have "x \<in> set (points_after cutoff db)"
    using assms(2,3) day_before [of "mr_ts x" cutoff] by (auto simp: points_after_def)
  then have "x \<in> set (pg_points d)"
    unfolding maintain_metric_retention_eq(1) [OF m] by (rule points_delete.left_keeps) (use assms(3) in simp)
  then show ?thesis
    using assms(1,2) m by (auto simp: MaintainRetention_def split: if_splits db_reply.splits)
qed

lemma retention_loop_keeps:
  assumes "x \<in> set (pg_points db)" "cutoff \<le> mr_ts x"
  shows "retention_loop turns replies cutoff batchSize n db = Some (res, db') \<Longrightarrow> x \<in> set (pg_points db')"
  using assms(1)
proof (induction turns arbitrary: n db)
  case (Suc turns)
  obtain r db1 where m: "MaintainRetention False (replies n) (Some cutoff) batchSize db = (r, db1)" by fastforce
  have "x \<in> set (pg_points db1)" by (rule MaintainRetention_keeps [OF m Suc.prems(2) assms(2)])
  then show ?case using Suc m by (auto split: sum.splits if_splits)
qed simp

lemma other_act_keeps:
  assumes "x \<in> set (pg_points db)" "\<forall>c \<in> set (other_cutoff a). c \<le> mr_ts x"
  shows "x \<in> set (pg_points (other_act im a db))"
proof (cases a)
  case (OtherFlush r now ps)
  then show ?thesis using store_Flush_keeps [OF surjective_pairing assms(1)] by simp
next
  case (OtherMaintenance ensured replies clock now window batchSize)
  obtain e db1 where e: "EnsureWorkerDailyPartitions ensured clock db = (e, db1)" by fastforce
  then have "pg_points db1 = pg_points db"
    by (auto simp: EnsureWorkerDailyPartitions_def ensureDailyPartitions_def ensure_metric_daily_partitions_def Let_def
        split: if_splits db_reply.splits)
  then have "x \<in> set (pg_points db')" if "maintain turns ensured replies clock now window batchSize db = Some (res, db')" for turns res db'
    using that e assms retention_loop_keeps [of x db1 "now - window"] OtherMaintenance
    by (auto simp: maintain_def split: option.splits)
  then show ?thesis using OtherMaintenance assms(1) by (auto split: option.splits)
next
  case (OtherOutbox t)
  then show ?thesis using assms(1) by simp
qed

lemma others_act_keeps:
  assumes "x \<in> set (pg_points (sw_db w))" "\<forall>c \<in> set (sw_cutoffs (others_act im os w)). c \<le> mr_ts x"
  shows "x \<in> set (pg_points (sw_db (others_act im os w)))"
proof -
  have "x \<in> set (pg_points db) \<Longrightarrow> \<forall>a \<in> set os. \<forall>c \<in> set (other_cutoff a). c \<le> mr_ts x \<Longrightarrow>
      x \<in> set (pg_points (fold (other_act im) os db))" for db
    by (induction os arbitrary: db) (auto intro: other_act_keeps)
  then show ?thesis using assms by (auto simp: others_act_def)
qed

subsection \<open>The promise of the sink\<close>

text \<open>
  A point is stored: a flush that returned nil took it, and the row of this flush for its key is in
  the table. What is older than the cutoff of a retention run of the session is not spoken of.
\<close>

definition point_stored :: "store_world \<Rightarrow> metric_point \<Rightarrow> bool" where
  "point_stored w p \<longleftrightarrow>
     (\<exists>db ps. (db, ps) \<in> set (sw_taken w) \<and> p \<in> set ps \<and> row_for db ps p \<in> set (pg_points (sw_db w)))"

definition retained_point :: "store_world \<Rightarrow> metric_point \<Rightarrow> bool" where
  "retained_point w p \<longleftrightarrow> (\<forall>c \<in> set (sw_cutoffs w). c \<le> mp_TimestampMillis p)"

definition persisted :: "store_world \<Rightarrow> metric_point \<Rightarrow> bool" where
  "persisted w p \<longleftrightarrow> (retained_point w p \<longrightarrow> point_stored w p)"

lemma row_for_ts: "mr_ts (row_for db ps p) = mp_TimestampMillis p"
  using row_for_key [of db ps p] by (simp add: point_key_def point_row_def)

lemma persisted_step:
  assumes "persisted w p" "set (sw_taken w) \<subseteq> set (sw_taken w')" "set (sw_cutoffs w) \<subseteq> set (sw_cutoffs w')"
    and "\<And>x. x \<in> set (pg_points (sw_db w)) \<Longrightarrow> \<forall>c \<in> set (sw_cutoffs w'). c \<le> mr_ts x \<Longrightarrow> x \<in> set (pg_points (sw_db w'))"
  shows "persisted w' p"
  unfolding persisted_def
proof
  assume r: "retained_point w' p"
  then have "retained_point w p" using assms(3) by (auto simp: retained_point_def)
  then obtain db ps where d: "(db, ps) \<in> set (sw_taken w)" "p \<in> set ps"
    "row_for db ps p \<in> set (pg_points (sw_db w))" using assms(1) by (auto simp: persisted_def point_stored_def)
  then have "row_for db ps p \<in> set (pg_points (sw_db w'))"
    using assms(4) r by (auto simp: row_for_ts retained_point_def)
  then show "point_stored w' p" using d assms(2) by (auto simp: point_stored_def)
qed

lemma others_act_persisted: "persisted w p \<Longrightarrow> persisted (others_act im os w) p"
  by (erule persisted_step) (use others_act_keeps [of _ w im os] in \<open>auto simp: others_act_def\<close>)

lemma env_others_keeps:
  assumes "env_others im e"
  shows "env_keeps persisted e"
proof -
  have "(\<exists>os. w' = others_act im os w) \<Longrightarrow> persisted w p \<Longrightarrow> persisted w' p" for w w' p
    using others_act_persisted by blast
  then show ?thesis using assms unfolding env_others_def env_keeps_def by metis
qed

text \<open>The store keeps the promises the consumer relies on.\<close>

interpretation store_sink: metric_sink "store_flush_sink im q" persisted for im q
proof unfold_locales
  fix ctx ps w w' p
  assume f: "store_flush_sink im q ctx ps w = (None, w')" and p: "p \<in> set ps"
  obtain r now os where q: "q (sw_flushes w) = (r, now, os)" by (metis prod_cases3)
  then obtain db where db: "store_Flush im r now ps (sw_db (others_act im os w)) = (None, db)"
    and w': "sw_db w' = db" "(sw_db (others_act im os w), ps) \<in> set (sw_taken w')"
    using f by (auto simp: store_flush_sink_def Let_def split: prod.splits)
  then show "persisted w' p"
    using store_Flush_row [OF db p] p by (auto simp: persisted_def point_stored_def)
next
  fix ctx ps w r0 w' p
  assume f: "store_flush_sink im q ctx ps w = (r0, w')" and p: "persisted w p"
  obtain r now os where q: "q (sw_flushes w) = (r, now, os)" by (metis prod_cases3)
  let ?w1 = "others_act im os w"
  obtain res db where db: "store_Flush im r now ps (sw_db ?w1) = (res, db)" by fastforce
  have w': "sw_db w' = db" "set (sw_taken ?w1) \<subseteq> set (sw_taken w')" "sw_cutoffs w' = sw_cutoffs ?w1"
    using f q db by (auto simp: store_flush_sink_def Let_def)
  show "persisted w' p"
    by (rule persisted_step [OF others_act_persisted [OF p]])
      (use w' store_Flush_keeps [OF db] in auto)
qed

text \<open>The points of a batch that no retention run of the session was past, each stored with its value.\<close>

definition batch_in_table :: "store_world \<Rightarrow> metric_batch \<Rightarrow> bool" where
  "batch_in_table w b \<longleftrightarrow>
     (\<forall>p \<in> set (batch_points b). (\<forall>c \<in> set (sw_cutoffs w). c \<le> mp_TimestampMillis p) \<longrightarrow>
        (\<exists>db ps row. (db, ps) \<in> set (sw_taken w) \<and> p \<in> set ps \<and> row \<in> set (pg_points (sw_db w)) \<and>
           row = row_for db ps p \<and> point_key row = point_key (point_row p) \<and>
           (first_of_key db ps p \<longrightarrow> row = point_row p)))"

lemma persisted_in_table: "\<forall>p \<in> set (batch_points b). persisted w p \<Longrightarrow> batch_in_table w b"
  unfolding batch_in_table_def persisted_def point_stored_def retained_point_def
  using row_for_key row_for_first by blast

text \<open>A delivery of the message of a batch that was acknowledged.\<close>

lemma acked_batch_stored:
  assumes "float_codec pf ff" "spec_batch b" "messageID \<noteq> []" "ascii messageID"
    and "NewIngestMessage b (Inr messageID) = Inr msg" "MarshalIngestPublishing ff msg now = Inr pub"
    and "NewRabbitMQMetricConsumer config False = Inr cfg" "visits_all e"
    and "ce_flush e = store_flush_sink im q" "env_others im e"
    and "consumeSession pf e cfg evs w = (r, t)"
    and "EAck i ok \<in> set (cs_log t)" "ds_delivery (cs_states t ! i) = delivery_of pub tag red"
  shows "batch_in_table (cs_world t) b"
proof (rule persisted_in_table)
  obtain got where got: "validateDelivery pf (ds_delivery (cs_states t ! i)) = Inr got"
    "\<forall>p \<in> set (ExpandMetricPoints got). persisted (cs_world t) p"
    using store_sink.acked_stored [OF assms(7,8,11,9) env_others_keeps [OF assms(10)] assms(12)] by blast
  moreover have "validateDelivery pf (delivery_of pub tag red) = Inr (canonical_message msg)"
    "ExpandMetricPoints (canonical_message msg) = batch_points b"
    using delivery_of_marshalled [OF assms(1-6)] by simp_all
  ultimately show "\<forall>p \<in> set (batch_points b). persisted (cs_world t) p" using assms(13) by simp
qed

text \<open>
  C3. End to end from the API to the table: take a batch of the contract, the message the API
  publishes for it, and a worker session, from any database, in which a delivery of that message
  (the first or a redelivery) was acknowledged, whatever else the session did, whatever failed in
  it, and whatever other workers flushed, dropped and deleted meanwhile. Then every point of the batch, unless it is older
  than the cutoff of a retention run of the session, has been taken by a flush of the session
  that returned nil, and the row of this flush for the point's key is in \<open>metric_points\<close> at the end: the
  point itself, with its value, when its key was new to the table and it is the first of the flush to carry it; else the row that
  was there first, because the insert ignores a key that is taken.
\<close>

theorem acknowledged_batch_is_persisted:
  assumes "float_codec pf ff" "spec_batch b" "messageID \<noteq> []" "ascii messageID"
    and "NewIngestMessage b (Inr messageID) = Inr msg" "MarshalIngestPublishing ff msg now = Inr pub"
    and "NewRabbitMQMetricConsumer config False = Inr cfg" "visits_all e"
    and "ce_flush e = store_flush_sink im q" "env_others im e"
    and "consumeSession pf e cfg evs (new_store_world db) = (r, t)"
    and "EAck i ok \<in> set (cs_log t)" "ds_delivery (cs_states t ! i) = delivery_of pub tag red"
  shows "batch_in_table (cs_world t) b"
  by (rule acked_batch_stored [OF assms])

definition worker_env :: "store_world consumer_env" where
  "worker_env =
     \<lparr>ce_flush = store_flush_sink example_impl (\<lambda>_. (no_errors, 7, [])), ce_wait = (\<lambda>_ _ w. (None, w)),
      ce_ctx_err = (\<lambda>_ _. None), ce_ack = (\<lambda>_ w. (None, w)), ce_nack = (\<lambda>_ _ w. (None, w)),
      ce_jitter = (\<lambda>d w. (d, w)), ce_order = (\<lambda>rows _. rows)\<rparr>"

lemma others_act_none: "others_act im [] w = w"
  by (simp add: others_act_def)

lemma worker_env_ok: "visits_all worker_env" "env_others example_impl worker_env"
  using others_act_none [symmetric] by (auto simp: visits_all_def env_others_def worker_env_def)

lemma worker_flush:
  "\<exists>db. store_Flush example_impl no_errors 7 [example_point ''a'' 0, example_point ''b'' 7] (empty_pg [0])
    = (None, db)"
proof -
  have "float_finite 7" by (simp add: float_finite_def float_exponent_def)
  then show ?thesis
    by (simp add: store_Flush_def encodeMetricPoints_def example_point_def flush_transaction_def no_errors_def
        ensureMetricPointPartitions_def missing_days_def day_of_def partitionPastDays_def
        partitionFutureDays_def empty_columns_def append_point_def persist_metric_flush_def rows_of_def
        point_admissible_def empty_pg_def seed_task_event_counters_def example_impl_def Let_def
        point_key_def)
qed

lemma worker_sink:
  assumes "store_Flush example_impl no_errors 7 ps (empty_pg [0]) = (None, db)"
  shows "store_flush_sink example_impl (\<lambda>_. (no_errors, 7, [])) ctx ps (new_store_world (empty_pg [0])) =
    (None, \<lparr>sw_db = db, sw_flushes = 1, sw_taken = [(empty_pg [0], ps)], sw_cutoffs = []\<rparr>)"
  using assms by (simp add: store_flush_sink_def new_store_world_def others_act_none)

text \<open>One flush of both points: they are in the table as they were sent.\<close>

lemma acknowledged_batch_is_persisted_witness:
  "\<exists>t. consumeSession bits_parse worker_env example_config [EvDelivery example_delivery]
      (new_store_world (empty_pg [0])) = (None, t) \<and> sw_cutoffs (cs_world t) = [] \<and>
    point_row ` set (batch_points example_batch) \<subseteq> set (pg_points (sw_db (cs_world t)))"
proof -
  obtain db where db: "store_Flush example_impl no_errors 7 [example_point ''a'' 0, example_point ''b'' 7]
      (empty_pg [0]) = (None, db)" using worker_flush by blast
  obtain got where *: "validateDelivery bits_parse example_delivery = Inr got"
    "ExpandMetricPoints got = [example_point ''a'' 0, example_point ''b'' 7]"
    using example_valid by blast
  let ?w = "\<lparr>sw_db = db, sw_flushes = 1, sw_taken = [(empty_pg [0], [example_point ''a'' 0, example_point ''b'' 7])],
    sw_cutoffs = []\<rparr>"
  from * obtain t where t: "consumeSession bits_parse worker_env example_config [EvDelivery example_delivery]
      (new_store_world (empty_pg [0])) = (None, t)"
    and log: "EAck 0 True \<in> set (cs_log t)" and w: "cs_world t = ?w"
    and d: "ds_delivery (cs_states t ! 0) = delivery_of example_publishing 1 False"
    by (simp add: consumeSession_def consume_event_def consume_delivery_def new_session_def
        start_timer_def flush_buffer_def consumer_flush_def worker_env_def example_config_def Let_def
        note_effect_def committedRowsByDelivery_def count_bump_def add_committed_def set_terminal_def
        worker_sink [OF db] example_delivery_def)
  have "ascii ''id''" by (simp add: ascii_def byte_def)
  from acknowledged_batch_is_persisted [OF float_codec_bits example_batch_spec _ this example_new
      example_marshal example_config_new worker_env_ok(1) _ worker_env_ok(2) t log d]
  have "batch_in_table (cs_world t) example_batch" by (simp add: worker_env_def)
  moreover have "first_of_key (empty_pg [0]) [example_point ''a'' 0, example_point ''b'' 7] p"
    if "p \<in> set [example_point ''a'' 0, example_point ''b'' 7]" for p
    using that by (auto simp: first_of_key_def empty_pg_def example_point_def point_key_def point_row_def)
  ultimately show ?thesis using t w
    by (auto simp: batch_in_table_def)
qed

end
