(* ===== verification/Publisher.thy ===== *)
theory Publisher
  imports Consumer
begin

section \<open>The metric batch publisher\<close>

text \<open>
  \<open>internal/messaging/publisher.go\<close>. A worker owns one session and serves jobs one after the
  other; a job makes up to \<open>MaxAttempts\<close> publish attempts, each waiting for the broker's
  confirmation. The broker, the contexts and the timers are the environment; the calls made
  are recorded, newest first, in a log that nothing reads.
\<close>

record publisher_config =
  pc_URL :: string
  pc_Publishers :: int
  pc_WriteTimeout :: duration
  pc_ConfirmTimeout :: duration
  pc_MaxAttempts :: int
  pc_InitialBackoff :: duration
  pc_MaxBackoff :: duration
  pc_Topology :: topology

definition publisher_withDefaults :: "publisher_config \<Rightarrow> publisher_config" where
  "publisher_withDefaults c =
     \<lparr>pc_URL = pc_URL c,
      pc_Publishers = or_default 0 1 (pc_Publishers c),
      pc_WriteTimeout = or_default 0 (5 * second) (pc_WriteTimeout c),
      pc_ConfirmTimeout = or_default 0 (5 * second) (pc_ConfirmTimeout c),
      pc_MaxAttempts = or_default 0 3 (pc_MaxAttempts c),
      pc_InitialBackoff = or_default 0 (100 * millisecond) (pc_InitialBackoff c),
      pc_MaxBackoff = or_default 0 second (pc_MaxBackoff c),
      pc_Topology = or_default_topology (pc_Topology c)\<rparr>"

definition publisher_validate :: "publisher_config \<Rightarrow> go_error option" where
  "publisher_validate c =
     (if pc_URL c = [] then Some (ErrNew ''AMQP_URL must not be empty'')
      else if pc_Publishers c \<le> 0 then Some (ErrNew ''AMQP_PUBLISHERS must be greater than zero'')
      else if pc_WriteTimeout c \<le> 0 then Some (ErrNew ''AMQP_WRITE_TIMEOUT must be greater than zero'')
      else if pc_ConfirmTimeout c \<le> 0
        then Some (ErrNew ''AMQP_CONFIRM_TIMEOUT must be greater than zero'')
      else if pc_MaxAttempts c \<le> 0
        then Some (ErrNew ''AMQP_PUBLISH_MAX_ATTEMPTS must be greater than zero'')
      else if pc_InitialBackoff c \<le> 0
        then Some (ErrNew ''AMQP_PUBLISH_INITIAL_BACKOFF must be greater than zero'')
      else if pc_MaxBackoff c < pc_InitialBackoff c
        then Some (ErrNew ''AMQP_PUBLISH_MAX_BACKOFF must be at least AMQP_PUBLISH_INITIAL_BACKOFF'')
      else None)"

text \<open>\<open>duration *= 2\<close>, \<open>attempt - 1\<close> times, stopping at the maximum.\<close>

fun backoff_loop :: "duration \<Rightarrow> nat \<Rightarrow> duration \<Rightarrow> duration" where
  "backoff_loop max_backoff 0 d = d"
| "backoff_loop max_backoff (Suc n) d =
     (let d = wrap64 (d * 2) in if d \<ge> max_backoff then max_backoff else backoff_loop max_backoff n d)"

definition publisher_backoff :: "publisher_config \<Rightarrow> int \<Rightarrow> duration" where
  "publisher_backoff c attempt =
     backoff_loop (pc_MaxBackoff c) (nat (attempt - 1)) (pc_InitialBackoff c)"

subsection \<open>Errors\<close>

definition ErrPublisherClosed :: go_error where
  "ErrPublisherClosed = Sentinel ''ErrPublisherClosed''"
definition ErrPublishFailed :: go_error where "ErrPublishFailed = Sentinel ''ErrPublishFailed''"
definition ErrUnroutable :: go_error where "ErrUnroutable = Sentinel ''ErrUnroutable''"
definition ErrBrokerNack :: go_error where "ErrBrokerNack = Sentinel ''ErrBrokerNack''"
definition ErrConfirmTimeout :: go_error where "ErrConfirmTimeout = Sentinel ''ErrConfirmTimeout''"
definition ErrConfirmClosed :: go_error where "ErrConfirmClosed = Sentinel ''ErrConfirmClosed''"

lemmas publisher_errors = ErrPublisherClosed_def ErrPublishFailed_def ErrUnroutable_def
  ErrBrokerNack_def ErrConfirmTimeout_def ErrConfirmClosed_def

definition unroutableError :: go_error where
  "unroutableError = ErrWrap ''message unroutable'' [ErrUnroutable]"

definition publishErrorClass :: "go_error option \<Rightarrow> string" where
  "publishErrorClass err =
     (case err of
        None \<Rightarrow> ''none''
      | Some e \<Rightarrow>
          if errors_is e ErrUnroutable then ''unroutable''
          else if errors_is e ErrBrokerNack then ''broker_nack''
          else if errors_is e ErrConfirmTimeout then ''confirm_timeout''
          else if errors_is e ErrConfirmClosed then ''confirm_closed''
          else if errors_is e ErrPublisherClosed then ''publisher_closed''
          else if errors_is e context_Canceled then ''context_canceled''
          else if errors_is e context_DeadlineExceeded then ''context_deadline''
          else ''amqp'')"

subsection \<open>Environment and state\<close>

text \<open>
  What the \<open>select\<close> of \<open>publishOnce\<close> picks. A confirmation comes with what the
  non-blocking look at the returns finds right after it: nothing, the closed channel, or a
  returned message.
\<close>

datatype return_poll = NoReturn | ReturnsClosed | Returned

datatype publish_event =
    GotReturn
  | GotReturnsClosed
  | GotConfirm nat bool return_poll
  | GotConfirmsClosed
  | ConfirmCtxDone "go_error option"   \<comment> \<open>with \<open>ctx.Err()\<close> of the job's context\<close>
  | PublisherDone

record 'w publisher_env =
  pe_dial_ctx_err :: "'w \<Rightarrow> go_error option"
  pe_dial :: "'w \<Rightarrow> go_error option \<times> 'w"
  pe_call :: "'w caller"
  pe_confirm_ctx_err :: "'w \<Rightarrow> go_error option"
  pe_publish :: "string \<Rightarrow> string \<Rightarrow> bool \<Rightarrow> bool \<Rightarrow> amqp_publishing \<Rightarrow> 'w \<Rightarrow> go_error option \<times> 'w"
  pe_select :: "'w \<Rightarrow> publish_event \<times> 'w"
  pe_wait :: "duration \<Rightarrow> 'w \<Rightarrow> go_error option \<times> 'w"
  pe_close :: "'w \<Rightarrow> 'w"
  pe_now :: "'w \<Rightarrow> int"
  pe_generateID :: "'w \<Rightarrow> (go_error + string) \<times> 'w"

datatype publish_effect =
    POpened bool
  | PPublish amqp_publishing bool
  | PEvent publish_event
  | PWait duration bool
  | PClosed

text \<open>\<open>pb_client\<close> is whether \<open>session.client\<close> is not nil.\<close>

record 'w publisher =
  pb_client :: bool
  pb_log :: "publish_effect list"
  pb_world :: 'w

definition pub_note :: "publish_effect \<Rightarrow> 'w \<Rightarrow> 'w publisher \<Rightarrow> 'w publisher" where
  "pub_note ev w s = s\<lparr>pb_log := ev # pb_log s, pb_world := w\<rparr>"

definition pub_openSession ::
  "'w publisher_env \<Rightarrow> publisher_config \<Rightarrow> 'w \<Rightarrow> go_error option \<times> 'w" where
  "pub_openSession e cfg w =
     (case pe_dial_ctx_err e w of
        Some err \<Rightarrow> (Some err, w)
      | None \<Rightarrow>
          (case pe_dial e w of
             (Some err, w1) \<Rightarrow> (Some err, w1)
           | (None, w1) \<Rightarrow>
               (case declareTopology (pe_call e) (pc_Topology cfg) w1 of
                  (Some err, w2) \<Rightarrow> (Some err, pe_close e w2)
                | (None, w2) \<Rightarrow>
                    (case pe_call e (Confirm False) w2 of
                       (Some err, w3) \<Rightarrow> (Some err, pe_close e w3)
                     | (None, w3) \<Rightarrow> (None, w3)))))"

text \<open>\<open>errors.Is(ctx.Err(), ...)\<close> of a nil error is false.\<close>

definition ctx_ended :: "go_error option \<Rightarrow> bool" where
  "ctx_ended err =
     (case err of
        None \<Rightarrow> False
      | Some e \<Rightarrow> errors_is e context_Canceled \<or> errors_is e context_DeadlineExceeded)"

definition event_result :: "publish_event \<Rightarrow> nat \<times> go_error option" where
  "event_result ev =
     (case ev of
        GotReturnsClosed \<Rightarrow> (0, Some ErrConfirmClosed)
      | GotReturn \<Rightarrow> (0, Some unroutableError)
      | GotConfirmsClosed \<Rightarrow> (0, Some ErrConfirmClosed)
      | GotConfirm tag ack poll \<Rightarrow>
          (case poll of
             ReturnsClosed \<Rightarrow> (tag, Some ErrConfirmClosed)
           | Returned \<Rightarrow> (tag, Some unroutableError)
           | NoReturn \<Rightarrow> if \<not> ack then (tag, Some ErrBrokerNack) else (tag, None))
      | ConfirmCtxDone ctxErr \<Rightarrow>
          if ctx_ended ctxErr then (0, ctxErr) else (0, Some ErrConfirmTimeout)
      | PublisherDone \<Rightarrow> (0, Some ErrPublisherClosed))"

definition publishOnce ::
  "'w publisher_env \<Rightarrow> publisher_config \<Rightarrow> amqp_publishing \<Rightarrow> 'w publisher
    \<Rightarrow> (nat \<times> go_error option) \<times> 'w publisher" where
  "publishOnce e cfg publishing s =
     (let topology = or_default_topology (pc_Topology cfg)
      in case pe_confirm_ctx_err e (pb_world s) of
           Some err \<Rightarrow> ((0, Some err), s)
         | None \<Rightarrow>
             (case pe_publish e (tp_IngestExchange topology) (tp_IngestRoutingKey topology) True False
                     publishing (pb_world s) of
                (Some err, w) \<Rightarrow> ((0, Some err), pub_note (PPublish publishing False) w s)
              | (None, w) \<Rightarrow>
                  (case pe_select e w of
                     (ev, w1) \<Rightarrow>
                       (event_result ev,
                        pub_note (PEvent ev) w1 (pub_note (PPublish publishing True) w s)))))"

definition closePublisherSession :: "'w publisher_env \<Rightarrow> 'w publisher \<Rightarrow> 'w publisher" where
  "closePublisherSession e s =
     (if pb_client s then pub_note PClosed (pe_close e (pb_world s)) s else s)"

text \<open>One attempt: open a session if there is none, publish if there is one.\<close>

definition publish_attempt ::
  "'w publisher_env \<Rightarrow> publisher_config \<Rightarrow> amqp_publishing \<Rightarrow> 'w publisher
    \<Rightarrow> go_error option \<times> 'w publisher" where
  "publish_attempt e cfg publishing s =
     (let (openErr, s1) =
            (if pb_client s then (None, s)
             else case pub_openSession e cfg (pb_world s) of
                    (Some err, w) \<Rightarrow> (Some err, pub_note (POpened False) w s)
                  | (None, w) \<Rightarrow> (None, (pub_note (POpened True) w s)\<lparr>pb_client := True\<rparr>))
      in if pb_client s1
         then (case publishOnce e cfg publishing s1 of ((tag, err), s2) \<Rightarrow> (err, s2))
         else (openErr, s1))"

text \<open>
  The attempt loop from \<open>attempt\<close> on, with the number of attempts left as its measure.
\<close>

function publish_attempts ::
  "'w publisher_env \<Rightarrow> publisher_config \<Rightarrow> amqp_publishing \<Rightarrow> int \<Rightarrow> go_error option
    \<Rightarrow> 'w publisher \<Rightarrow> go_error option \<times> 'w publisher" where
  "publish_attempts e cfg publishing attempt lastErr s =
     (if attempt > pc_MaxAttempts cfg
      then (Some (case lastErr of
                    None \<Rightarrow> ErrWrap ''publish failed'' [ErrPublishFailed]
                  | Some err \<Rightarrow> ErrWrap ''publish failed'' [ErrPublishFailed, err]), s)
      else case publish_attempt e cfg publishing s of
             (None, s1) \<Rightarrow> (None, s1)
           | (Some err, s1) \<Rightarrow>
               (let s2 = (closePublisherSession e s1)\<lparr>pb_client := False\<rparr>
                in if attempt = pc_MaxAttempts cfg
                   then (Some (ErrWrap ''publish failed'' [ErrPublishFailed, err]), s2)
                   else (case pe_wait e (publisher_backoff cfg attempt) (pb_world s2) of
                           (Some werr, w) \<Rightarrow>
                             (Some werr, pub_note (PWait (publisher_backoff cfg attempt) False) w s2)
                         | (None, w) \<Rightarrow>
                             publish_attempts e cfg publishing (attempt + 1) (Some err)
                               (pub_note (PWait (publisher_backoff cfg attempt) True) w s2))))"
  by pat_completeness auto
termination
  by (relation "measure (\<lambda>(e, cfg, publishing, attempt, lastErr, s). nat (pc_MaxAttempts cfg + 1 - attempt))")
    auto

declare publish_attempts.simps [simp del]

definition publishWithRetry ::
  "(float64 \<Rightarrow> string) \<Rightarrow> 'w publisher_env \<Rightarrow> publisher_config \<Rightarrow> metric_batch \<Rightarrow> 'w publisher
    \<Rightarrow> go_error option \<times> 'w publisher" where
  "publishWithRetry ff e cfg batch s =
     (case pe_generateID e (pb_world s) of
        (generated, w) \<Rightarrow>
          (let s1 = s\<lparr>pb_world := w\<rparr>
           in case NewIngestMessage batch generated of
                Inl err \<Rightarrow> (Some err, s1)
              | Inr message \<Rightarrow>
                  (case MarshalIngestPublishing ff message (pe_now e w) of
                     Inl err \<Rightarrow> (Some err, s1)
                   | Inr publishing \<Rightarrow> publish_attempts e cfg publishing 1 None s1)))"

text \<open>\<open>runWorker\<close>: the jobs of one worker in order, with their results.\<close>

fun run_worker ::
  "(float64 \<Rightarrow> string) \<Rightarrow> 'w publisher_env \<Rightarrow> publisher_config \<Rightarrow> metric_batch list \<Rightarrow> 'w publisher
    \<Rightarrow> go_error option list \<times> 'w publisher" where
  "run_worker ff e cfg [] s = ([], s)"
| "run_worker ff e cfg (b # bs) s =
     (case publishWithRetry ff e cfg b s of
        (r, s1) \<Rightarrow> (case run_worker ff e cfg bs s1 of (rs, s2) \<Rightarrow> (r # rs, s2)))"

text \<open>A worker starts on the session \<open>NewRabbitMQMetricBatchPublisher\<close> has opened for it.\<close>

definition new_worker :: "'w \<Rightarrow> 'w publisher" where
  "new_worker w = \<lparr>pb_client = True, pb_log = [POpened True], pb_world = w\<rparr>"

definition NewRabbitMQMetricBatchPublisher :: "publisher_config \<Rightarrow> go_error + publisher_config" where
  "NewRabbitMQMetricBatchPublisher config =
     (let config = publisher_withDefaults config
      in case publisher_validate config of Some err \<Rightarrow> Inl err | None \<Rightarrow> Inr config)"

subsection \<open>Backoff\<close>

lemma backoff_loop_closed:
  assumes "0 < d" "d \<le> m" "m < 2 ^ 62"
  shows "backoff_loop m n d = min (d * 2 ^ n) m"
  using assms
proof (induction n arbitrary: d)
  case (Suc n)
  have w: "wrap64 (d * 2) = d * 2"
    using Suc.prems by (intro wrap64_id) (simp add: in_int64_def)
  show ?case
  proof (cases "d * 2 \<ge> m")
    case True
    have "1 \<le> (2::int) ^ n" by simp
    with Suc.prems(1) have "d * 2 * 1 \<le> d * 2 * 2 ^ n"
      by (intro mult_left_mono) simp_all
    with True have "m \<le> d * (2 * 2 ^ n)" by (simp add: mult.assoc)
    with True w show ?thesis by (simp add: Let_def min_def)
  next
    case False
    with Suc w show ?thesis by (simp add: Let_def mult.assoc)
  qed
qed simp

subsection \<open>What the log of a worker says\<close>

text \<open>
  The publishes of the current session that no event has answered yet.
\<close>

fun outstanding :: "publish_effect list \<Rightarrow> nat" where
  "outstanding [] = 0"
| "outstanding (PPublish p ok # l) = Suc (outstanding l)"
| "outstanding (PEvent ev # l) = outstanding l - 1"
| "outstanding (POpened ok # l) = 0"
| "outstanding (PClosed # l) = 0"
| "outstanding (PWait d ok # l) = outstanding l"

fun publishes :: "publish_effect list \<Rightarrow> amqp_publishing list" where
  "publishes [] = []"
| "publishes (PPublish p ok # l) = publishes l @ [p]"
| "publishes (_ # l) = publishes l"

fun waits :: "publish_effect list \<Rightarrow> duration list" where
  "waits [] = []"
| "waits (PWait d ok # l) = waits l @ [d]"
| "waits (_ # l) = waits l"

lemma outputs_append:
  "publishes (l1 @ l2) = publishes l2 @ publishes l1" "waits (l1 @ l2) = waits l2 @ waits l1"
  by (induction l1 rule: publishes.induct; simp) (induction l1 rule: waits.induct; simp)

text \<open>Every answer taken from a session belongs to its only unanswered publish.\<close>

fun answers_match :: "publish_effect list \<Rightarrow> bool" where
  "answers_match [] \<longleftrightarrow> True"
| "answers_match (PEvent ev # l) \<longleftrightarrow> outstanding l = 1 \<and> answers_match l"
| "answers_match (_ # l) \<longleftrightarrow> answers_match l"

definition worker_inv :: "'w publisher \<Rightarrow> bool" where
  "worker_inv s \<longleftrightarrow> answers_match (pb_log s) \<and> (pb_client s \<longrightarrow> outstanding (pb_log s) = 0)"

lemma pub_note_simps [simp]:
  "pb_log (pub_note ev w s) = ev # pb_log s" "pb_client (pub_note ev w s) = pb_client s"
  "pb_world (pub_note ev w s) = w"
  by (simp_all add: pub_note_def)

text \<open>An attempt that succeeds ends with a positive confirmation of its own publish.\<close>

lemma publish_attempt_spec:
  assumes "publish_attempt e cfg p s = (r, t)" "worker_inv s"
  shows "answers_match (pb_log t) \<and>
    (r = None \<longrightarrow> pb_client t \<and> outstanding (pb_log t) = 0 \<and>
       (\<exists>tag older. pb_log t = PEvent (GotConfirm tag True NoReturn) # PPublish p True # older)) \<and>
    (\<exists>l. pb_log t = l @ pb_log s \<and> (publishes l = [] \<or> publishes l = [p]) \<and> waits l = [])"
proof -
  define s1 where "s1 = (if pb_client s then s
     else case pub_openSession e cfg (pb_world s) of
            (Some err, w) \<Rightarrow> pub_note (POpened False) w s
          | (None, w) \<Rightarrow> (pub_note (POpened True) w s)\<lparr>pb_client := True\<rparr>)"
  have s1: "answers_match (pb_log s1)" "pb_client s1 \<Longrightarrow> outstanding (pb_log s1) = 0"
    "\<exists>l. pb_log s1 = l @ pb_log s \<and> publishes l = [] \<and> waits l = []"
    using assms(2) by (auto simp: s1_def worker_inv_def split: prod.splits option.splits)
  show ?thesis
  proof (cases "pb_client s1")
    case False
    then have "t = s1" "r \<noteq> None"
      using assms(1)
      by (auto simp: publish_attempt_def s1_def Let_def split: if_splits prod.splits option.splits)
    with s1 show ?thesis by auto
  next
    case True
    then have "\<exists>tag. publishOnce e cfg p s1 = ((tag, r), t)"
      using assms(1)
      by (auto simp: publish_attempt_def s1_def Let_def split: if_splits prod.splits option.splits)
    then obtain tag where once: "publishOnce e cfg p s1 = ((tag, r), t)" by blast
    obtain l where l: "pb_log s1 = l @ pb_log s" "publishes l = []" "waits l = []"
      using s1(3) by blast
    show ?thesis
      using once s1(1) s1(2) [OF True] True l
      by (auto simp: publishOnce_def event_result_def ctx_ended_def Let_def
          split: option.splits prod.splits publish_event.splits return_poll.splits if_splits)
  qed
qed

end
