(* ===== verification/PublisherProps.thy ===== *)
theory PublisherProps
  imports Publisher ConsumerProps
begin

section \<open>Properties of the publisher\<close>

text \<open>
  What a worker of theory \<open>Publisher\<close> guarantees for one job and for any sequence of jobs,
  whatever the broker, the contexts and the timers answer.
\<close>

definition acked :: "amqp_publishing \<Rightarrow> 'w publisher \<Rightarrow> bool" where
  "acked p t \<longleftrightarrow> (\<exists>tag older. pb_log t = PEvent (GotConfirm tag True NoReturn) # PPublish p True # older)"

text \<open>The log a job adds: at most \<open>n\<close> publishes of \<open>p\<close>, the waits the delays from \<open>k\<close> on.\<close>

definition job_log :: "publisher_config \<Rightarrow> amqp_publishing \<Rightarrow> int \<Rightarrow> nat \<Rightarrow> publish_effect list \<Rightarrow> bool" where
  "job_log cfg p k n l \<longleftrightarrow>
     length (publishes l) \<le> n \<and> set (publishes l) \<subseteq> {p} \<and>
     (\<exists>j < n. waits l = map (\<lambda>i. publisher_backoff cfg (k + int i)) [0..<j])"

lemma job_log_step:
  assumes "job_log cfg p (k + 1) n l2" "publishes l1 = [] \<or> publishes l1 = [p]"
    and "waits l1 = [publisher_backoff cfg k]"
  shows "job_log cfg p k (Suc n) (l2 @ l1)"
proof -
  obtain j where j: "j < n" "waits l2 = map (\<lambda>i. publisher_backoff cfg (k + 1 + int i)) [0..<j]"
    using assms(1) by (auto simp: job_log_def)
  have "map (\<lambda>i. publisher_backoff cfg (k + int i)) [0..<Suc j]
      = publisher_backoff cfg k # map (\<lambda>i. publisher_backoff cfg (k + 1 + int i)) [0..<j]"
    by (simp add: upt_conv_Cons map_Suc_upt [symmetric] comp_def algebra_simps del: upt_Suc)
  then have "waits (l2 @ l1) = map (\<lambda>i. publisher_backoff cfg (k + int i)) [0..<Suc j]"
    using assms(3) j by (simp add: outputs_append del: upt_Suc)
  moreover have "length (publishes (l2 @ l1)) \<le> Suc n" "set (publishes (l2 @ l1)) \<subseteq> {p}"
    using assms(1,2) by (auto simp: job_log_def outputs_append)
  ultimately show ?thesis using j(1) unfolding job_log_def by blast
qed

lemma publish_attempts_spec:
  assumes "publish_attempts e cfg p k lastErr s = (r, t)" "worker_inv s" "k \<le> pc_MaxAttempts cfg"
  shows "worker_inv t \<and> (r = None \<longleftrightarrow> pb_client t) \<and> (r = None \<longrightarrow> acked p t) \<and>
    (\<exists>l. pb_log t = l @ pb_log s \<and> job_log cfg p k (nat (pc_MaxAttempts cfg + 1 - k)) l)"
  using assms
proof (induction e cfg p k lastErr s rule: publish_attempts.induct)
  case (1 e cfg p k lastErr s)
  let ?n = "nat (pc_MaxAttempts cfg + 1 - k)"
  obtain err s1 where a: "publish_attempt e cfg p s = (err, s1)" by fastforce
  note spec = publish_attempt_spec [OF a "1.prems"(2)]
  then obtain l where l: "pb_log s1 = l @ pb_log s" "publishes l = [] \<or> publishes l = [p]" "waits l = []"
    by blast
  have n: "0 < ?n" using "1.prems"(3) by simp
  show ?case
  proof (cases err)
    case None
    then have "t = s1" "r = None"
      using "1.prems"(1,3) a by (simp_all add: publish_attempts.simps [of e cfg p k])
    moreover have "job_log cfg p k ?n l"
      using l n by (auto simp: job_log_def intro: exI [of _ 0])
    ultimately show ?thesis
      using spec None l(1) by (auto simp: worker_inv_def acked_def)
  next
    case (Some x)
    let ?s2 = "(closePublisherSession e s1)\<lparr>pb_client := False\<rparr>"
    let ?d = "publisher_backoff cfg k"
    obtain lc where lc: "pb_log ?s2 = lc @ pb_log s1" "publishes lc = []" "waits lc = []"
      "answers_match (pb_log ?s2)"
    proof (rule that [of "if pb_client s1 then [PClosed] else []"])
      show "answers_match (pb_log ?s2)" using spec by (simp add: closePublisherSession_def)
    qed (simp_all add: closePublisherSession_def)
    show ?thesis
    proof (cases "k = pc_MaxAttempts cfg")
      case True
      then have t: "t = ?s2" "r \<noteq> None"
        using "1.prems"(1) a Some True
        by (auto simp: publish_attempts.simps [of e cfg p "pc_MaxAttempts cfg"] Let_def)
      moreover have "job_log cfg p k ?n (lc @ l)"
        using l lc n by (auto simp: job_log_def outputs_append intro: exI [of _ 0])
      ultimately show ?thesis using l(1) lc by (auto simp: worker_inv_def)
    next
      case False
      obtain werr w where wt: "pe_wait e ?d (pb_world ?s2) = (werr, w)" by fastforce
      let ?s3 = "pub_note (PWait ?d (werr = None)) w ?s2"
      have n2: "?n = Suc (nat (pc_MaxAttempts cfg + 1 - (k + 1)))" "0 < nat (pc_MaxAttempts cfg + 1 - (k + 1))"
        using "1.prems"(3) False by simp_all
      have s3: "worker_inv ?s3" using lc by (simp add: worker_inv_def)
      let ?l1 = "PWait ?d (werr = None) # lc @ l"
      have l1: "pb_log ?s3 = ?l1 @ pb_log s" "publishes ?l1 = [] \<or> publishes ?l1 = [p]" "waits ?l1 = [?d]"
        using l lc by (auto simp: outputs_append)
      show ?thesis
      proof (cases werr)
        case (Some y)
        then have t: "t = ?s3" "r \<noteq> None"
          using "1.prems"(1,3) a \<open>err = Some x\<close> False wt
          by (auto simp: publish_attempts.simps [of e cfg p k] Let_def)
        have "job_log cfg p k ?n ?l1"
          using l1(2,3) n2 by (auto simp: job_log_def intro!: exI [of _ "1::nat"])
        with t l1(1) s3 show ?thesis by auto
      next
        case None
        then have rec: "publish_attempts e cfg p (k + 1) (Some x) ?s3 = (r, t)"
          using "1.prems"(1,3) a \<open>err = Some x\<close> False wt
          by (simp add: publish_attempts.simps [of e cfg p k] Let_def)
        have lt: "\<not> pc_MaxAttempts cfg < k" using "1.prems"(3) by simp
        have IH: "worker_inv t \<and> (r = None \<longleftrightarrow> pb_client t) \<and> (r = None \<longrightarrow> acked p t) \<and>
            (\<exists>l. pb_log t = l @ pb_log ?s3 \<and>
              job_log cfg p (k + 1) (nat (pc_MaxAttempts cfg + 1 - (k + 1))) l)"
          using "1.IH" [OF lt a [symmetric] Some refl False wt [symmetric] None] rec s3 "1.prems"(3) False None
          by simp
        then obtain l2 where l2: "pb_log t = l2 @ pb_log ?s3"
          "job_log cfg p (k + 1) (nat (pc_MaxAttempts cfg + 1 - (k + 1))) l2" by blast
        have "job_log cfg p k ?n (l2 @ ?l1)"
          unfolding n2(1) by (rule job_log_step [OF l2(2) l1(2,3)])
        moreover have "pb_log t = (l2 @ ?l1) @ pb_log s" using l2(1) l1(1) by simp
        ultimately show ?thesis using IH by blast
      qed
    qed
  qed
qed

text \<open>An identifier the generator of the configuration may return.\<close>

definition generated_by :: "'w publisher_env \<Rightarrow> string \<Rightarrow> bool" where
  "generated_by e messageID \<longleftrightarrow> (\<exists>w. fst (pe_generateID e w) = Inr messageID)"

lemma publishWithRetry_spec:
  assumes "publishWithRetry ff e cfg b s = (r, t)" "worker_inv s" "1 \<le> pc_MaxAttempts cfg"
  shows "worker_inv t \<and>
    (r = None \<longrightarrow> (\<exists>messageID msg now p. generated_by e messageID \<and> NewIngestMessage b (Inr messageID) = Inr msg \<and>
       MarshalIngestPublishing ff msg now = Inr p \<and> acked p t)) \<and>
    (\<exists>l p. pb_log t = l @ pb_log s \<and> job_log cfg p 1 (nat (pc_MaxAttempts cfg)) l)"
proof -
  obtain g w where g: "pe_generateID e (pb_world s) = (g, w)" by fastforce
  let ?s1 = "s\<lparr>pb_world := w\<rparr>"
  have inv: "worker_inv ?s1" using assms(2) by (simp add: worker_inv_def)
  have empty: "\<exists>l p. pb_log ?s1 = l @ pb_log s \<and> job_log cfg p 1 (nat (pc_MaxAttempts cfg)) l"
    using assms(3) by (intro exI [of _ "[]"]) (auto simp: job_log_def intro!: exI [of _ "0::nat"])
  show ?thesis
  proof (cases "NewIngestMessage b g")
    case (Inl x)
    then have "t = ?s1" "r \<noteq> None" using assms(1) g by (auto simp: publishWithRetry_def)
    then show ?thesis using inv empty by auto
  next
    case msg: (Inr msg)
    then obtain messageID where gid: "g = Inr messageID"
      by (auto simp: NewIngestMessage_def split: sum.splits)
    show ?thesis
    proof (cases "MarshalIngestPublishing ff msg (pe_now e w)")
      case (Inl x)
      then have "t = ?s1" "r \<noteq> None" using assms(1) g msg by (auto simp: publishWithRetry_def)
      then show ?thesis using inv empty by auto
    next
      case (Inr p)
      then have run: "publish_attempts e cfg p 1 None ?s1 = (r, t)"
        using assms(1) g msg by (simp add: publishWithRetry_def)
      have new: "generated_by e messageID" "NewIngestMessage b (Inr messageID) = Inr msg"
        unfolding generated_by_def using g gid msg by (metis fst_conv, simp)
      note spec = publish_attempts_spec [OF run inv assms(3)]
      then have "r = None \<longrightarrow> acked p t" "worker_inv t" by blast+
      moreover have "\<exists>l p. pb_log t = l @ pb_log s \<and> job_log cfg p 1 (nat (pc_MaxAttempts cfg)) l"
        using spec by auto
      ultimately show ?thesis using new Inr by blast
    qed
  qed
qed

lemma run_worker_spec:
  assumes "run_worker ff e cfg bs s = (rs, t)" "worker_inv s" "1 \<le> pc_MaxAttempts cfg"
  shows "worker_inv t \<and> length rs = length bs"
  using assms
proof (induction bs arbitrary: s rs t)
  case (Cons b bs)
  obtain r1 s1 where a: "publishWithRetry ff e cfg b s = (r1, s1)" by fastforce
  obtain rs1 s2 where b: "run_worker ff e cfg bs s1 = (rs1, s2)" by fastforce
  show ?case
    using Cons.IH [OF b] publishWithRetry_spec [OF a Cons.prems(2,3)] Cons.prems a b by auto
qed simp

lemma worker_inv_new: "worker_inv (new_worker w)"
  by (simp add: worker_inv_def new_worker_def)

lemma NewPublisher_config:
  assumes "NewRabbitMQMetricBatchPublisher config = Inr cfg"
  shows "1 \<le> pc_MaxAttempts cfg" "0 < pc_InitialBackoff cfg"
    "pc_InitialBackoff cfg \<le> pc_MaxBackoff cfg" "1 \<le> pc_Publishers cfg"
  using assms
  by (auto simp: NewRabbitMQMetricBatchPublisher_def publisher_validate_def Let_def
      split: if_splits option.splits)

subsection \<open>The properties\<close>

text \<open>
  Publish success means confirmed: when a job returns nil (the handler then answers 200),
  the last thing that happened on the worker's session is a publish of the message built from
  the job's batch followed by the broker's positive confirmation, with no returned message.
  The job made at most \<open>MaxAttempts\<close> publishes, all of the same publishing (same message
  identifier), separated by the waits \<open>backoff(1)\<close>, \<open>backoff(2)\<close>, ... in this order.
\<close>

theorem publish_nil_means_confirmed:
  assumes "NewRabbitMQMetricBatchPublisher config = Inr cfg"
    and "run_worker ff e cfg done (new_worker w) = (rs, s)"
    and "publishWithRetry ff e cfg b s = (r, t)"
  shows "(r = None \<longrightarrow> (\<exists>messageID msg now p tag older.
      NewIngestMessage b (Inr messageID) = Inr msg \<and> MarshalIngestPublishing ff msg now = Inr p \<and>
      pb_log t = PEvent (GotConfirm tag True NoReturn) # PPublish p True # older)) \<and>
    (\<exists>l p j. pb_log t = l @ pb_log s \<and> set (publishes l) \<subseteq> {p} \<and>
      int (length (publishes l)) \<le> pc_MaxAttempts cfg \<and> int j < pc_MaxAttempts cfg \<and>
      waits l = map (\<lambda>i. publisher_backoff cfg (1 + int i)) [0..<j])"
proof -
  note c = NewPublisher_config(1) [OF assms(1)]
  have s: "worker_inv s" using run_worker_spec [OF assms(2) worker_inv_new c] by blast
  note spec = publishWithRetry_spec [OF assms(3) s c]
  then obtain l p where l: "pb_log t = l @ pb_log s" "job_log cfg p 1 (nat (pc_MaxAttempts cfg)) l"
    by blast
  then obtain j where "j < nat (pc_MaxAttempts cfg)" "int (length (publishes l)) \<le> pc_MaxAttempts cfg"
    "waits l = map (\<lambda>i. publisher_backoff cfg (1 + int i)) [0..<j]" "set (publishes l) \<subseteq> {p}"
    using c by (auto simp: job_log_def)
  moreover from this have "int j < pc_MaxAttempts cfg" by simp
  ultimately have "\<exists>l p j. pb_log t = l @ pb_log s \<and> set (publishes l) \<subseteq> {p} \<and>
      int (length (publishes l)) \<le> pc_MaxAttempts cfg \<and> int j < pc_MaxAttempts cfg \<and>
      waits l = map (\<lambda>i. publisher_backoff cfg (1 + int i)) [0..<j]"
    using l(1) by blast
  moreover have "r = None \<longrightarrow> (\<exists>messageID msg now p tag older.
      NewIngestMessage b (Inr messageID) = Inr msg \<and> MarshalIngestPublishing ff msg now = Inr p \<and>
      pb_log t = PEvent (GotConfirm tag True NoReturn) # PPublish p True # older)"
    using spec unfolding acked_def by blast
  ultimately show ?thesis by blast
qed

definition example_publisher_config :: publisher_config where
  "example_publisher_config =
     \<lparr>pc_URL = ''amqp'', pc_Publishers = 1, pc_WriteTimeout = 5 * second, pc_ConfirmTimeout = 5 * second,
      pc_MaxAttempts = 3, pc_InitialBackoff = 100 * millisecond, pc_MaxBackoff = second,
      pc_Topology = DefaultTopology\<rparr>"

lemma example_publisher_new:
  "NewRabbitMQMetricBatchPublisher example_publisher_config = Inr example_publisher_config"
  by (simp add: NewRabbitMQMetricBatchPublisher_def example_publisher_config_def
      publisher_withDefaults_def or_default_def or_default_topology_def publisher_validate_def
      duration_defs Let_def DefaultTopology_def zero_topology_def)

text \<open>A broker that answers the first publish with a nack and every later one with an ack.\<close>

definition nack_then_ack_env :: "nat publisher_env" where
  "nack_then_ack_env =
     \<lparr>pe_dial_ctx_err = (\<lambda>_. None), pe_dial = (\<lambda>w. (None, w)), pe_call = (\<lambda>_ w. (None, w)),
      pe_confirm_ctx_err = (\<lambda>_. None), pe_publish = (\<lambda>_ _ _ _ _ w. (None, Suc w)),
      pe_select = (\<lambda>w. (GotConfirm 1 (1 < w) NoReturn, w)), pe_wait = (\<lambda>_ w. (None, w)),
      pe_close = (\<lambda>w. w), pe_now = (\<lambda>_. 0), pe_generateID = (\<lambda>w. (Inr ''id'', w))\<rparr>"

lemma example_publish:
  "\<exists>t. publishWithRetry bits_format nack_then_ack_env example_publisher_config example_batch
      (new_worker 0) = (None, t) \<and> length (publishes (pb_log t)) = 2"
  by (simp add: publishWithRetry_def nack_then_ack_env_def new_worker_def example_new example_marshal
      publish_attempts.simps publish_attempt_def publishOnce_def event_result_def Let_def
      example_publisher_config_def closePublisherSession_def pub_openSession_def declareTopology_def
      topology_calls_def)

lemma publish_nil_means_confirmed_witness:
  "\<exists>t p tag older. publishWithRetry bits_format nack_then_ack_env example_publisher_config example_batch
      (new_worker 0) = (None, t) \<and>
    pb_log t = PEvent (GotConfirm tag True NoReturn) # PPublish p True # older \<and>
    length (publishes (pb_log t)) = 2"
proof -
  obtain t where t: "publishWithRetry bits_format nack_then_ack_env example_publisher_config
      example_batch (new_worker 0) = (None, t)" "length (publishes (pb_log t)) = 2"
    using example_publish by blast
  have "run_worker bits_format nack_then_ack_env example_publisher_config [] (new_worker 0)
      = ([], new_worker 0)" by simp
  from publish_nil_means_confirmed [OF example_publisher_new this t(1)] t show ?thesis by blast
qed

text \<open>
  A confirmation or return is never taken for another message's: over any sequence of
  jobs of a worker, each answer read from a session is read while exactly one publish of that
  session is unanswered, although \<open>publishOnce\<close> does not compare delivery tags. This is what
  dropping the session after every failed attempt achieves.
\<close>

theorem answers_belong_to_their_publish:
  assumes "NewRabbitMQMetricBatchPublisher config = Inr cfg"
    and "run_worker ff e cfg jobs (new_worker w) = (rs, t)"
    and "pb_log t = newer @ PEvent ev # older"
  shows "outstanding older = 1"
proof -
  have "answers_match (newer @ PEvent ev # older)"
    using run_worker_spec [OF assms(2) worker_inv_new NewPublisher_config(1) [OF assms(1)]] assms(3)
    by (simp add: worker_inv_def)
  then show ?thesis by (induction newer rule: answers_match.induct) auto
qed

lemma answers_belong_to_their_publish_witness:
  "\<exists>p. outstanding [PPublish p True, POpened True] = 1 \<and>
    (\<exists>rs t newer. run_worker bits_format nack_then_ack_env example_publisher_config [example_batch]
       (new_worker 0) = (rs, t) \<and>
     pb_log t = newer @ PEvent (GotConfirm 1 False NoReturn) # [PPublish p True, POpened True])"
proof -
  have run: "run_worker bits_format nack_then_ack_env example_publisher_config [example_batch]
      (new_worker 0) =
    ([None], \<lparr>pb_client = True,
       pb_log = [PEvent (GotConfirm 1 True NoReturn), PPublish example_publishing True, POpened True,
         PWait (publisher_backoff example_publisher_config 1) True, PClosed] @
         PEvent (GotConfirm 1 False NoReturn) # [PPublish example_publishing True, POpened True],
       pb_world = 2\<rparr>)"
    by (simp add: publishWithRetry_def nack_then_ack_env_def new_worker_def example_new example_marshal
        publish_attempts.simps publish_attempt_def publishOnce_def event_result_def Let_def
        example_publisher_config_def closePublisherSession_def pub_openSession_def declareTopology_def
        topology_calls_def pub_note_def)
  from answers_belong_to_their_publish [OF example_publisher_new run] run show ?thesis
    by (metis publisher.select_convs(2))
qed

text \<open>
  The delay before attempt \<open>n + 2\<close> is \<open>InitialBackoff * 2 ^ n\<close> capped at \<open>MaxBackoff\<close>:
  the loop with its early return and its 64-bit doubling computes exactly this, and stays
  within the configured range.
\<close>

theorem publisher_backoff_closed_form:
  assumes "NewRabbitMQMetricBatchPublisher config = Inr cfg" "pc_MaxBackoff cfg < 2 ^ 62"
  shows "publisher_backoff cfg (1 + int n) = min (pc_InitialBackoff cfg * 2 ^ n) (pc_MaxBackoff cfg) \<and>
    pc_InitialBackoff cfg \<le> publisher_backoff cfg (1 + int n)"
proof -
  note c = NewPublisher_config [OF assms(1)]
  have "publisher_backoff cfg (1 + int n) = min (pc_InitialBackoff cfg * 2 ^ n) (pc_MaxBackoff cfg)"
    using c assms(2) by (simp add: publisher_backoff_def backoff_loop_closed)
  moreover have "pc_InitialBackoff cfg * 1 \<le> pc_InitialBackoff cfg * 2 ^ n"
    using c(2) by (intro mult_left_mono) simp_all
  ultimately show ?thesis using c(3) by simp
qed

lemma publisher_backoff_closed_form_witness:
  "publisher_backoff example_publisher_config (1 + int 2) = 400 * millisecond"
  using publisher_backoff_closed_form [OF example_publisher_new, of 2]
  by (simp add: example_publisher_config_def duration_defs)

end
