(* ===== verification/PublisherPool.thy ===== *)
theory PublisherPool
  imports PublisherProps
begin

section \<open>The pool of publisher workers\<close>

text \<open>
  \<open>PublishMetricBatch\<close>, \<open>runWorker\<close> and \<open>Close\<close> of \<open>internal/messaging/publisher.go\<close> as they
  interleave: callers put jobs into a buffered channel and wait for the answer in a channel of their
  own, workers take jobs and serve them (theory \<open>Publisher\<close>), \<open>Close\<close> closes \<open>done\<close> and waits for
  the workers. A \<open>select\<close> is a function of the branch it takes, \<open>None\<close> when that branch is not ready.
\<close>

text \<open>The job of a call; its context and its \<open>result\<close> channel are the call's.\<close>

record publish_job =
  pj_call :: nat
  pj_batch :: metric_batch

datatype call_state =
    NotCalled
  | Submitting metric_batch
  | Waiting metric_batch
  | Answered metric_batch "go_error option"

datatype worker_phase = Ready | Serving publish_job | Exited

record 'w pool =
  pl_jobs :: "publish_job list"
  pl_done :: bool
  pl_call :: "nat \<Rightarrow> call_state"
  pl_answer :: "nat \<Rightarrow> go_error option option"
  pl_phase :: "nat \<Rightarrow> worker_phase"
  pl_worker :: "nat \<Rightarrow> 'w publisher"

definition job_slots :: "publisher_config \<Rightarrow> nat" where
  "job_slots cfg = nat (pc_Publishers cfg * 16)"

subsection \<open>The operations\<close>

datatype branch = CtxDone go_error | DoneClosed | Proceed

text \<open>The two \<open>select\<close>s of \<open>PublishMetricBatch\<close> in the call \<open>c\<close>.\<close>

definition submit_select :: "publisher_config \<Rightarrow> nat \<Rightarrow> branch \<Rightarrow> 'w pool \<Rightarrow> 'w pool option" where
  "submit_select cfg c br s =
     (case pl_call s c of
        Submitting batch \<Rightarrow>
          (case br of
             CtxDone err \<Rightarrow> Some (s\<lparr>pl_call := (pl_call s)(c := Answered batch (Some err))\<rparr>)
           | DoneClosed \<Rightarrow>
               if pl_done s
               then Some (s\<lparr>pl_call := (pl_call s)(c := Answered batch (Some ErrPublisherClosed))\<rparr>) else None
           | Proceed \<Rightarrow>
               if length (pl_jobs s) < job_slots cfg
               then Some (s\<lparr>pl_call := (pl_call s)(c := Waiting batch),
                            pl_jobs := pl_jobs s @ [\<lparr>pj_call = c, pj_batch = batch\<rparr>]\<rparr>)
               else None)
      | _ \<Rightarrow> None)"

definition answer_select :: "nat \<Rightarrow> branch \<Rightarrow> 'w pool \<Rightarrow> 'w pool option" where
  "answer_select c br s =
     (case pl_call s c of
        Waiting batch \<Rightarrow>
          (case br of
             CtxDone err \<Rightarrow> Some (s\<lparr>pl_call := (pl_call s)(c := Answered batch (Some err))\<rparr>)
           | DoneClosed \<Rightarrow>
               if pl_done s
               then Some (s\<lparr>pl_call := (pl_call s)(c := Answered batch (Some ErrPublisherClosed))\<rparr>) else None
           | Proceed \<Rightarrow>
               (case pl_answer s c of
                  None \<Rightarrow> None
                | Some err \<Rightarrow>
                    Some (s\<lparr>pl_call := (pl_call s)(c := Answered batch err),
                            pl_answer := (pl_answer s)(c := None)\<rparr>)))
      | _ \<Rightarrow> None)"

text \<open>The \<open>select\<close> of \<open>runWorker\<close> in the worker \<open>k\<close>; it has no context.\<close>

definition worker_select :: "'w publisher_env \<Rightarrow> nat \<Rightarrow> branch \<Rightarrow> 'w pool \<Rightarrow> 'w pool option" where
  "worker_select e k br s =
     (case (pl_phase s k, br) of
        (Ready, DoneClosed) \<Rightarrow>
          if pl_done s
          then Some (s\<lparr>pl_phase := (pl_phase s)(k := Exited),
                       pl_worker := (pl_worker s)(k := closePublisherSession e (pl_worker s k))\<rparr>)
          else None
      | (Ready, Proceed) \<Rightarrow>
          (case pl_jobs s of
             [] \<Rightarrow> None
           | job # jobs \<Rightarrow> Some (s\<lparr>pl_jobs := jobs, pl_phase := (pl_phase s)(k := Serving job)\<rparr>))
      | _ \<Rightarrow> None)"

text \<open>Serving a job; the send blocks when an answer already fills the channel of capacity one.\<close>

definition worker_finish ::
  "(float64 \<Rightarrow> string) \<Rightarrow> 'w publisher_env \<Rightarrow> publisher_config \<Rightarrow> nat \<Rightarrow> 'w pool \<Rightarrow> 'w pool option" where
  "worker_finish ff e cfg k s =
     (case pl_phase s k of
        Serving job \<Rightarrow>
          (case publishWithRetry ff e cfg (pj_batch job) (pl_worker s k) of
             (err, session) \<Rightarrow>
               if pl_answer s (pj_call job) = None
               then Some (s\<lparr>pl_phase := (pl_phase s)(k := Ready), pl_worker := (pl_worker s)(k := session),
                            pl_answer := (pl_answer s)(pj_call job := Some err)\<rparr>)
               else None)
      | _ \<Rightarrow> None)"

definition pool_Close :: "'w pool \<Rightarrow> 'w pool" where
  "pool_Close s = s\<lparr>pl_done := True\<rparr>"

text \<open>\<open>Close\<close> returns when \<open>wg.Wait\<close> does.\<close>

definition pool_closed :: "publisher_config \<Rightarrow> 'w pool \<Rightarrow> bool" where
  "pool_closed cfg s \<longleftrightarrow> pl_done s \<and> list_all (\<lambda>k. pl_phase s k = Exited) [0..<nat (pc_Publishers cfg)]"

text \<open>The publisher of \<open>noop.go\<close>, which publishes nothing.\<close>

definition noop_PublishMetricBatch :: "metric_batch \<Rightarrow> go_error option" where
  "noop_PublishMetricBatch batch = None"

subsection \<open>The constructor\<close>

text \<open>
  The loop over the publishers: a session for each, in order; \<open>ws\<close> is the world each is opened
  in. When one fails, \<open>Close\<close> makes the workers started so far close theirs.
\<close>

fun open_sessions ::
  "'w publisher_env \<Rightarrow> publisher_config \<Rightarrow> (nat \<Rightarrow> 'w) \<Rightarrow> nat \<Rightarrow> nat \<Rightarrow> (nat \<Rightarrow> 'w publisher) \<Rightarrow>
    (go_error \<times> (nat \<Rightarrow> 'w publisher)) + (nat \<Rightarrow> 'w publisher)" where
  "open_sessions e cfg ws index 0 workers = Inr workers"
| "open_sessions e cfg ws index (Suc n) workers =
     (case pub_openSession e cfg (ws index) of
        (Some err, w) \<Rightarrow>
          Inl (ErrWrap ''open publisher session'' [err],
               \<lambda>k. if k < index then closePublisherSession e (workers k) else workers k)
      | (None, w) \<Rightarrow> open_sessions e cfg ws (Suc index) n (workers(index := new_worker w)))"

definition no_worker :: "'w \<Rightarrow> 'w publisher" where
  "no_worker w = \<lparr>pb_client = False, pb_log = [], pb_world = w\<rparr>"

definition new_pool ::
  "'w publisher_env \<Rightarrow> publisher_config \<Rightarrow> (nat \<Rightarrow> 'w) \<Rightarrow> (go_error \<times> (nat \<Rightarrow> 'w publisher)) + 'w pool" where
  "new_pool e config ws =
     (case NewRabbitMQMetricBatchPublisher config of
        Inl err \<Rightarrow> Inl (err, \<lambda>k. no_worker (ws k))
      | Inr cfg \<Rightarrow>
          (case open_sessions e cfg ws 0 (nat (pc_Publishers cfg)) (\<lambda>k. no_worker (ws k)) of
             Inl failed \<Rightarrow> Inl failed
           | Inr workers \<Rightarrow>
               Inr \<lparr>pl_jobs = [], pl_done = False, pl_call = (\<lambda>_. NotCalled), pl_answer = (\<lambda>_. None),
                    pl_phase = (\<lambda>k. if k < nat (pc_Publishers cfg) then Ready else Exited),
                    pl_worker = workers\<rparr>))"

subsection \<open>The system\<close>

datatype pool_label =
    LCall nat metric_batch
  | LSubmit nat branch
  | LAnswer nat branch
  | LWorker nat branch
  | LFinish nat
  | LCloseAll

fun pool_apply ::
  "(float64 \<Rightarrow> string) \<Rightarrow> 'w publisher_env \<Rightarrow> publisher_config \<Rightarrow> pool_label \<Rightarrow> 'w pool \<Rightarrow> 'w pool option" where
  "pool_apply ff e cfg (LCall c batch) s =
     (if pl_call s c = NotCalled then Some (s\<lparr>pl_call := (pl_call s)(c := Submitting batch)\<rparr>) else None)"
| "pool_apply ff e cfg (LSubmit c br) s = submit_select cfg c br s"
| "pool_apply ff e cfg (LAnswer c br) s = answer_select c br s"
| "pool_apply ff e cfg (LWorker k br) s = worker_select e k br s"
| "pool_apply ff e cfg (LFinish k) s = worker_finish ff e cfg k s"
| "pool_apply ff e cfg LCloseAll s = Some (pool_Close s)"

fun_cases pool_apply_LCall: "pool_apply ff e cfg (LCall c batch) s = Some t"

inductive pool_run ::
  "(float64 \<Rightarrow> string) \<Rightarrow> 'w publisher_env \<Rightarrow> publisher_config \<Rightarrow> 'w pool \<Rightarrow> pool_label list \<Rightarrow> 'w pool \<Rightarrow> bool"
  for ff e cfg where
  stop: "pool_run ff e cfg s [] s"
| more: "pool_run ff e cfg s ls t \<Longrightarrow> pool_apply ff e cfg l t = Some u \<Longrightarrow> pool_run ff e cfg s (ls @ [l]) u"

inductive_simps pool_run_Nil [simp]: "pool_run ff e cfg s [] t"

subsection \<open>The invariant\<close>

definition started :: "'w pool \<Rightarrow> nat \<Rightarrow> metric_batch \<Rightarrow> bool" where
  "started s c b \<longleftrightarrow> pl_call s c = Waiting b \<or> (\<exists>r. pl_call s c = Answered b r)"

text \<open>The jobs that are queued or being served, of one call each.\<close>

definition jobs_inv :: "publisher_config \<Rightarrow> 'w pool \<Rightarrow> bool" where
  "jobs_inv cfg s \<longleftrightarrow>
     length (pl_jobs s) \<le> job_slots cfg \<and> distinct (map pj_call (pl_jobs s)) \<and>
     (\<forall>j \<in> set (pl_jobs s). started s (pj_call j) (pj_batch j) \<and> pl_answer s (pj_call j) = None \<and>
        (\<forall>k j'. pl_phase s k = Serving j' \<longrightarrow> pj_call j' \<noteq> pj_call j)) \<and>
     (\<forall>k j. pl_phase s k = Serving j \<longrightarrow> started s (pj_call j) (pj_batch j) \<and> pl_answer s (pj_call j) = None \<and>
        (\<forall>k' j'. pl_phase s k' = Serving j' \<and> pj_call j' = pj_call j \<longrightarrow> k' = k)) \<and>
     (\<forall>c. pl_answer s c \<noteq> None \<longrightarrow> (\<exists>b. started s c b))"

text \<open>A worker whose log has a positive confirmation right after the publish of a message of the batch.\<close>

definition confirmed_in :: "(float64 \<Rightarrow> string) \<Rightarrow> 'w publisher_env \<Rightarrow> metric_batch \<Rightarrow> publish_effect list \<Rightarrow> bool" where
  "confirmed_in ff e b l \<longleftrightarrow> (\<exists>messageID msg now p tag newer older.
     generated_by e messageID \<and> NewIngestMessage b (Inr messageID) = Inr msg \<and> MarshalIngestPublishing ff msg now = Inr p \<and>
     l = newer @ PEvent (GotConfirm tag True NoReturn) # PPublish p True # older)"

definition confirmed :: "(float64 \<Rightarrow> string) \<Rightarrow> 'w publisher_env \<Rightarrow> 'w pool \<Rightarrow> metric_batch \<Rightarrow> bool" where
  "confirmed ff e s b \<longleftrightarrow> (\<exists>k. confirmed_in ff e b (pb_log (pl_worker s k)))"

definition answers_inv :: "(float64 \<Rightarrow> string) \<Rightarrow> 'w publisher_env \<Rightarrow> 'w pool \<Rightarrow> bool" where
  "answers_inv ff e s \<longleftrightarrow>
     (\<forall>k. worker_inv (pl_worker s k)) \<and>
     (\<forall>c b. pl_answer s c = Some None \<and> started s c b \<longrightarrow> confirmed ff e s b) \<and>
     (\<forall>c b. pl_call s c = Answered b None \<longrightarrow> confirmed ff e s b)"

lemma started_upd [simp]:
  "started (s\<lparr>pl_jobs := j\<rparr>) c b = started s c b" "started (s\<lparr>pl_done := d\<rparr>) c b = started s c b"
  "started (s\<lparr>pl_answer := a\<rparr>) c b = started s c b" "started (s\<lparr>pl_phase := p\<rparr>) c b = started s c b"
  "started (s\<lparr>pl_worker := w\<rparr>) c b = started s c b"
  by (simp_all add: started_def)

lemma started_unique: "started s c b \<Longrightarrow> started s c b' \<Longrightarrow> b = b'"
  by (auto simp: started_def)

text \<open>What each operation does, as one equation per branch that is taken.\<close>

lemma submit_cases:
  assumes "submit_select cfg c br s = Some t"
  obtains b where "pl_call s c = Submitting b"
    "(\<exists>err. t = s\<lparr>pl_call := (pl_call s)(c := Answered b (Some err))\<rparr>) \<or>
     length (pl_jobs s) < job_slots cfg \<and>
     t = s\<lparr>pl_call := (pl_call s)(c := Waiting b), pl_jobs := pl_jobs s @ [\<lparr>pj_call = c, pj_batch = b\<rparr>]\<rparr>"
  using assms by (auto simp: submit_select_def split: call_state.splits branch.splits if_splits)

lemma answer_cases:
  assumes "answer_select c br s = Some t"
  obtains b where "pl_call s c = Waiting b"
    "(\<exists>err. t = s\<lparr>pl_call := (pl_call s)(c := Answered b (Some err))\<rparr>) \<or>
     (\<exists>err. pl_answer s c = Some err \<and>
        t = s\<lparr>pl_call := (pl_call s)(c := Answered b err), pl_answer := (pl_answer s)(c := None)\<rparr>)"
  using assms by (auto simp: answer_select_def split: call_state.splits branch.splits if_splits option.splits)

lemma worker_cases:
  assumes "worker_select e k br s = Some t"
  obtains "pl_phase s k = Ready" "pl_done s"
      "t = s\<lparr>pl_phase := (pl_phase s)(k := Exited),
           pl_worker := (pl_worker s)(k := closePublisherSession e (pl_worker s k))\<rparr>"
  | job jobs where "pl_phase s k = Ready" "pl_jobs s = job # jobs"
      "t = s\<lparr>pl_jobs := jobs, pl_phase := (pl_phase s)(k := Serving job)\<rparr>"
  using assms by (auto simp: worker_select_def split: worker_phase.splits branch.splits if_splits list.splits)

lemma finish_cases:
  assumes "worker_finish ff e cfg k s = Some t"
  obtains job err session where "pl_phase s k = Serving job" "pl_answer s (pj_call job) = None"
    "publishWithRetry ff e cfg (pj_batch job) (pl_worker s k) = (err, session)"
    "t = s\<lparr>pl_phase := (pl_phase s)(k := Ready), pl_worker := (pl_worker s)(k := session),
         pl_answer := (pl_answer s)(pj_call job := Some err)\<rparr>"
  using assms by (auto simp: worker_finish_def split: worker_phase.splits prod.splits if_splits)

lemmas pool_cases = submit_cases answer_cases worker_cases finish_cases

lemma jobs_invD:
  assumes "jobs_inv cfg s"
  shows "j \<in> set (pl_jobs s) \<Longrightarrow> started s (pj_call j) (pj_batch j) \<and> pl_answer s (pj_call j) = None"
    "pl_phase s k = Serving j \<Longrightarrow> started s (pj_call j) (pj_batch j) \<and> pl_answer s (pj_call j) = None"
    "j \<in> set (pl_jobs s) \<Longrightarrow> pl_phase s k = Serving j' \<Longrightarrow> pj_call j' \<noteq> pj_call j"
    "pl_phase s k = Serving j \<Longrightarrow> pl_phase s k' = Serving j' \<Longrightarrow> pj_call j' = pj_call j \<Longrightarrow> k' = k"
    "pl_answer s c = Some r \<Longrightarrow> \<exists>b. started s c b"
    "length (pl_jobs s) \<le> job_slots cfg" "distinct (map pj_call (pl_jobs s))"
  using assms unfolding jobs_inv_def by (blast, blast, blast, blast, blast, blast, blast)

lemma jobs_invI:
  assumes "length (pl_jobs s) \<le> job_slots cfg" "distinct (map pj_call (pl_jobs s))"
    and "\<And>j. j \<in> set (pl_jobs s) \<Longrightarrow> started s (pj_call j) (pj_batch j) \<and> pl_answer s (pj_call j) = None"
    and "\<And>k j. pl_phase s k = Serving j \<Longrightarrow> started s (pj_call j) (pj_batch j) \<and> pl_answer s (pj_call j) = None"
    and "\<And>j k j'. j \<in> set (pl_jobs s) \<Longrightarrow> pl_phase s k = Serving j' \<Longrightarrow> pj_call j' \<noteq> pj_call j"
    and "\<And>k j k' j'. pl_phase s k = Serving j \<Longrightarrow> pl_phase s k' = Serving j' \<Longrightarrow> pj_call j' = pj_call j \<Longrightarrow> k' = k"
    and "\<And>c r. pl_answer s c = Some r \<Longrightarrow> \<exists>b. started s c b"
  shows "jobs_inv cfg s"
  unfolding jobs_inv_def not_None_eq
  by (intro conjI allI ballI impI) (use assms in \<open>fast+\<close>)

lemma started_call:
  assumes "pl_call t = (pl_call s)(c := v)"
    and "(\<forall>b. \<not> started s c b) \<or> (\<exists>b r. pl_call s c = Waiting b \<and> v = Answered b r)" "started s c' b'"
  shows "started t c' b'"
  using assms by (cases "c' = c") (auto simp: started_def)

lemma jobs_inv_calls:
  assumes "jobs_inv cfg s" "pl_jobs t = pl_jobs s" "pl_phase t = pl_phase s"
    and "\<And>c r. pl_answer t c = Some r \<Longrightarrow> pl_answer s c = Some r"
    and st: "\<And>c b. started s c b \<Longrightarrow> started t c b"
  shows "jobs_inv cfg t"
proof -
  have an: "pl_answer s c = None \<Longrightarrow> pl_answer t c = None" for c
    using assms(4) [of c] by (cases "pl_answer t c") auto
  note D = jobs_invD [OF assms(1)]
  show ?thesis
  proof (rule jobs_invI, unfold assms(2,3))
    show "length (pl_jobs s) \<le> job_slots cfg" "distinct (map pj_call (pl_jobs s))" using D(6,7) by simp_all
    show "started t (pj_call j) (pj_batch j) \<and> pl_answer t (pj_call j) = None" if "j \<in> set (pl_jobs s)" for j
      using D(1) [OF that] st an by blast
    show "started t (pj_call j) (pj_batch j) \<and> pl_answer t (pj_call j) = None" if "pl_phase s k = Serving j" for k j
      using D(2) [OF that] st an by blast
    show "\<exists>b. started t c b" if "pl_answer t c = Some r" for c r
      using D(5) [OF assms(4) [OF that]] st by blast
  qed (use D(3,4) in blast)+
qed

lemma jobs_inv_submit:
  assumes "jobs_inv cfg s" "pl_call s c = Submitting b" "length (pl_jobs s) < job_slots cfg"
    and "t = s\<lparr>pl_call := (pl_call s)(c := Waiting b), pl_jobs := pl_jobs s @ [\<lparr>pj_call = c, pj_batch = b\<rparr>]\<rparr>"
  shows "jobs_inv cfg t"
proof -
  note D = jobs_invD [OF assms(1)]
  have idle: "\<not> started s c b'" for b' using assms(2) by (simp add: started_def)
  have kept: "started s c' b' \<Longrightarrow> started t c' b'" for c' b'
    by (rule started_call [where c = c and v = "Waiting b"]) (use assms(4) idle in auto)
  have new: "c \<notin> pj_call ` set (pl_jobs s)" "\<And>k j. pl_phase s k = Serving j \<Longrightarrow> pj_call j \<noteq> c" "pl_answer s c = None"
    using D(1) idle apply blast using D(2) idle apply blast using D(5) [of c] idle by (cases "pl_answer s c") auto
  have t: "pl_jobs t = pl_jobs s @ [\<lparr>pj_call = c, pj_batch = b\<rparr>]" "pl_phase t = pl_phase s"
    "pl_answer t = pl_answer s" "started t c b"
    by (simp_all add: assms(4) started_def)
  show ?thesis
  proof (rule jobs_invI, unfold t(1-3))
    show "length (pl_jobs s @ [\<lparr>pj_call = c, pj_batch = b\<rparr>]) \<le> job_slots cfg" using assms(3) by simp
    show "distinct (map pj_call (pl_jobs s @ [\<lparr>pj_call = c, pj_batch = b\<rparr>]))" using D(7) new(1) by simp
    show "started t (pj_call j) (pj_batch j) \<and> pl_answer s (pj_call j) = None"
      if "j \<in> set (pl_jobs s @ [\<lparr>pj_call = c, pj_batch = b\<rparr>])" for j
      using that D(1) [of j] kept new(3) t(4) by auto
    show "started t (pj_call j) (pj_batch j) \<and> pl_answer s (pj_call j) = None" if "pl_phase s k = Serving j" for k j
      using D(2) [OF that] kept by blast
    show "pj_call j' \<noteq> pj_call j" if "j \<in> set (pl_jobs s @ [\<lparr>pj_call = c, pj_batch = b\<rparr>])"
      "pl_phase s k = Serving j'" for j k j'
      using that D(3) new(2) by auto
    show "\<exists>b. started t c' b" if "pl_answer s c' = Some r" for c' r using D(5) [OF that] kept by blast
  qed (use D(4) in blast)
qed

lemma jobs_inv_take:
  assumes "jobs_inv cfg s" "pl_phase s k = Ready" "pl_jobs s = job # jobs"
    and "t = s\<lparr>pl_jobs := jobs, pl_phase := (pl_phase s)(k := Serving job)\<rparr>"
  shows "jobs_inv cfg t"
proof -
  note D = jobs_invD [OF assms(1), unfolded assms(3)]
  have ph: "pl_phase t i = Serving j \<longleftrightarrow> i = k \<and> j = job \<or> i \<noteq> k \<and> pl_phase s i = Serving j" for i j
    by (auto simp: assms(4))
  have st: "started t = started s" by (simp add: assms(4) fun_eq_iff)
  have t: "pl_jobs t = jobs" "pl_answer t = pl_answer s" by (simp_all add: assms(4))
  show ?thesis
  proof (rule jobs_invI, unfold t st ph)
    show "length jobs \<le> job_slots cfg" "distinct (map pj_call jobs)" using D(6,7) by simp_all
    show "started s (pj_call j) (pj_batch j) \<and> pl_answer s (pj_call j) = None" if "j \<in> set jobs" for j
      using D(1) [of j] that by simp
    show "started s (pj_call j) (pj_batch j) \<and> pl_answer s (pj_call j) = None"
      if "i = k \<and> j = job \<or> i \<noteq> k \<and> pl_phase s i = Serving j" for i j
      using D(1) [of job] D(2) [of i j] that by auto
    show "pj_call j' \<noteq> pj_call j" if "j \<in> set jobs" "i = k \<and> j' = job \<or> i \<noteq> k \<and> pl_phase s i = Serving j'" for j i j'
      using D(3) [of j i j'] D(7) that by auto
    show "i' = i" if "i = k \<and> j = job \<or> i \<noteq> k \<and> pl_phase s i = Serving j"
      "i' = k \<and> j' = job \<or> i' \<noteq> k \<and> pl_phase s i' = Serving j'" "pj_call j' = pj_call j" for i j i' j'
      using that D(4) [of i j i' j'] D(3) [of job i j] D(3) [of job i' j'] by auto
  qed (use D(5) in blast)
qed

lemma jobs_inv_finish:
  assumes "jobs_inv cfg s" "pl_phase s k = Serving job"
    and "t = s\<lparr>pl_phase := (pl_phase s)(k := Ready), pl_worker := w,
               pl_answer := (pl_answer s)(pj_call job := Some err)\<rparr>"
  shows "jobs_inv cfg t"
proof -
  note D = jobs_invD [OF assms(1)]
  have ph: "pl_phase t i = Serving j \<longleftrightarrow> i \<noteq> k \<and> pl_phase s i = Serving j" for i j
    by (auto simp: assms(3))
  have st: "started t = started s" by (simp add: assms(3) fun_eq_iff)
  have t: "pl_jobs t = pl_jobs s" by (simp add: assms(3))
  have an: "pl_answer t c = (if c = pj_call job then Some err else pl_answer s c)" for c by (simp add: assms(3))
  show ?thesis
  proof (rule jobs_invI, unfold t st ph)
    show "started s (pj_call j) (pj_batch j) \<and> pl_answer t (pj_call j) = None" if "j \<in> set (pl_jobs s)" for j
      using D(1) [OF that] D(3) [OF that assms(2)] by (auto simp: an)
    show "started s (pj_call j) (pj_batch j) \<and> pl_answer t (pj_call j) = None"
      if "i \<noteq> k \<and> pl_phase s i = Serving j" for i j
      using D(2) [of i j] D(4) [of i j k job] assms(2) that by (auto simp: an)
    show "\<exists>b. started s c b" if "pl_answer t c = Some r" for c r
      using that D(5) [of c r] D(2) [OF assms(2)] by (auto simp: an split: if_splits)
  qed (use D(3,4,6,7) in blast)+
qed

lemma jobs_inv_exit:
  assumes "jobs_inv cfg s" "t = s\<lparr>pl_phase := (pl_phase s)(k := Exited), pl_worker := w\<rparr>"
  shows "jobs_inv cfg t"
proof -
  note D = jobs_invD [OF assms(1)]
  have ph: "pl_phase t i = Serving j \<longleftrightarrow> i \<noteq> k \<and> pl_phase s i = Serving j" for i j
    by (auto simp: assms(2))
  have t: "started t = started s" "pl_jobs t = pl_jobs s" "pl_answer t = pl_answer s"
    by (simp_all add: assms(2) fun_eq_iff)
  show ?thesis
    by (rule jobs_invI, unfold t ph) (use D in blast)+
qed

lemma jobs_inv_step:
  assumes "pool_apply ff e cfg l s = Some t" "jobs_inv cfg s"
  shows "jobs_inv cfg t"
proof (cases l)
  case (LCall c b)
  then have c: "pl_call s c = NotCalled" "t = s\<lparr>pl_call := (pl_call s)(c := Submitting b)\<rparr>"
    using assms(1) by (simp_all split: if_splits)
  show ?thesis
    by (rule jobs_inv_calls [OF assms(2)], use c in simp_all) (rule started_call, use c in \<open>auto simp: started_def\<close>)
next
  case (LSubmit c br)
  then have sub: "submit_select cfg c br s = Some t" using assms(1) by simp
  from submit_cases [OF sub] obtain b where b: "pl_call s c = Submitting b"
    "(\<exists>err. t = s\<lparr>pl_call := (pl_call s)(c := Answered b (Some err))\<rparr>) \<or>
     length (pl_jobs s) < job_slots cfg \<and>
     t = s\<lparr>pl_call := (pl_call s)(c := Waiting b), pl_jobs := pl_jobs s @ [\<lparr>pj_call = c, pj_batch = b\<rparr>]\<rparr>" .
  from b(2) show ?thesis
  proof
    assume "\<exists>err. t = s\<lparr>pl_call := (pl_call s)(c := Answered b (Some err))\<rparr>"
    then obtain err where t: "t = s\<lparr>pl_call := (pl_call s)(c := Answered b (Some err))\<rparr>" ..
    show ?thesis
      by (rule jobs_inv_calls [OF assms(2)], use t in simp_all) (rule started_call, use b(1) in \<open>auto simp: started_def\<close>)
  qed (use jobs_inv_submit [OF assms(2) b(1)] in blast)
next
  case (LAnswer c br)
  then have ans: "answer_select c br s = Some t" using assms(1) by simp
  from answer_cases [OF ans] obtain b where b: "pl_call s c = Waiting b"
    "(\<exists>err. t = s\<lparr>pl_call := (pl_call s)(c := Answered b (Some err))\<rparr>) \<or>
     (\<exists>err. pl_answer s c = Some err \<and>
        t = s\<lparr>pl_call := (pl_call s)(c := Answered b err), pl_answer := (pl_answer s)(c := None)\<rparr>)" .
  then obtain r where t: "pl_call t = (pl_call s)(c := Answered b r)" by fastforce
  show ?thesis
  proof (rule jobs_inv_calls [OF assms(2)])
    show "started t c' b'" if "started s c' b'" for c' b'
      using started_call [OF t _ that] b(1) by blast
  qed (use b(2) in \<open>auto split: if_splits\<close>)
next
  case (LWorker k br)
  then have "worker_select e k br s = Some t" using assms(1) by simp
  then show ?thesis
    by (cases rule: worker_cases) (simp_all add: jobs_inv_exit [OF assms(2) refl] jobs_inv_take [OF assms(2) _ _ refl])
next
  case (LFinish k)
  then have "worker_finish ff e cfg k s = Some t" using assms(1) by simp
  then show ?thesis
    by (cases rule: finish_cases) (simp add: jobs_inv_finish [OF assms(2) _ refl])
next
  case LCloseAll
  then show ?thesis using assms by (auto simp: pool_Close_def jobs_inv_def)
qed

subsection \<open>What an answer says\<close>

lemma confirmed_in_grows: "confirmed_in ff e b l \<Longrightarrow> confirmed_in ff e b (l' @ l)"
  unfolding confirmed_in_def by (metis append.assoc)

lemma confirmed_mono:
  assumes "confirmed ff e s b" "\<And>k. \<exists>l. pb_log (pl_worker t k) = l @ pb_log (pl_worker s k)"
  shows "confirmed ff e t b"
proof -
  obtain k where "confirmed_in ff e b (pb_log (pl_worker s k))" using assms(1) unfolding confirmed_def ..
  then have "confirmed_in ff e b (l @ pb_log (pl_worker s k))" for l by (rule confirmed_in_grows)
  then show ?thesis unfolding confirmed_def using assms(2) [of k] by metis
qed

lemma answers_invD:
  assumes "answers_inv ff e s"
  shows "worker_inv (pl_worker s k)"
    "pl_answer s c = Some None \<Longrightarrow> started s c b \<Longrightarrow> confirmed ff e s b"
    "pl_call s c = Answered b None \<Longrightarrow> confirmed ff e s b"
  using assms unfolding answers_inv_def by (blast, blast, blast)

lemma answers_invI:
  assumes "\<And>k. worker_inv (pl_worker s k)"
    and "\<And>c b. pl_answer s c = Some None \<Longrightarrow> started s c b \<Longrightarrow> confirmed ff e s b"
    and "\<And>c b. pl_call s c = Answered b None \<Longrightarrow> confirmed ff e s b"
  shows "answers_inv ff e s"
  unfolding answers_inv_def using assms by fast

text \<open>A step that changes no worker and adds no answer.\<close>

lemma answers_inv_calls:
  assumes "answers_inv ff e s" "pl_worker t = pl_worker s"
    and "\<And>c b. pl_answer t c = Some None \<Longrightarrow> started t c b \<Longrightarrow> pl_answer s c = Some None \<and> started s c b"
    and "\<And>c b. pl_call t c = Answered b None \<Longrightarrow>
      pl_call s c = Answered b None \<or> pl_answer s c = Some None \<and> started s c b"
  shows "answers_inv ff e t"
proof -
  have "confirmed ff e t = confirmed ff e s" by (simp add: confirmed_def assms(2) fun_eq_iff)
  then show ?thesis
    using answers_invD [OF assms(1)] assms(2-) by (intro answers_invI) (simp, metis, metis)
qed

lemma closePublisherSession_grows:
  "\<exists>l. pb_log (closePublisherSession e w) = l @ pb_log w"
  "worker_inv w \<Longrightarrow> worker_inv (closePublisherSession e w)"
  by (auto simp: closePublisherSession_def worker_inv_def)

lemma answers_inv_exit:
  assumes "answers_inv ff e s"
    and "t = s\<lparr>pl_phase := ph, pl_worker := (pl_worker s)(k := closePublisherSession e (pl_worker s k))\<rparr>"
  shows "answers_inv ff e t"
proof -
  have up: "confirmed ff e s b \<Longrightarrow> confirmed ff e t b" for b
    by (erule confirmed_mono) (simp add: assms(2) closePublisherSession_grows(1))
  show ?thesis
    using answers_invD [OF assms(1)] up
    by (intro answers_invI) (simp_all add: assms(2) closePublisherSession_grows(2))
qed

lemma answers_inv_finish:
  assumes "answers_inv ff e s" "jobs_inv cfg s" "1 \<le> pc_MaxAttempts cfg" "pl_phase s k = Serving job"
    and "publishWithRetry ff e cfg (pj_batch job) (pl_worker s k) = (err, session)"
    and t: "t = s\<lparr>pl_phase := (pl_phase s)(k := Ready), pl_worker := (pl_worker s)(k := session),
               pl_answer := (pl_answer s)(pj_call job := Some err)\<rparr>"
  shows "answers_inv ff e t"
proof -
  note A = answers_invD [OF assms(1)] and spec = publishWithRetry_spec [OF assms(5) A(1) assms(3)]
  have up: "confirmed ff e s b \<Longrightarrow> confirmed ff e t b" for b
    by (erule confirmed_mono) (use spec in \<open>auto simp: t\<close>)
  have mine: "confirmed ff e t (pj_batch job)" if "err = None"
  proof -
    have "confirmed_in ff e (pj_batch job) (pb_log session)"
      using spec that unfolding confirmed_in_def acked_def by (metis append_Nil)
    then show ?thesis unfolding confirmed_def by (intro exI [of _ k]) (simp add: t)
  qed
  have job: "started s (pj_call job) (pj_batch job)" using jobs_invD(2) [OF assms(2,4)] by blast
  show ?thesis
  proof (rule answers_invI)
    show "worker_inv (pl_worker t k')" for k' using A(1) spec by (simp add: t)
    show "confirmed ff e t b" if "pl_answer t c = Some None" "started t c b" for c b
      using that mine up A(2) started_unique [OF job] by (auto simp: t split: if_splits)
    show "confirmed ff e t b" if "pl_call t c = Answered b None" for c b
      using that up A(3) by (simp add: t)
  qed
qed

lemma answers_inv_step:
  assumes "pool_apply ff e cfg l s = Some t" "jobs_inv cfg s" "1 \<le> pc_MaxAttempts cfg" "answers_inv ff e s"
  shows "answers_inv ff e t"
proof (cases l)
  case (LCall c b)
  then have "pl_call s c = NotCalled" "t = s\<lparr>pl_call := (pl_call s)(c := Submitting b)\<rparr>"
    using assms(1) by (simp_all split: if_splits)
  then show ?thesis
    by (intro answers_inv_calls [OF assms(4)]) (auto simp: started_def split: if_splits)
next
  case (LSubmit c br)
  then have "submit_select cfg c br s = Some t" using assms(1) by simp
  then show ?thesis
  proof (cases rule: submit_cases)
    case (1 b)
    have none: "pl_answer s c = None"
      using jobs_invD(5) [OF assms(2), of c] 1(1) by (cases "pl_answer s c") (auto simp: started_def)
    show ?thesis
      by (rule answers_inv_calls [OF assms(4)]) (use 1 none in \<open>auto simp: started_def split: if_splits\<close>)
  qed
next
  case (LAnswer c br)
  then have "answer_select c br s = Some t" using assms(1) by simp
  then show ?thesis
  proof (cases rule: answer_cases)
    case (1 b)
    show ?thesis
      by (rule answers_inv_calls [OF assms(4)]) (use 1 in \<open>auto simp: started_def split: if_splits\<close>)
  qed
next
  case (LWorker k br)
  then have "worker_select e k br s = Some t" using assms(1) by simp
  then show ?thesis
  proof (cases rule: worker_cases)
    case 1
    then show ?thesis using answers_inv_exit [OF assms(4)] by blast
  next
    case 2
    show ?thesis by (rule answers_inv_calls [OF assms(4)]) (simp_all add: 2)
  qed
next
  case (LFinish k)
  then have "worker_finish ff e cfg k s = Some t" using assms(1) by simp
  then show ?thesis
    by (cases rule: finish_cases) (simp add: answers_inv_finish [OF assms(4,2,3) _ _ refl])
next
  case LCloseAll
  then show ?thesis
    using assms(1) by (intro answers_inv_calls [OF assms(4)]) (auto simp: pool_Close_def)
qed

end
