(* ===== verification/PublisherPoolProps.thy ===== *)
theory PublisherPoolProps
  imports PublisherPool
begin

section \<open>Properties of the pool of publisher workers\<close>

text \<open>
  What \<open>PublishMetricBatch\<close> and \<open>Close\<close> promise, over every interleaving of calls, workers and
  contexts: an answer of nil means confirmed, and no call and no \<open>Close\<close> waits for ever.
\<close>

subsection \<open>Nobody is forgotten\<close>

definition pending_served :: "'w pool \<Rightarrow> nat \<Rightarrow> bool" where
  "pending_served s c \<longleftrightarrow> pl_answer s c \<noteq> None \<or> c \<in> pj_call ` set (pl_jobs s) \<or>
     (\<exists>k j. pl_phase s k = Serving j \<and> pj_call j = c)"

definition waiting_inv :: "'w pool \<Rightarrow> bool" where
  "waiting_inv s \<longleftrightarrow> (\<forall>c b. pl_call s c = Waiting b \<longrightarrow> pending_served s c)"

lemma pending_served_call [simp]: "pending_served (s\<lparr>pl_call := f\<rparr>) c = pending_served s c"
  by (simp add: pending_served_def)

lemma pending_served_done [simp]: "pending_served (s\<lparr>pl_done := d\<rparr>) c = pending_served s c"
  by (simp add: pending_served_def)

lemma waiting_invI:
  assumes "waiting_inv s" "\<And>c b. pl_call t c = Waiting b \<Longrightarrow> pl_call s c = Waiting b \<Longrightarrow> pending_served s c \<Longrightarrow> pending_served t c"
    and "\<And>c b. pl_call t c = Waiting b \<Longrightarrow> pl_call s c \<noteq> Waiting b \<Longrightarrow> pending_served t c"
  shows "waiting_inv t"
  using assms unfolding waiting_inv_def by blast

lemma waiting_inv_step:
  assumes "pool_apply ff e cfg l s = Some t" "waiting_inv s"
  shows "waiting_inv t"
proof (cases l)
  case (LCall c b)
  then have "t = s\<lparr>pl_call := (pl_call s)(c := Submitting b)\<rparr>"
    using assms(1) by (simp split: if_splits)
  then show ?thesis
    by (intro waiting_invI [OF assms(2)]) (auto simp: pending_served_def split: if_splits)
next
  case (LSubmit c br)
  then have "submit_select cfg c br s = Some t" using assms(1) by simp
  then show ?thesis
  proof (cases rule: submit_cases)
    case (1 b)
    from 1(2) show ?thesis
    proof
      assume "\<exists>err. t = s\<lparr>pl_call := (pl_call s)(c := Answered b (Some err))\<rparr>"
      then obtain err where t: "t = s\<lparr>pl_call := (pl_call s)(c := Answered b (Some err))\<rparr>" ..
      show ?thesis by (rule waiting_invI [OF assms(2)]) (simp_all add: t split: if_splits)
    next
      assume "length (pl_jobs s) < job_slots cfg \<and>
        t = s\<lparr>pl_call := (pl_call s)(c := Waiting b), pl_jobs := pl_jobs s @ [\<lparr>pj_call = c, pj_batch = b\<rparr>]\<rparr>"
      then have t: "t = s\<lparr>pl_call := (pl_call s)(c := Waiting b), pl_jobs := pl_jobs s @ [\<lparr>pj_call = c, pj_batch = b\<rparr>]\<rparr>" ..
      show ?thesis
        by (rule waiting_invI [OF assms(2)]) (auto simp: t pending_served_def split: if_splits)
    qed
  qed
next
  case (LAnswer c br)
  then have "answer_select c br s = Some t" using assms(1) by simp
  then show ?thesis
  proof (cases rule: answer_cases)
    case (1 b)
    have same: "pl_jobs t = pl_jobs s" "pl_phase t = pl_phase s" "\<And>i. i \<noteq> c \<Longrightarrow> pl_answer t i = pl_answer s i"
      using 1(2) by auto
    have "pending_served s i \<Longrightarrow> i \<noteq> c \<Longrightarrow> pending_served t i" for i
      unfolding pending_served_def same(1,2) by (simp add: same(3))
    moreover obtain r where "pl_call t = (pl_call s)(c := Answered b r)" using 1(2) by auto
    ultimately show ?thesis
      by (intro waiting_invI [OF assms(2)]) (simp_all split: if_splits)
  qed
next
  case (LWorker k br)
  then have "worker_select e k br s = Some t" using assms(1) by simp
  then show ?thesis
  proof (cases rule: worker_cases)
    case 1
    have "pending_served s c \<Longrightarrow> pending_served t c" for c
      using 1 unfolding pending_served_def by (auto; metis worker_phase.distinct(1))
    then show ?thesis by (intro waiting_invI [OF assms(2)]) (simp_all add: 1)
  next
    case (2 job jobs)
    have "pending_served s c \<Longrightarrow> pending_served t c" for c
      using 2 unfolding pending_served_def by (auto; metis worker_phase.distinct(1))
    then show ?thesis by (intro waiting_invI [OF assms(2)]) (simp_all add: 2)
  qed
next
  case (LFinish k)
  then have "worker_finish ff e cfg k s = Some t" using assms(1) by simp
  then show ?thesis
  proof (cases rule: finish_cases)
    case (1 job err session)
    have "pending_served s c \<Longrightarrow> pending_served t c" for c
      using 1 unfolding pending_served_def by (auto; metis worker_phase.inject)
    then show ?thesis by (intro waiting_invI [OF assms(2)]) (simp_all add: 1)
  qed
next
  case LCloseAll
  then show ?thesis
    using assms by (auto simp: pool_Close_def waiting_inv_def)
qed

text \<open>The workers are the first \<open>Publishers\<close>; they exit only when \<open>done\<close> is closed.\<close>

definition crew_inv :: "publisher_config \<Rightarrow> 'w pool \<Rightarrow> bool" where
  "crew_inv cfg s \<longleftrightarrow>
     (\<forall>k. nat (pc_Publishers cfg) \<le> k \<longrightarrow> pl_phase s k = Exited) \<and>
     (\<forall>k < nat (pc_Publishers cfg). pl_phase s k = Exited \<longrightarrow> pl_done s) \<and>
     finite {c. pl_call s c \<noteq> NotCalled}"

lemma crew_inv_step:
  assumes "pool_apply ff e cfg l s = Some t" "crew_inv cfg s"
  shows "crew_inv cfg t"
proof -
  have calls: "finite {i. ((pl_call s)(c' := v)) i \<noteq> NotCalled}" for c' v
    by (rule finite_subset [of _ "insert c' {c. pl_call s c \<noteq> NotCalled}"])
      (use assms(2) in \<open>auto simp: crew_inv_def\<close>)
  have ready: "pl_phase s k \<noteq> Exited \<Longrightarrow> k < nat (pc_Publishers cfg)" for k
    using assms(2) by (auto simp: crew_inv_def not_less [symmetric])
  show ?thesis
  proof (cases l)
    case (LCall c b)
    then show ?thesis using assms calls [of c] by (auto simp: crew_inv_def split: if_splits)
  next
    case (LSubmit c br)
    then have "submit_select cfg c br s = Some t" using assms(1) by simp
    then show ?thesis
      by (cases rule: submit_cases) (use assms(2) calls [of c] in \<open>auto simp: crew_inv_def\<close>)
  next
    case (LAnswer c br)
    then have "answer_select c br s = Some t" using assms(1) by simp
    then show ?thesis
      by (cases rule: answer_cases) (use assms(2) calls [of c] in \<open>auto simp: crew_inv_def\<close>)
  next
    case (LWorker k br)
    then have "worker_select e k br s = Some t" using assms(1) by simp
    then show ?thesis
      by (cases rule: worker_cases) (use assms(2) ready [of k] in \<open>auto simp: crew_inv_def\<close>)
  next
    case (LFinish k)
    then have "worker_finish ff e cfg k s = Some t" using assms(1) by simp
    then show ?thesis
      by (cases rule: finish_cases) (use assms(2) ready [of k] in \<open>auto simp: crew_inv_def\<close>)
  next
    case LCloseAll
    then show ?thesis using assms by (auto simp: pool_Close_def crew_inv_def)
  qed
qed

subsection \<open>Reachable states\<close>

definition pool_inv :: "(float64 \<Rightarrow> string) \<Rightarrow> 'w publisher_env \<Rightarrow> publisher_config \<Rightarrow> 'w pool \<Rightarrow> bool" where
  "pool_inv ff e cfg s \<longleftrightarrow> jobs_inv cfg s \<and> answers_inv ff e s \<and> waiting_inv s \<and> crew_inv cfg s"

lemma open_sessions_inv:
  assumes "open_sessions e cfg ws i n workers = Inr workers'" "\<And>k. worker_inv (workers k)"
  shows "worker_inv (workers' k)"
  using assms
  by (induction e cfg ws i n workers rule: open_sessions.induct)
    (auto split: prod.splits option.splits simp: worker_inv_new)

lemma new_pool_inv:
  assumes "new_pool e config ws = Inr s" "NewRabbitMQMetricBatchPublisher config = Inr cfg"
  shows "pool_inv ff e cfg s"
proof -
  have empty: "worker_inv (no_worker w)" for w by (simp add: no_worker_def worker_inv_def)
  obtain workers where w: "open_sessions e cfg ws 0 (nat (pc_Publishers cfg)) (\<lambda>k. no_worker (ws k)) = Inr workers"
    and s: "s = \<lparr>pl_jobs = [], pl_done = False, pl_call = (\<lambda>_. NotCalled), pl_answer = (\<lambda>_. None),
                 pl_phase = (\<lambda>k. if k < nat (pc_Publishers cfg) then Ready else Exited), pl_worker = workers\<rparr>"
    using assms by (auto simp: new_pool_def split: sum.splits)
  show ?thesis
    using open_sessions_inv [OF w empty]
    by (auto simp: s pool_inv_def jobs_inv_def answers_inv_def waiting_inv_def crew_inv_def)
qed

lemma pool_inv_run:
  assumes "pool_run ff e cfg s ls t" "pool_inv ff e cfg s" "1 \<le> pc_MaxAttempts cfg"
  shows "pool_inv ff e cfg t"
  using assms
proof (induction rule: pool_run.induct)
  case (more s ls t l u)
  then show ?case
    using jobs_inv_step [OF more.hyps(2)] answers_inv_step [OF more.hyps(2)]
      waiting_inv_step [OF more.hyps(2)] crew_inv_step [OF more.hyps(2)]
    by (simp add: pool_inv_def)
qed

subsection \<open>The work left\<close>

text \<open>What bounds the internal steps: each takes at least one unit of the work.\<close>

fun phase_work :: "worker_phase \<Rightarrow> nat" where
  "phase_work Ready = 1"
| "phase_work (Serving j) = 3"
| "phase_work Exited = 0"

definition pool_work :: "publisher_config \<Rightarrow> 'w pool \<Rightarrow> nat" where
  "pool_work cfg s =
     5 * card {c. \<exists>b. pl_call s c = Submitting b} + card {c. \<exists>b. pl_call s c = Waiting b} +
     3 * length (pl_jobs s) +
     (\<Sum>k < nat (pc_Publishers cfg). phase_work (pl_phase s k))"

definition internal :: "pool_label \<Rightarrow> bool" where
  "internal l \<longleftrightarrow> (case l of LCall c b \<Rightarrow> False | LCloseAll \<Rightarrow> False | _ \<Rightarrow> True)"

text \<open>A step that needs no context to end.\<close>

definition unaided :: "pool_label \<Rightarrow> bool" where
  "unaided l \<longleftrightarrow> (case l of LSubmit c (CtxDone err) \<Rightarrow> False | LAnswer c (CtxDone err) \<Rightarrow> False
                   | LCall c b \<Rightarrow> False | LCloseAll \<Rightarrow> False | _ \<Rightarrow> True)"

definition settled :: "publisher_config \<Rightarrow> 'w pool \<Rightarrow> bool" where
  "settled cfg s \<longleftrightarrow> (\<forall>c. case pl_call s c of NotCalled \<Rightarrow> True | Answered b r \<Rightarrow> True | _ \<Rightarrow> False) \<and>
     (pl_done s \<longrightarrow> pool_closed cfg s)"

lemma phase_sum:
  assumes "k < (n :: nat)"
  shows "(\<Sum>i<n. f ((p(k := v)) i)) + f (p k) = (\<Sum>i<n. f (p i)) + (f v :: nat)"
proof -
  have "(\<Sum>i \<in> {..<n} - {k}. f ((p(k := v)) i)) = (\<Sum>i \<in> {..<n} - {k}. f (p i))"
    by (rule sum.cong) auto
  moreover have "(\<Sum>i<n. g i) = g k + (\<Sum>i \<in> {..<n} - {k}. g i)" for g :: "nat \<Rightarrow> nat"
    using assms by (intro sum.remove) auto
  from this [of "\<lambda>i. f ((p(k := v)) i)"] this [of "\<lambda>i. f (p i)"]
  have "(\<Sum>i<n. f ((p(k := v)) i)) = f v + (\<Sum>i \<in> {..<n} - {k}. f ((p(k := v)) i))"
    "(\<Sum>i<n. f (p i)) = f (p k) + (\<Sum>i \<in> {..<n} - {k}. f (p i))" by simp_all
  ultimately show ?thesis by linarith
qed

lemma call_cards:
  assumes "finite {c. pl_call s c \<noteq> NotCalled}"
  shows "finite {c. \<exists>b. pl_call s c = Submitting b}" "finite {c. \<exists>b. pl_call s c = Waiting b}"
  by (rule finite_subset [OF _ assms]; auto)+

lemma call_moved:
  assumes "pl_call t = (pl_call s)(c := v)"
  shows "{i. \<exists>b. pl_call t i = Submitting b} = (if \<exists>b. v = Submitting b then insert c else (\<lambda>A. A - {c})) {i. \<exists>b. pl_call s i = Submitting b}"
    "{i. \<exists>b. pl_call t i = Waiting b} = (if \<exists>b. v = Waiting b then insert c else (\<lambda>A. A - {c})) {i. \<exists>b. pl_call s i = Waiting b}"
  using assms by (auto split: if_splits)

lemma work_decreases:
  assumes "pool_apply ff e cfg l s = Some t" "internal l" "crew_inv cfg s"
  shows "pool_work cfg t < pool_work cfg s"
proof -
  have fin: "finite {c. \<exists>b. pl_call s c = Submitting b}" "finite {c. \<exists>b. pl_call s c = Waiting b}"
    using call_cards assms(3) unfolding crew_inv_def by blast+
  have alive: "pl_phase s k \<noteq> Exited \<Longrightarrow> k < nat (pc_Publishers cfg)" for k
    using assms(3) by (auto simp: crew_inv_def not_less [symmetric])
  show ?thesis
  proof (cases l)
    case (LSubmit c br)
    then have "submit_select cfg c br s = Some t" using assms(1) by simp
    then show ?thesis
    proof (cases rule: submit_cases)
      case (1 b)
      then have c: "c \<in> {c. \<exists>b. pl_call s c = Submitting b}" "c \<notin> {c. \<exists>b. pl_call s c = Waiting b}" by auto
      obtain v where v: "pl_call t = (pl_call s)(c := v)" "pl_phase t = pl_phase s"
        "v = Waiting b \<and> length (pl_jobs t) = Suc (length (pl_jobs s)) \<or>
         (\<exists>r. v = Answered b r) \<and> pl_jobs t = pl_jobs s"
        using 1(2) by auto
      show ?thesis
        using v(3) card_Suc_Diff1 [OF fin(1) c(1)] card_insert_disjoint [OF fin(2) c(2)] c(2)
        unfolding pool_work_def call_moved [OF v(1)] v(2) by auto
    qed
  next
    case (LAnswer c br)
    then have "answer_select c br s = Some t" using assms(1) by simp
    then show ?thesis
    proof (cases rule: answer_cases)
      case (1 b)
      then have c: "c \<in> {c. \<exists>b. pl_call s c = Waiting b}" "c \<notin> {c. \<exists>b. pl_call s c = Submitting b}" by auto
      obtain r where v: "pl_call t = (pl_call s)(c := Answered b r)" "pl_phase t = pl_phase s" "pl_jobs t = pl_jobs s"
        using 1(2) by auto
      show ?thesis
        using card_Suc_Diff1 [OF fin(2) c(1)] c(2)
        unfolding pool_work_def call_moved [OF v(1)] v(2,3) by auto
    qed
  next
    case (LWorker k br)
    then have "worker_select e k br s = Some t" using assms(1) by simp
    then show ?thesis
    proof (cases rule: worker_cases)
      case 1
      then show ?thesis using phase_sum [OF alive, of k, where p = "pl_phase s" and f = phase_work and v = Exited] by (simp add: pool_work_def)
    next
      case (2 job jobs)
      then show ?thesis using phase_sum [OF alive, of k, where p = "pl_phase s" and f = phase_work and v = "Serving job"] by (simp add: pool_work_def)
    qed
  next
    case (LFinish k)
    then have "worker_finish ff e cfg k s = Some t" using assms(1) by simp
    then show ?thesis
    proof (cases rule: finish_cases)
      case (1 job err session)
      then show ?thesis using phase_sum [OF alive, of k, where p = "pl_phase s" and f = phase_work and v = Ready] by (simp add: pool_work_def)
    qed
  qed (use assms(2) in \<open>simp_all add: internal_def\<close>)
qed

lemma work_bounds_run:
  assumes "pool_run ff e cfg s ls t" "pool_inv ff e cfg s" "1 \<le> pc_MaxAttempts cfg" "list_all internal ls"
  shows "length ls + pool_work cfg t \<le> pool_work cfg s"
  using assms
proof (induction rule: pool_run.induct)
  case (more s ls t l u)
  have "crew_inv cfg t" using pool_inv_run [OF more.hyps(1) more.prems(1,2)] by (simp add: pool_inv_def)
  then show ?case using more work_decreases [OF more.hyps(2)] by fastforce
qed simp

subsection \<open>Never stuck\<close>

lemma worker_moves:
  assumes "jobs_inv cfg s" "pl_phase s k \<noteq> Exited" "pl_jobs s \<noteq> [] \<or> pl_done s \<or> (\<exists>j. pl_phase s k = Serving j)"
  shows "\<exists>l t. unaided l \<and> pool_apply ff e cfg l s = Some t"
proof (cases "pl_phase s k")
  case (Serving j)
  then have "pl_answer s (pj_call j) = None" using jobs_invD(2) [OF assms(1)] by blast
  then have "\<exists>t. pool_apply ff e cfg (LFinish k) s = Some t"
    by (simp add: worker_finish_def Serving split: prod.split)
  then show ?thesis by (intro exI [of _ "LFinish k"]) (simp add: unaided_def)
next
  case Ready
  show ?thesis
  proof (cases "pl_done s")
    case True
    then show ?thesis using Ready
      by (intro exI [of _ "LWorker k DoneClosed"]) (simp add: unaided_def worker_select_def)
  next
    case False
    then have "pl_jobs s \<noteq> []" using assms(3) Ready by simp
    then show ?thesis using Ready
      by (intro exI [of _ "LWorker k Proceed"]) (auto simp: unaided_def worker_select_def neq_Nil_conv)
  qed
qed (use assms(2) in simp)

lemma not_settled_call:
  assumes "\<not> settled cfg s" "\<not> pl_done s \<or> pool_closed cfg s"
  obtains c b where "pl_call s c = Submitting b" | c b where "pl_call s c = Waiting b"
proof -
  obtain c where "\<not> (case pl_call s c of NotCalled \<Rightarrow> True | Answered b r \<Rightarrow> True | _ \<Rightarrow> False)"
    using assms by (auto simp: settled_def)
  then show ?thesis using that by (cases "pl_call s c") auto
qed

lemma not_settled_moves:
  assumes "jobs_inv cfg s" "waiting_inv s" "crew_inv cfg s" "1 \<le> pc_Publishers cfg" "\<not> settled cfg s"
  shows "\<exists>l t. unaided l \<and> pool_apply ff e cfg l s = Some t"
proof (cases "pl_done s")
  case True
  show ?thesis
  proof (cases "pool_closed cfg s")
    case False
    then obtain k where "pl_phase s k \<noteq> Exited" using True by (auto simp: pool_closed_def list_all_iff)
    then show ?thesis using worker_moves [OF assms(1)] True by blast
  next
    case closed: True
    show ?thesis
    proof (rule not_settled_call [OF assms(5)])
      show "\<not> pl_done s \<or> pool_closed cfg s" using closed ..
    next
      fix c b
      assume "pl_call s c = Submitting b"
      then show ?thesis using True
        by (intro exI [of _ "LSubmit c DoneClosed"]) (simp add: unaided_def submit_select_def)
    next
      fix c b
      assume "pl_call s c = Waiting b"
      then show ?thesis using True
        by (intro exI [of _ "LAnswer c DoneClosed"]) (simp add: unaided_def answer_select_def)
    qed
  qed
next
  case False
  then have alive: "pl_phase s 0 \<noteq> Exited" using assms(3,4) by (auto simp: crew_inv_def)
  show ?thesis
  proof (rule not_settled_call [OF assms(5)])
    show "\<not> pl_done s \<or> pool_closed cfg s" using False ..
  next
    fix c b
    assume sub: "pl_call s c = Submitting b"
    show ?thesis
    proof (cases "length (pl_jobs s) < job_slots cfg")
      case True
      then show ?thesis using sub
        by (intro exI [of _ "LSubmit c Proceed"]) (simp add: unaided_def submit_select_def)
    next
      case full: False
      have "0 < job_slots cfg" using assms(4) by (simp add: job_slots_def)
      then have "pl_jobs s \<noteq> []" using full by auto
      then show ?thesis using worker_moves [OF assms(1) alive] by blast
    qed
  next
    fix c b
    assume wait: "pl_call s c = Waiting b"
    then consider r where "pl_answer s c = Some r" | "pl_jobs s \<noteq> []" | k j where "pl_phase s k = Serving j"
      using assms(2) unfolding waiting_inv_def pending_served_def by fastforce
    then show ?thesis
    proof cases
      case 1
      then show ?thesis using wait
        by (intro exI [of _ "LAnswer c Proceed"]) (simp add: unaided_def answer_select_def)
    next
      case 2
      then show ?thesis using worker_moves [OF assms(1) alive] by blast
    next
      case 3
      then show ?thesis using worker_moves [OF assms(1), of k] by auto
    qed
  qed
qed

subsection \<open>The properties\<close>

text \<open>One worker, one call: submitted, taken, served over a nack and an ack, answered.\<close>

definition example_pool :: "nat pool" where
  "example_pool =
     \<lparr>pl_jobs = [], pl_done = False, pl_call = (\<lambda>_. NotCalled), pl_answer = (\<lambda>_. None),
      pl_phase = (\<lambda>k. if k < 1 then Ready else Exited), pl_worker = (\<lambda>_. no_worker 0)(0 := new_worker 0)\<rparr>"

lemma example_pool_new: "new_pool nack_then_ack_env example_publisher_config (\<lambda>_. 0) = Inr example_pool"
proof -
  have opens: "pub_openSession nack_then_ack_env example_publisher_config 0 = (None, 0)"
    by (simp add: pub_openSession_def nack_then_ack_env_def declareTopology_def topology_calls_def
        example_publisher_config_def Let_def)
  have "nat (pc_Publishers example_publisher_config) = Suc 0" by (simp add: example_publisher_config_def)
  then show ?thesis by (simp add: new_pool_def example_publisher_new opens example_pool_def)
qed

fun pool_exec ::
  "(float64 \<Rightarrow> string) \<Rightarrow> 'w publisher_env \<Rightarrow> publisher_config \<Rightarrow> pool_label list \<Rightarrow> 'w pool \<Rightarrow> 'w pool option" where
  "pool_exec ff e cfg [] s = Some s"
| "pool_exec ff e cfg (l # ls) s =
     (case pool_apply ff e cfg l s of None \<Rightarrow> None | Some t \<Rightarrow> pool_exec ff e cfg ls t)"

lemma pool_exec_run:
  assumes "pool_exec ff e cfg ls' t = Some u" "pool_run ff e cfg s ls t"
  shows "pool_run ff e cfg s (ls @ ls') u"
  using assms
proof (induction ls' arbitrary: ls t)
  case (Cons l ls')
  then obtain v where v: "pool_apply ff e cfg l t = Some v" "pool_exec ff e cfg ls' v = Some u"
    by (auto split: option.splits)
  show ?case using Cons.IH [OF v(2) pool_run.more [OF Cons.prems(2) v(1)]] by simp
qed simp

lemma pool_run_trans:
  assumes "pool_run ff e cfg t ls' u" "pool_run ff e cfg s ls t"
  shows "pool_run ff e cfg s (ls @ ls') u"
  using assms
proof (induction rule: pool_run.induct)
  case (more t ls' u l v)
  then show ?case using pool_run.more [OF more.IH [OF more.prems] more.hyps(2)] by simp
qed simp

definition example_labels :: "pool_label list" where
  "example_labels = [LSubmit 0 Proceed, LWorker 0 Proceed, LFinish 0, LAnswer 0 Proceed]"

lemma example_pool_run:
  obtains s t where "pool_run bits_format nack_then_ack_env example_publisher_config example_pool [LCall 0 example_batch] s"
    "pool_run bits_format nack_then_ack_env example_publisher_config s example_labels t"
    "pl_call t 0 = Answered example_batch None" "pool_work example_publisher_config s = 6"
proof -
  obtain w where w: "publishWithRetry bits_format nack_then_ack_env example_publisher_config example_batch
      (new_worker 0) = (None, w)" using example_publish by blast
  define s where "s = example_pool\<lparr>pl_call := (pl_call example_pool)(0 := Submitting example_batch)\<rparr>"
  have slots: "0 < job_slots example_publisher_config" by (simp add: job_slots_def example_publisher_config_def)
  have first: "pool_exec bits_format nack_then_ack_env example_publisher_config [LCall 0 example_batch] example_pool = Some s"
    by (simp add: s_def example_pool_def)
  have "\<exists>t. pool_exec bits_format nack_then_ack_env example_publisher_config example_labels s = Some t \<and>
      pl_call t 0 = Answered example_batch None"
    by (simp add: s_def example_labels_def example_pool_def submit_select_def worker_select_def
        worker_finish_def answer_select_def slots w)
  then obtain t where t: "pool_exec bits_format nack_then_ack_env example_publisher_config example_labels s = Some t"
    "pl_call t 0 = Answered example_batch None" by blast
  have "{c. \<exists>b. pl_call s c = Submitting b} = {0}" "{c. \<exists>b. pl_call s c = Waiting b} = {}"
    by (auto simp: s_def example_pool_def)
  then have "pool_work example_publisher_config s = 6"
    by (simp add: pool_work_def) (simp add: s_def example_pool_def example_publisher_config_def)
  then show ?thesis
    using that pool_exec_run [OF first stop] pool_exec_run [OF t(1) stop] t(2) by simp
qed

lemma answered_confirmed:
  assumes "NewRabbitMQMetricBatchPublisher config = Inr cfg" "new_pool e config ws = Inr s0"
    and "pool_run ff e cfg s0 ls s" "pl_call s c = Answered batch None"
  shows "confirmed ff e s batch"
proof -
  have "pool_inv ff e cfg s"
    by (rule pool_inv_run [OF assms(3) new_pool_inv [OF assms(2,1)] NewPublisher_config(1) [OF assms(1)]])
  then show ?thesis using answers_invD(3) [OF _ assms(4)] unfolding pool_inv_def by blast
qed

text \<open>
  C30. Publish success means confirmed: whatever the calls, the workers, the contexts, the broker
  and \<open>Close\<close> do and in whatever order, when \<open>PublishMetricBatch\<close> has answered nil for a batch,
  one of the workers has published a message built from that batch on its session and taken the
  broker's positive confirmation right after it, with no returned message.
\<close>

theorem answered_nil_means_confirmed:
  assumes "NewRabbitMQMetricBatchPublisher config = Inr cfg" "new_pool e config ws = Inr s0"
    and "pool_run ff e cfg s0 ls s" "pl_call s c = Answered batch None"
  shows "\<exists>k messageID msg now p tag newer older.
    NewIngestMessage batch (Inr messageID) = Inr msg \<and> MarshalIngestPublishing ff msg now = Inr p \<and>
    pb_log (pl_worker s k) = newer @ PEvent (GotConfirm tag True NoReturn) # PPublish p True # older"
  using answered_confirmed [OF assms] unfolding confirmed_def confirmed_in_def by blast

lemma answered_nil_means_confirmed_witness:
  "\<exists>s ls k p tag newer older. pool_run bits_format nack_then_ack_env example_publisher_config example_pool ls s \<and>
    pl_call s 0 = Answered example_batch None \<and>
    pb_log (pl_worker s k) = newer @ PEvent (GotConfirm tag True NoReturn) # PPublish p True # older"
proof -
  obtain s t where "pool_run bits_format nack_then_ack_env example_publisher_config example_pool [LCall 0 example_batch] s"
    "pool_run bits_format nack_then_ack_env example_publisher_config s example_labels t"
    and t: "pl_call t 0 = Answered example_batch None" by (rule example_pool_run)
  then have "pool_run bits_format nack_then_ack_env example_publisher_config example_pool
      ([LCall 0 example_batch] @ example_labels) t"
    using pool_run_trans by blast
  from answered_nil_means_confirmed [OF example_publisher_new example_pool_new this t] this t show ?thesis by blast
qed

text \<open>
  C33. No call and no \<open>Close\<close> waits for ever: from any state the pool can reach, the steps of the
  calls already made and of the workers are at most the work left, in every schedule; and a schedule
  that can go no further, even if no context ever ends, has answered every call and, once \<open>Close\<close>
  has closed \<open>done\<close>, has every worker gone, so that \<open>Close\<close> returns.
\<close>

theorem pool_settles:
  assumes "NewRabbitMQMetricBatchPublisher config = Inr cfg" "new_pool e config ws = Inr s0"
    and "pool_run ff e cfg s0 ls s" "pool_run ff e cfg s ls' t" "list_all internal ls'"
  shows "length ls' \<le> pool_work cfg s \<and>
    ((\<forall>l. unaided l \<longrightarrow> pool_apply ff e cfg l t = None) \<longrightarrow> settled cfg t)"
proof -
  note attempts = NewPublisher_config(1) [OF assms(1)]
  have s: "pool_inv ff e cfg s" by (rule pool_inv_run [OF assms(3) new_pool_inv [OF assms(2,1)] attempts])
  have t: "pool_inv ff e cfg t" by (rule pool_inv_run [OF assms(4) s attempts])
  have "\<not> settled cfg t \<Longrightarrow> \<exists>l u. unaided l \<and> pool_apply ff e cfg l t = Some u"
    using not_settled_moves [OF _ _ _ NewPublisher_config(4) [OF assms(1)]] t unfolding pool_inv_def by blast
  then show ?thesis using work_bounds_run [OF assms(4) s attempts assms(5)] by force
qed

lemma pool_settles_witness:
  "\<exists>s t. pool_run bits_format nack_then_ack_env example_publisher_config example_pool [LCall 0 example_batch] s \<and>
    pool_run bits_format nack_then_ack_env example_publisher_config s example_labels t \<and>
    pl_call t 0 = Answered example_batch None \<and> length example_labels \<le> 6"
proof -
  obtain s t where s: "pool_run bits_format nack_then_ack_env example_publisher_config example_pool [LCall 0 example_batch] s"
    and t: "pool_run bits_format nack_then_ack_env example_publisher_config s example_labels t"
      "pl_call t 0 = Answered example_batch None" and w: "pool_work example_publisher_config s = 6"
    by (rule example_pool_run)
  have "list_all internal example_labels" by (simp add: example_labels_def internal_def)
  from pool_settles [OF example_publisher_new example_pool_new s t(1) this] s t w show ?thesis by auto
qed

text \<open>
  C38. The worker never blocks on the answer: while a worker serves a job, the result channel of
  that job's call is empty, so that sending the answer succeeds even when the caller has gone;
  no two workers serve the same call; and the queue never exceeds sixteen jobs per worker.
\<close>

theorem answer_never_blocks:
  assumes "NewRabbitMQMetricBatchPublisher config = Inr cfg" "new_pool e config ws = Inr s0"
    and "pool_run ff e cfg s0 ls s"
  shows "(\<forall>k job. pl_phase s k = Serving job \<longrightarrow>
      (\<exists>t. worker_finish ff e cfg k s = Some t \<and> pl_phase t k = Ready \<and> pl_answer t (pj_call job) \<noteq> None) \<and>
      (\<forall>k' job'. pl_phase s k' = Serving job' \<and> pj_call job' = pj_call job \<longrightarrow> k' = k)) \<and>
    length (pl_jobs s) \<le> nat (pc_Publishers cfg * 16)"
proof -
  have j: "jobs_inv cfg s"
    using pool_inv_run [OF assms(3) new_pool_inv [OF assms(2,1)] NewPublisher_config(1) [OF assms(1)]]
    by (simp add: pool_inv_def)
  have "\<exists>t. worker_finish ff e cfg k s = Some t \<and> pl_phase t k = Ready \<and> pl_answer t (pj_call job) \<noteq> None"
    if "pl_phase s k = Serving job" for k job
    using jobs_invD(2) [OF j that] that by (simp add: worker_finish_def split: prod.split)
  then show ?thesis
    using jobs_invD(4) [OF j] jobs_invD(6) [OF j] unfolding job_slots_def by blast
qed

lemma answer_never_blocks_witness:
  "\<exists>s job t. pool_run bits_format nack_then_ack_env example_publisher_config example_pool
      [LCall 0 example_batch, LSubmit 0 Proceed, LWorker 0 Proceed] s \<and> pl_phase s 0 = Serving job \<and>
    worker_finish bits_format nack_then_ack_env example_publisher_config 0 s = Some t \<and> pl_answer t 0 \<noteq> None"
proof -
  have slots: "0 < job_slots example_publisher_config" by (simp add: job_slots_def example_publisher_config_def)
  obtain s where run: "pool_exec bits_format nack_then_ack_env example_publisher_config
      [LCall 0 example_batch, LSubmit 0 Proceed, LWorker 0 Proceed] example_pool = Some s"
    and s: "pl_phase s 0 = Serving \<lparr>pj_call = 0, pj_batch = example_batch\<rparr>"
    by (simp add: example_pool_def submit_select_def worker_select_def slots)
  from pool_exec_run [OF run stop] have "pool_run bits_format nack_then_ack_env example_publisher_config example_pool
      [LCall 0 example_batch, LSubmit 0 Proceed, LWorker 0 Proceed] s" by simp
  from answer_never_blocks [OF example_publisher_new example_pool_new this] s this show ?thesis by fastforce
qed

end
