(* ===== verification/EndToEnd.thy ===== *)
theory EndToEnd
  imports Pipeline PublisherPoolProps
begin

section \<open>From the request to the table\<close>

text \<open>
  The whole write path: the ingest handler (theory \<open>IngestHttp\<close>) on the pool of publishers (theory
  \<open>PublisherPool\<close>), the broker, and the consumer on the store (theory \<open>Pipeline\<close>). The broker is the
  only part outside the repository; what is used of it is that a delivery carries a message that
  was published.
\<close>

subsection \<open>Message identifiers\<close>

text \<open>The generator of the process is \<open>GenerateMessageID\<close>, on the 16 bytes of \<open>crypto/rand\<close> or an error.\<close>

definition random_ids :: "'w publisher_env \<Rightarrow> bool" where
  "random_ids e \<longleftrightarrow>
     (\<forall>w. \<exists>r. fst (pe_generateID e w) = GenerateMessageID r \<and> (\<forall>bs. r = Inr bs \<longrightarrow> length bs = 16))"

lemma hex_digit_ascii: "n < 16 \<Longrightarrow> byte (hex_digit n) < 128"
  by (simp add: hex_digit_def byte_def)

lemma hex_encode_ascii: "ascii (hex_encode bs)"
proof -
  have "byte b div 16 < 16" for b by (simp add: byte_def less_mult_imp_div_less)
  then show ?thesis
    by (auto simp: ascii_def hex_encode_def list_all_iff intro!: hex_digit_ascii)
qed

lemma generated_id:
  assumes "random_ids e" "generated_by e messageID"
  shows "messageID \<noteq> []" "ascii messageID"
proof -
  obtain r w where r: "GenerateMessageID r = Inr messageID" "\<forall>bs. r = Inr bs \<longrightarrow> length bs = 16"
    using assms unfolding random_ids_def generated_by_def by metis
  then obtain bs where bs: "r = Inr bs" "messageID = hex_encode bs" "length bs = 16"
    by (cases r) (auto simp: GenerateMessageID_def)
  then show "messageID \<noteq> []" by (cases bs) (auto simp: hex_encode_def)
  show "ascii messageID" using bs by (simp add: hex_encode_ascii)
qed

subsection \<open>The handler on the pool\<close>

text \<open>
  The publisher of the handler is a call of the pool: it returns what the call was answered, in
  the state some interleaving with the other calls, the workers and \<open>Close\<close> has led to.
\<close>

definition publishes_through ::
  "(float64 \<Rightarrow> string) \<Rightarrow> 'w publisher_env \<Rightarrow> publisher_config
    \<Rightarrow> (metric_batch \<Rightarrow> 'w pool \<Rightarrow> go_error option \<times> 'w pool) \<Rightarrow> 'w pool \<Rightarrow> bool" where
  "publishes_through ff e cfg p s \<longleftrightarrow>
     (\<forall>b r t. p b s = (r, t) \<longrightarrow> (\<exists>ls c. pool_run ff e cfg s ls t \<and> pl_call t c = Answered b r))"

lemma accepted_request_confirmed:
  assumes "NewRabbitMQMetricBatchPublisher config = Inr cfg" "new_pool e config ws = Inr s0"
    and "pool_run ff e cfg s0 ls s" "publishes_through ff e cfg p s"
    and "IngestMetrics pmt pf (Some p) header body s = (reply, t)" "reply_status reply = 200"
  obtains b where "requested_batch pmt pf header body b" "confirmed ff e t b"
    "reply = ReplyJSON 200 \<lparr>io_accepted = length (mb_Samples b), io_task_id = mb_TaskID b\<rparr>"
proof -
  obtain b where b: "decoded_batch pmt pf header body b"
  proof -
    have "\<exists>b. decoded_batch pmt pf header body b"
    proof (rule ccontr)
      assume "\<not> ?thesis"
      from IngestMetrics_rejects [OF this, of "Some p" s] assms(5,6) show False
        by (auto simp: status_defs)
    qed
    then show ?thesis using that by blast
  qed
  obtain r u where run: "p b s = (r, u)" by fastforce
  note accepts = IngestMetrics_accepts [OF b, of p s, unfolded run assms(5)]
  have r: "r = None" using accepts assms(6) by (cases r) (auto simp: status_defs)
  then have t: "t = u" "reply = ReplyJSON 200 \<lparr>io_accepted = length (mb_Samples b), io_task_id = mb_TaskID b\<rparr>"
    using accepts by (simp_all add: status_defs)
  obtain ls' c where "pool_run ff e cfg s ls' t" "pl_call t c = Answered b None"
    using assms(4) run r t(1) unfolding publishes_through_def by blast
  then have "confirmed ff e t b"
    using answered_confirmed [OF assms(1,2) pool_run_trans [OF _ assms(3)]] by blast
  then show ?thesis using that decoded_batch_requested [OF b] t(2) by blast
qed

text \<open>
  In every session of a worker on the store, from any database, whatever fails in it and whatever other
  writers do, a delivery of the message that was acknowledged has its points in the table.
\<close>

definition stored_when_acked :: "(string \<Rightarrow> float64 option) \<Rightarrow> amqp_publishing \<Rightarrow> metric_batch \<Rightarrow> bool" where
  "stored_when_acked pf pub b \<longleftrightarrow>
    (\<forall>cconfig ccfg ce im q evs db r u i ok dtag red.
       NewRabbitMQMetricConsumer cconfig False = Inr ccfg \<and> visits_all ce \<and>
       ce_flush ce = store_flush_sink im q \<and> env_others im ce \<and>
       consumeSession pf ce ccfg evs (new_store_world db) = (r, u) \<and> EAck i ok \<in> set (cs_log u) \<and>
       ds_delivery (cs_states u ! i) = delivery_of pub dtag red \<longrightarrow>
       batch_in_table (cs_world u) b)"

lemma stored_when_ackedD:
  assumes "stored_when_acked pf pub b" "NewRabbitMQMetricConsumer cconfig False = Inr ccfg" "visits_all ce"
    and "ce_flush ce = store_flush_sink im q" "env_others im ce"
    and "consumeSession pf ce ccfg evs (new_store_world db) = (r, u)"
    and "EAck i ok \<in> set (cs_log u)" "ds_delivery (cs_states u ! i) = delivery_of pub dtag red"
  shows "batch_in_table (cs_world u) b"
  using assms unfolding stored_when_acked_def by blast

text \<open>
  C1. End to end, from the request to the table: when the ingest handler, publishing through the
  pool, answers 200, the request carried a batch of the contract (stated on the JSON document, theory
  \<open>IngestRequest\<close>), the reply counts its samples, and
  a message of exactly this batch was published and positively confirmed by the broker; and in
  every worker session, from any database and whatever fails in it, a delivery of this message that was acknowledged (the
  first or a redelivery) has the batch in \<open>metric_points\<close>: every point, unless it is older than the
  cutoff of a retention run of the session (168 hours, by this or another worker), was taken by a successful flush, and the
  row of this flush for the point's key is in the table: the point itself, with its value, when its key was
  new to the table and it is the first of the flush to carry it, else the row that was there first.
\<close>

theorem accepted_request_is_persisted:
  assumes "float_codec pf ff" "random_ids e"
    and "NewRabbitMQMetricBatchPublisher config = Inr cfg" "new_pool e config ws = Inr s0"
    and "pool_run ff e cfg s0 ls s" "publishes_through ff e cfg p s"
    and "IngestMetrics pmt pf (Some p) header body s = (reply, t)" "reply_status reply = 200"
  shows "\<exists>b messageID msg now pub k tag newer older. requested_batch pmt pf header body b \<and>
    NewIngestMessage b (Inr messageID) = Inr msg \<and> MarshalIngestPublishing ff msg now = Inr pub \<and>
    messageID \<noteq> [] \<and> ascii messageID \<and>
    reply = ReplyJSON 200 \<lparr>io_accepted = length (mb_Samples b), io_task_id = mb_TaskID b\<rparr> \<and>
    pb_log (pl_worker t k) = newer @ PEvent (GotConfirm tag True NoReturn) # PPublish pub True # older \<and>
    stored_when_acked pf pub b"
proof -
  obtain b where b: "requested_batch pmt pf header body b" "confirmed ff e t b"
    "reply = ReplyJSON 200 \<lparr>io_accepted = length (mb_Samples b), io_task_id = mb_TaskID b\<rparr>"
    by (rule accepted_request_confirmed [OF assms(3-8)])
  obtain k messageID msg now pub tag newer older where id: "generated_by e messageID"
    and msg: "NewIngestMessage b (Inr messageID) = Inr msg" "MarshalIngestPublishing ff msg now = Inr pub"
    and log: "pb_log (pl_worker t k) = newer @ PEvent (GotConfirm tag True NoReturn) # PPublish pub True # older"
    using b(2) unfolding confirmed_def confirmed_in_def by blast
  have spec: "spec_batch b" using b(1) by (simp add: requested_batch_def)
  have "stored_when_acked pf pub b"
    unfolding stored_when_acked_def using acked_batch_stored [OF assms(1) spec generated_id [OF assms(2) id] msg] by blast
  then show ?thesis using b(1,3) log msg generated_id [OF assms(2) id] by blast
qed

subsection \<open>An example of the whole path\<close>

text \<open>A generator of identifiers, and a call that runs from the submission to its answer at once.\<close>

definition zero_id_env :: "nat publisher_env" where
  "zero_id_env = nack_then_ack_env\<lparr>pe_generateID :=
     (\<lambda>w. (GenerateMessageID (Inr (replicate 16 (CHR 0x00))), w))\<rparr>"

definition serve_now :: "metric_batch \<Rightarrow> nat pool \<Rightarrow> go_error option \<times> nat pool" where
  "serve_now b s =
     (case pool_exec bits_format zero_id_env example_publisher_config
             (LCall 0 b # example_labels) s of
        None \<Rightarrow> (Some ErrPublisherClosed, s)
      | Some t \<Rightarrow> (case pl_call t 0 of Answered b' r \<Rightarrow> (r, t) | _ \<Rightarrow> (Some ErrPublisherClosed, t)))"

lemma zero_id_random: "random_ids zero_id_env"
  unfolding random_ids_def by (intro allI exI [of _ "Inr (replicate 16 (CHR 0x00))"]) (simp add: zero_id_env_def)

lemma zero_id_pool: "new_pool zero_id_env example_publisher_config (\<lambda>_. 0) = Inr example_pool"
proof -
  have opens: "pub_openSession zero_id_env example_publisher_config 0 = (None, 0)"
    by (simp add: pub_openSession_def zero_id_env_def nack_then_ack_env_def declareTopology_def topology_calls_def
        example_publisher_config_def Let_def)
  have "nat (pc_Publishers example_publisher_config) = Suc 0" by (simp add: example_publisher_config_def)
  then show ?thesis by (simp add: new_pool_def example_publisher_new opens example_pool_def)
qed

lemma serve_now_steps:
  assumes "publishWithRetry bits_format zero_id_env example_publisher_config b (new_worker 0) = (r, w)"
  shows "\<exists>t. pool_exec bits_format zero_id_env example_publisher_config (LCall 0 b # example_labels) example_pool
      = Some t \<and> pl_call t 0 = Answered b r \<and> serve_now b example_pool = (r, t)"
proof -
  have slots: "0 < job_slots example_publisher_config" by (simp add: job_slots_def example_publisher_config_def)
  show ?thesis
    using assms
    by (simp add: serve_now_def example_labels_def example_pool_def submit_select_def worker_select_def
        worker_finish_def answer_select_def slots)
qed

lemma serve_now_pool:
  "publishes_through bits_format zero_id_env example_publisher_config serve_now example_pool"
  unfolding publishes_through_def
proof (intro allI impI)
  fix b r t assume run: "serve_now b example_pool = (r, t)"
  obtain r' w where "publishWithRetry bits_format zero_id_env example_publisher_config b (new_worker 0) = (r', w)"
    by fastforce
  from serve_now_steps [OF this] obtain t' where t':
    "pool_exec bits_format zero_id_env example_publisher_config (LCall 0 b # example_labels) example_pool = Some t'"
    "pl_call t' 0 = Answered b r'" "serve_now b example_pool = (r', t')" by blast
  then show "\<exists>ls c. pool_run bits_format zero_id_env example_publisher_config example_pool ls t \<and> pl_call t c = Answered b r"
    using pool_exec_run [OF t'(1) stop] run by auto
qed

lemma serve_now_null:
  obtains t where "serve_now null_metric_batch example_pool = (None, t)"
proof -
  let ?id = "hex_encode (replicate 16 (CHR 0x00))"
  obtain msg where msg: "NewIngestMessage null_metric_batch (Inr ?id) = Inr msg" by (simp add: NewIngestMessage_def)
  have spec: "spec_batch null_metric_batch"
    by (rule null_metric_described(3))
  have id: "?id \<noteq> []" "ascii ?id" by (simp_all add: hex_encode_ascii) (simp add: hex_encode_def)
  note S = spec_batch_message [OF spec msg id(1)]
  obtain pub where pub: "MarshalIngestPublishing bits_format msg 0 = Inr pub"
    using Marshal_decode [OF float_codec_bits S(1), of 0] S(3,4) id(2) by auto
  have "\<exists>w. publishWithRetry bits_format zero_id_env example_publisher_config null_metric_batch (new_worker 0) = (None, w)"
    by (simp add: publishWithRetry_def zero_id_env_def nack_then_ack_env_def new_worker_def GenerateMessageID_def msg pub
        publish_attempts.simps publish_attempt_def publishOnce_def event_result_def Let_def
        example_publisher_config_def closePublisherSession_def pub_openSession_def declareTopology_def
        topology_calls_def)
  then show ?thesis using that serve_now_steps by blast
qed

text \<open>A worker session that takes a delivery of one point, flushes it at the timer and acknowledges it.\<close>

lemma one_point_session:
  assumes "validateDelivery bits_parse d = Inr got" "ExpandMetricPoints got = [example_point ''a'' 0]"
  shows "\<exists>t db. consumeSession bits_parse worker_env example_config [EvDelivery d, EvTimer] (new_store_world (empty_pg [0])) = (None, t) \<and>
    EAck 0 True \<in> set (cs_log t) \<and> ds_delivery (cs_states t ! 0) = d \<and>
    cs_world t = \<lparr>sw_db = db, sw_flushes = 1, sw_taken = [(empty_pg [0], [example_point ''a'' 0])], sw_cutoffs = []\<rparr>"
proof -
  obtain db where db: "store_Flush example_impl no_errors 7 [example_point ''a'' 0] (empty_pg [0]) = (None, db)"
    by (simp add: store_Flush_def encodeMetricPoints_def example_point_def flush_transaction_def no_errors_def
        ensureMetricPointPartitions_def missing_days_def day_of_def partitionPastDays_def
        partitionFutureDays_def empty_columns_def append_point_def persist_metric_flush_def rows_of_def
        point_admissible_def empty_pg_def seed_task_event_counters_def example_impl_def Let_def
        point_key_def float_finite_def float_exponent_def)
  show ?thesis
    using assms
    by (simp add: consumeSession_def consume_event_def consume_delivery_def new_session_def
        start_timer_def flush_buffer_def consumer_flush_def worker_env_def example_config_def Let_def
        note_effect_def committedRowsByDelivery_def count_bump_def add_committed_def set_terminal_def
        worker_sink [OF db])
qed

lemma null_batch_points: "batch_points null_metric_batch = [example_point ''a'' 0]"
  by (simp add: null_metric_batch_def batch_points_def example_point_def expand_sample_def
      sorted_entries_def)

lemma accepted_request_is_persisted_witness:
  "\<exists>reply t pub k tag newer older u.
    IngestMetrics (\<lambda>_. Some ''application/json'') bits_parse (Some serve_now) [] (json_print null_metric_request)
      example_pool = (reply, t) \<and> reply_status reply = 200 \<and>
    pb_log (pl_worker t k) = newer @ PEvent (GotConfirm tag True NoReturn) # PPublish pub True # older \<and>
    consumeSession bits_parse worker_env example_config [EvDelivery (delivery_of pub 1 False), EvTimer]
      (new_store_world (empty_pg [0])) = (None, u) \<and> sw_cutoffs (cs_world u) = [] \<and>
    point_row (example_point ''a'' 0) \<in> set (pg_points (sw_db (cs_world u)))"
proof -
  let ?pmt = "\<lambda>_. Some ''application/json''" and ?body = "json_print null_metric_request"
  obtain t0 where "serve_now null_metric_batch example_pool = (None, t0)" by (rule serve_now_null)
  with IngestMetrics_accepts [OF null_metric_accepted [of bits_parse "[]"], where p = serve_now and w = example_pool]
  obtain reply t where run: "IngestMetrics ?pmt bits_parse (Some serve_now) [] ?body example_pool = (reply, t)"
    and ok: "reply_status reply = 200" by (auto simp: status_defs)
  from accepted_request_is_persisted [OF float_codec_bits zero_id_random example_publisher_new zero_id_pool
      stop serve_now_pool run ok]
  obtain b messageID msg now pub k tag newer older where b: "requested_batch ?pmt bits_parse [] ?body b"
    and msg: "NewIngestMessage b (Inr messageID) = Inr msg" "MarshalIngestPublishing bits_format msg now = Inr pub"
      "messageID \<noteq> []" "ascii messageID"
    and log: "pb_log (pl_worker t k) = newer @ PEvent (GotConfirm tag True NoReturn) # PPublish pub True # older"
    and stored: "stored_when_acked bits_parse pub b" by blast
  have null: "b = null_metric_batch" by (rule requested_null_unique [OF b])
  have spec: "spec_batch b" using b by (simp add: requested_batch_def)
  note D = delivery_of_marshalled [OF float_codec_bits spec msg(3,4,1,2)]
  obtain u db where u: "consumeSession bits_parse worker_env example_config
      [EvDelivery (delivery_of pub 1 False), EvTimer] (new_store_world (empty_pg [0])) = (None, u)" "EAck 0 True \<in> set (cs_log u)"
    "ds_delivery (cs_states u ! 0) = delivery_of pub 1 False"
    and world: "cs_world u = \<lparr>sw_db = db, sw_flushes = 1, sw_taken = [(empty_pg [0], [example_point ''a'' 0])], sw_cutoffs = []\<rparr>"
    using one_point_session [OF D(1)] D(2) null null_batch_points by metis
  have flush: "ce_flush worker_env = store_flush_sink example_impl (\<lambda>_. (no_errors, 7, []))"
    by (simp add: worker_env_def)
  have "batch_in_table (cs_world u) b"
    by (rule stored_when_ackedD [OF stored example_config_new worker_env_ok(1) flush worker_env_ok(2) u])
  moreover have "first_of_key (empty_pg [0]) [example_point ''a'' 0] (example_point ''a'' 0)"
    by (simp add: first_of_key_def empty_pg_def)
  ultimately have "point_row (example_point ''a'' 0) \<in> set (pg_points (sw_db (cs_world u)))"
    using world null null_batch_points by (auto simp: batch_in_table_def)
  moreover have "sw_cutoffs (cs_world u) = []" using world by simp
  ultimately show ?thesis using run ok log u(1) by blast
qed

end
