(* ===== verification/Realtime.thy ===== *)
theory Realtime
  imports ConsumerProps PublisherProps
begin

section \<open>Realtime events: the event publisher and the bridge\<close>

text \<open>
  \<open>internal/messaging/event_publisher.go\<close>, by which the worker publishes outbox events, and
  \<open>internal/messaging/event_bridge.go\<close>, by which every API instance consumes them and hands
  them to its hub.
\<close>

subsection \<open>The event publisher\<close>

record event_publisher_config =
  ec_URL :: string
  ec_WriteTimeout :: duration
  ec_ConfirmTimeout :: duration
  ec_Topology :: topology

definition NewRabbitMQMetricEventPublisher ::
  "event_publisher_config \<Rightarrow> go_error + event_publisher_config" where
  "NewRabbitMQMetricEventPublisher c =
     (if ec_URL c = [] then Inl (ErrNew ''AMQP_URL must not be empty'')
      else Inr \<lparr>ec_URL = ec_URL c,
                ec_WriteTimeout = (if ec_WriteTimeout c \<le> 0 then 5 * second else ec_WriteTimeout c),
                ec_ConfirmTimeout = (if ec_ConfirmTimeout c \<le> 0 then 5 * second else ec_ConfirmTimeout c),
                ec_Topology = or_default_topology (ec_Topology c)\<rparr>)"

definition event_message_id :: "outbox_event \<Rightarrow> string" where
  "event_message_id ev = oe_TaskID ev @ '':'' @ int_digits (oe_EventSeq ev)"

definition event_publishing :: "outbox_event \<Rightarrow> amqp_publishing" where
  "event_publishing ev =
     \<lparr>ap_Headers = [(''schema_version'', AInt32 1), (''task_id'', AString (oe_TaskID ev)),
                    (''event_seq'', AInt64 (oe_EventSeq ev))],
      ap_ContentType = ''application/json'', ap_DeliveryMode = amqp_Persistent, ap_Priority = 0,
      ap_CorrelationId = event_message_id ev, ap_MessageId = event_message_id ev, ap_Timestamp = 0,
      ap_Body = oe_Payload ev\<rparr>"

definition event_openSession ::
  "'w publisher_env \<Rightarrow> event_publisher_config \<Rightarrow> 'w \<Rightarrow> go_error option \<times> 'w" where
  "event_openSession e cfg w =
     (case pe_dial e w of
        (Some err, w1) \<Rightarrow> (Some (ErrWrap ''open realtime publisher session'' [err]), w1)
      | (None, w1) \<Rightarrow>
          (case declareRealtimeTopology (pe_call e) (ec_Topology cfg) w1 of
             (Some err, w2) \<Rightarrow> (Some (ErrWrap ''declare realtime topology'' [err]), pe_close e w2)
           | (None, w2) \<Rightarrow>
               (case pe_call e (Confirm False) w2 of
                  (Some err, w3) \<Rightarrow>
                    (Some (ErrWrap ''enable realtime publisher confirms'' [err]), pe_close e w3)
                | (None, w3) \<Rightarrow> (None, w3))))"

definition resetSession :: "'w publisher_env \<Rightarrow> 'w publisher \<Rightarrow> 'w publisher" where
  "resetSession e s = (closePublisherSession e s)\<lparr>pb_client := False\<rparr>"

text \<open>What the \<open>select\<close> of \<open>Publish\<close> makes of its event; \<open>p.done\<close> is not one of its cases.\<close>

definition realtime_result :: "publish_event \<Rightarrow> go_error option" where
  "realtime_result ev =
     (case ev of
        GotReturnsClosed \<Rightarrow> Some ErrConfirmClosed
      | GotReturn \<Rightarrow> Some unroutableError
      | GotConfirmsClosed \<Rightarrow> Some ErrConfirmClosed
      | GotConfirm tag ack poll \<Rightarrow> if \<not> ack then Some ErrBrokerNack else None
      | ConfirmCtxDone ctxErr \<Rightarrow> if ctx_ended ctxErr then ctxErr else Some ErrConfirmTimeout
      | PublisherDone \<Rightarrow> Some ErrPublisherClosed)"

text \<open>\<open>Publish\<close>, with the mutex held; \<open>closed\<close> is the field of that name.\<close>

definition event_Publish ::
  "'w publisher_env \<Rightarrow> event_publisher_config \<Rightarrow> outbox_event \<Rightarrow> bool \<Rightarrow> 'w publisher
    \<Rightarrow> go_error option \<times> 'w publisher" where
  "event_Publish e cfg ev closed s =
     (if closed then (Some ErrPublisherClosed, s)
      else let (openErr, s1) =
                 (if pb_client s then (None, s)
                  else case event_openSession e cfg (pb_world s) of
                         (Some err, w) \<Rightarrow> (Some err, pub_note (POpened False) w s)
                       | (None, w) \<Rightarrow> (None, (pub_note (POpened True) w s)\<lparr>pb_client := True\<rparr>))
           in case openErr of
                Some err \<Rightarrow> (Some err, s1)
              | None \<Rightarrow>
                  (let p = event_publishing ev
                   in case pe_publish e (tp_RealtimeExchange (ec_Topology cfg)) [] False False p
                             (pb_world s1) of
                        (Some err, w) \<Rightarrow> (Some err, resetSession e (pub_note (PPublish p False) w s1))
                      | (None, w) \<Rightarrow>
                          (case pe_select e w of
                             (x, w1) \<Rightarrow>
                               (let s2 = pub_note (PEvent x) w1 (pub_note (PPublish p True) w s1)
                                in (realtime_result x,
                                    if realtime_result x = None then s2 else resetSession e s2)))))"

definition event_Close :: "'w publisher_env \<Rightarrow> bool \<Rightarrow> 'w publisher \<Rightarrow> bool \<times> 'w publisher" where
  "event_Close e closed s = (True, if closed then s else resetSession e s)"

text \<open>The same session discipline as the batch publisher's.\<close>

lemma event_Publish_spec:
  assumes "event_Publish e cfg ev closed s = (r, t)" "worker_inv s"
  shows "worker_inv t \<and>
    (r = None \<longrightarrow> (\<exists>tag poll older. pb_log t =
       PEvent (GotConfirm tag True poll) # PPublish (event_publishing ev) True # older))"
proof (cases closed)
  case True
  then show ?thesis using assms by (auto simp: event_Publish_def)
next
  case False
  define o1 where "o1 = (if pb_client s then (None, s)
    else case event_openSession e cfg (pb_world s) of
           (Some err, w) \<Rightarrow> (Some err, pub_note (POpened False) w s)
         | (None, w) \<Rightarrow> (None, (pub_note (POpened True) w s)\<lparr>pb_client := True\<rparr>))"
  have o1: "answers_match (pb_log (snd o1))"
    "fst o1 = None \<Longrightarrow> outstanding (pb_log (snd o1)) = 0"
    using assms(2) by (auto simp: o1_def worker_inv_def split: prod.splits option.splits)
  have keep: "fst o1 \<noteq> None \<Longrightarrow> worker_inv (snd o1)"
    using assms(2) by (auto simp: o1_def worker_inv_def split: prod.splits option.splits)
  obtain openErr s1 where s1: "o1 = (openErr, s1)" by fastforce
  have run: "event_Publish e cfg ev closed s =
      (case openErr of
         Some err \<Rightarrow> (Some err, s1)
       | None \<Rightarrow>
           (let p = event_publishing ev
            in case pe_publish e (tp_RealtimeExchange (ec_Topology cfg)) [] False False p
                      (pb_world s1) of
                 (Some err, w) \<Rightarrow> (Some err, resetSession e (pub_note (PPublish p False) w s1))
               | (None, w) \<Rightarrow>
                   (case pe_select e w of
                      (x, w1) \<Rightarrow>
                        (let s2 = pub_note (PEvent x) w1 (pub_note (PPublish p True) w s1)
                         in (realtime_result x,
                             if realtime_result x = None then s2 else resetSession e s2)))))"
    using False s1 by (simp add: event_Publish_def o1_def Let_def)
  show ?thesis
  proof (cases openErr)
    case (Some err)
    then show ?thesis using assms(1) run keep s1 by auto
  next
    case None
    have am: "answers_match (pb_log s1)" "outstanding (pb_log s1) = 0"
      using o1 s1 None by auto
    show ?thesis
      using assms(1) run None am
      by (auto simp: Let_def worker_inv_def resetSession_def closePublisherSession_def realtime_result_def
            ctx_ended_def
          split: prod.splits option.splits if_splits publish_event.splits)
  qed
qed

subsection \<open>Decoding a realtime delivery\<close>

definition headerInt64 :: "amqp_value option \<Rightarrow> int option" where
  "headerInt64 value =
     (case value of
        Some (AInt i) \<Rightarrow> Some i
      | Some (AInt32 i) \<Rightarrow> Some i
      | Some (AInt64 i) \<Rightarrow> Some i
      | Some (AString s) \<Rightarrow> parse_int64 s
      | _ \<Rightarrow> None)"

definition decodeRealtimeEvent :: "delivery \<Rightarrow> go_error + realtime_event" where
  "decodeRealtimeEvent d =
     (case string_header (map_of (dl_Headers d) ''task_id'') of
        None \<Rightarrow> Inl (ErrNew ''task_id header is required'')
      | Some taskID \<Rightarrow>
          if taskID = [] then Inl (ErrNew ''task_id header is required'')
          else (case headerInt64 (map_of (dl_Headers d) ''event_seq'') of
                  None \<Rightarrow> Inl (ErrNew ''event_seq header is invalid'')
                | Some seq \<Rightarrow>
                    if seq \<le> 0 then Inl (ErrNew ''event_seq header is invalid'')
                    else if \<not> json_Valid (dl_Body d) then Inl (ErrNew ''event payload is invalid JSON'')
                    else Inr \<lparr>re_TaskID = taskID, re_EventSeq = seq, re_Payload = dl_Body d\<rparr>))"

subsection \<open>The bridge\<close>

record bridge_config =
  bc_URL :: string
  bc_InstanceID :: string
  bc_Topology :: topology
  bc_SinkFailureBackoff :: duration
  bc_SinkFailureMaxBackoff :: duration
  bc_ReconnectBackoff :: duration
  bc_ReconnectMaxBackoff :: duration

definition NewRabbitMQMetricEventBridge :: "bridge_config \<Rightarrow> bool \<Rightarrow> go_error + bridge_config" where
  "NewRabbitMQMetricEventBridge config sink_nil =
     (if bc_URL config = [] then Inl (ErrNew ''AMQP_URL must not be empty'')
      else if bc_InstanceID config = [] then Inl (ErrNew ''instance id is required'')
      else if sink_nil then Inl (ErrNew ''event sink is required'')
      else let c = \<lparr>bc_URL = bc_URL config, bc_InstanceID = bc_InstanceID config,
                    bc_Topology = or_default_topology (bc_Topology config),
                    bc_SinkFailureBackoff = or_default 0 (100 * millisecond) (bc_SinkFailureBackoff config),
                    bc_SinkFailureMaxBackoff = or_default 0 (5 * second) (bc_SinkFailureMaxBackoff config),
                    bc_ReconnectBackoff = or_default 0 (100 * millisecond) (bc_ReconnectBackoff config),
                    bc_ReconnectMaxBackoff = or_default 0 (5 * second) (bc_ReconnectMaxBackoff config)\<rparr>
           in if bc_SinkFailureBackoff c \<le> 0 \<or> bc_SinkFailureMaxBackoff c < bc_SinkFailureBackoff c
                 \<or> bc_ReconnectBackoff c \<le> 0 \<or> bc_ReconnectMaxBackoff c < bc_ReconnectBackoff c
              then Inl (ErrNew ''invalid event bridge backoff configuration'')
              else Inr c)"

text \<open>\<open>openSession\<close>; the broker names the instance queue (\<open>queue_name\<close> of the world).\<close>

definition bridge_openSession ::
  "('w \<Rightarrow> go_error option \<times> 'w) \<Rightarrow> 'w caller \<Rightarrow> ('w \<Rightarrow> string) \<Rightarrow> ('w \<Rightarrow> 'w) \<Rightarrow> bridge_config \<Rightarrow> 'w
    \<Rightarrow> go_error option \<times> 'w" where
  "bridge_openSession dial call queue_name close cfg w =
     (case dial w of
        (Some err, w1) \<Rightarrow> (Some (ErrWrap ''open realtime event bridge session'' [err]), w1)
      | (None, w1) \<Rightarrow>
     (case declareRealtimeTopology call (bc_Topology cfg) w1 of
        (Some err, w2) \<Rightarrow> (Some (ErrWrap ''declare realtime exchange'' [err]), close w2)
      | (None, w2) \<Rightarrow>
     (case call (QueueDeclare [] False True True False []) w2 of
        (Some err, w3) \<Rightarrow> (Some (ErrWrap ''declare realtime instance queue'' [err]), close w3)
      | (None, w3) \<Rightarrow>
     (case call (QueueBind (queue_name w3) [] (tp_RealtimeExchange (bc_Topology cfg)) False []) w3 of
        (Some err, w4) \<Rightarrow> (Some (ErrWrap ''bind realtime instance queue'' [err]), close w4)
      | (None, w4) \<Rightarrow>
     (case call (Consume (queue_name w3) (''metrics-events-'' @ bc_InstanceID cfg)
                   False True False False []) w4 of
        (Some err, w5) \<Rightarrow> (Some (ErrWrap ''consume realtime instance queue'' [err]), close w5)
      | (None, w5) \<Rightarrow> (None, w5))))))"

record 'w bridge_env =
  be_handle :: "realtime_event \<Rightarrow> 'w \<Rightarrow> go_error option \<times> 'w"
  be_ack :: "delivery \<Rightarrow> 'w \<Rightarrow> go_error option \<times> 'w"
  be_nack :: "delivery \<Rightarrow> bool \<Rightarrow> 'w \<Rightarrow> go_error option \<times> 'w"
  be_wait :: "duration \<Rightarrow> 'w \<Rightarrow> bool \<times> 'w"
  be_ctx_err :: "'w \<Rightarrow> go_error option"

datatype bridge_effect =
    BHandle realtime_event bool
  | BAck delivery bool
  | BRequeue delivery bool

record 'w bridge =
  br_last :: "string \<rightharpoonup> int"
  br_backoff :: duration
  br_log :: "bridge_effect list"
  br_world :: 'w

text \<open>A missing key of a Go map reads as zero.\<close>

definition last_of :: "(string \<rightharpoonup> int) \<Rightarrow> string \<Rightarrow> int" where
  "last_of m task = (case m task of None \<Rightarrow> 0 | Some n \<Rightarrow> n)"

definition bridge_seen :: "realtime_event \<Rightarrow> 'w bridge \<Rightarrow> bool" where
  "bridge_seen ev s \<longleftrightarrow> re_EventSeq ev \<le> last_of (br_last s) (re_TaskID ev)"

definition bridge_remember :: "realtime_event \<Rightarrow> 'w bridge \<Rightarrow> 'w bridge" where
  "bridge_remember ev s =
     (if re_EventSeq ev > last_of (br_last s) (re_TaskID ev)
      then s\<lparr>br_last := (br_last s)(re_TaskID ev \<mapsto> re_EventSeq ev)\<rparr> else s)"

definition br_note :: "bridge_effect \<Rightarrow> 'w \<Rightarrow> 'w bridge \<Rightarrow> 'w bridge" where
  "br_note x w s = s\<lparr>br_log := x # br_log s, br_world := w\<rparr>"

definition bridge_ack ::
  "'w bridge_env \<Rightarrow> delivery \<Rightarrow> 'w bridge \<Rightarrow> go_error option option \<times> 'w bridge" where
  "bridge_ack e d s =
     (case be_ack e d (br_world s) of
        (Some err, w) \<Rightarrow> (Some (Some err), br_note (BAck d False) w s)
      | (None, w) \<Rightarrow> (None, br_note (BAck d True) w s))"

definition bridge_delivery ::
  "'w bridge_env \<Rightarrow> bridge_config \<Rightarrow> delivery \<Rightarrow> 'w bridge \<Rightarrow> go_error option option \<times> 'w bridge" where
  "bridge_delivery e cfg d s =
     (case decodeRealtimeEvent d of
        Inl _ \<Rightarrow> bridge_ack e d s
      | Inr ev \<Rightarrow>
          if bridge_seen ev s then bridge_ack e d s
          else (case be_handle e ev (br_world s) of
                  (Some err, w) \<Rightarrow>
                    (let s1 = br_note (BHandle ev False) w s
                     in case be_nack e d True (br_world s1) of
                          (Some nackErr, w1) \<Rightarrow>
                            (Some (errors_join [Some err, Some nackErr]), br_note (BRequeue d False) w1 s1)
                        | (None, w1) \<Rightarrow>
                            (let s2 = br_note (BRequeue d True) w1 s1
                             in case be_wait e (br_backoff s2) (br_world s2) of
                                  (False, w2) \<Rightarrow> (Some (be_ctx_err e w2), s2\<lparr>br_world := w2\<rparr>)
                                | (True, w2) \<Rightarrow>
                                    (None, s2\<lparr>br_world := w2, br_backoff :=
                                       next_backoff (bc_SinkFailureMaxBackoff cfg) (br_backoff s2)\<rparr>)))
                | (None, w) \<Rightarrow>
                    bridge_ack e d
                      (bridge_remember ev
                        ((br_note (BHandle ev True) w s)\<lparr>br_backoff := bc_SinkFailureBackoff cfg\<rparr>))))"

datatype bridge_event = BDelivery delivery | BStreamClosed | BDone

fun bridge_loop ::
  "'w bridge_env \<Rightarrow> bridge_config \<Rightarrow> bridge_event list \<Rightarrow> 'w bridge
    \<Rightarrow> go_error option option \<times> 'w bridge" where
  "bridge_loop e cfg [] s = (None, s)"
| "bridge_loop e cfg (x # xs) s =
     (case x of
        BStreamClosed \<Rightarrow> (Some (Some ErrDeliveryStreamClosed), s)
      | BDone \<Rightarrow> (Some (be_ctx_err e (br_world s)), s)
      | BDelivery d \<Rightarrow>
          (case bridge_delivery e cfg d s of
             (Some r, s1) \<Rightarrow> (Some r, s1)
           | (None, s1) \<Rightarrow> bridge_loop e cfg xs s1))"

text \<open>\<open>last\<close> belongs to the bridge and survives its sessions; the sink backoff does not.\<close>

definition bridge_consumeSession ::
  "'w bridge_env \<Rightarrow> bridge_config \<Rightarrow> bridge_event list \<Rightarrow> 'w bridge
    \<Rightarrow> go_error option option \<times> 'w bridge" where
  "bridge_consumeSession e cfg evs s =
     bridge_loop e cfg evs (s\<lparr>br_backoff := bc_SinkFailureBackoff cfg\<rparr>)"

text \<open>
  One turn of \<open>Run\<close>, and its turns, one list of events per session: the next backoff, or
  \<open>None\<close> when \<open>Run\<close> returns nil. A session that has not ended by its last event is still running.
\<close>

record 'w bridge_run_env =
  bv_dial :: "'w \<Rightarrow> go_error option \<times> 'w"
  bv_call :: "'w caller"
  bv_queue_name :: "'w \<Rightarrow> string"
  bv_close :: "'w \<Rightarrow> 'w"

definition bridge_reconnect ::
  "'w bridge_env \<Rightarrow> bridge_config \<Rightarrow> duration \<Rightarrow> 'w bridge \<Rightarrow> duration option \<times> 'w bridge" where
  "bridge_reconnect e cfg backoff s =
     (case be_wait e backoff (br_world s) of
        (False, w) \<Rightarrow> (None, s\<lparr>br_world := w\<rparr>)
      | (True, w) \<Rightarrow> (Some (next_backoff (bc_ReconnectMaxBackoff cfg) backoff), s\<lparr>br_world := w\<rparr>))"

definition bridge_turn ::
  "'w bridge_env \<Rightarrow> 'w bridge_run_env \<Rightarrow> bridge_config \<Rightarrow> bridge_event list \<Rightarrow> duration \<Rightarrow> 'w bridge
    \<Rightarrow> duration option \<times> 'w bridge" where
  "bridge_turn e r cfg evs backoff s =
     (if be_ctx_err e (br_world s) \<noteq> None then (None, s)
      else case bridge_openSession (bv_dial r) (bv_call r) (bv_queue_name r) (bv_close r) cfg (br_world s) of
        (Some err, w1) \<Rightarrow> bridge_reconnect e cfg backoff (s\<lparr>br_world := w1\<rparr>)
      | (None, w1) \<Rightarrow>
          (case bridge_consumeSession e cfg evs (s\<lparr>br_world := w1\<rparr>) of
             (None, s1) \<Rightarrow> (Some (bc_ReconnectBackoff cfg), s1)
           | (Some err, s1) \<Rightarrow>
               (let s2 = s1\<lparr>br_world := bv_close r (br_world s1)\<rparr>
                in if be_ctx_err e (br_world s2) \<noteq> None then (None, s2)
                   else bridge_reconnect e cfg (bc_ReconnectBackoff cfg) s2)))"

fun bridge_Run ::
  "'w bridge_env \<Rightarrow> 'w bridge_run_env \<Rightarrow> bridge_config \<Rightarrow> bridge_event list list \<Rightarrow> duration \<Rightarrow> 'w bridge
    \<Rightarrow> duration option \<times> 'w bridge" where
  "bridge_Run e r cfg [] backoff s = (Some backoff, s)"
| "bridge_Run e r cfg (evs # rest) backoff s =
     (case bridge_turn e r cfg evs backoff s of
        (None, s1) \<Rightarrow> (None, s1)
      | (Some backoff1, s1) \<Rightarrow> bridge_Run e r cfg rest backoff1 s1)"

definition new_bridge :: "'w \<Rightarrow> 'w bridge" where
  "new_bridge w = \<lparr>br_last = Map.empty, br_backoff = 0, br_log = [], br_world = w\<rparr>"

subsection \<open>What the sink sees\<close>

text \<open>The events the sink accepted, newest first, and the largest number per task.\<close>

fun accepted :: "bridge_effect list \<Rightarrow> realtime_event list" where
  "accepted [] = []"
| "accepted (BHandle ev ok # l) = (if ok then ev # accepted l else accepted l)"
| "accepted (_ # l) = accepted l"

text \<open>An acknowledged delivery is invalid, or its event or a later one of its task was accepted.\<close>

fun acks_ok :: "bridge_effect list \<Rightarrow> bool" where
  "acks_ok [] \<longleftrightarrow> True"
| "acks_ok (BAck d ok # l) \<longleftrightarrow> acks_ok l \<and>
     (case decodeRealtimeEvent d of
        Inl _ \<Rightarrow> True
      | Inr ev \<Rightarrow> \<exists>a \<in> set (accepted l). re_TaskID a = re_TaskID ev \<and> re_EventSeq ev \<le> re_EventSeq a)"
| "acks_ok (_ # l) \<longleftrightarrow> acks_ok l"

fun increasing :: "realtime_event list \<Rightarrow> bool" where
  "increasing [] \<longleftrightarrow> True"
| "increasing (ev # l) \<longleftrightarrow>
     (\<forall>a \<in> set l. re_TaskID a = re_TaskID ev \<longrightarrow> re_EventSeq a < re_EventSeq ev) \<and> increasing l"

definition bridge_inv :: "'w bridge \<Rightarrow> bool" where
  "bridge_inv s \<longleftrightarrow>
     increasing (accepted (br_log s)) \<and> acks_ok (br_log s) \<and>
     (\<forall>a \<in> set (accepted (br_log s)). re_EventSeq a \<le> last_of (br_last s) (re_TaskID a)) \<and>
     (\<forall>task. last_of (br_last s) task \<noteq> 0 \<longrightarrow>
        (\<exists>a \<in> set (accepted (br_log s)). re_TaskID a = task \<and> re_EventSeq a = last_of (br_last s) task))"

lemma br_note_simps [simp]:
  "br_log (br_note x w s) = x # br_log s" "br_last (br_note x w s) = br_last s"
  "br_world (br_note x w s) = w" "br_backoff (br_note x w s) = br_backoff s"
  by (simp_all add: br_note_def)

lemma decodeRealtimeEvent_positive: "decodeRealtimeEvent d = Inr ev \<Longrightarrow> 0 < re_EventSeq ev"
  by (auto simp: decodeRealtimeEvent_def split: option.splits if_splits)

lemma bridge_ack_inv:
  assumes "bridge_ack e d s = (r, t)" "bridge_inv s"
    and "\<And>ev. decodeRealtimeEvent d = Inr ev \<Longrightarrow> bridge_seen ev s"
  shows "bridge_inv t"
proof -
  have "case decodeRealtimeEvent d of Inl _ \<Rightarrow> True
    | Inr ev \<Rightarrow> \<exists>a \<in> set (accepted (br_log s)). re_TaskID a = re_TaskID ev \<and> re_EventSeq ev \<le> re_EventSeq a"
  proof (cases "decodeRealtimeEvent d")
    case (Inr ev)
    then have "0 < re_EventSeq ev" "re_EventSeq ev \<le> last_of (br_last s) (re_TaskID ev)"
      using decodeRealtimeEvent_positive assms(3) by (auto simp: bridge_seen_def)
    moreover from this obtain a where "a \<in> set (accepted (br_log s))" "re_TaskID a = re_TaskID ev"
      "re_EventSeq a = last_of (br_last s) (re_TaskID ev)"
      using assms(2) unfolding bridge_inv_def by (metis less_le_not_le)
    ultimately show ?thesis using Inr by auto
  qed simp
  then show ?thesis
    using assms(1,2) by (auto simp: bridge_ack_def bridge_inv_def split: prod.splits option.splits)
qed

lemma bridge_accept_inv:
  assumes "bridge_inv s" "\<not> bridge_seen ev s" "0 < re_EventSeq ev"
  shows "bridge_inv (bridge_remember ev ((br_note (BHandle ev True) w s)\<lparr>br_backoff := b\<rparr>))"
proof -
  have gt: "last_of (br_last s) (re_TaskID ev) < re_EventSeq ev"
    using assms(2) by (simp add: bridge_seen_def)
  have upd: "last_of ((br_last s)(re_TaskID ev \<mapsto> re_EventSeq ev)) task =
      (if task = re_TaskID ev then re_EventSeq ev else last_of (br_last s) task)" for task
    by (simp add: last_of_def)
  let ?t = "bridge_remember ev ((br_note (BHandle ev True) w s)\<lparr>br_backoff := b\<rparr>)"
  have t: "br_log ?t = BHandle ev True # br_log s"
    "br_last ?t = (br_last s)(re_TaskID ev \<mapsto> re_EventSeq ev)"
    using gt by (simp_all add: bridge_remember_def)
  have below: "re_EventSeq a \<le> last_of (br_last s) (re_TaskID a)" if "a \<in> set (accepted (br_log s))" for a
    using assms(1) that by (simp add: bridge_inv_def)
  have "\<forall>a \<in> set (accepted (br_log s)). re_TaskID a = re_TaskID ev \<longrightarrow> re_EventSeq a < re_EventSeq ev"
    using below gt by fastforce
  moreover have "\<forall>task. last_of (br_last ?t) task \<noteq> 0 \<longrightarrow>
      (\<exists>a \<in> set (accepted (br_log ?t)). re_TaskID a = task \<and> re_EventSeq a = last_of (br_last ?t) task)"
    using assms(1) unfolding t upd bridge_inv_def by auto
  ultimately show ?thesis
    using assms(1) below gt by (auto simp: bridge_inv_def t upd)
qed

lemma bridge_delivery_inv:
  assumes d: "bridge_delivery e cfg d s = (r, t)" and inv: "bridge_inv s"
  shows "bridge_inv t"
proof (cases "decodeRealtimeEvent d")
  case (Inl err)
  then show ?thesis using d inv bridge_ack_inv by (fastforce simp: bridge_delivery_def)
next
  case (Inr ev)
  show ?thesis
  proof (cases "bridge_seen ev s")
    case True
    then show ?thesis using d inv Inr bridge_ack_inv by (fastforce simp: bridge_delivery_def)
  next
    case False
    obtain herr w where h: "be_handle e ev (br_world s) = (herr, w)" by fastforce
    show ?thesis
    proof (cases herr)
      case None
      let ?s = "bridge_remember ev ((br_note (BHandle ev True) w s)\<lparr>br_backoff := bc_SinkFailureBackoff cfg\<rparr>)"
      have ack: "bridge_ack e d ?s = (r, t)"
        using d Inr False h None by (simp add: bridge_delivery_def)
      have acc: "bridge_inv ?s"
        by (rule bridge_accept_inv [OF inv False decodeRealtimeEvent_positive [OF Inr]])
      have "bridge_seen ev ?s"
        by (auto simp: bridge_seen_def bridge_remember_def last_of_def)
      then have "decodeRealtimeEvent d = Inr ev' \<Longrightarrow> bridge_seen ev' ?s" for ev'
        using Inr by simp
      then show ?thesis by (rule bridge_ack_inv [OF ack acc])
    next
      case (Some x)
      obtain nerr w1 where n: "be_nack e d True w = (nerr, w1)" by fastforce
      obtain ok w2 where wt: "be_wait e (br_backoff s) w1 = (ok, w2)" by fastforce
      have "br_last t = br_last s \<and> (\<exists>ok. br_log t = BRequeue d ok # BHandle ev False # br_log s)"
      proof (cases nerr)
        case None
        then show ?thesis
          using d Inr False h Some n wt by (cases ok) (auto simp: bridge_delivery_def Let_def)
      next
        case (Some y)
        then show ?thesis
          using d Inr False h \<open>herr = Some x\<close> n by (auto simp: bridge_delivery_def Let_def)
      qed
      then show ?thesis using inv by (auto simp: bridge_inv_def)
    qed
  qed
qed

lemma bridge_loop_inv:
  "bridge_loop e cfg evs s = (r, t) \<Longrightarrow> bridge_inv s \<Longrightarrow> bridge_inv t"
proof (induction evs arbitrary: s)
  case (Cons x xs)
  show ?case
  proof (cases x)
    case (BDelivery d)
    obtain r1 s1 where d: "bridge_delivery e cfg d s = (r1, s1)" by fastforce
    have "bridge_inv s1" by (rule bridge_delivery_inv [OF d Cons.prems(2)])
    then show ?thesis using Cons BDelivery d by (cases r1) auto
  qed (use Cons in auto)
qed simp

lemma bridge_inv_update [simp]:
  "bridge_inv (s\<lparr>br_world := w\<rparr>) = bridge_inv s" "bridge_inv (s\<lparr>br_backoff := b\<rparr>) = bridge_inv s"
  by (simp_all add: bridge_inv_def)

lemma bridge_turn_inv:
  assumes "bridge_turn e r cfg evs backoff s = (b, t)" "bridge_inv s"
  shows "bridge_inv t"
proof -
  have rec: "bridge_reconnect e cfg d x = (b', y) \<Longrightarrow> bridge_inv x \<Longrightarrow> bridge_inv y" for d x b' y
    by (auto simp: bridge_reconnect_def split: prod.splits bool.splits)
  obtain o1 w1 where o1: "bridge_openSession (bv_dial r) (bv_call r) (bv_queue_name r) (bv_close r) cfg
      (br_world s) = (o1, w1)" by fastforce
  obtain r1 s1 where c: "bridge_consumeSession e cfg evs (s\<lparr>br_world := w1\<rparr>) = (r1, s1)" by fastforce
  have s1: "bridge_inv s1"
    using bridge_loop_inv [OF c [unfolded bridge_consumeSession_def]] assms(2) by simp
  show ?thesis
  proof (cases "be_ctx_err e (br_world s) \<noteq> None \<or> o1 \<noteq> None")
    case True
    then show ?thesis
      using assms o1 rec [of backoff "s\<lparr>br_world := w1\<rparr>" b t] by (auto simp: bridge_turn_def split: if_splits)
  next
    case False
    then show ?thesis
      using assms(1) o1 c s1 rec [of _ "s1\<lparr>br_world := bv_close r (br_world s1)\<rparr>" b t]
      by (cases r1) (auto simp: bridge_turn_def Let_def split: if_splits)
  qed
qed

lemma bridge_Run_inv: "bridge_Run e r cfg evss backoff s = (b, t) \<Longrightarrow> bridge_inv s \<Longrightarrow> bridge_inv t"
proof (induction evss arbitrary: s backoff)
  case (Cons evs rest)
  obtain b1 s1 where a: "bridge_turn e r cfg evs backoff s = (b1, s1)" by fastforce
  have "bridge_inv s1" by (rule bridge_turn_inv [OF a Cons.prems(2)])
  then show ?case using Cons a by (cases b1) auto
qed simp

lemma new_bridge_inv: "bridge_inv (new_bridge w)"
  by (simp add: bridge_inv_def new_bridge_def last_of_def)

end
