(* ===== verification/RealtimeProps.thy ===== *)
theory RealtimeProps
  imports Realtime
begin

section \<open>Properties of the realtime path\<close>

text \<open>
  What an outbox event goes through between the worker and an API instance: the message the
  event publisher builds, the broker's confirmation of it, and the bridge's deduplication.
\<close>

text \<open>
  C28. The bridge reads back exactly the event the publisher was given: task, sequence number and
  payload survive the headers and the body for every event of the outbox (a task, a positive
  64-bit number, a JSON payload).
\<close>

theorem realtime_event_roundtrip:
  assumes "oe_TaskID ev \<noteq> []" "0 < oe_EventSeq ev" "json_Valid (oe_Payload ev)"
  shows "decodeRealtimeEvent (delivery_of (event_publishing ev) tag red) =
    Inr \<lparr>re_TaskID = oe_TaskID ev, re_EventSeq = oe_EventSeq ev, re_Payload = oe_Payload ev\<rparr>"
  using assms
  by (simp add: decodeRealtimeEvent_def delivery_of_def event_publishing_def string_header_def
      headerInt64_def)

definition example_event :: "int \<Rightarrow> outbox_event" where
  "example_event n =
     \<lparr>oe_ID = n, oe_TaskID = ''t'', oe_EventSeq = n, oe_Payload = ''{}'', oe_ClaimToken = ''k''\<rparr>"

lemma example_payload_valid: "json_Valid ''{}''"
  by code_simp

lemma realtime_event_roundtrip_witness:
  "decodeRealtimeEvent (delivery_of (event_publishing (example_event 7)) 1 False) =
    Inr \<lparr>re_TaskID = ''t'', re_EventSeq = 7, re_Payload = ''{}''\<rparr>"
  using realtime_event_roundtrip [of "example_event 7" 1 False] example_payload_valid
  by (simp add: example_event_def)

subsection \<open>Confirmed publishes\<close>

text \<open>
  The calls of one event publisher, in the order its mutex serves them. It starts without a session, as
  \<open>NewRabbitMQMetricEventPublisher\<close> makes it; the first component of its state is the field \<open>closed\<close>.
\<close>

datatype event_call = CallPublish outbox_event | CallClose

definition new_event_publisher :: "'w \<Rightarrow> bool \<times> 'w publisher" where
  "new_event_publisher w = (False, \<lparr>pb_client = False, pb_log = [], pb_world = w\<rparr>)"

fun event_calls ::
  "'w publisher_env \<Rightarrow> event_publisher_config \<Rightarrow> event_call list \<Rightarrow> bool \<times> 'w publisher
    \<Rightarrow> go_error option list \<times> bool \<times> 'w publisher" where
  "event_calls e cfg [] p = ([], p)"
| "event_calls e cfg (CallPublish ev # cs) (closed, s) =
     (case event_Publish e cfg ev closed s of
        (r, s1) \<Rightarrow> (case event_calls e cfg cs (closed, s1) of (rs, p) \<Rightarrow> (r # rs, p)))"
| "event_calls e cfg (CallClose # cs) (closed, s) =
     (case event_calls e cfg cs (event_Close e closed s) of (rs, p) \<Rightarrow> (None # rs, p))"

lemma event_Close_inv: "worker_inv s \<Longrightarrow> worker_inv (snd (event_Close e closed s))"
  by (auto simp: event_Close_def worker_inv_def resetSession_def closePublisherSession_def)

lemma event_calls_inv:
  "event_calls e cfg cs p = (rs, q) \<Longrightarrow> worker_inv (snd p) \<Longrightarrow> worker_inv (snd q)"
proof (induction e cfg cs p arbitrary: rs q rule: event_calls.induct)
  case (2 e cfg ev cs closed s)
  obtain r s1 where a: "event_Publish e cfg ev closed s = (r, s1)" by fastforce
  obtain rs1 q1 where b: "event_calls e cfg cs (closed, s1) = (rs1, q1)" by (metis surj_pair)
  have "worker_inv s1" using event_Publish_spec [OF a] "2.prems"(2) by simp
  then show ?case using "2.IH" [OF a [symmetric] b] "2.prems"(1) a b by simp
next
  case (3 e cfg cs closed s)
  obtain rs1 q1 where b: "event_calls e cfg cs (event_Close e closed s) = (rs1, q1)" by (metis surj_pair)
  show ?case using "3.IH" [OF b] event_Close_inv "3.prems" b by auto
qed simp

text \<open>What a call that returns nil adds to the log.\<close>

lemma event_Publish_adds:
  assumes "event_Publish e cfg ev closed s = (None, t)"
  obtains tag poll before where "pb_log t = PEvent (GotConfirm tag True poll) # PPublish (event_publishing ev) True # before"
    "before = pb_log s \<or> before = POpened True # pb_log s"
  using assms
  by (auto simp: event_Publish_def Let_def realtime_result_def ctx_ended_def
      split: if_splits prod.splits option.splits publish_event.splits)

lemma answers_match_newest: "answers_match (PEvent ev # older) \<Longrightarrow> outstanding older = 1"
  by (cases ev) simp_all

text \<open>
  C25. For the realtime publisher nil means confirmed: after any sequence of calls of \<open>Publish\<close> and
  \<open>Close\<close> on a new publisher (which has no session yet, so also after opens that failed), a call of
  \<open>Publish\<close> that returns nil has done exactly this: opened a session, if there was none, published this very event and
  read a positive confirmation as its answer; and no other publish of the session was unanswered, so
  the confirmation is this event's.
\<close>

theorem realtime_nil_means_confirmed:
  assumes "event_calls e cfg calls (new_event_publisher w) = (rs, closed, s)"
    and "event_Publish e cfg ev closed s = (None, t)"
  shows "\<exists>tag poll before. pb_log t =
      PEvent (GotConfirm tag True poll) # PPublish (event_publishing ev) True # before \<and>
    (before = pb_log s \<or> before = POpened True # pb_log s) \<and>
    outstanding (PPublish (event_publishing ev) True # before) = 1"
proof -
  obtain tag poll before where log: "pb_log t = PEvent (GotConfirm tag True poll) # PPublish (event_publishing ev) True # before"
    "before = pb_log s \<or> before = POpened True # pb_log s"
    by (rule event_Publish_adds [OF assms(2)])
  have "worker_inv (snd (new_event_publisher w))" by (simp add: worker_inv_def new_event_publisher_def)
  from event_calls_inv [OF assms(1) this] have "worker_inv s" by simp
  then have "worker_inv t" using event_Publish_spec [OF assms(2)] by blast
  then have "outstanding (PPublish (event_publishing ev) True # before) = 1"
    using answers_match_newest log(1) by (auto simp: worker_inv_def)
  with log show ?thesis by blast
qed

definition example_event_config :: event_publisher_config where
  "example_event_config =
     \<lparr>ec_URL = ''amqp'', ec_WriteTimeout = 5 * second, ec_ConfirmTimeout = 5 * second,
      ec_Topology = DefaultTopology\<rparr>"

lemma realtime_nil_means_confirmed_witness:
  "\<exists>s t tag poll before.
    event_calls nack_then_ack_env example_event_config [CallPublish (example_event 1)] (new_event_publisher 0)
      = ([Some ErrBrokerNack], False, s) \<and>
    event_Publish nack_then_ack_env example_event_config (example_event 1) False s = (None, t) \<and>
    pb_log t = PEvent (GotConfirm tag True poll) # PPublish (event_publishing (example_event 1)) True # before"
proof -
  note run = nack_then_ack_env_def new_event_publisher_def event_Publish_def event_openSession_def Let_def
    declareRealtimeTopology_def realtime_topology_calls_def realtime_result_def resetSession_def
    closePublisherSession_def
    example_event_config_def DefaultTopology_def
  obtain s where a: "event_calls nack_then_ack_env example_event_config [CallPublish (example_event 1)]
      (new_event_publisher 0) = ([Some ErrBrokerNack], False, s)" "pb_world s = 1" "\<not> pb_client s"
    by (simp add: run)
  then obtain t where "event_Publish nack_then_ack_env example_event_config (example_event 1) False s
      = (None, t)"
    by (simp add: run)
  with realtime_nil_means_confirmed [OF a(1) this] a(1) show ?thesis by blast
qed

subsection \<open>The bridge's deduplication\<close>

text \<open>
  C21. Over the whole life of a bridge (all sessions of \<open>Run\<close>), whatever the broker redelivers, reorders or duplicates
  and whatever the sink answers: the sink accepts each task's events in strictly increasing
  order of sequence number (never twice), and every delivery that was acknowledged is either
  undecodable or is covered, that is, the sink accepted this event or a later one of its task.
\<close>

theorem bridge_delivers_once_in_order:
  "increasing (accepted (br_log (snd (bridge_Run e r cfg evss backoff (new_bridge w))))) \<and>
    acks_ok (br_log (snd (bridge_Run e r cfg evss backoff (new_bridge w))))"
proof -
  have "bridge_inv (snd (bridge_Run e r cfg evss backoff (new_bridge w)))"
    by (rule bridge_Run_inv [OF surjective_pairing new_bridge_inv])
  then show ?thesis by (simp add: bridge_inv_def)
qed

text \<open>The bridge seen from its hub: the world is the list of answers of the hub to come.\<close>

definition scripted_env :: "bool list bridge_env" where
  "scripted_env =
     \<lparr>be_handle = (\<lambda>_ w. (if hd w then None else Some (ErrNew ''context canceled''), tl w)),
      be_ack = (\<lambda>_ w. (None, w)), be_nack = (\<lambda>_ _ w. (None, w)), be_wait = (\<lambda>_ w. (True, w)),
      be_ctx_err = (\<lambda>_. None)\<rparr>"

definition event_delivery :: "int \<Rightarrow> bool \<Rightarrow> delivery" where
  "event_delivery n red = delivery_of (event_publishing (example_event n)) (nat n) red"

definition example_bridge_config :: bridge_config where
  "example_bridge_config =
     \<lparr>bc_URL = ''amqp'', bc_InstanceID = ''a'', bc_Topology = DefaultTopology,
      bc_SinkFailureBackoff = 100 * millisecond, bc_SinkFailureMaxBackoff = 5 * second,
      bc_ReconnectBackoff = 100 * millisecond, bc_ReconnectMaxBackoff = 5 * second\<rparr>"

lemma event_delivery_decodes:
  "0 < n \<Longrightarrow> decodeRealtimeEvent (event_delivery n red) =
    Inr \<lparr>re_TaskID = ''t'', re_EventSeq = n, re_Payload = ''{}''\<rparr>"
  using example_payload_valid
  by (simp add: event_delivery_def example_event_def decodeRealtimeEvent_def delivery_of_def
      event_publishing_def string_header_def headerInt64_def)

text \<open>
  The converse does not hold for a sink that fails while the bridge goes on: an event whose
  handling failed is requeued, and if the next event of its task (already prefetched) is handled
  before the redelivery, the redelivery counts as already seen. The bridge acknowledges it and
  the sink never gets it. The scenario: event 1 fails and is requeued, event 2 is accepted,
  event 1 is redelivered; the session goes on, and the sink has accepted event 2 only. (The
  hub of this repository fails only when the bridge's own context has ended, so today the
  retry path is reached by other sinks only.)
\<close>

theorem requeued_event_is_lost:
  "\<exists>t. bridge_consumeSession scripted_env example_bridge_config
      [BDelivery (event_delivery 1 False), BDelivery (event_delivery 2 False),
       BDelivery (event_delivery 1 True)] (new_bridge [False, True]) = (None, t) \<and>
    br_log t = [BAck (event_delivery 1 True) True, BAck (event_delivery 2 False) True,
      BHandle \<lparr>re_TaskID = ''t'', re_EventSeq = 2, re_Payload = ''{}''\<rparr> True,
      BRequeue (event_delivery 1 False) True,
      BHandle \<lparr>re_TaskID = ''t'', re_EventSeq = 1, re_Payload = ''{}''\<rparr> False]"
  by (simp add: bridge_consumeSession_def bridge_delivery_def event_delivery_decodes scripted_env_def
      bridge_seen_def last_of_def new_bridge_def bridge_ack_def bridge_remember_def br_note_def Let_def)

end
