(* ===== verification/BridgeSink.thy ===== *)
theory BridgeSink
  imports RealtimeProps
begin

section \<open>The bridge on the hub\<close>

text \<open>
  The interface between \<open>event_bridge.go\<close> and its \<open>EventSink\<close>: a relation between the events the sink
  has accepted and its world, which every call of the sink keeps. From it follows that the relation
  holds over the whole life of a bridge, whatever its sessions do (theory \<open>EventFlow\<close> is the sink the
  API has).
\<close>

subsection \<open>The interface\<close>

text \<open>\<open>R\<close> relates the events the sink has accepted, newest first, to the world.\<close>

locale bridge_sink =
  fixes handle :: "realtime_event \<Rightarrow> 'w \<Rightarrow> go_error option \<times> 'w"
    and R :: "realtime_event list \<Rightarrow> 'w \<Rightarrow> bool"
  assumes accepts: "handle ev w = (None, w') \<Longrightarrow> R evs w \<Longrightarrow> R (ev # evs) w'"
    and refuses: "handle ev w = (Some err, w') \<Longrightarrow> R evs w \<Longrightarrow> R evs w'"

text \<open>The other calls of the bridge do not touch what is related.\<close>

definition others_keep ::
  "('w \<Rightarrow> 'w \<Rightarrow> bool) \<Rightarrow> 'w bridge_env \<Rightarrow> 'w bridge_run_env \<Rightarrow> bool" where
  "others_keep K e r \<longleftrightarrow>
     (\<forall>w. (\<forall>d. K w (snd (be_ack e d w))) \<and> (\<forall>d b. K w (snd (be_nack e d b w))) \<and>
        (\<forall>d. K w (snd (be_wait e d w))) \<and> K w (snd (bv_dial r w)) \<and>
        (\<forall>c. K w (snd (bv_call r c w))) \<and> K w (bv_close r w))"

definition keeps :: "(realtime_event list \<Rightarrow> 'w \<Rightarrow> bool) \<Rightarrow> 'w \<Rightarrow> 'w \<Rightarrow> bool" where
  "keeps R w w' \<longleftrightarrow> (\<forall>evs. R evs w \<longrightarrow> R evs w')"

lemma keepsD:
  assumes "others_keep (keeps R) e r" "R evs w"
  shows "be_ack e d w = (x, w') \<Longrightarrow> R evs w'" "be_nack e d b w = (x, w') \<Longrightarrow> R evs w'"
    "be_wait e dur w = (ok, w') \<Longrightarrow> R evs w'" "bv_dial r w = (x, w') \<Longrightarrow> R evs w'"
    "bv_call r c w = (x, w') \<Longrightarrow> R evs w'" "R evs (bv_close r w)"
  using assms unfolding others_keep_def keeps_def by (metis snd_conv)+

definition related :: "(realtime_event list \<Rightarrow> 'w \<Rightarrow> bool) \<Rightarrow> 'w bridge \<Rightarrow> bool" where
  "related R s \<longleftrightarrow> R (accepted (br_log s)) (br_world s)"

lemma related_world [simp]: "related R (s\<lparr>br_world := w\<rparr>) \<longleftrightarrow> R (accepted (br_log s)) w"
  by (simp add: related_def)

lemma related_backoff [simp]: "related R (s\<lparr>br_backoff := b\<rparr>) = related R s"
  by (simp add: related_def)

lemma bridge_ack_related:
  assumes "others_keep (keeps R) e r" "bridge_ack e d s = (x, t)" "related R s"
  shows "related R t"
proof -
  obtain y w where a: "be_ack e d (br_world s) = (y, w)" by fastforce
  have "R (accepted (br_log s)) w" using keepsD(1) [OF assms(1) _ a] assms(3) by (simp add: related_def)
  then show ?thesis using assms(2) a by (cases y) (auto simp: bridge_ack_def related_def)
qed

lemma bridge_reconnect_related:
  assumes "others_keep (keeps R) e r" "bridge_reconnect e cfg d s = (x, t)" "related R s"
  shows "related R t"
proof -
  obtain ok w where a: "be_wait e d (br_world s) = (ok, w)" by fastforce
  have "R (accepted (br_log s)) w" using keepsD(3) [OF assms(1) _ a] assms(3) by (simp add: related_def)
  then show ?thesis using assms(2) a by (cases ok) (auto simp: bridge_reconnect_def)
qed

lemma openSession_related:
  assumes "others_keep (keeps R) e r" "R evs w"
    and "bridge_openSession (bv_dial r) (bv_call r) (bv_queue_name r) (bv_close r) cfg w = (x, w')"
  shows "R evs w'"
proof -
  note K = keepsD [OF assms(1), where evs = evs]
  obtain e1 w1 where 1: "bv_dial r w = (e1, w1)" by fastforce
  have R1: "R evs w1" by (rule K(4) [OF assms(2) 1])
  obtain e2 w2 where 2: "declareRealtimeTopology (bv_call r) (bc_Topology cfg) w1 = (e2, w2)" by fastforce
  have R2: "R evs w2"
    using run_calls_inv [of "bv_call r" _ w1 e2 w2 "R evs"] 2 R1 K(5) unfolding declareRealtimeTopology_def by blast
  obtain e3 w3 where 3: "bv_call r (QueueDeclare [] False True True False []) w2 = (e3, w3)" by fastforce
  have R3: "R evs w3" by (rule K(5) [OF R2 3])
  obtain e4 w4 where 4: "bv_call r (QueueBind (bv_queue_name r w3) [] (tp_RealtimeExchange (bc_Topology cfg)) False [])
    w3 = (e4, w4)" by fastforce
  have R4: "R evs w4" by (rule K(5) [OF R3 4])
  obtain e5 w5 where 5: "bv_call r (Consume (bv_queue_name r w3) (''metrics-events-'' @ bc_InstanceID cfg)
    False True False False []) w4 = (e5, w5)" by fastforce
  have R5: "R evs w5" by (rule K(5) [OF R4 5])
  show ?thesis
    using assms(3) 1 2 3 4 5 R1 K(6) [OF R2] K(6) [OF R3] K(6) [OF R4] K(6) [OF R5] R5
    by (auto simp: bridge_openSession_def split: option.splits)
qed

context bridge_sink
begin

lemma bridge_delivery_related:
  assumes "be_handle e = handle" "others_keep (keeps R) e r"
    and "bridge_delivery e cfg d s = (x, t)" "related R s"
  shows "related R t"
proof (cases "\<exists>ev. decodeRealtimeEvent d = Inr ev \<and> \<not> bridge_seen ev s")
  case False
  then have "bridge_ack e d s = (x, t)"
    using assms(3) by (cases "decodeRealtimeEvent d") (auto simp: bridge_delivery_def)
  then show ?thesis by (rule bridge_ack_related [OF assms(2) _ assms(4)])
next
  case True
  then obtain ev where ev: "decodeRealtimeEvent d = Inr ev" "\<not> bridge_seen ev s" by blast
  obtain herr w where h: "handle ev (br_world s) = (herr, w)" by fastforce
  note R = assms(4) [unfolded related_def]
  show ?thesis
  proof (cases herr)
    case None
    let ?s = "bridge_remember ev ((br_note (BHandle ev True) w s)\<lparr>br_backoff := bc_SinkFailureBackoff cfg\<rparr>)"
    have "related R ?s"
      using accepts [OF h [unfolded None] R] by (simp add: related_def bridge_remember_def)
    moreover have "bridge_ack e d ?s = (x, t)"
      using assms(1,3) ev h None by (simp add: bridge_delivery_def)
    ultimately show ?thesis using bridge_ack_related [OF assms(2)] by blast
  next
    case (Some err)
    have w: "R (accepted (br_log s)) w" by (rule refuses [OF h [unfolded Some] R])
    obtain nerr w1 where n: "be_nack e d True w = (nerr, w1)" by fastforce
    have w1: "R (accepted (br_log s)) w1" by (rule keepsD(2) [OF assms(2) w n])
    obtain ok w2 where wt: "be_wait e (br_backoff s) w1 = (ok, w2)" by fastforce
    have "R (accepted (br_log s)) w2" by (rule keepsD(3) [OF assms(2) w1 wt])
    then show ?thesis
      using assms(1,3) ev h Some n wt w1
      by (cases nerr; cases ok) (auto simp: bridge_delivery_def related_def Let_def)
  qed
qed

lemma bridge_loop_related:
  "be_handle e = handle \<Longrightarrow> others_keep (keeps R) e r \<Longrightarrow> bridge_loop e cfg evs s = (x, t) \<Longrightarrow>
    related R s \<Longrightarrow> related R t"
proof (induction evs arbitrary: s)
  case (Cons y ys)
  show ?case
  proof (cases y)
    case (BDelivery d)
    obtain r1 s1 where d: "bridge_delivery e cfg d s = (r1, s1)" by fastforce
    have "related R s1" by (rule bridge_delivery_related [OF Cons.prems(1,2) d Cons.prems(4)])
    then show ?thesis using Cons BDelivery d by (cases r1) auto
  qed (use Cons in auto)
qed simp

lemma bridge_turn_related:
  assumes "be_handle e = handle" "others_keep (keeps R) e r"
    and "bridge_turn e r cfg evs backoff s = (b, t)" "related R s"
  shows "related R t"
proof -
  obtain o1 w1 where o1: "bridge_openSession (bv_dial r) (bv_call r) (bv_queue_name r) (bv_close r) cfg
      (br_world s) = (o1, w1)" by fastforce
  have w1: "R (accepted (br_log s)) w1"
    by (rule openSession_related [OF assms(2) _ o1]) (use assms(4) in \<open>simp add: related_def\<close>)
  obtain r1 s1 where c: "bridge_consumeSession e cfg evs (s\<lparr>br_world := w1\<rparr>) = (r1, s1)" by fastforce
  have s1: "related R s1"
    using bridge_loop_related [OF assms(1,2) c [unfolded bridge_consumeSession_def]] w1 by simp
  note rec = bridge_reconnect_related [OF assms(2)]
  consider "be_ctx_err e (br_world s) \<noteq> None" | "be_ctx_err e (br_world s) = None" "o1 \<noteq> None"
    | "be_ctx_err e (br_world s) = None" "o1 = None" by blast
  then show ?thesis
  proof cases
    case 1
    then show ?thesis using assms(3,4) by (simp add: bridge_turn_def)
  next
    case 2
    then have "bridge_reconnect e cfg backoff (s\<lparr>br_world := w1\<rparr>) = (b, t)"
      using assms(3) o1 by (auto simp: bridge_turn_def)
    from rec [OF this] w1 show ?thesis by simp
  next
    case 3
    have closed: "related R (s1\<lparr>br_world := bv_close r (br_world s1)\<rparr>)"
      using keepsD(6) [OF assms(2)] s1 by (simp add: related_def)
    show ?thesis
      using assms(3) o1 c s1 3 closed rec [OF _ closed]
      by (cases r1) (auto simp: bridge_turn_def Let_def split: if_splits)
  qed
qed

lemma bridge_Run_related:
  "be_handle e = handle \<Longrightarrow> others_keep (keeps R) e r \<Longrightarrow> bridge_Run e r cfg evss backoff s = (b, t) \<Longrightarrow>
    related R s \<Longrightarrow> related R t"
proof (induction evss arbitrary: s backoff)
  case (Cons evs rest)
  obtain b1 s1 where a: "bridge_turn e r cfg evs backoff s = (b1, s1)" by fastforce
  have "related R s1" by (rule bridge_turn_related [OF Cons.prems(1,2) a Cons.prems(4)])
  then show ?case using Cons a by (cases b1) auto
qed simp

end

end
