(* ===== verification/Hub.thy ===== *)
theory Hub
  imports Domain
begin

section \<open>The SSE hub\<close>

text \<open>
  \<open>internal/sse/hub.go\<close>. A Go channel is an object with an identity (the subscription's
  \<open>close\<close> closure, the hub's map and the reader share it), so channels live in a store and are
  named by their address; a channel made with capacity 64 is its buffer and whether it was closed.
  The map of a task is an association list from identifiers to channels. The three operations
  come first; the step relation then says how they interleave under the read-write lock.
\<close>

record sse_event =
  se_TaskID :: string
  se_EventSeq :: int
  se_Payload :: string

record channel =
  ch_buf :: "sse_event list"
  ch_closed :: bool

text \<open>A \<open>Subscription\<close> is its channel and what its \<open>close\<close> function captures.\<close>

record subscription =
  sb_task :: string
  sb_id :: "64 word"
  sb_chan :: nat

record hub =
  hb_nextID :: "64 word"
  hb_subs :: "string \<rightharpoonup> (64 word \<times> nat) list"
  hb_chans :: "channel list"

subsection \<open>The operations\<close>

definition NewHub :: hub where
  "NewHub = \<lparr>hb_nextID = 0, hb_subs = Map.empty, hb_chans = []\<rparr>"

definition channels_of :: "hub \<Rightarrow> string \<Rightarrow> (64 word \<times> nat) list" where
  "channels_of h task = (case hb_subs h task of None \<Rightarrow> [] | Some cs \<Rightarrow> cs)"

definition channel_capacity :: nat where
  "channel_capacity = 64"

definition hub_Subscribe :: "string \<Rightarrow> hub \<Rightarrow> subscription \<times> hub" where
  "hub_Subscribe taskID h =
     (let ident = hb_nextID h + 1;
          ch = length (hb_chans h)
      in (\<lparr>sb_task = taskID, sb_id = ident, sb_chan = ch\<rparr>,
          h\<lparr>hb_nextID := ident,
            hb_subs := (hb_subs h)(taskID \<mapsto> AList.update ident ch (channels_of h taskID)),
            hb_chans := hb_chans h @ [\<lparr>ch_buf = [], ch_closed = False\<rparr>]\<rparr>))"

text \<open>\<open>Subscription.Close\<close>; \<open>None\<close> is the panic of closing a closed channel.\<close>

definition hub_Close :: "subscription \<Rightarrow> hub \<Rightarrow> hub option" where
  "hub_Close sub h =
     (case hb_subs h (sb_task sub) of
        None \<Rightarrow> Some h
      | Some channels \<Rightarrow>
          (let rest = AList.delete (sb_id sub) channels;
               c = hb_chans h ! sb_chan sub
           in if ch_closed c then None
              else Some (h\<lparr>hb_subs := (hb_subs h)(sb_task sub := if rest = [] then None else Some rest),
                          hb_chans := (hb_chans h)[sb_chan sub := c\<lparr>ch_closed := True\<rparr>]\<rparr>)))"

datatype send_result = Sent hub | Blocked | SendPanic

text \<open>One \<open>ch <- event\<close> of \<open>Publish\<close>.\<close>

definition hub_send :: "sse_event \<Rightarrow> nat \<Rightarrow> hub \<Rightarrow> send_result" where
  "hub_send ev ch h =
     (let c = hb_chans h ! ch
      in if ch_closed c then SendPanic
         else if length (ch_buf c) < channel_capacity
         then Sent (h\<lparr>hb_chans := (hb_chans h)[ch := c\<lparr>ch_buf := ch_buf c @ [ev]\<rparr>]\<rparr>)
         else Blocked)"

text \<open>The reader's \<open><-sub.C\<close>; \<open>None\<close> when there is nothing buffered.\<close>

definition hub_receive :: "nat \<Rightarrow> hub \<Rightarrow> (sse_event \<times> hub) option" where
  "hub_receive ch h =
     (case ch_buf (hb_chans h ! ch) of
        [] \<Rightarrow> None
      | ev # rest \<Rightarrow> Some (ev, h\<lparr>hb_chans := (hb_chans h)[ch := (hb_chans h ! ch)\<lparr>ch_buf := rest\<rparr>]\<rparr>))"

definition HandleMetricEvent :: "realtime_event \<Rightarrow> sse_event" where
  "HandleMetricEvent ev =
     \<lparr>se_TaskID = re_TaskID ev, se_EventSeq = re_EventSeq ev, se_Payload = re_Payload ev\<rparr>"

subsection \<open>Interleavings\<close>

text \<open>
  \<open>Subscribe\<close> and \<open>Close\<close> hold the write lock for a section that never blocks: one step, taken
  when no publisher holds the read lock. \<open>Publish\<close> holds the read lock while it sends to each
  channel of the task in the order the map iteration gives: a step to enter, one per send, one to
  leave, and one for the end of its context. The bridge calls it from one goroutine, so there
  is at most one publisher. The last four fields are history: the subscriptions not yet
  closed, the events published, what each channel's reader received, and the length of
  the history when the channel was made; \<open>hs_ended\<close> records that a publish was cancelled.
\<close>

record hub_sys =
  hs_hub :: hub
  hs_pub :: "(sse_event \<times> nat list) option"
  hs_open :: "subscription list"
  hs_history :: "sse_event list"
  hs_got :: "nat \<Rightarrow> sse_event list"
  hs_from :: "nat \<Rightarrow> nat"
  hs_ended :: bool

definition hub_start :: hub_sys where
  "hub_start = \<lparr>hs_hub = NewHub, hs_pub = None, hs_open = [], hs_history = [], hs_got = (\<lambda>_. []),
     hs_from = (\<lambda>_. 0), hs_ended = False\<rparr>"

datatype hub_label =
    LSubscribe subscription
  | LClose subscription
  | LStart sse_event
  | LSend nat
  | LDone
  | LCancel
  | LReceive nat sse_event

inductive hub_step :: "hub_sys \<Rightarrow> hub_label \<Rightarrow> hub_sys \<Rightarrow> bool" where
  subscribe: "hs_pub s = None \<Longrightarrow> hub_Subscribe task (hs_hub s) = (sub, h) \<Longrightarrow>
    hub_step s (LSubscribe sub)
      (s\<lparr>hs_hub := h, hs_open := sub # hs_open s,
         hs_from := (hs_from s)(sb_chan sub := length (hs_history s))\<rparr>)"
| close: "hs_pub s = None \<Longrightarrow> sub \<in> set (hs_open s) \<Longrightarrow> hub_Close sub (hs_hub s) = Some h \<Longrightarrow>
    hub_step s (LClose sub) (s\<lparr>hs_hub := h, hs_open := remove1 sub (hs_open s)\<rparr>)"
| start: "hs_pub s = None \<Longrightarrow> mset order = mset (map snd (channels_of (hs_hub s) (se_TaskID ev))) \<Longrightarrow>
    hub_step s (LStart ev) (s\<lparr>hs_pub := Some (ev, order), hs_history := hs_history s @ [ev]\<rparr>)"
| send: "hs_pub s = Some (ev, ch # rest) \<Longrightarrow> hub_send ev ch (hs_hub s) = Sent h \<Longrightarrow>
    hub_step s (LSend ch) (s\<lparr>hs_hub := h, hs_pub := Some (ev, rest)\<rparr>)"
| finished: "hs_pub s = Some (ev, []) \<Longrightarrow> hub_step s LDone (s\<lparr>hs_pub := None\<rparr>)"
| cancel: "hs_pub s = Some (ev, ch # rest) \<Longrightarrow>
    hub_step s LCancel (s\<lparr>hs_pub := None, hs_ended := True\<rparr>)"
| receive: "ch < length (hb_chans (hs_hub s)) \<Longrightarrow> hub_receive ch (hs_hub s) = Some (ev, h) \<Longrightarrow>
    hub_step s (LReceive ch ev) (s\<lparr>hs_hub := h, hs_got := (hs_got s)(ch := hs_got s ch @ [ev])\<rparr>)"

inductive hub_run :: "hub_sys \<Rightarrow> hub_label list \<Rightarrow> hub_sys \<Rightarrow> bool" where
  stop: "hub_run s [] s"
| more: "hub_step s l t \<Longrightarrow> hub_run t ls u \<Longrightarrow> hub_run s (l # ls) u"

inductive_cases hub_stepE: "hub_step s l t"
inductive_simps hub_run_Nil [simp]: "hub_run s [] t"
inductive_simps hub_run_Cons: "hub_run s (l # ls) t"

lemma hub_run_append: "hub_run s ls t \<Longrightarrow> hub_run t ms u \<Longrightarrow> hub_run s (ls @ ms) u"
  by (induction rule: hub_run.induct) (auto intro: hub_run.intros)

subsection \<open>The invariant\<close>

definition nth_id :: "nat \<Rightarrow> 64 word" where
  "nth_id n = word_of_nat (Suc n)"

text \<open>
  The hub's map holds exactly the open subscriptions, whose channels are open and distinct, and
  no task has an empty map; identifiers count the subscriptions (2^64 of them before they repeat).
\<close>

definition entry :: "subscription \<Rightarrow> 64 word \<times> nat" where
  "entry s = (sb_id s, sb_chan s)"

definition hub_wf :: "hub \<Rightarrow> subscription list \<Rightarrow> bool" where
  "hub_wf h subs \<longleftrightarrow>
     hb_nextID h = word_of_nat (length (hb_chans h)) \<and>
     distinct (map sb_chan subs) \<and>
     (\<forall>s \<in> set subs. sb_chan s < length (hb_chans h) \<and> sb_id s = nth_id (sb_chan s) \<and>
        \<not> ch_closed (hb_chans h ! sb_chan s)) \<and>
     (\<forall>task. distinct (map fst (channels_of h task)) \<and> hb_subs h task \<noteq> Some [] \<and>
        set (channels_of h task) = entry ` {s \<in> set subs. sb_task s = task})"

text \<open>What is still owed to a channel by the publish in progress.\<close>

definition owed :: "(sse_event \<times> nat list) option \<Rightarrow> nat \<Rightarrow> sse_event list" where
  "owed pub ch = (case pub of None \<Rightarrow> [] | Some (ev, rest) \<Rightarrow> if ch \<in> set rest then [ev] else [])"

definition delivered :: "hub_sys \<Rightarrow> subscription \<Rightarrow> bool" where
  "delivered s sub \<longleftrightarrow>
     hs_got s (sb_chan sub) @ ch_buf (hb_chans (hs_hub s) ! sb_chan sub) @ owed (hs_pub s) (sb_chan sub) =
     filter (\<lambda>ev. se_TaskID ev = sb_task sub) (drop (hs_from s (sb_chan sub)) (hs_history s)) \<and>
     hs_from s (sb_chan sub) \<le> length (hs_history s)"

definition publisher_ok :: "hub_sys \<Rightarrow> bool" where
  "publisher_ok s \<longleftrightarrow>
     (case hs_pub s of
        None \<Rightarrow> True
      | Some (ev, rest) \<Rightarrow> distinct rest \<and>
          (\<forall>ch \<in> set rest. \<exists>sub \<in> set (hs_open s). sb_task sub = se_TaskID ev \<and> sb_chan sub = ch))"

definition hub_inv :: "hub_sys \<Rightarrow> bool" where
  "hub_inv s \<longleftrightarrow>
     hub_wf (hs_hub s) (hs_open s) \<and> publisher_ok s \<and>
     (\<forall>ch \<ge> length (hb_chans (hs_hub s)). hs_got s ch = []) \<and>
     (hs_ended s \<or> (\<forall>sub \<in> set (hs_open s). delivered s sub))"

lemma channels_of_upd:
  "channels_of (h\<lparr>hb_subs := (hb_subs h)(t := v)\<rparr>) task =
    (if task = t then (case v of None \<Rightarrow> [] | Some cs \<Rightarrow> cs) else channels_of h task)"
  by (simp add: channels_of_def)

lemma channels_of_frame [simp]:
  "channels_of (h\<lparr>hb_chans := cs\<rparr>) task = channels_of h task"
  "channels_of (h\<lparr>hb_nextID := n\<rparr>) task = channels_of h task"
  by (simp_all add: channels_of_def)

lemma hub_start_inv: "hub_inv hub_start"
  by (simp add: hub_inv_def hub_wf_def hub_start_def NewHub_def publisher_ok_def channels_of_def)

text \<open>Fewer than 2^64 subscriptions have distinct identifiers.\<close>

lemma unat_nth_id: "Suc n < 2 ^ 64 \<Longrightarrow> unat (nth_id n) = Suc n"
  unfolding nth_id_def unat_of_nat by (simp del: of_nat_Suc)

lemma nth_id_inject:
  assumes "Suc m < 2 ^ 64" "n < m"
  shows "nth_id n \<noteq> nth_id m"
  using unat_nth_id [of n] unat_nth_id [of m] assms by force

lemma subscribe_wf:
  assumes wf: "hub_wf h subs" and len: "Suc (length (hb_chans h)) < 2 ^ 64"
    and sub: "hub_Subscribe task h = (sub, h')"
  shows "hub_wf h' (sub # subs)"
proof -
  let ?n = "length (hb_chans h)"
  have id: "hb_nextID h + 1 = nth_id ?n"
    using wf by (simp add: hub_wf_def nth_id_def)
  have sub': "sub = \<lparr>sb_task = task, sb_id = nth_id ?n, sb_chan = ?n\<rparr>"
    and h': "hb_nextID h' = nth_id ?n"
      "hb_subs h' = (hb_subs h)(task \<mapsto> AList.update (nth_id ?n) ?n (channels_of h task))"
      "hb_chans h' = hb_chans h @ [\<lparr>ch_buf = [], ch_closed = False\<rparr>]"
    using sub id by (auto simp: hub_Subscribe_def Let_def)
  have new: "nth_id ?n \<notin> fst ` set (channels_of h t)" for t
  proof
    assume "nth_id ?n \<in> fst ` set (channels_of h t)"
    then obtain s where "s \<in> set subs" "sb_id s = nth_id ?n"
      using wf by (auto simp: hub_wf_def entry_def)
    then show False using wf len nth_id_inject by (auto simp: hub_wf_def)
  qed
  have upd: "AList.update (nth_id ?n) ?n (channels_of h task)
      = channels_of h task @ [(nth_id ?n, ?n)]"
  proof -
    have "k \<notin> fst ` set al \<Longrightarrow> AList.update k v al = al @ [(k, v)]" for k :: "64 word" and v :: nat and al
      by (induction al) auto
    with new show ?thesis by blast
  qed
  have chans: "channels_of h' t = (if t = task then channels_of h task @ [(nth_id ?n, ?n)]
      else channels_of h t)" for t
    using upd by (simp add: channels_of_def h')
  show ?thesis
    unfolding hub_wf_def
  proof (intro conjI allI ballI)
    fix t
    show "distinct (map fst (channels_of h' t))"
      using wf new by (auto simp: hub_wf_def chans)
    show "hb_subs h' t \<noteq> Some []"
      using wf by (auto simp: hub_wf_def h' upd)
    show "set (channels_of h' t) = entry ` {s \<in> set (sub # subs). sb_task s = t}"
    proof -
      have "{s \<in> set (sub # subs). sb_task s = t} =
          (if t = task then insert sub {s \<in> set subs. sb_task s = t} else {s \<in> set subs. sb_task s = t})"
        using sub' by auto
      moreover have "entry sub = (nth_id ?n, ?n)" by (simp add: sub' entry_def)
      ultimately show ?thesis using wf by (simp add: hub_wf_def chans)
    qed
  next
    show "distinct (map sb_chan (sub # subs))"
      using wf by (auto simp: hub_wf_def sub')
  qed (use wf in \<open>auto simp: hub_wf_def sub' h' nth_append nth_id_def\<close>)
qed


lemma entry_fst_inj:
  assumes "hub_wf h subs" "length (hb_chans h) < 2 ^ 64" "s \<in> set subs" "s' \<in> set subs"
    and "sb_id s = sb_id s'"
  shows "sb_chan s = sb_chan s'"
proof -
  have "Suc (sb_chan s) < 2 ^ 64 \<or> Suc (sb_chan s) = 2 ^ 64" "sb_chan s < 2 ^ 64 - 1"
    using assms(1-3) by (auto simp: hub_wf_def)
  moreover have "sb_chan s' < 2 ^ 64 - 1"
    using assms(1,2,4) by (auto simp: hub_wf_def)
  moreover have "nth_id (sb_chan s) = nth_id (sb_chan s')"
    using assms by (auto simp: hub_wf_def)
  ultimately show ?thesis
    using nth_id_inject [of "sb_chan s" "sb_chan s'"] nth_id_inject [of "sb_chan s'" "sb_chan s"]
    by (cases "sb_chan s" "sb_chan s'" rule: linorder_cases) auto
qed

text \<open>Closing an open subscription finds its channel open: no panic, and the map stays exact.\<close>

lemma close_wf:
  assumes wf: "hub_wf h subs" and len: "length (hb_chans h) < 2 ^ 64" and sub: "sub \<in> set subs"
  shows "\<exists>h'. hub_Close sub h = Some h' \<and> hub_wf h' (remove1 sub subs) \<and>
    hb_chans h' = (hb_chans h)[sb_chan sub := (hb_chans h ! sb_chan sub)\<lparr>ch_closed := True\<rparr>]"
proof -
  let ?cs = "channels_of h (sb_task sub)"
  let ?rest = "AList.delete (sb_id sub) ?cs"
  have mem: "entry sub \<in> set ?cs" using wf sub by (auto simp: hub_wf_def)
  then obtain cs where cs: "hb_subs h (sb_task sub) = Some cs" "?cs = cs"
    by (cases "hb_subs h (sb_task sub)") (auto simp: channels_of_def)
  have opn: "\<not> ch_closed (hb_chans h ! sb_chan sub)" using wf sub by (auto simp: hub_wf_def)
  define h' where "h' = h\<lparr>hb_subs := (hb_subs h)(sb_task sub := if ?rest = [] then None else Some ?rest),
      hb_chans := (hb_chans h)[sb_chan sub := (hb_chans h ! sb_chan sub)\<lparr>ch_closed := True\<rparr>]\<rparr>"
  have run: "hub_Close sub h = Some h'"
    using cs opn by (simp add: hub_Close_def h'_def Let_def)
  have dist: "distinct subs" "\<And>s. s \<in> set subs \<Longrightarrow> s \<noteq> sub \<Longrightarrow> sb_chan s \<noteq> sb_chan sub"
    using wf sub by (auto simp: hub_wf_def distinct_map inj_on_def)
  have ids: "s \<in> set subs \<Longrightarrow> s \<noteq> sub \<Longrightarrow> sb_id s \<noteq> sb_id sub" for s
    using entry_fst_inj [OF wf len _ sub] dist(2) by blast
  have chans: "channels_of h' t = (if t = sb_task sub then ?rest else channels_of h t)" for t
    by (simp add: channels_of_def h'_def)
  have rest: "set ?rest = entry ` {s \<in> set (remove1 sub subs). sb_task s = sb_task sub}"
  proof -
    have "set ?rest = {e \<in> set ?cs. fst e \<noteq> sb_id sub}"
      by (auto simp: AList.delete_eq)
    also have "set ?cs = entry ` {s \<in> set subs. sb_task s = sb_task sub}"
      using wf by (simp add: hub_wf_def)
    finally show ?thesis using ids dist(1) by (auto simp: entry_def)
  qed
  have "hub_wf h' (remove1 sub subs)"
    unfolding hub_wf_def
  proof (intro conjI allI ballI)
    fix t
    show "distinct (map fst (channels_of h' t))"
      using wf by (auto simp: hub_wf_def chans distinct_delete)
    show "hb_subs h' t \<noteq> Some []"
      using wf by (auto simp: hub_wf_def h'_def)
    show "set (channels_of h' t) = entry ` {s \<in> set (remove1 sub subs). sb_task s = t}"
    proof (cases "t = sb_task sub")
      case False
      then have "{s \<in> set (remove1 sub subs). sb_task s = t} = {s \<in> set subs. sb_task s = t}"
        using dist(1) by auto
      then show ?thesis using wf False by (simp add: hub_wf_def chans)
    qed (simp add: chans rest)
  next
    show "distinct (map sb_chan (remove1 sub subs))"
      using wf by (auto simp: hub_wf_def distinct_map dist(1) inj_on_def)
  next
    fix s assume "s \<in> set (remove1 sub subs)"
    then have "s \<in> set subs" "s \<noteq> sub" using dist(1) by auto
    then show "sb_chan s < length (hb_chans h')" "sb_id s = nth_id (sb_chan s)"
      "\<not> ch_closed (hb_chans h' ! sb_chan s)"
      using wf dist(2) [of s] by (auto simp: hub_wf_def h'_def nth_list_update_neq)
  qed (use wf in \<open>auto simp: hub_wf_def h'_def\<close>)
  with run show ?thesis by (auto simp: h'_def)
qed

lemma hub_wf_chans:
  assumes "hub_wf h subs" "length cs = length (hb_chans h)"
    and "\<And>i. i < length cs \<Longrightarrow> ch_closed (cs ! i) = ch_closed (hb_chans h ! i)"
  shows "hub_wf (h\<lparr>hb_chans := cs\<rparr>) subs"
  using assms by (simp add: hub_wf_def)

lemma ch_closed_update [simp]:
  "ch_closed (cs[ch := (cs ! ch)\<lparr>ch_buf := b\<rparr>] ! i) = ch_closed (cs ! i)"
  by (cases "ch < length cs"; cases "i = ch") (simp_all add: not_less list_update_beyond)

lemma ch_buf_update [simp]:
  "ch_buf (cs[ch := (cs ! ch)\<lparr>ch_closed := b\<rparr>] ! i) = ch_buf (cs ! i)"
  by (cases "ch < length cs"; cases "i = ch") (simp_all add: not_less list_update_beyond)

lemma hub_send_chans:
  "hub_send ev ch h = Sent h' \<longleftrightarrow>
    \<not> ch_closed (hb_chans h ! ch) \<and> length (ch_buf (hb_chans h ! ch)) < channel_capacity \<and>
    h' = h\<lparr>hb_chans := (hb_chans h)[ch := (hb_chans h ! ch)\<lparr>ch_buf := ch_buf (hb_chans h ! ch) @ [ev]\<rparr>]\<rparr>"
  by (auto simp: hub_send_def Let_def)

lemma hub_receive_chans:
  "hub_receive ch h = Some (ev, h') \<longleftrightarrow>
    (\<exists>rest. ch_buf (hb_chans h ! ch) = ev # rest \<and>
      h' = h\<lparr>hb_chans := (hb_chans h)[ch := (hb_chans h ! ch)\<lparr>ch_buf := rest\<rparr>]\<rparr>)"
  by (auto simp: hub_receive_def split: list.splits)

lemma hub_Close_length: "hub_Close sub h = Some h' \<Longrightarrow> length (hb_chans h') = length (hb_chans h)"
  by (auto simp: hub_Close_def Let_def split: option.splits if_splits)

lemma hub_step_length: "hub_step s l t \<Longrightarrow> length (hb_chans (hs_hub s)) \<le> length (hb_chans (hs_hub t))"
proof (induction rule: hub_step.induct)
  case (subscribe s task sub h)
  then show ?case by (simp add: hub_Subscribe_def Let_def) force
next
  case (close s sub h)
  then show ?case by (simp add: hub_Close_length)
next
  case (send s ev ch rest h)
  then show ?case by (simp add: hub_send_chans)
next
  case (receive ch s ev h)
  then show ?case by (auto simp: hub_receive_chans)
qed simp_all

lemma open_channel:
  "hub_wf h subs \<Longrightarrow> sub \<in> set subs \<Longrightarrow> sb_chan sub < length (hb_chans h)"
  by (simp add: hub_wf_def)

lemma same_channel:
  "hub_wf h subs \<Longrightarrow> a \<in> set subs \<Longrightarrow> b \<in> set subs \<Longrightarrow> sb_chan a = sb_chan b \<Longrightarrow> a = b"
  by (auto simp: hub_wf_def distinct_map inj_on_def)

text \<open>The publisher of a new publish holds each channel of its task once.\<close>

lemma start_order:
  assumes wf: "hub_wf h subs" and len: "length (hb_chans h) < 2 ^ 64"
    and order: "mset order = mset (map snd (channels_of h task))"
  shows "distinct order" "set order = sb_chan ` {s \<in> set subs. sb_task s = task}"
proof -
  have sub: "set (channels_of h task) = entry ` {s \<in> set subs. sb_task s = task}"
    using wf by (simp add: hub_wf_def)
  have "set order = snd ` entry ` {s \<in> set subs. sb_task s = task}"
    using mset_eq_setD [OF order] sub by simp
  then show "set order = sb_chan ` {s \<in> set subs. sb_task s = task}"
    by (simp add: image_image entry_def)
  have "inj_on snd (set (channels_of h task))"
    unfolding sub by (rule inj_onI) (auto simp: entry_def dest: same_channel [OF wf])
  moreover have "distinct (map fst (channels_of h task))"
    using wf by (simp add: hub_wf_def)
  then have "distinct (channels_of h task)" by (simp add: distinct_map)
  ultimately have "distinct (map snd (channels_of h task))"
    by (simp add: distinct_map)
  then show "distinct order" using order mset_eq_imp_distinct_iff by blast
qed

text \<open>Each kind of step keeps the invariant.\<close>

lemma subscribe_inv:
  assumes inv: "hub_inv s" and len: "Suc (length (hb_chans (hs_hub s))) < 2 ^ 64"
    and idle: "hs_pub s = None" and sub: "hub_Subscribe task (hs_hub s) = (sub, h)"
  shows "hub_inv (s\<lparr>hs_hub := h, hs_open := sub # hs_open s,
    hs_from := (hs_from s)(sb_chan sub := length (hs_history s))\<rparr>)" (is "hub_inv ?t")
proof -
  have h: "sb_chan sub = length (hb_chans (hs_hub s))"
    "hb_chans h = hb_chans (hs_hub s) @ [\<lparr>ch_buf = [], ch_closed = False\<rparr>]"
    using sub by (auto simp: hub_Subscribe_def Let_def)
  have wf: "hub_wf (hs_hub s) (hs_open s)" using inv by (simp add: hub_inv_def)
  have "hs_ended s \<or> (\<forall>x \<in> set (hs_open ?t). delivered ?t x)"
  proof (cases "hs_ended s")
    case False
    have "delivered ?t x" if "x \<in> set (hs_open ?t)" for x
    proof (cases "x = sub")
      case True
      then show ?thesis using inv h idle by (simp add: delivered_def hub_inv_def owed_def)
    next
      case neq: False
      then have "delivered s x" "sb_chan x < length (hb_chans (hs_hub s))"
        using that inv False open_channel [OF wf] by (auto simp: hub_inv_def)
      then show ?thesis using h by (simp add: delivered_def nth_append)
    qed
    then show ?thesis by blast
  qed simp
  then show ?thesis
    using inv idle h subscribe_wf [OF wf len sub] by (simp add: hub_inv_def publisher_ok_def)
qed

lemma close_inv:
  assumes inv: "hub_inv s" and len: "length (hb_chans (hs_hub s)) < 2 ^ 64"
    and idle: "hs_pub s = None" and sub: "sub \<in> set (hs_open s)" "hub_Close sub (hs_hub s) = Some h"
  shows "hub_inv (s\<lparr>hs_hub := h, hs_open := remove1 sub (hs_open s)\<rparr>)" (is "hub_inv ?t")
proof -
  have wf: "hub_wf (hs_hub s) (hs_open s)" using inv by (simp add: hub_inv_def)
  have h: "hub_wf h (remove1 sub (hs_open s))"
    "hb_chans h = (hb_chans (hs_hub s))[sb_chan sub :=
       (hb_chans (hs_hub s) ! sb_chan sub)\<lparr>ch_closed := True\<rparr>]"
    using close_wf [OF wf len sub(1)] sub(2) by auto
  have "delivered ?t x" if "delivered s x" "x \<in> set (hs_open s)" for x
  proof -
    have "ch_buf (hb_chans h ! sb_chan x) = ch_buf (hb_chans (hs_hub s) ! sb_chan x)"
      using h(2) open_channel [OF wf] that(2) sub(1)
      by (cases "sb_chan x = sb_chan sub") simp_all
    then show ?thesis using that(1) by (simp add: delivered_def)
  qed
  moreover have "set (remove1 sub (hs_open s)) \<subseteq> set (hs_open s)" by (rule set_remove1_subset)
  ultimately show ?thesis
    using inv h idle by (auto simp: hub_inv_def publisher_ok_def)
qed

lemma start_inv:
  assumes inv: "hub_inv s" and len: "length (hb_chans (hs_hub s)) < 2 ^ 64"
    and idle: "hs_pub s = None"
    and order: "mset order = mset (map snd (channels_of (hs_hub s) (se_TaskID ev)))"
  shows "hub_inv (s\<lparr>hs_pub := Some (ev, order), hs_history := hs_history s @ [ev]\<rparr>)" (is "hub_inv ?t")
proof -
  have wf: "hub_wf (hs_hub s) (hs_open s)" using inv by (simp add: hub_inv_def)
  note ord = start_order [OF wf len order]
  have "delivered ?t x" if d: "delivered s x" and x: "x \<in> set (hs_open s)" for x
  proof -
    have "sb_chan x \<in> set order \<longleftrightarrow> sb_task x = se_TaskID ev"
      using ord(2) x same_channel [OF wf x] by auto
    then show ?thesis using d idle by (auto simp: delivered_def owed_def)
  qed
  then show ?thesis using inv ord by (auto simp: hub_inv_def publisher_ok_def)
qed

lemma send_inv:
  assumes inv: "hub_inv s" and pub: "hs_pub s = Some (ev, ch # rest)"
    and snd: "hub_send ev ch (hs_hub s) = Sent h"
  shows "hub_inv (s\<lparr>hs_hub := h, hs_pub := Some (ev, rest)\<rparr>)" (is "hub_inv ?t")
proof -
  let ?c = "hb_chans (hs_hub s) ! ch"
  have wf: "hub_wf (hs_hub s) (hs_open s)" using inv by (simp add: hub_inv_def)
  have h: "h = (hs_hub s)\<lparr>hb_chans := (hb_chans (hs_hub s))[ch := ?c\<lparr>ch_buf := ch_buf ?c @ [ev]\<rparr>]\<rparr>"
    using snd by (simp add: hub_send_chans)
  have "hub_wf h (hs_open s)"
    unfolding h by (rule hub_wf_chans [OF wf]) simp_all
  moreover have "delivered ?t x" if "delivered s x" "x \<in> set (hs_open s)" for x
  proof -
    have "ch \<notin> set rest" using inv pub by (simp add: hub_inv_def publisher_ok_def)
    then show ?thesis
      using that open_channel [OF wf that(2)] pub
      by (cases "sb_chan x = ch") (auto simp: delivered_def owed_def h)
  qed
  ultimately show ?thesis using inv pub by (auto simp: hub_inv_def publisher_ok_def h)
qed

lemma receive_inv:
  assumes inv: "hub_inv s" and ch: "ch < length (hb_chans (hs_hub s))"
    and rcv: "hub_receive ch (hs_hub s) = Some (ev, h)"
  shows "hub_inv (s\<lparr>hs_hub := h, hs_got := (hs_got s)(ch := hs_got s ch @ [ev])\<rparr>)" (is "hub_inv ?t")
proof -
  let ?c = "hb_chans (hs_hub s) ! ch"
  have wf: "hub_wf (hs_hub s) (hs_open s)" using inv by (simp add: hub_inv_def)
  obtain rest where h: "ch_buf ?c = ev # rest"
    "h = (hs_hub s)\<lparr>hb_chans := (hb_chans (hs_hub s))[ch := ?c\<lparr>ch_buf := rest\<rparr>]\<rparr>"
    using rcv by (auto simp: hub_receive_chans)
  have "hub_wf h (hs_open s)"
    unfolding h(2) by (rule hub_wf_chans [OF wf]) simp_all
  moreover have "delivered ?t x" if "delivered s x" "x \<in> set (hs_open s)" for x
    using that open_channel [OF wf that(2)] h
    by (cases "sb_chan x = ch") (auto simp: delivered_def)
  moreover have "publisher_ok ?t = publisher_ok s" by (simp add: publisher_ok_def split: option.split)
  ultimately show ?thesis using inv h ch by (auto simp: hub_inv_def)
qed

lemma hub_step_inv:
  assumes "hub_step s l t" "hub_inv s" "length (hb_chans (hs_hub t)) < 2 ^ 64"
  shows "hub_inv t"
  using assms
proof (induction rule: hub_step.induct)
  case (subscribe s task sub h)
  then have "Suc (length (hb_chans (hs_hub s))) < 2 ^ 64"
    by (auto simp: hub_Subscribe_def Let_def)
  then show ?case using subscribe by (intro subscribe_inv)
next
  case (close s sub h)
  have "length (hb_chans (hs_hub s)) < 2 ^ 64"
    using hub_step_length [OF hub_step.close [OF close(1-3)]] close.prems(2) by simp
  then show ?case using close by (intro close_inv)
next
  case (start s order ev)
  then show ?case by (intro start_inv) simp_all
next
  case (send s ev ch rest h)
  then show ?case by (intro send_inv)
next
  case (finished s ev)
  then show ?case by (auto simp: hub_inv_def publisher_ok_def delivered_def owed_def)
next
  case (cancel s ev ch rest)
  then show ?case by (auto simp: hub_inv_def publisher_ok_def)
next
  case (receive ch s ev h)
  then show ?case by (intro receive_inv)
qed

lemma hub_run_length: "hub_run s ls t \<Longrightarrow> length (hb_chans (hs_hub s)) \<le> length (hb_chans (hs_hub t))"
  by (induction rule: hub_run.induct) (auto dest: hub_step_length)

lemma hub_run_inv:
  "hub_run s ls t \<Longrightarrow> hub_inv s \<Longrightarrow> length (hb_chans (hs_hub t)) < 2 ^ 64 \<Longrightarrow> hub_inv t"
proof (induction rule: hub_run.induct)
  case (more s l t ls u)
  then have "hub_inv t" using hub_step_inv hub_run_length by (meson le_less_trans)
  then show ?case using more by blast
qed

subsection \<open>Blocking and progress\<close>

text \<open>While a send is blocked, only readers and the end of the context can change anything.\<close>

definition blocked_on :: "nat \<Rightarrow> hub_sys \<Rightarrow> bool" where
  "blocked_on ch s \<longleftrightarrow> (\<exists>ev rest. hs_pub s = Some (ev, ch # rest)) \<and>
     ch < length (hb_chans (hs_hub s)) \<and> length (ch_buf (hb_chans (hs_hub s) ! ch)) = channel_capacity"

lemma blocked_step:
  assumes "hub_step s l t" "blocked_on ch s" "l \<noteq> LCancel" "\<forall>ev. l \<noteq> LReceive ch ev"
  shows "blocked_on ch t \<and> hs_pub t = hs_pub s \<and> hs_open t = hs_open s \<and>
    (\<exists>c ev. l = LReceive c ev)"
  using assms
  by (induction rule: hub_step.induct)
    (auto simp: blocked_on_def hub_send_chans hub_receive_chans nth_list_update)

lemma blocked_run:
  assumes "hub_run s ls t" "blocked_on ch s" "LCancel \<notin> set ls" "\<forall>ev. LReceive ch ev \<notin> set ls"
  shows "blocked_on ch t \<and> hs_pub t = hs_pub s \<and> hs_open t = hs_open s \<and>
    (\<forall>l \<in> set ls. \<exists>c ev. l = LReceive c ev)"
  using assms
proof (induction rule: hub_run.induct)
  case (more s l t ls u)
  have a: "LCancel \<notin> set ls" "\<forall>ev. LReceive ch ev \<notin> set ls" "l \<noteq> LCancel" "\<forall>ev. l \<noteq> LReceive ch ev"
    using more.prems(2,3) by auto
  have t: "blocked_on ch t \<and> hs_pub t = hs_pub s \<and> hs_open t = hs_open s \<and> (\<exists>c ev. l = LReceive c ev)"
    by (rule blocked_step [OF more.hyps(1) more.prems(1) a(3,4)])
  then have "blocked_on ch u \<and> hs_pub u = hs_pub t \<and> hs_open u = hs_open t \<and>
      (\<forall>l \<in> set ls. \<exists>c ev. l = LReceive c ev)"
    using more.IH a(1,2) by blast
  with t show ?case by simp
qed simp

definition publisher_label :: "hub_label \<Rightarrow> bool" where
  "publisher_label l \<longleftrightarrow> (case l of LSend _ \<Rightarrow> True | LDone \<Rightarrow> True | LReceive _ _ \<Rightarrow> True | _ \<Rightarrow> False)"

definition buffers_bounded :: "hub \<Rightarrow> bool" where
  "buffers_bounded h \<longleftrightarrow> (\<forall>i < length (hb_chans h). length (ch_buf (hb_chans h ! i)) \<le> channel_capacity)"

lemma hub_step_bounded:
  "hub_step s l t \<Longrightarrow> buffers_bounded (hs_hub s) \<Longrightarrow> buffers_bounded (hs_hub t)"
proof (induction rule: hub_step.induct)
  case (subscribe s task sub h)
  then show ?case
    by (auto simp: buffers_bounded_def hub_Subscribe_def Let_def nth_append less_Suc_eq)
next
  case (close s sub h)
  then show ?case
    by (auto simp: buffers_bounded_def hub_Close_def Let_def nth_list_update split: option.splits if_splits)
next
  case (send s ev ch rest h)
  show ?case
    unfolding buffers_bounded_def
  proof (intro allI impI)
    fix i
    assume "i < length (hb_chans (hs_hub (s\<lparr>hs_hub := h, hs_pub := Some (ev, rest)\<rparr>)))"
    then show "length (ch_buf (hb_chans (hs_hub (s\<lparr>hs_hub := h, hs_pub := Some (ev, rest)\<rparr>)) ! i))
        \<le> channel_capacity"
      using send by (cases "i = ch") (auto simp: buffers_bounded_def hub_send_chans)
  qed
next
  case (receive ch s ev h)
  then show ?case by (fastforce simp: buffers_bounded_def hub_receive_chans nth_list_update)
qed simp_all

lemma hub_run_bounded: "hub_run s ls t \<Longrightarrow> buffers_bounded (hs_hub s) \<Longrightarrow> buffers_bounded (hs_hub t)"
  by (induction rule: hub_run.induct) (auto dest: hub_step_bounded)

text \<open>One send, after making room when the buffer is full.\<close>

lemma send_progress:
  assumes inv: "hub_inv s" and bnd: "buffers_bounded (hs_hub s)" and pub: "hs_pub s = Some (ev, ch # rest)"
  shows "\<exists>ls t. hub_run s ls t \<and> hs_pub t = Some (ev, rest) \<and> (\<forall>l \<in> set ls. publisher_label l) \<and>
    length (hb_chans (hs_hub t)) = length (hb_chans (hs_hub s))"
proof -
  have wf: "hub_wf (hs_hub s) (hs_open s)" using inv by (simp add: hub_inv_def)
  obtain sub where "sub \<in> set (hs_open s)" "sb_chan sub = ch"
    using inv pub by (auto simp: hub_inv_def publisher_ok_def)
  then have ch: "ch < length (hb_chans (hs_hub s))" "\<not> ch_closed (hb_chans (hs_hub s) ! ch)"
    using wf by (auto simp: hub_wf_def)
  have one: "\<exists>t. hub_run x [LSend ch] t \<and> hs_pub t = Some (ev, rest) \<and>
      length (hb_chans (hs_hub t)) = length (hb_chans (hs_hub x))"
    if x: "hs_pub x = Some (ev, ch # rest)" "\<not> ch_closed (hb_chans (hs_hub x) ! ch)"
      "length (ch_buf (hb_chans (hs_hub x) ! ch)) < channel_capacity" for x
  proof -
    obtain h where h: "hub_send ev ch (hs_hub x) = Sent h"
      using x(2,3) by (simp add: hub_send_def Let_def)
    from hub_run.more [OF hub_step.send [OF x(1) h] hub_run.stop] h show ?thesis
      by (auto simp: hub_send_chans)
  qed
  show ?thesis
  proof (cases "length (ch_buf (hb_chans (hs_hub s) ! ch)) < channel_capacity")
    case True
    with one [OF pub ch(2)] show ?thesis by (force simp: publisher_label_def)
  next
    case False
    then obtain e rst where buf: "ch_buf (hb_chans (hs_hub s) ! ch) = e # rst"
      by (cases "ch_buf (hb_chans (hs_hub s) ! ch)") (auto simp: channel_capacity_def)
    then obtain h where h: "hub_receive ch (hs_hub s) = Some (e, h)" by (auto simp: hub_receive_chans)
    let ?x = "s\<lparr>hs_hub := h, hs_got := (hs_got s)(ch := hs_got s ch @ [e])\<rparr>"
    have len: "length (ch_buf (hb_chans (hs_hub s) ! ch)) \<le> channel_capacity"
      using bnd ch(1) by (simp add: buffers_bounded_def)
    have "hs_pub ?x = Some (ev, ch # rest)" "\<not> ch_closed (hb_chans (hs_hub ?x) ! ch)"
      "length (ch_buf (hb_chans (hs_hub ?x) ! ch)) < channel_capacity"
      and n: "length (hb_chans (hs_hub ?x)) = length (hb_chans (hs_hub s))"
      using pub ch h buf len by (auto simp: hub_receive_chans)
    from one [OF this(1-3)] obtain t where t: "hub_run ?x [LSend ch] t" "hs_pub t = Some (ev, rest)"
      "length (hb_chans (hs_hub t)) = length (hb_chans (hs_hub s))" using n by auto
    from hub_run.more [OF hub_step.receive [OF ch(1) h] t(1)] t(2,3) show ?thesis
      by (force simp: publisher_label_def)
  qed
qed

lemma publish_progress:
  assumes "hub_inv s" "buffers_bounded (hs_hub s)" "length (hb_chans (hs_hub s)) < 2 ^ 64"
    and "hs_pub s = Some (ev, rest)"
  shows "\<exists>ls t. hub_run s ls t \<and> hs_pub t = None \<and> (\<forall>l \<in> set ls. publisher_label l)"
  using assms
proof (induction rest arbitrary: s)
  case Nil
  from hub_run.more [OF hub_step.finished [OF Nil.prems(4)] hub_run.stop] show ?case
    by (force simp: publisher_label_def)
next
  case (Cons ch rest)
  obtain ls t where t: "hub_run s ls t" "hs_pub t = Some (ev, rest)" "\<forall>l \<in> set ls. publisher_label l"
    "length (hb_chans (hs_hub t)) = length (hb_chans (hs_hub s))"
    using send_progress [OF Cons.prems(1,2,4)] by blast
  have "hub_inv t" "buffers_bounded (hs_hub t)"
    using hub_run_inv [OF t(1) Cons.prems(1)] hub_run_bounded [OF t(1) Cons.prems(2)] t(4) Cons.prems(3)
    by simp_all
  from Cons.IH [OF this _ t(2)] t(4) Cons.prems(3) obtain ms u where
    u: "hub_run t ms u" "hs_pub u = None" "\<forall>l \<in> set ms. publisher_label l" by auto
  from hub_run_append [OF t(1) u(1)] u(2,3) t(3) show ?case by (metis Un_iff set_append)
qed

end
