(* ===== verification/HubProps.thy ===== *)
theory HubProps
  imports Hub
begin

section \<open>Properties of the hub\<close>

text \<open>
  Reachable states of theory \<open>Hub\<close>: no panic, exact and ordered delivery, progress of a
  publish whose subscribers read, and the two ways in which the hub can hang or panic.
\<close>

lemma reachable_inv:
  "hub_run hub_start ls s \<Longrightarrow> length (hb_chans (hs_hub s)) < 2 ^ 64 \<Longrightarrow>
    hub_inv s \<and> buffers_bounded (hs_hub s)"
  using hub_run_inv [OF _ hub_start_inv] hub_run_bounded [of hub_start ls s]
  by (auto simp: buffers_bounded_def hub_start_def NewHub_def)

text \<open>
  C22. However subscriptions, closes, publishes and reads interleave (fewer than 2^64
  subscriptions, each closed once): closing an open subscription never closes a closed channel, a
  publish in progress never sends on a closed channel, every buffer holds at most 64 events, and a
  task is a key of the hub's map exactly while it has an open subscription (nothing leaks).
\<close>

theorem hub_never_panics:
  assumes "hub_run hub_start ls s" "length (hb_chans (hs_hub s)) < 2 ^ 64"
  shows "(\<forall>sub \<in> set (hs_open s). hub_Close sub (hs_hub s) \<noteq> None) \<and>
    (\<forall>ev ch rest. hs_pub s = Some (ev, ch # rest) \<longrightarrow> hub_send ev ch (hs_hub s) \<noteq> SendPanic) \<and>
    (\<forall>c \<in> set (hb_chans (hs_hub s)). length (ch_buf c) \<le> 64) \<and>
    (\<forall>task. hb_subs (hs_hub s) task \<noteq> None \<longleftrightarrow> (\<exists>sub \<in> set (hs_open s). sb_task sub = task))"
proof (intro conjI ballI allI impI)
  have inv: "hub_inv s" and bnd: "buffers_bounded (hs_hub s)"
    using reachable_inv [OF assms] by simp_all
  then have wf: "hub_wf (hs_hub s) (hs_open s)" by (simp add: hub_inv_def)
  show "hub_Close sub (hs_hub s) \<noteq> None" if "sub \<in> set (hs_open s)" for sub
    using close_wf [OF wf assms(2) that] by auto
  show "hub_send ev ch (hs_hub s) \<noteq> SendPanic" if pub: "hs_pub s = Some (ev, ch # rest)" for ev ch rest
  proof -
    obtain sub where "sub \<in> set (hs_open s)" "sb_chan sub = ch"
      using inv pub by (auto simp: hub_inv_def publisher_ok_def)
    then have "\<not> ch_closed (hb_chans (hs_hub s) ! ch)" using wf by (auto simp: hub_wf_def)
    then show ?thesis by (simp add: hub_send_def Let_def)
  qed
  show "length (ch_buf c) \<le> 64" if "c \<in> set (hb_chans (hs_hub s))" for c
    using bnd that by (auto simp: buffers_bounded_def channel_capacity_def in_set_conv_nth)
  show "hb_subs (hs_hub s) task \<noteq> None \<longleftrightarrow> (\<exists>sub \<in> set (hs_open s). sb_task sub = task)" for task
  proof -
    have "hb_subs (hs_hub s) task \<noteq> None \<longleftrightarrow> channels_of (hs_hub s) task \<noteq> []"
      using wf by (auto simp: hub_wf_def channels_of_def split: option.splits)
    also have "\<dots> \<longleftrightarrow> set (channels_of (hs_hub s) task) \<noteq> {}" by simp
    also have "set (channels_of (hs_hub s) task) = entry ` {sub \<in> set (hs_open s). sb_task sub = task}"
      using wf by (simp add: hub_wf_def)
    finally show ?thesis by auto
  qed
qed

definition example_sub :: "nat \<Rightarrow> subscription" where
  "example_sub n = \<lparr>sb_task = ''t'', sb_id = word_of_nat (Suc n), sb_chan = n\<rparr>"

text \<open>One subscriber to task \<open>t\<close>.\<close>

definition one_hub :: hub where
  "one_hub = snd (hub_Subscribe ''t'' NewHub)"

definition one_subscriber :: hub_sys where
  "one_subscriber = hub_start\<lparr>hs_hub := one_hub, hs_open := [example_sub 0],
     hs_from := (\<lambda>_. 0)(0 := 0)\<rparr>"

lemma one_hub_eval:
  "hub_Subscribe ''t'' NewHub = (example_sub 0, one_hub)"
  "hb_chans one_hub = [\<lparr>ch_buf = [], ch_closed = False\<rparr>]"
  "channels_of one_hub ''t'' = [(1, 0)]"
  by (simp_all add: one_hub_def hub_Subscribe_def NewHub_def Let_def channels_of_def example_sub_def)

lemma one_subscriber_reached: "hub_run hub_start [LSubscribe (example_sub 0)] one_subscriber"
proof -
  have "hub_step hub_start (LSubscribe (example_sub 0))
    (hub_start\<lparr>hs_hub := one_hub, hs_open := example_sub 0 # hs_open hub_start,
       hs_from := (hs_from hub_start)(sb_chan (example_sub 0) := length (hs_history hub_start))\<rparr>)"
    by (rule hub_step.subscribe [where task = "''t''"]) (simp_all add: hub_start_def one_hub_eval)
  then show ?thesis
    by (auto simp: hub_run_Cons one_subscriber_def hub_start_def example_sub_def)
qed

lemma hub_never_panics_witness:
  "hub_Close (example_sub 0) one_hub \<noteq> None \<and> hb_subs one_hub ''t'' \<noteq> None"
proof -
  have "hs_open one_subscriber = [example_sub 0]" "hs_hub one_subscriber = one_hub"
    "length (hb_chans one_hub) < 2 ^ 64"
    by (simp_all add: one_subscriber_def one_hub_eval)
  with hub_never_panics [OF one_subscriber_reached] show ?thesis
    by (auto simp: example_sub_def)
qed

text \<open>
  C16. Each subscriber gets its task's events exactly once and in publication order: in every
  reachable state, what a subscriber's reader has received, then what its channel still holds,
  then what the publish in progress still owes it, is the sequence of the events of its task
  published since it subscribed (as long as no publish was cancelled by the end of the bridge).
\<close>

theorem hub_delivers_in_order:
  assumes "hub_run hub_start ls s" "length (hb_chans (hs_hub s)) < 2 ^ 64"
    and "sub \<in> set (hs_open s)" "\<not> hs_ended s"
  shows "hs_got s (sb_chan sub) @ ch_buf (hb_chans (hs_hub s) ! sb_chan sub) @
      owed (hs_pub s) (sb_chan sub) =
    filter (\<lambda>ev. se_TaskID ev = sb_task sub) (drop (hs_from s (sb_chan sub)) (hs_history s))"
  using reachable_inv [OF assms(1,2)] assms(3,4) by (auto simp: hub_inv_def delivered_def)

definition ev_of :: "string \<Rightarrow> int \<Rightarrow> sse_event" where
  "ev_of task n = \<lparr>se_TaskID = task, se_EventSeq = n, se_Payload = ''{}''\<rparr>"

text \<open>After \<open>n\<close> publishes to a subscriber that does not read.\<close>

lemma unread_publishes:
  "n \<le> 64 \<Longrightarrow> \<exists>ls s. hub_run hub_start ls s \<and> hs_pub s = None \<and> \<not> hs_ended s \<and>
    hs_open s = [example_sub 0] \<and> channels_of (hs_hub s) ''t'' = [(1, 0)] \<and>
    (\<exists>buf. hb_chans (hs_hub s) = [\<lparr>ch_buf = buf, ch_closed = False\<rparr>] \<and> length buf = n)"
proof (induction n)
  case 0
  show ?case using one_subscriber_reached
    by (intro exI conjI) (auto simp: one_subscriber_def one_hub_eval hub_start_def)
next
  case (Suc n)
  then obtain ls s buf where s: "hub_run hub_start ls s" "hs_pub s = None" "\<not> hs_ended s"
    "hs_open s = [example_sub 0]" "channels_of (hs_hub s) ''t'' = [(1, 0)]"
    "hb_chans (hs_hub s) = [\<lparr>ch_buf = buf, ch_closed = False\<rparr>]" "length buf = n" by auto
  let ?ev = "ev_of ''t'' 1"
  let ?s1 = "s\<lparr>hs_pub := Some (?ev, [0]), hs_history := hs_history s @ [?ev]\<rparr>"
  let ?h = "(hs_hub s)\<lparr>hb_chans := [\<lparr>ch_buf = buf @ [?ev], ch_closed = False\<rparr>]\<rparr>"
  let ?s2 = "?s1\<lparr>hs_hub := ?h, hs_pub := Some (?ev, [])\<rparr>"
  have "hub_step s (LStart ?ev) ?s1" using s by (intro hub_step.start) (simp_all add: ev_of_def)
  moreover have "hub_step ?s1 (LSend 0) ?s2"
    using s Suc.prems by (intro hub_step.send) (auto simp: hub_send_chans channel_capacity_def)
  moreover have "hub_step ?s2 LDone (?s2\<lparr>hs_pub := None\<rparr>)"
    by (rule hub_step.finished) simp
  ultimately have "hub_run s [LStart ?ev, LSend 0, LDone] (?s2\<lparr>hs_pub := None\<rparr>)"
    by (auto intro: hub_run.intros)
  from hub_run_append [OF s(1) this] have run: "hub_run hub_start (ls @ [LStart ?ev, LSend 0, LDone]) (?s2\<lparr>hs_pub := None\<rparr>)" .
  show ?case
    by (rule exI, rule exI, rule conjI, rule run) (use s in auto)
qed

text \<open>A 65th publish to it: the send blocks.\<close>

lemma blocked_reachable:
  "\<exists>ls s. hub_run hub_start ls s \<and> blocked_on 0 s \<and> hs_open s = [example_sub 0] \<and>
    length (hb_chans (hs_hub s)) = 1 \<and> \<not> hs_ended s"
proof -
  obtain ls s buf where s: "hub_run hub_start ls s" "hs_pub s = None" "\<not> hs_ended s"
    "hs_open s = [example_sub 0]" "channels_of (hs_hub s) ''t'' = [(1, 0)]"
    "hb_chans (hs_hub s) = [\<lparr>ch_buf = buf, ch_closed = False\<rparr>]" "length buf = 64"
    using unread_publishes [of 64] by auto
  let ?ev = "ev_of ''t'' 1"
  let ?s1 = "s\<lparr>hs_pub := Some (?ev, [0]), hs_history := hs_history s @ [?ev]\<rparr>"
  have "hub_step s (LStart ?ev) ?s1" using s by (intro hub_step.start) (simp_all add: ev_of_def)
  then have "hub_run s [LStart ?ev] ?s1" by (auto intro: hub_run.intros)
  from hub_run_append [OF s(1) this] have run: "hub_run hub_start (ls @ [LStart ?ev]) ?s1" .
  show ?thesis
    by (rule exI, rule exI, rule conjI, rule run) (use s in \<open>auto simp: blocked_on_def channel_capacity_def\<close>)
qed

lemma hub_delivers_in_order_witness:
  "\<exists>ls s. hub_run hub_start ls s \<and>
    hs_got s 0 @ ch_buf (hb_chans (hs_hub s) ! 0) @ owed (hs_pub s) 0 =
      filter (\<lambda>ev. se_TaskID ev = ''t'') (drop (hs_from s 0) (hs_history s)) \<and>
    length (ch_buf (hb_chans (hs_hub s) ! 0)) = 64"
proof -
  obtain ls s where s: "hub_run hub_start ls s" "blocked_on 0 s" "hs_open s = [example_sub 0]"
    "length (hb_chans (hs_hub s)) = 1" "\<not> hs_ended s" using blocked_reachable by blast
  then have "length (hb_chans (hs_hub s)) < 2 ^ 64" "example_sub 0 \<in> set (hs_open s)" by simp_all
  from hub_delivers_in_order [OF s(1) this s(5)] s(1,2) show ?thesis
    by (auto simp: blocked_on_def channel_capacity_def example_sub_def)
qed

text \<open>
  Progress: from any reachable state with a publish in progress, sends and reads of the
  subscribers alone bring it to its end. A publish whose subscribers keep reading returns.
\<close>

theorem publish_completes_when_read:
  assumes "hub_run hub_start ls s" "length (hb_chans (hs_hub s)) < 2 ^ 64"
    and "hs_pub s = Some (ev, rest)"
  shows "\<exists>ms t. hub_run s ms t \<and> hs_pub t = None \<and> (\<forall>l \<in> set ms. publisher_label l)"
  using publish_progress reachable_inv [OF assms(1,2)] assms(2,3) by blast

lemma publish_completes_when_read_witness:
  "\<exists>ls s ms t. hub_run hub_start ls s \<and> blocked_on 0 s \<and> hub_run s ms t \<and> hs_pub t = None"
proof -
  obtain ls s where s: "hub_run hub_start ls s" "blocked_on 0 s" "length (hb_chans (hs_hub s)) = 1"
    using blocked_reachable by blast
  then obtain ev rest where "hs_pub s = Some (ev, rest)" by (auto simp: blocked_on_def)
  moreover have "length (hb_chans (hs_hub s)) < 2 ^ 64" using s(3) by simp
  ultimately show ?thesis using publish_completes_when_read [OF s(1)] s by blast
qed

text \<open>
  C20. A subscriber that stops reading hangs the hub: once a publish waits for room in a full
  channel, then as long as that channel is not read and the bridge's context does not end, no
  subscription can be made or closed, the publish stays where it is, and only other readers can
  move. The subscriber that left is waiting for the write lock in its own \<open>Close\<close>, so it does
  not read: the publish and the close wait for each other.
\<close>

theorem departed_subscriber_hangs_hub:
  assumes "blocked_on ch s" "hub_run s ls t"
    and "LCancel \<notin> set ls" "\<forall>ev. LReceive ch ev \<notin> set ls"
  shows "hs_pub t = hs_pub s \<and> hs_open t = hs_open s \<and> blocked_on ch t \<and>
    (\<forall>sub. LSubscribe sub \<notin> set ls \<and> LClose sub \<notin> set ls)"
proof -
  have r: "blocked_on ch t \<and> hs_pub t = hs_pub s \<and> hs_open t = hs_open s \<and>
      (\<forall>l \<in> set ls. \<exists>c ev. l = LReceive c ev)"
    by (rule blocked_run [OF assms(2,1,3,4)])
  moreover have "LSubscribe sub \<notin> set ls \<and> LClose sub \<notin> set ls" for sub
    using r by blast
  ultimately show ?thesis by blast
qed

lemma departed_subscriber_hangs_hub_witness:
  "\<exists>ls s. hub_run hub_start ls s \<and> blocked_on 0 s \<and>
    (\<forall>l t. hub_step s l t \<longrightarrow> l \<noteq> LCancel \<longrightarrow> (\<forall>ev. l \<noteq> LReceive 0 ev) \<longrightarrow>
      l \<noteq> LClose (example_sub 0))"
proof -
  obtain ls s where s: "hub_run hub_start ls s" "blocked_on 0 s" using blocked_reachable by blast
  have "l \<noteq> LClose (example_sub 0)"
    if "hub_step s l t" "l \<noteq> LCancel" "\<forall>ev. l \<noteq> LReceive 0 ev" for l t
  proof -
    have "hub_run s [l] t" using that(1) by (auto intro: hub_run.intros)
    from departed_subscriber_hangs_hub [OF s(2) this] that(2,3) show ?thesis by auto
  qed
  with s show ?thesis by blast
qed

text \<open>
  \<open>Close\<close> is not idempotent: with another subscriber on the same task, closing a
  subscription twice closes its channel twice, which panics.
\<close>

theorem second_close_panics:
  "\<exists>a b h1 h2 h3. hub_Subscribe task NewHub = (a, h1) \<and> hub_Subscribe task h1 = (b, h2) \<and>
    hub_Close a h2 = Some h3 \<and> hub_Close a h3 = None"
  by (simp add: hub_Subscribe_def NewHub_def hub_Close_def channels_of_def Let_def)

end
