(* ===== verification/EventFlow.thy ===== *)
theory EventFlow
  imports BridgeSink HubProps
begin

section \<open>The bridge on the hub\<close>

text \<open>
  Every API instance hands the events of its bridge (theory \<open>BridgeSink\<close>) to its hub (theory \<open>Hub\<close>):
  what the broker delivers, in any order and any number of times, against what a subscriber reads.
\<close>

subsection \<open>Runs of the hub\<close>

text \<open>The publishes a run starts.\<close>

fun starts :: "hub_label list \<Rightarrow> sse_event list" where
  "starts [] = []"
| "starts (LStart ev # ls) = ev # starts ls"
| "starts (l # ls) = starts ls"

lemma hub_step_history:
  "hub_step s l t \<Longrightarrow> hs_history t = hs_history s @ starts [l] \<and> (hs_ended t \<longleftrightarrow> hs_ended s \<or> l = LCancel)"
  by (cases rule: hub_step.cases) auto

lemma starts_Cons: "starts (l # ls) = starts [l] @ starts ls"
  by (cases l) auto

lemma hub_run_history:
  "hub_run s ls t \<Longrightarrow>
    hs_history t = hs_history s @ starts ls \<and> (hs_ended t \<longleftrightarrow> hs_ended s \<or> LCancel \<in> set ls)"
proof (induction rule: hub_run.induct)
  case (more s l t ls u)
  then show ?case using hub_step_history [OF more.hyps(1)] starts_Cons [of l ls] by auto
qed simp

text \<open>
  A sink that is the hub: a call of \<open>HandleMetricEvent\<close> is one publish, with the steps of readers
  and subscriptions the locks allow in between; it fails exactly when it was cancelled.
\<close>

definition hub_publishes :: "(realtime_event \<Rightarrow> hub_sys \<Rightarrow> go_error option \<times> hub_sys) \<Rightarrow> bool" where
  "hub_publishes publish \<longleftrightarrow>
     (\<forall>ev s r t. publish ev s = (r, t) \<longrightarrow> hs_pub s = None \<longrightarrow>
        (\<exists>ls. hub_run s ls t \<and> starts ls = [HandleMetricEvent ev] \<and> (r = None \<longleftrightarrow> LCancel \<notin> set ls) \<and>
          hs_pub t = None))"

text \<open>Between two calls of the sink the hub runs without a publish.\<close>

definition hub_quiet :: "hub_sys \<Rightarrow> hub_sys \<Rightarrow> bool" where
  "hub_quiet s t \<longleftrightarrow>
     (hs_pub s = None \<longrightarrow> (\<exists>ls. hub_run s ls t \<and> starts ls = [] \<and> LCancel \<notin> set ls \<and> hs_pub t = None))"

definition on_hub :: "realtime_event list \<Rightarrow> hub_sys \<Rightarrow> bool" where
  "on_hub evs s \<longleftrightarrow>
     (\<exists>ls. hub_run hub_start ls s) \<and> hs_pub s = None \<and>
     (\<not> hs_ended s \<longrightarrow> hs_history s = map HandleMetricEvent (rev evs))"

lemma on_hub_start: "on_hub [] hub_start"
  by (auto simp: on_hub_def hub_start_def intro: hub_run.stop)

lemma on_hub_run:
  assumes "on_hub evs s" "hub_run s ls t" "hs_pub t = None"
    and "LCancel \<notin> set ls \<Longrightarrow> map HandleMetricEvent (rev evs') = map HandleMetricEvent (rev evs) @ starts ls"
  shows "on_hub evs' t"
proof -
  obtain ls0 where "hub_run hub_start ls0 s" using assms(1) by (auto simp: on_hub_def)
  then have "hub_run hub_start (ls0 @ ls) t" using assms(2) by (rule hub_run_append)
  then show ?thesis
    using hub_run_history [OF assms(2)] assms(1,3,4) by (auto simp: on_hub_def)
qed

lemma hub_quiet_keeps: "others_keep hub_quiet e r \<Longrightarrow> others_keep (keeps on_hub) e r"
proof -
  have "keeps on_hub s t" if q: "hub_quiet s t" for s t
    unfolding keeps_def
  proof (intro allI impI)
    fix evs assume on: "on_hub evs s"
    then obtain ls where "hub_run s ls t" "starts ls = []" "hs_pub t = None"
      using q by (auto simp: hub_quiet_def on_hub_def)
    then show "on_hub evs t" using on_hub_run [OF on] by simp
  qed
  then show "others_keep hub_quiet e r \<Longrightarrow> others_keep (keeps on_hub) e r"
    unfolding others_keep_def by blast
qed

locale hub_publisher =
  fixes publish :: "realtime_event \<Rightarrow> hub_sys \<Rightarrow> go_error option \<times> hub_sys"
  assumes publishes: "hub_publishes publish"

sublocale hub_publisher \<subseteq> bridge_sink publish on_hub
proof unfold_locales
  fix ev w w' evs
  assume "publish ev w = (None, w')" and on: "on_hub evs w"
  then obtain ls where "hub_run w ls w'" "starts ls = [HandleMetricEvent ev]" "hs_pub w' = None"
    using publishes unfolding hub_publishes_def on_hub_def by blast
  then show "on_hub (ev # evs) w'" by (intro on_hub_run [OF on]) auto
next
  fix ev w err w' evs
  assume "publish ev w = (Some err, w')" and on: "on_hub evs w"
  then obtain ls where "hub_run w ls w'" "LCancel \<in> set ls" "hs_pub w' = None"
    using publishes unfolding hub_publishes_def on_hub_def by blast
  then show "on_hub evs w'" by (intro on_hub_run [OF on]) auto
qed

context hub_publisher
begin

lemma hub_follows_bridge:
  assumes "be_handle e = publish" "others_keep hub_quiet e r"
    and "bridge_Run e r cfg evss backoff (new_bridge hub_start) = (x, s)"
  shows "on_hub (accepted (br_log s)) (br_world s)"
proof -
  have "related on_hub (new_bridge hub_start)" by (simp add: related_def new_bridge_def on_hub_start)
  from bridge_Run_related [OF assms(1) hub_quiet_keeps [OF assms(2)] assms(3) this]
  show ?thesis by (simp add: related_def)
qed

end

subsection \<open>Publishing without interruption\<close>

text \<open>\<open>Publish\<close> run from its start to its end, its context ending when a channel has no room.\<close>

fun send_all :: "sse_event \<Rightarrow> nat list \<Rightarrow> hub_sys \<Rightarrow> go_error option \<times> hub_sys" where
  "send_all ev [] s = (None, s\<lparr>hs_pub := None\<rparr>)"
| "send_all ev (ch # rest) s =
     (case hub_send ev ch (hs_hub s) of
        Sent h \<Rightarrow> send_all ev rest (s\<lparr>hs_hub := h, hs_pub := Some (ev, rest)\<rparr>)
      | _ \<Rightarrow> (Some context_Canceled, s\<lparr>hs_pub := None, hs_ended := True\<rparr>))"

definition publish_now :: "realtime_event \<Rightarrow> hub_sys \<Rightarrow> go_error option \<times> hub_sys" where
  "publish_now event s =
     (let ev = HandleMetricEvent event; order = map snd (channels_of (hs_hub s) (se_TaskID ev))
      in send_all ev order (s\<lparr>hs_pub := Some (ev, order), hs_history := hs_history s @ [ev]\<rparr>))"

lemma send_all_run:
  "send_all ev chs s = (r, t) \<Longrightarrow> hs_pub s = Some (ev, chs) \<Longrightarrow>
    \<exists>ls. hub_run s ls t \<and> starts ls = [] \<and> (r = None \<longleftrightarrow> LCancel \<notin> set ls) \<and> hs_pub t = None"
proof (induction chs arbitrary: s)
  case Nil
  then have "hub_run s [LDone] t" by (auto intro!: hub_run.intros hub_step.finished)
  then show ?case using Nil by (intro exI [of _ "[LDone]"]) auto
next
  case (Cons ch rest)
  have cancelled: ?case if "(r, t) = (Some context_Canceled, s\<lparr>hs_pub := None, hs_ended := True\<rparr>)"
  proof -
    have "hub_run s [LCancel] t"
      using that Cons.prems(2) by (auto intro!: hub_run.intros hub_step.cancel)
    then show ?thesis using that by (intro exI [of _ "[LCancel]"]) auto
  qed
  show ?case
  proof (cases "hub_send ev ch (hs_hub s)")
    case (Sent h)
    let ?u = "s\<lparr>hs_hub := h, hs_pub := Some (ev, rest)\<rparr>"
    have "send_all ev rest ?u = (r, t)" using Cons.prems(1) Sent by simp
    from Cons.IH [OF this] obtain ls where ls: "hub_run ?u ls t" "starts ls = []" "r = None \<longleftrightarrow> LCancel \<notin> set ls"
      "hs_pub t = None" by auto
    have "hub_run s (LSend ch # ls) t"
      by (rule hub_run.more [OF hub_step.send [OF Cons.prems(2) Sent] ls(1)])
    then show ?thesis using ls by (intro exI [of _ "LSend ch # ls"]) auto
  qed (use Cons.prems(1) cancelled in simp_all)
qed

lemma publish_now_publishes: "hub_publishes publish_now"
  unfolding hub_publishes_def
proof (intro allI impI)
  fix event s r t
  assume run: "publish_now event s = (r, t)" and idle: "hs_pub s = None"
  let ?ev = "HandleMetricEvent event"
  let ?order = "map snd (channels_of (hs_hub s) (se_TaskID ?ev))"
  let ?u = "s\<lparr>hs_pub := Some (?ev, ?order), hs_history := hs_history s @ [?ev]\<rparr>"
  have "send_all ?ev ?order ?u = (r, t)" using run by (simp add: publish_now_def Let_def)
  from send_all_run [OF this] obtain ls where ls: "hub_run ?u ls t" "starts ls = []"
    "r = None \<longleftrightarrow> LCancel \<notin> set ls" "hs_pub t = None" by auto
  have "hub_run s (LStart ?ev # ls) t"
    by (rule hub_run.more [OF hub_step.start [OF idle refl] ls(1)])
  then show "\<exists>ls. hub_run s ls t \<and> starts ls = [?ev] \<and> (r = None \<longleftrightarrow> LCancel \<notin> set ls) \<and> hs_pub t = None"
    using ls by (intro exI [of _ "LStart ?ev # ls"]) auto
qed

interpretation direct: hub_publisher publish_now
  by unfold_locales (rule publish_now_publishes)

subsection \<open>What a subscriber reads\<close>

lemma increasing_sorted:
  "increasing l \<Longrightarrow> sorted_wrt (\<lambda>a b. re_TaskID a = re_TaskID b \<longrightarrow> re_EventSeq a < re_EventSeq b) (rev l)"
  by (induction l) (auto simp: sorted_wrt_append)

lemma task_events_sorted:
  assumes "increasing l"
  shows "sorted_wrt (<) (map se_EventSeq
    (filter (\<lambda>ev. se_TaskID ev = task) (drop n (map HandleMetricEvent (rev l)))))"
proof -
  have "sorted_wrt (\<lambda>a b. se_TaskID a = se_TaskID b \<longrightarrow> se_EventSeq a < se_EventSeq b)
      (map HandleMetricEvent (rev l))"
    using increasing_sorted [OF assms] by (simp add: sorted_wrt_map HandleMetricEvent_def)
  then have "sorted_wrt (\<lambda>a b. se_TaskID a = se_TaskID b \<longrightarrow> se_EventSeq a < se_EventSeq b)
      (filter (\<lambda>ev. se_TaskID ev = task) (drop n (map HandleMetricEvent (rev l))))"
    by (intro sorted_wrt_filter sorted_wrt_drop)
  then show ?thesis
    unfolding sorted_wrt_map by (rule sorted_wrt_mono_rel [rotated]) auto
qed

text \<open>
  C2. From the broker to a subscriber: over the whole life of an API instance, whatever its broker
  redelivers, reorders or duplicates, and however its subscribers come, read and go, what a subscriber
  has read and what its channel holds are exactly the events of its task that the bridge accepted
  since it subscribed, in strictly increasing order of sequence number: none twice, none out of order
  (as long as no publish was cancelled by the end of the bridge).
\<close>

theorem subscriber_reads_in_order:
  assumes "hub_publishes (be_handle e)" "others_keep hub_quiet e r"
    and "bridge_Run e r cfg evss backoff (new_bridge hub_start) = (x, s)"
    and "length (hb_chans (hs_hub (br_world s))) < 2 ^ 64"
    and "sub \<in> set (hs_open (br_world s))" "\<not> hs_ended (br_world s)"
  shows "hs_got (br_world s) (sb_chan sub) @ ch_buf (hb_chans (hs_hub (br_world s)) ! sb_chan sub) =
      filter (\<lambda>ev. se_TaskID ev = sb_task sub)
        (drop (hs_from (br_world s) (sb_chan sub)) (map HandleMetricEvent (rev (accepted (br_log s))))) \<and>
    sorted_wrt (<) (map se_EventSeq
      (hs_got (br_world s) (sb_chan sub) @ ch_buf (hb_chans (hs_hub (br_world s)) ! sb_chan sub)))"
proof -
  have "on_hub (accepted (br_log s)) (br_world s)"
    by (rule hub_publisher.hub_follows_bridge [OF hub_publisher.intro [OF assms(1)] refl assms(2,3)])
  then obtain ls where run: "hub_run hub_start ls (br_world s)" and idle: "hs_pub (br_world s) = None"
    and history: "hs_history (br_world s) = map HandleMetricEvent (rev (accepted (br_log s)))"
    using assms(6) by (auto simp: on_hub_def)
  have "delivered (br_world s) sub"
    using reachable_inv [OF run assms(4)] assms(5,6) by (auto simp: hub_inv_def)
  then have read: "hs_got (br_world s) (sb_chan sub) @ ch_buf (hb_chans (hs_hub (br_world s)) ! sb_chan sub) =
      filter (\<lambda>ev. se_TaskID ev = sb_task sub)
        (drop (hs_from (br_world s) (sb_chan sub)) (map HandleMetricEvent (rev (accepted (br_log s)))))"
    by (simp add: delivered_def idle owed_def history)
  have "bridge_inv s" by (rule bridge_Run_inv [OF assms(3) new_bridge_inv])
  then have "increasing (accepted (br_log s))" by (simp add: bridge_inv_def)
  from task_events_sorted [OF this] read show ?thesis by simp
qed

text \<open>One subscriber, who comes while the bridge dials and does not read; event 1 is delivered twice.\<close>

definition subscribe_now :: "string \<Rightarrow> hub_sys \<Rightarrow> hub_sys" where
  "subscribe_now task s =
     (case hub_Subscribe task (hs_hub s) of
        (sub, h) \<Rightarrow> s\<lparr>hs_hub := h, hs_open := sub # hs_open s,
                      hs_from := (hs_from s)(sb_chan sub := length (hs_history s))\<rparr>)"

definition hub_env :: "hub_sys bridge_env" where
  "hub_env =
     \<lparr>be_handle = publish_now, be_ack = (\<lambda>_ w. (None, w)), be_nack = (\<lambda>_ _ w. (None, w)),
      be_wait = (\<lambda>_ w. (True, w)), be_ctx_err = (\<lambda>_. None)\<rparr>"

definition hub_run_env :: "hub_sys bridge_run_env" where
  "hub_run_env =
     \<lparr>bv_dial = (\<lambda>w. (None, subscribe_now ''t'' w)), bv_call = (\<lambda>_ w. (None, w)), bv_queue_name = (\<lambda>_. ''q''),
      bv_close = (\<lambda>w. w)\<rparr>"

lemma subscribe_now_quiet: "hub_quiet s (subscribe_now task s)"
  unfolding hub_quiet_def
proof
  assume idle: "hs_pub s = None"
  obtain sub h where sub: "hub_Subscribe task (hs_hub s) = (sub, h)" by fastforce
  have "hub_run s [LSubscribe sub] (subscribe_now task s)"
    using hub_run.more [OF hub_step.subscribe [OF idle sub] hub_run.stop] by (simp add: subscribe_now_def sub)
  then show "\<exists>ls. hub_run s ls (subscribe_now task s) \<and> starts ls = [] \<and> LCancel \<notin> set ls \<and>
      hs_pub (subscribe_now task s) = None"
    using idle by (intro exI [of _ "[LSubscribe sub]"]) (simp add: subscribe_now_def sub)
qed

lemma hub_env_quiet: "others_keep hub_quiet hub_env hub_run_env"
proof -
  have "hub_quiet s s" for s
    unfolding hub_quiet_def by (auto intro: exI [of _ "[]"] hub_run.stop)
  then show ?thesis by (simp add: others_keep_def hub_env_def hub_run_env_def subscribe_now_quiet)
qed

lemma hub_example:
  obtains x s where "bridge_Run hub_env hub_run_env example_bridge_config
      [[BDelivery (event_delivery 1 False), BDelivery (event_delivery 2 False), BDelivery (event_delivery 1 True)]]
      0 (new_bridge hub_start) = (x, s)"
    "map re_EventSeq (accepted (br_log s)) = [2, 1]" "hs_open (br_world s) = [example_sub 0]"
    "hs_got (br_world s) 0 = []" "\<not> hs_ended (br_world s)" "length (hb_chans (hs_hub (br_world s))) = 1"
proof -
  have start: "subscribe_now ''t'' hub_start = one_subscriber"
    by (simp add: subscribe_now_def one_subscriber_def hub_start_def one_hub_eval example_sub_def)
  have fields: "hs_hub one_subscriber = one_hub" "hs_pub one_subscriber = None" "hs_history one_subscriber = []"
    "hs_open one_subscriber = [example_sub 0]" "hs_got one_subscriber = (\<lambda>_. [])" "\<not> hs_ended one_subscriber"
    by (simp_all add: one_subscriber_def hub_start_def)
  have subs: "channels_of (one_hub\<lparr>hb_chans := cs\<rparr>) ''t'' = [(1, 0)]" for cs by (simp add: one_hub_eval)
  show ?thesis
    using that
    by (simp add: bridge_turn_def bridge_openSession_def declareRealtimeTopology_def realtime_topology_calls_def
        bridge_consumeSession_def bridge_delivery_def event_delivery_decodes hub_env_def hub_run_env_def
        bridge_seen_def last_of_def new_bridge_def bridge_ack_def bridge_remember_def br_note_def Let_def start
        publish_now_def HandleMetricEvent_def fields subs one_hub_eval hub_send_def channel_capacity_def)
qed

lemma subscriber_reads_in_order_witness:
  "\<exists>x s. bridge_Run hub_env hub_run_env example_bridge_config
      [[BDelivery (event_delivery 1 False), BDelivery (event_delivery 2 False), BDelivery (event_delivery 1 True)]]
      0 (new_bridge hub_start) = (x, s) \<and> example_sub 0 \<in> set (hs_open (br_world s)) \<and>
    sorted_wrt (<) (map se_EventSeq (ch_buf (hb_chans (hs_hub (br_world s)) ! 0)))"
proof -
  obtain x s where run: "bridge_Run hub_env hub_run_env example_bridge_config
      [[BDelivery (event_delivery 1 False), BDelivery (event_delivery 2 False), BDelivery (event_delivery 1 True)]]
      0 (new_bridge hub_start) = (x, s)"
    and s: "hs_open (br_world s) = [example_sub 0]" "hs_got (br_world s) 0 = []" "\<not> hs_ended (br_world s)"
      "length (hb_chans (hs_hub (br_world s))) = 1" by (rule hub_example)
  have sink: "hub_publishes (be_handle hub_env)" by (simp add: hub_env_def publish_now_publishes)
  have few: "length (hb_chans (hs_hub (br_world s))) < 2 ^ 64" by (simp add: s(4))
  have "example_sub 0 \<in> set (hs_open (br_world s))" by (simp add: s(1))
  from subscriber_reads_in_order [OF sink hub_env_quiet run few this s(3)] this run s(2)
  show ?thesis by (auto simp: example_sub_def)
qed

end
