(* ===== verification/Relay.thy ===== *)
theory Relay
  imports OutboxOrder Consumer
begin

section \<open>The outbox relay\<close>

text \<open>
  \<open>internal/messaging/outbox_relay.go\<close>: the leader loop that claims events, publishes them and
  settles each claim. The repository, the event publisher, the context and the timer are the
  environment; the calls made are recorded, newest first, in a log that nothing reads. A loop
  runs for a given number of turns; \<open>None\<close> is a loop that has not returned by then.
\<close>

record relay_config =
  rc_BatchSize :: int
  rc_PollInterval :: duration
  rc_LeaseDuration :: duration
  rc_InitialBackoff :: duration
  rc_MaxBackoff :: duration

definition NewOutboxRelay :: "relay_config \<Rightarrow> bool \<Rightarrow> bool \<Rightarrow> go_error + relay_config" where
  "NewOutboxRelay config repository_nil publisher_nil =
     (if repository_nil then Inl (ErrNew ''outbox repository is required'')
      else if publisher_nil then Inl (ErrNew ''metric event publisher is required'')
      else let c = \<lparr>rc_BatchSize = or_default 0 100 (rc_BatchSize config),
                    rc_PollInterval = or_default 0 (100 * millisecond) (rc_PollInterval config),
                    rc_LeaseDuration = or_default 0 (30 * second) (rc_LeaseDuration config),
                    rc_InitialBackoff = or_default 0 (100 * millisecond) (rc_InitialBackoff config),
                    rc_MaxBackoff = or_default 0 (30 * second) (rc_MaxBackoff config)\<rparr>
           in if rc_BatchSize c < 1 \<or> rc_PollInterval c \<le> 0 \<or> rc_LeaseDuration c \<le> 0
                 \<or> rc_InitialBackoff c \<le> 0 \<or> rc_MaxBackoff c < rc_InitialBackoff c
              then Inl (ErrNew ''invalid outbox relay configuration'')
              else Inr c)"

record 'w relay_env =
  rv_ctx_err :: "'w \<Rightarrow> go_error option"
  rv_acquire :: "'w \<Rightarrow> (go_error + bool) \<times> 'w"
  rv_release_leader :: "'w \<Rightarrow> 'w"
  rv_claim :: "int \<Rightarrow> duration \<Rightarrow> 'w \<Rightarrow> (go_error + outbox_event list \<times> string) \<times> 'w"
  rv_publish :: "outbox_event \<Rightarrow> 'w \<Rightarrow> go_error option \<times> 'w"
  rv_mark_published :: "outbox_event \<Rightarrow> 'w \<Rightarrow> go_error option \<times> 'w"
  rv_mark_failed :: "outbox_event \<Rightarrow> duration \<Rightarrow> 'w \<Rightarrow> go_error option \<times> 'w"
  rv_release :: "outbox_event \<Rightarrow> 'w \<Rightarrow> go_error option \<times> 'w"
  rv_wait :: "duration \<Rightarrow> 'w \<Rightarrow> bool \<times> 'w"

datatype relay_effect =
    RClaim "outbox_event list"
  | RPublish outbox_event bool
  | RMarkPublished outbox_event bool
  | RMarkFailed outbox_event duration bool
  | RRelease outbox_event bool

record 'w relay =
  rl_log :: "relay_effect list"
  rl_world :: 'w

definition rl_note :: "relay_effect \<Rightarrow> 'w \<Rightarrow> 'w relay \<Rightarrow> 'w relay" where
  "rl_note ev w s = s\<lparr>rl_log := ev # rl_log s, rl_world := w\<rparr>"

fun releaseClaims ::
  "'w relay_env \<Rightarrow> outbox_event list \<Rightarrow> go_error option \<Rightarrow> 'w relay \<Rightarrow> go_error option \<times> 'w relay" where
  "releaseClaims e [] releaseErr s = (releaseErr, s)"
| "releaseClaims e (ev # evs) releaseErr s =
     (case rv_release e ev (rl_world s) of
        (Some err, w) \<Rightarrow>
          releaseClaims e evs (errors_join [releaseErr, Some err]) (rl_note (RRelease ev False) w s)
      | (None, w) \<Rightarrow> releaseClaims e evs releaseErr (rl_note (RRelease ev True) w s))"

text \<open>
  The loop over a claimed batch: \<open>Inl\<close> when it returns an error, \<open>Inr\<close> the backoff and the
  batch backoff after it.
\<close>

fun process_events ::
  "'w relay_env \<Rightarrow> relay_config \<Rightarrow> outbox_event list \<Rightarrow> duration \<Rightarrow> duration \<Rightarrow> 'w relay
    \<Rightarrow> (go_error option + duration \<times> duration) \<times> 'w relay" where
  "process_events e cfg [] backoff batchBackoff s = (Inr (backoff, batchBackoff), s)"
| "process_events e cfg (ev # evs) backoff batchBackoff s =
     (case rv_publish e ev (rl_world s) of
        (Some err, w) \<Rightarrow>
          (let s1 = rl_note (RPublish ev False) w s
           in case rv_mark_failed e ev backoff (rl_world s1) of
                (Some markErr, w1) \<Rightarrow>
                  (case releaseClaims e evs None (rl_note (RMarkFailed ev backoff False) w1 s1) of
                     (relErr, s2) \<Rightarrow> (Inl (errors_join [Some err, Some markErr, relErr]), s2))
              | (None, w1) \<Rightarrow>
                  process_events e cfg evs (next_backoff (rc_MaxBackoff cfg) backoff)
                    (if batchBackoff = 0 then backoff else batchBackoff)
                    (rl_note (RMarkFailed ev backoff True) w1 s1))
      | (None, w) \<Rightarrow>
          (let s1 = rl_note (RPublish ev True) w s
           in case rv_mark_published e ev (rl_world s1) of
                (Some err, w1) \<Rightarrow>
                  (case releaseClaims e evs None (rl_note (RMarkPublished ev False) w1 s1) of
                     (relErr, s2) \<Rightarrow> (Inl (errors_join [Some err, relErr]), s2))
              | (None, w1) \<Rightarrow>
                  process_events e cfg evs (rc_InitialBackoff cfg) batchBackoff
                    (rl_note (RMarkPublished ev True) w1 s1)))"

definition relay_wait :: "'w relay_env \<Rightarrow> duration \<Rightarrow> 'w relay \<Rightarrow> bool \<times> 'w relay" where
  "relay_wait e d s = (case rv_wait e d (rl_world s) of (ok, w) \<Rightarrow> (ok, s\<lparr>rl_world := w\<rparr>))"

fun runLeader_loop ::
  "nat \<Rightarrow> 'w relay_env \<Rightarrow> relay_config \<Rightarrow> duration \<Rightarrow> 'w relay \<Rightarrow> go_error option option \<times> 'w relay" where
  "runLeader_loop 0 e cfg backoff s = (None, s)"
| "runLeader_loop (Suc n) e cfg backoff s =
     (if rv_ctx_err e (rl_world s) \<noteq> None then (Some None, s)
      else case rv_claim e (rc_BatchSize cfg) (rc_LeaseDuration cfg) (rl_world s) of
        (Inl err, w) \<Rightarrow> (Some (Some err), s\<lparr>rl_world := w\<rparr>)
      | (Inr (events, token), w) \<Rightarrow>
          (let s1 = rl_note (RClaim events) w s
           in if events = []
              then (case relay_wait e (rc_PollInterval cfg) s1 of
                      (False, s2) \<Rightarrow> (Some None, s2)
                    | (True, s2) \<Rightarrow> runLeader_loop n e cfg backoff s2)
              else (case process_events e cfg events backoff 0 s1 of
                      (Inl err, s2) \<Rightarrow> (Some err, s2)
                    | (Inr (backoff', batchBackoff), s2) \<Rightarrow>
                        (if batchBackoff > 0
                         then (case relay_wait e batchBackoff s2 of (_, s3) \<Rightarrow> (Some None, s3))
                         else runLeader_loop n e cfg backoff' s2))))"

definition runLeader ::
  "nat \<Rightarrow> 'w relay_env \<Rightarrow> relay_config \<Rightarrow> 'w relay \<Rightarrow> go_error option option \<times> 'w relay" where
  "runLeader n e cfg s = runLeader_loop n e cfg (rc_InitialBackoff cfg) s"

text \<open>
  \<open>Run\<close>: leader election, one leadership after the other. The result is whether it returned.
\<close>

fun relay_Run :: "nat \<Rightarrow> nat \<Rightarrow> 'w relay_env \<Rightarrow> relay_config \<Rightarrow> 'w relay \<Rightarrow> bool \<times> 'w relay" where
  "relay_Run 0 turns e cfg s = (False, s)"
| "relay_Run (Suc n) turns e cfg s =
     (if rv_ctx_err e (rl_world s) \<noteq> None then (True, s)
      else case rv_acquire e (rl_world s) of
        (Inl err, w) \<Rightarrow>
          (case relay_wait e (rc_PollInterval cfg) (s\<lparr>rl_world := w\<rparr>) of
             (False, s1) \<Rightarrow> (True, s1)
           | (True, s1) \<Rightarrow> relay_Run n turns e cfg s1)
      | (Inr False, w) \<Rightarrow>
          (case relay_wait e (rc_PollInterval cfg) (s\<lparr>rl_world := w\<rparr>) of
             (False, s1) \<Rightarrow> (True, s1)
           | (True, s1) \<Rightarrow> relay_Run n turns e cfg s1)
      | (Inr True, w) \<Rightarrow>
          (case runLeader turns e cfg (s\<lparr>rl_world := w\<rparr>) of
             (None, s1) \<Rightarrow> (False, s1)
           | (Some err, s1) \<Rightarrow>
               (let s2 = s1\<lparr>rl_world := rv_release_leader e (rl_world s1)\<rparr>
                in if err \<noteq> None \<and> rv_ctx_err e (rl_world s2) = None
                   then (case relay_wait e (rc_PollInterval cfg) s2 of
                           (False, s3) \<Rightarrow> (True, s3)
                         | (True, s3) \<Rightarrow> relay_Run n turns e cfg s3)
                   else relay_Run n turns e cfg s2)))"

lemma rl_note_simps [simp]:
  "rl_log (rl_note ev w s) = ev # rl_log s" "rl_world (rl_note ev w s) = w"
  by (simp_all add: rl_note_def)

subsection \<open>Every claim is settled\<close>

text \<open>The events settled by a log: marked published, marked failed or released, oldest first.\<close>

fun settle_calls :: "relay_effect list \<Rightarrow> outbox_event list" where
  "settle_calls [] = []"
| "settle_calls (RMarkPublished ev ok # l) = settle_calls l @ [ev]"
| "settle_calls (RMarkFailed ev d ok # l) = settle_calls l @ [ev]"
| "settle_calls (RRelease ev ok # l) = settle_calls l @ [ev]"
| "settle_calls (_ # l) = settle_calls l"

fun claims :: "relay_effect list \<Rightarrow> outbox_event list" where
  "claims [] = []"
| "claims (RClaim evs # l) = claims l @ evs"
| "claims (_ # l) = claims l"

text \<open>An event is only marked published right after its publish returned nil.\<close>

fun marks_follow_publish :: "relay_effect list \<Rightarrow> bool" where
  "marks_follow_publish [] \<longleftrightarrow> True"
| "marks_follow_publish (RMarkPublished ev ok # l) \<longleftrightarrow>
     (\<exists>older. l = RPublish ev True # older) \<and> marks_follow_publish l"
| "marks_follow_publish (RMarkFailed ev d ok # l) \<longleftrightarrow>
     (\<exists>older. l = RPublish ev False # older) \<and> marks_follow_publish l"
| "marks_follow_publish (_ # l) \<longleftrightarrow> marks_follow_publish l"

lemma settle_calls_append: "settle_calls (l1 @ l2) = settle_calls l2 @ settle_calls l1"
  by (induction l1 rule: settle_calls.induct) simp_all

text \<open>What settling the events \<open>evs\<close> adds to the log.\<close>

definition settles_batch :: "outbox_event list \<Rightarrow> 'w relay \<Rightarrow> 'w relay \<Rightarrow> bool" where
  "settles_batch evs s t \<longleftrightarrow>
     (\<exists>l. rl_log t = l @ rl_log s \<and> settle_calls l = evs) \<and> claims (rl_log t) = claims (rl_log s) \<and>
     (marks_follow_publish (rl_log s) \<longrightarrow> marks_follow_publish (rl_log t))"

lemma settles_batch_refl [simp]: "settles_batch [] s s"
  by (simp add: settles_batch_def)

lemma settles_batch_trans:
  assumes "settles_batch xs s t" "settles_batch ys t u"
  shows "settles_batch (xs @ ys) s u"
proof -
  from assms obtain l1 l2 where "rl_log t = l1 @ rl_log s" "settle_calls l1 = xs"
    "rl_log u = l2 @ rl_log t" "settle_calls l2 = ys"
    by (auto simp: settles_batch_def)
  then have "rl_log u = (l2 @ l1) @ rl_log s \<and> settle_calls (l2 @ l1) = xs @ ys"
    by (simp add: settle_calls_append)
  with assms show ?thesis by (auto simp: settles_batch_def)
qed

lemma settles_batch_one:
  "settles_batch [ev] s (rl_note (RRelease ev ok) w s)"
  "settles_batch [ev] s (rl_note (RMarkFailed ev d ok) w (rl_note (RPublish ev False) w' s))"
  "settles_batch [ev] s (rl_note (RMarkPublished ev ok) w (rl_note (RPublish ev True) w' s))"
  by (auto simp: settles_batch_def intro: exI [of _ "[RRelease ev ok]"]
      exI [of _ "[RMarkFailed ev d ok, RPublish ev False]"]
      exI [of _ "[RMarkPublished ev ok, RPublish ev True]"])

lemma releaseClaims_log:
  "releaseClaims e evs err s = (r, t) \<Longrightarrow> settles_batch evs s t"
proof (induction evs arbitrary: err s)
  case (Cons ev evs)
  obtain x w where x: "rv_release e ev (rl_world s) = (x, w)" by fastforce
  let ?s1 = "rl_note (RRelease ev (x = None)) w s"
  obtain err1 where "releaseClaims e evs err1 ?s1 = (r, t)"
    using Cons.prems x by (cases x) auto
  from settles_batch_trans [OF settles_batch_one(1) Cons.IH [OF this]] show ?case by simp
qed simp

lemma process_events_log:
  "process_events e cfg evs b bb s = (r, t) \<Longrightarrow> settles_batch evs s t"
proof (induction evs arbitrary: b bb s)
  case (Cons ev evs)
  obtain perr w where p: "rv_publish e ev (rl_world s) = (perr, w)" by fastforce
  show ?case
  proof (cases perr)
    case (Some x)
    obtain merr w1 where m: "rv_mark_failed e ev b w = (merr, w1)" by fastforce
    let ?s1 = "rl_note (RMarkFailed ev b (merr = None)) w1 (rl_note (RPublish ev False) w s)"
    have "(\<exists>err r'. releaseClaims e evs err ?s1 = (r', t)) \<or>
        (\<exists>b' bb'. process_events e cfg evs b' bb' ?s1 = (r, t))"
      using Cons.prems p Some m by (cases merr) (auto simp: Let_def split: prod.splits)
    then have "settles_batch evs ?s1 t" using releaseClaims_log Cons.IH by blast
    from settles_batch_trans [OF settles_batch_one(2) this] show ?thesis by simp
  next
    case None
    obtain merr w1 where m: "rv_mark_published e ev w = (merr, w1)" by fastforce
    let ?s1 = "rl_note (RMarkPublished ev (merr = None)) w1 (rl_note (RPublish ev True) w s)"
    have "(\<exists>err r'. releaseClaims e evs err ?s1 = (r', t)) \<or>
        (\<exists>b' bb'. process_events e cfg evs b' bb' ?s1 = (r, t))"
      using Cons.prems p None m by (cases merr) (auto simp: Let_def split: prod.splits)
    then have "settles_batch evs ?s1 t" using releaseClaims_log Cons.IH by blast
    from settles_batch_trans [OF settles_batch_one(3) this] show ?thesis by simp
  qed
qed simp

text \<open>A leadership: the claimed events and the settled ones are the same list.\<close>

definition balanced :: "'w relay \<Rightarrow> bool" where
  "balanced s \<longleftrightarrow> settle_calls (rl_log s) = claims (rl_log s) \<and> marks_follow_publish (rl_log s)"

lemma settles_batch_balanced:
  assumes "settles_batch evs (rl_note (RClaim evs) w s) t" "balanced s"
  shows "balanced t"
  using assms by (auto simp: settles_batch_def balanced_def settle_calls_append)

lemma balanced_claim_Nil: "balanced s \<Longrightarrow> balanced (rl_note (RClaim []) w s)"
  by (simp add: balanced_def)

lemma balanced_cong: "rl_log t = rl_log s \<Longrightarrow> balanced t = balanced s"
  by (simp add: balanced_def)

lemma relay_wait_log: "relay_wait e d s = (ok, t) \<Longrightarrow> rl_log t = rl_log s"
  by (auto simp: relay_wait_def split: prod.splits)

lemma relay_wait_balanced: "relay_wait e d s = (ok, t) \<Longrightarrow> balanced t \<longleftrightarrow> balanced s"
  by (rule balanced_cong) (rule relay_wait_log)

lemma runLeader_loop_balanced:
  assumes "runLeader_loop n e cfg b s = (r, t)" "balanced s"
  shows "balanced t"
  using assms
proof (induction n arbitrary: b s)
  case (Suc n)
  show ?case
  proof (cases "rv_ctx_err e (rl_world s) \<noteq> None")
    case False
    obtain res w where c: "rv_claim e (rc_BatchSize cfg) (rc_LeaseDuration cfg) (rl_world s) = (res, w)"
      by fastforce
    show ?thesis
    proof (cases res)
      case (Inl err)
      then show ?thesis using Suc.prems False c by (auto simp: balanced_def)
    next
      case (Inr x)
      obtain events token where x: "x = (events, token)" by fastforce
      let ?s1 = "rl_note (RClaim events) w s"
      show ?thesis
      proof (cases "events = []")
        case True
        obtain ok s2 where wt: "relay_wait e (rc_PollInterval cfg) ?s1 = (ok, s2)" by fastforce
        have "balanced ?s1" using balanced_claim_Nil [OF Suc.prems(2)] True by simp
        then have "balanced s2" using relay_wait_balanced [OF wt] by simp
        moreover have "t = s2 \<or> runLeader_loop n e cfg b s2 = (r, t)"
          using Suc.prems(1) False c Inr x True wt by (cases ok) (auto simp: Let_def)
        ultimately show ?thesis using Suc.IH by blast
      next
        case ne: False
        obtain pr s2 where p: "process_events e cfg events b 0 ?s1 = (pr, s2)" by fastforce
        have s2: "balanced s2"
          by (rule settles_batch_balanced [OF process_events_log [OF p] Suc.prems(2)])
        show ?thesis
        proof (cases pr)
          case (Inl err)
          then show ?thesis using Suc.prems(1) False c Inr x ne p s2 by (auto simp: Let_def)
        next
          case pr: (Inr y)
          obtain b' bb where y: "y = (b', bb)" by fastforce
          show ?thesis
          proof (cases "bb > 0")
            case True
            obtain ok s3 where wt: "relay_wait e bb s2 = (ok, s3)" by fastforce
            have "t = s3" using Suc.prems(1) False c Inr x ne p pr y True wt by (simp add: Let_def)
            then show ?thesis using s2 relay_wait_balanced [OF wt] by simp
          next
            case bb: False
            have "runLeader_loop n e cfg b' s2 = (r, t)"
              using Suc.prems(1) False c Inr x ne p pr y bb by (simp add: Let_def)
            then show ?thesis using Suc.IH s2 by blast
          qed
        qed
      qed
    qed
  qed (use Suc in simp)
qed simp

lemma relay_Run_balanced:
  assumes "relay_Run n turns e cfg s = (r, t)" "balanced s"
  shows "balanced t"
  using assms
proof (induction n arbitrary: s)
  case (Suc n)
  have w: "balanced (s\<lparr>rl_world := w\<rparr>)" for w
    using Suc.prems(2) by (simp add: balanced_def)
  have wait: "balanced u'" if "relay_wait e d u = (ok, u')" "balanced u" for d ok and u u' :: "'a relay"
    using that relay_wait_balanced by blast
  show ?case
  proof (cases "rv_ctx_err e (rl_world s) \<noteq> None")
    case False
    obtain res w1 where a: "rv_acquire e (rl_world s) = (res, w1)" by fastforce
    obtain ok s1 where wt: "relay_wait e (rc_PollInterval cfg) (s\<lparr>rl_world := w1\<rparr>) = (ok, s1)" by fastforce
    obtain lr s2 where l: "runLeader turns e cfg (s\<lparr>rl_world := w1\<rparr>) = (lr, s2)" by fastforce
    have s1: "balanced s1" using wait [OF wt w] .
    have s2: "balanced s2"
      using runLeader_loop_balanced l w unfolding runLeader_def by blast
    let ?s3 = "s2\<lparr>rl_world := rv_release_leader e (rl_world s2)\<rparr>"
    have s3: "balanced ?s3" using s2 by (simp add: balanced_def)
    obtain ok4 s4 where wt4: "relay_wait e (rc_PollInterval cfg) ?s3 = (ok4, s4)" by fastforce
    have s4: "balanced s4" using wait [OF wt4 s3] .
    show ?thesis
    proof (cases "res = Inr True")
      case True
      show ?thesis
      proof (cases lr)
        case None
        then show ?thesis using Suc.prems(1) False a True l s2 by simp
      next
        case (Some err)
        have "t = s4 \<or> relay_Run n turns e cfg s4 = (r, t) \<or> relay_Run n turns e cfg ?s3 = (r, t)"
          using Suc.prems(1) False a True l Some wt4
          by (cases ok4) (auto simp: Let_def split: if_splits)
        then show ?thesis using Suc.IH s3 s4 by blast
      qed
    next
      case nt: False
      then have "t = s1 \<or> relay_Run n turns e cfg s1 = (r, t)"
        using Suc.prems(1) False a wt by (cases res; cases ok) (auto split: bool.splits)
      then show ?thesis using Suc.IH s1 by blast
    qed
  qed (use Suc in simp)
qed simp

end
