(* ===== verification/RelayOrder.thy ===== *)
theory RelayOrder
  imports Relay
begin

section \<open>The relay keeps to the outbox protocol\<close>

text \<open>
  The contract between the relay and its repository, as a locale: what the relay may assume of
  a claim and what it has to establish before it marks an event published. The relay loops are
  verified against the contract once; the interpretation discharges it on the outbox model,
  with arbitrary other relays, flushes, retention runs and failures between any two calls.
\<close>

locale outbox_protocol =
  fixes e :: "'w relay_env"
    and inv :: "'w \<Rightarrow> bool"
    and held :: "'w \<Rightarrow> outbox_event set"
    and confirmed :: "'w \<Rightarrow> outbox_event set"
  assumes claim_ok: "inv w \<Longrightarrow> rv_claim e n d w = (c, w') \<Longrightarrow>
      inv w' \<and> (\<forall>evs tok. c = Inr (evs, tok) \<longrightarrow> set evs \<subseteq> held w')"
    and publish_ok: "inv w \<Longrightarrow> ev \<in> held w \<Longrightarrow> rv_publish e ev w = (r, w') \<Longrightarrow>
      inv w' \<and> held w \<subseteq> held w' \<and> (r = None \<longrightarrow> ev \<in> confirmed w')"
    and published_ok: "inv w \<Longrightarrow> ev \<in> confirmed w \<Longrightarrow> rv_mark_published e ev w = (r, w') \<Longrightarrow>
      inv w' \<and> held w \<subseteq> held w'"
    and failed_ok: "inv w \<Longrightarrow> ev \<in> held w \<Longrightarrow> rv_mark_failed e ev b w = (r, w') \<Longrightarrow>
      inv w' \<and> held w \<subseteq> held w'"
    and release_ok: "inv w \<Longrightarrow> ev \<in> held w \<Longrightarrow> rv_release e ev w = (r, w') \<Longrightarrow>
      inv w' \<and> held w \<subseteq> held w'"
    and wait_ok: "inv w \<Longrightarrow> rv_wait e d w = (ok, w') \<Longrightarrow> inv w'"
    and acquire_ok: "inv w \<Longrightarrow> rv_acquire e w = (a, w') \<Longrightarrow> inv w'"
    and release_leader_ok: "inv w \<Longrightarrow> inv (rv_release_leader e w)"
begin

lemma releaseClaims_inv:
  assumes "releaseClaims e evs err s = (r, t)" "inv (rl_world s)" "set evs \<subseteq> held (rl_world s)"
  shows "inv (rl_world t)"
  using assms
proof (induction evs arbitrary: err s)
  case (Cons ev evs)
  obtain x w where x: "rv_release e ev (rl_world s) = (x, w)" by fastforce
  have w: "inv w" "set evs \<subseteq> held w"
    using release_ok [OF Cons.prems(2) _ x] Cons.prems(3) by auto
  obtain err1 where rec: "releaseClaims e evs err1 (rl_note (RRelease ev (x = None)) w s) = (r, t)"
    using Cons.prems(1) x by (cases x) auto
  show ?case by (rule Cons.IH [OF rec]) (simp_all add: w)
qed simp

lemma process_events_inv:
  assumes "process_events e cfg evs b bb s = (r, t)" "inv (rl_world s)" "set evs \<subseteq> held (rl_world s)"
  shows "inv (rl_world t)"
  using assms
proof (induction evs arbitrary: b bb s)
  case (Cons ev evs)
  obtain perr w where p: "rv_publish e ev (rl_world s) = (perr, w)" by fastforce
  have w: "inv w" "set (ev # evs) \<subseteq> held w" "perr = None \<Longrightarrow> ev \<in> confirmed w"
    using publish_ok [OF Cons.prems(2) _ p] Cons.prems(3) by auto
  have rest: ?case
    if "(\<exists>err r'. releaseClaims e evs err s1 = (r', t)) \<or>
        (\<exists>b' bb'. process_events e cfg evs b' bb' s1 = (r, t))"
      and "inv (rl_world s1)" "set evs \<subseteq> held (rl_world s1)" for s1
    using that releaseClaims_inv Cons.IH by blast
  show ?case
  proof (cases perr)
    case (Some x)
    obtain merr w1 where m: "rv_mark_failed e ev b w = (merr, w1)" by fastforce
    have w1: "inv w1" "set evs \<subseteq> held w1"
      using failed_ok [OF w(1) _ m] w(2) by auto
    have "(\<exists>err r'. releaseClaims e evs err s1 = (r', t)) \<or>
        (\<exists>b' bb'. process_events e cfg evs b' bb' s1 = (r, t))"
      if "s1 = rl_note (RMarkFailed ev b (merr = None)) w1 (rl_note (RPublish ev False) w s)" for s1
      using Cons.prems(1) p Some m that by (cases merr) (auto simp: Let_def split: prod.splits)
    then show ?thesis using w1 by (intro rest) (rule refl | simp)+
  next
    case None
    obtain merr w1 where m: "rv_mark_published e ev w = (merr, w1)" by fastforce
    have w1: "inv w1" "set evs \<subseteq> held w1"
      using published_ok [OF w(1) w(3) [OF None] m] w(2) by auto
    have "(\<exists>err r'. releaseClaims e evs err s1 = (r', t)) \<or>
        (\<exists>b' bb'. process_events e cfg evs b' bb' s1 = (r, t))"
      if "s1 = rl_note (RMarkPublished ev (merr = None)) w1 (rl_note (RPublish ev True) w s)" for s1
      using Cons.prems(1) p None m that by (cases merr) (auto simp: Let_def split: prod.splits)
    then show ?thesis using w1 by (intro rest) (rule refl | simp)+
  qed
qed simp

lemma relay_wait_inv: "relay_wait e d s = (ok, t) \<Longrightarrow> inv (rl_world s) \<Longrightarrow> inv (rl_world t)"
  using wait_ok by (auto simp: relay_wait_def split: prod.splits)

lemma runLeader_loop_inv:
  assumes "runLeader_loop n e cfg b s = (r, t)" "inv (rl_world s)"
  shows "inv (rl_world t)"
  using assms
proof (induction n arbitrary: b s)
  case (Suc n)
  show ?case
  proof (cases "rv_ctx_err e (rl_world s) \<noteq> None")
    case False
    obtain res w where c: "rv_claim e (rc_BatchSize cfg) (rc_LeaseDuration cfg) (rl_world s) = (res, w)"
      by fastforce
    note cl = claim_ok [OF Suc.prems(2) c]
    show ?thesis
    proof (cases res)
      case (Inl err)
      then show ?thesis using Suc.prems False c cl by auto
    next
      case (Inr x)
      obtain events token where x: "x = (events, token)" by fastforce
      let ?s1 = "rl_note (RClaim events) w s"
      have s1: "inv (rl_world ?s1)" "set events \<subseteq> held (rl_world ?s1)" using cl Inr x by simp_all
      obtain ok s2 where wt: "relay_wait e (rc_PollInterval cfg) ?s1 = (ok, s2)" by fastforce
      obtain pr s3 where p: "process_events e cfg events b 0 ?s1 = (pr, s3)" by fastforce
      obtain ok4 s4 where wt4: "relay_wait e (snd (projr pr)) s3 = (ok4, s4)" by fastforce
      have "inv (rl_world s2)" by (rule relay_wait_inv [OF wt s1(1)])
      moreover have s3: "inv (rl_world s3)" by (rule process_events_inv [OF p s1])
      moreover have "inv (rl_world s4)" by (rule relay_wait_inv [OF wt4 s3])
      moreover have "t = s2 \<or> t = s3 \<or> t = s4 \<or> (\<exists>b'. runLeader_loop n e cfg b' s2 = (r, t))
          \<or> (\<exists>b'. runLeader_loop n e cfg b' s3 = (r, t))"
        using Suc.prems(1) False c Inr x wt p wt4
        by (cases "events = []"; cases ok; cases pr) (auto simp: Let_def split: if_splits)
      ultimately show ?thesis using Suc.IH by blast
    qed
  qed (use Suc in simp)
qed simp

lemma relay_Run_inv:
  assumes "relay_Run n turns e cfg s = (r, t)" "inv (rl_world s)"
  shows "inv (rl_world t)"
  using assms
proof (induction n arbitrary: s)
  case (Suc n)
  show ?case
  proof (cases "rv_ctx_err e (rl_world s) \<noteq> None")
    case False
    obtain res w1 where a: "rv_acquire e (rl_world s) = (res, w1)" by fastforce
    have w1: "inv w1" by (rule acquire_ok [OF Suc.prems(2) a])
    obtain ok s1 where wt: "relay_wait e (rc_PollInterval cfg) (s\<lparr>rl_world := w1\<rparr>) = (ok, s1)" by fastforce
    obtain lr s2 where l: "runLeader turns e cfg (s\<lparr>rl_world := w1\<rparr>) = (lr, s2)" by fastforce
    let ?s3 = "s2\<lparr>rl_world := rv_release_leader e (rl_world s2)\<rparr>"
    obtain ok4 s4 where wt4: "relay_wait e (rc_PollInterval cfg) ?s3 = (ok4, s4)" by fastforce
    have s1: "inv (rl_world s1)" using relay_wait_inv [OF wt] w1 by simp
    have s2: "inv (rl_world s2)" using runLeader_loop_inv [OF l [unfolded runLeader_def]] w1 by simp
    have s3: "inv (rl_world ?s3)" using release_leader_ok [OF s2] by simp
    have s4: "inv (rl_world s4)" by (rule relay_wait_inv [OF wt4 s3])
    show ?thesis
    proof (cases "res = Inr True")
      case True
      have "t = s2 \<or> t = s4 \<or> relay_Run n turns e cfg s4 = (r, t) \<or> relay_Run n turns e cfg ?s3 = (r, t)"
        using Suc.prems(1) False a True l wt4
        by (cases ok4; cases lr) (auto simp: Let_def split: if_splits)
      then show ?thesis using Suc.IH s2 s3 s4 by blast
    next
      case nt: False
      then have "t = s1 \<or> relay_Run n turns e cfg s1 = (r, t)"
        using Suc.prems(1) False a wt by (cases res; cases ok) (auto split: bool.splits)
      then show ?thesis using Suc.IH s1 by blast
    qed
  qed (use Suc in simp)
qed simp

end

subsection \<open>The outbox model as the repository\<close>

text \<open>
  The actions on the outbox: \<open>execute\<close> is what a call does, whoever makes it and whatever it is
  called with. The rest of the system keeps to the protocol of \<open>outbox_step\<close>: between two calls
  of the relay it performs any sequence of actions, those the protocol does not allow left out
  (\<open>perform\<close>). The calls of the relay itself are executed as they come; that they are allowed is
  what the relay has to establish.
\<close>

datatype outbox_action =
    ActPersist int string int string
  | ActClaim db_reply "go_error + string" int "int \<Rightarrow> bool" int duration
  | ActSend outbox_event bool
  | ActPublished db_reply int outbox_event
  | ActFailed db_reply int outbox_event duration
  | ActRelease db_reply outbox_event
  | ActRetention int nat

fun execute :: "outbox_action \<Rightarrow> outbox_sys \<Rightarrow> outbox_sys" where
  "execute (ActPersist i task now payload) s =
     s\<lparr>ob_counter := (ob_counter s)(task := ob_counter s task + 1),
       ob_used := insert i (ob_used s),
       ob_table := insert_metric_outbox now i task (ob_counter s task + 1) payload (ob_table s)\<rparr>"
| "execute (ActClaim reply rnd now locked limit lease) s =
     (case OutboxStore_Claim reply rnd now locked limit lease (ob_table s) of
        (res, t) \<Rightarrow> s\<lparr>ob_table := t, ob_held := ob_held s \<union> claimed_by res\<rparr>)"
| "execute (ActSend ev ok) s =
     s\<lparr>ob_sent := (oe_TaskID ev, oe_EventSeq ev, ok) # ob_sent s,
       ob_confirmed := (if ok then insert ev (ob_confirmed s) else ob_confirmed s)\<rparr>"
| "execute (ActPublished reply now ev) s =
     s\<lparr>ob_table := snd (OutboxStore_MarkPublished reply now ev (ob_table s))\<rparr>"
| "execute (ActFailed reply now ev backoff) s =
     s\<lparr>ob_table := snd (OutboxStore_MarkFailed reply now ev backoff (ob_table s))\<rparr>"
| "execute (ActRelease reply ev) s =
     s\<lparr>ob_table := snd (OutboxStore_ReleaseClaim reply ev (ob_table s))\<rparr>"
| "execute (ActRetention cutoff batch) s =
     s\<lparr>ob_table := snd (delete_expired_outbox cutoff batch (ob_table s))\<rparr>"

fun allowed :: "outbox_action \<Rightarrow> outbox_sys \<Rightarrow> bool" where
  "allowed (ActPersist i task now payload) s \<longleftrightarrow> i \<notin> ob_used s"
| "allowed (ActSend ev ok) s \<longleftrightarrow> ev \<in> ob_held s"
| "allowed (ActPublished reply now ev) s \<longleftrightarrow> ev \<in> ob_confirmed s"
| "allowed (ActFailed reply now ev backoff) s \<longleftrightarrow> ev \<in> ob_held s"
| "allowed (ActRelease reply ev) s \<longleftrightarrow> ev \<in> ob_held s"
| "allowed _ s \<longleftrightarrow> True"

definition perform :: "outbox_action \<Rightarrow> outbox_sys \<Rightarrow> outbox_sys" where
  "perform a s = (if allowed a s then execute a s else s)"

lemma execute_step: "allowed a s \<Longrightarrow> outbox_step s (execute a s)"
proof (cases a)
  case (ActClaim reply rnd now locked limit lease)
  obtain res t where "OutboxStore_Claim reply rnd now locked limit lease (ob_table s) = (res, t)"
    by fastforce
  then show ?thesis using step_claim [of reply rnd now locked limit lease s res t] by (simp add: ActClaim)
next
  case (ActSend ev ok)
  moreover assume "allowed a s"
  ultimately show ?thesis using step_send [of ev s True] step_send [of ev s False] by (cases ok) auto
qed (auto intro: outbox_step.intros prod.collapse [symmetric])

lemma perform_step: "perform a s = s \<or> outbox_step s (perform a s)"
  using execute_step by (simp add: perform_def)

lemma execute_reach: "outbox_reach s \<Longrightarrow> allowed a s \<Longrightarrow> outbox_reach (execute a s)"
  using reach_step execute_step by blast

lemma perform_reach: "outbox_reach s \<Longrightarrow> outbox_reach (perform a s)"
  using perform_step [of a s] by (auto intro: reach_step)

lemma execute_grows: "ob_held s \<subseteq> ob_held (execute a s)" "ob_confirmed s \<subseteq> ob_confirmed (execute a s)"
  by (cases a; auto split: prod.splits)+

lemma perform_grows: "ob_held s \<subseteq> ob_held (perform a s)" "ob_confirmed s \<subseteq> ob_confirmed (perform a s)"
  using execute_grows by (simp_all add: perform_def)

lemma performs_reach: "outbox_reach s \<Longrightarrow> outbox_reach (fold perform as s)"
  by (induction as arbitrary: s) (simp_all add: perform_reach)

lemma performs_grow: "ob_held s \<subseteq> ob_held (fold perform as s) \<and> ob_confirmed s \<subseteq> ob_confirmed (fold perform as s)"
proof (induction as arbitrary: s)
  case (Cons a as)
  from Cons [of "perform a s"] perform_grows [of s a] show ?case by auto
qed simp

text \<open>
  The world of the relay: the system and a tick that every call advances. The environment of a
  run is given by what happens at each tick.
\<close>

record relay_oracle =
  ro_actions :: "nat \<Rightarrow> outbox_action list"
  ro_reply :: "nat \<Rightarrow> db_reply"
  ro_rand :: "nat \<Rightarrow> go_error + string"
  ro_now :: "nat \<Rightarrow> int"
  ro_locked :: "nat \<Rightarrow> int \<Rightarrow> bool"
  ro_publish :: "nat \<Rightarrow> go_error option"
  ro_wait :: "nat \<Rightarrow> bool"
  ro_acquire :: "nat \<Rightarrow> go_error + bool"
  ro_ctx_err :: "nat \<Rightarrow> go_error option"

type_synonym relay_world = "outbox_sys \<times> nat"

definition others :: "relay_oracle \<Rightarrow> relay_world \<Rightarrow> outbox_sys" where
  "others q w = fold perform (ro_actions q (snd w)) (fst w)"

definition outbox_relay_env :: "relay_oracle \<Rightarrow> relay_world relay_env" where
  "outbox_relay_env q =
     \<lparr>rv_ctx_err = (\<lambda>(s, n). ro_ctx_err q n),
      rv_acquire = (\<lambda>(s, n). (ro_acquire q n, (others q (s, n), Suc n))),
      rv_release_leader = (\<lambda>(s, n). (others q (s, n), Suc n)),
      rv_claim = (\<lambda>limit lease (s, n).
        (fst (OutboxStore_Claim (ro_reply q n) (ro_rand q n) (ro_now q n) (ro_locked q n) limit lease
           (ob_table (others q (s, n)))),
         (execute (ActClaim (ro_reply q n) (ro_rand q n) (ro_now q n) (ro_locked q n) limit lease)
            (others q (s, n)), Suc n))),
      rv_publish = (\<lambda>ev (s, n).
        (ro_publish q n, (execute (ActSend ev (ro_publish q n = None)) (others q (s, n)), Suc n))),
      rv_mark_published = (\<lambda>ev (s, n).
        (fst (OutboxStore_MarkPublished (ro_reply q n) (ro_now q n) ev (ob_table (others q (s, n)))),
         (execute (ActPublished (ro_reply q n) (ro_now q n) ev) (others q (s, n)), Suc n))),
      rv_mark_failed = (\<lambda>ev b (s, n).
        (fst (OutboxStore_MarkFailed (ro_reply q n) (ro_now q n) ev b (ob_table (others q (s, n)))),
         (execute (ActFailed (ro_reply q n) (ro_now q n) ev b) (others q (s, n)), Suc n))),
      rv_release = (\<lambda>ev (s, n).
        (fst (OutboxStore_ReleaseClaim (ro_reply q n) ev (ob_table (others q (s, n)))),
         (execute (ActRelease (ro_reply q n) ev) (others q (s, n)), Suc n))),
      rv_wait = (\<lambda>d (s, n). (ro_wait q n, (others q (s, n), Suc n)))\<rparr>"

lemma others_reach: "outbox_reach s \<Longrightarrow> outbox_reach (others q (s, n))"
  by (simp add: others_def performs_reach)

lemma others_held: "ev \<in> ob_held s \<Longrightarrow> ev \<in> ob_held (others q (s, n))"
  "ev \<in> ob_confirmed s \<Longrightarrow> ev \<in> ob_confirmed (others q (s, n))"
  using performs_grow [of s "ro_actions q n"] by (auto simp: others_def)

lemmas relay_env_sel = outbox_relay_env_def relay_env.simps

lemma relay_call_reach:
  assumes "outbox_reach s" "allowed a (others q (s, k))"
  shows "outbox_reach (execute a (others q (s, k))) \<and> ob_held s \<subseteq> ob_held (execute a (others q (s, k)))"
  using execute_reach [OF others_reach [OF assms(1)] assms(2)] others_held(1) [of _ s q k]
    execute_grows(1) [of "others q (s, k)" a] by blast

interpretation outbox_relay: outbox_protocol "outbox_relay_env q" "\<lambda>w. outbox_reach (fst w)"
  "\<lambda>w. ob_held (fst w)" "\<lambda>w. ob_confirmed (fst w)" for q
proof
  fix w n d r w'
  assume r: "outbox_reach (fst w)" and c: "rv_claim (outbox_relay_env q) n d w = (r, w')"
  obtain s k where w: "w = (s, k)" by fastforce
  let ?a = "ActClaim (ro_reply q k) (ro_rand q k) (ro_now q k) (ro_locked q k) n d"
  have "w' = (execute ?a (others q (s, k)), Suc k)" using c by (auto simp: w relay_env_sel)
  then have "outbox_reach (fst w')" using relay_call_reach [of s ?a q k] r by (simp add: w del: execute.simps)
  moreover have "set evs \<subseteq> ob_held (fst w')" if "r = Inr (evs, tok)" for evs tok
    using c that by (auto simp: w relay_env_sel claimed_by_def split: prod.splits)
  ultimately show "outbox_reach (fst w') \<and> (\<forall>evs tok. r = Inr (evs, tok) \<longrightarrow> set evs \<subseteq> ob_held (fst w'))"
    by blast
next
  fix w ev r w'
  assume r: "outbox_reach (fst w)" and h: "ev \<in> ob_held (fst w)"
    and c: "rv_publish (outbox_relay_env q) ev w = (r, w')"
  obtain s k where w: "w = (s, k)" by fastforce
  have "w' = (execute (ActSend ev (ro_publish q k = None)) (others q (s, k)), Suc k)" "r = ro_publish q k"
    using c by (auto simp: w relay_env_sel)
  then show "outbox_reach (fst w') \<and> ob_held (fst w) \<subseteq> ob_held (fst w') \<and>
      (r = None \<longrightarrow> ev \<in> ob_confirmed (fst w'))"
    using relay_call_reach [of s "ActSend ev (ro_publish q k = None)" q k] r h others_held(1) by (simp add: w)
next
  fix w ev r w'
  assume r: "outbox_reach (fst w)" and h: "ev \<in> ob_confirmed (fst w)"
    and c: "rv_mark_published (outbox_relay_env q) ev w = (r, w')"
  obtain s k where w: "w = (s, k)" by fastforce
  have "w' = (execute (ActPublished (ro_reply q k) (ro_now q k) ev) (others q (s, k)), Suc k)"
    using c by (auto simp: w relay_env_sel)
  then show "outbox_reach (fst w') \<and> ob_held (fst w) \<subseteq> ob_held (fst w')"
    using relay_call_reach [of s "ActPublished (ro_reply q k) (ro_now q k) ev" q k] r h others_held(2) by (simp add: w)
next
  fix w ev b r w'
  assume r: "outbox_reach (fst w)" and h: "ev \<in> ob_held (fst w)"
    and c: "rv_mark_failed (outbox_relay_env q) ev b w = (r, w')"
  obtain s k where w: "w = (s, k)" by fastforce
  have "w' = (execute (ActFailed (ro_reply q k) (ro_now q k) ev b) (others q (s, k)), Suc k)"
    using c by (auto simp: w relay_env_sel)
  then show "outbox_reach (fst w') \<and> ob_held (fst w) \<subseteq> ob_held (fst w')"
    using relay_call_reach [of s "ActFailed (ro_reply q k) (ro_now q k) ev b" q k] r h others_held(1) by (simp add: w)
next
  fix w ev r w'
  assume r: "outbox_reach (fst w)" and h: "ev \<in> ob_held (fst w)"
    and c: "rv_release (outbox_relay_env q) ev w = (r, w')"
  obtain s k where w: "w = (s, k)" by fastforce
  have "w' = (execute (ActRelease (ro_reply q k) ev) (others q (s, k)), Suc k)"
    using c by (auto simp: w relay_env_sel)
  then show "outbox_reach (fst w') \<and> ob_held (fst w) \<subseteq> ob_held (fst w')"
    using relay_call_reach [of s "ActRelease (ro_reply q k) ev" q k] r h others_held(1) by (simp add: w)
next
  fix w d ok w'
  assume "outbox_reach (fst w)" "rv_wait (outbox_relay_env q) d w = (ok, w')"
  then show "outbox_reach (fst w')"
    by (cases w) (auto simp: relay_env_sel intro: others_reach)
next
  fix w a w'
  assume "outbox_reach (fst w)" "rv_acquire (outbox_relay_env q) w = (a, w')"
  then show "outbox_reach (fst w')"
    by (cases w) (auto simp: relay_env_sel intro: others_reach)
next
  fix w :: relay_world
  assume "outbox_reach (fst w)"
  then show "outbox_reach (fst (rv_release_leader (outbox_relay_env q) w))"
    by (cases w) (auto simp: relay_env_sel intro: others_reach)
qed

end
