(* ===== verification/OutboxProps.thy ===== *)
theory OutboxProps
  imports RelayOrder
begin

section \<open>Properties of the outbox and its relay\<close>

text \<open>
  Order and completeness of the publication, the settling of claims, progress of the claim
  statement, and the retry delays of the relay.
\<close>

subsection \<open>Progress\<close>

text \<open>The unpublished row of a task with the smallest sequence number.\<close>

lemma first_unpublished:
  assumes "r \<in> set t" "or_published r = None"
  shows "\<exists>p \<in> set t. or_task p = or_task r \<and> or_published p = None \<and> or_seq p \<le> or_seq r \<and>
    \<not> list_ex (\<lambda>q. or_task q = or_task p \<and> or_seq q < or_seq p \<and> or_published q = None) t"
proof -
  let ?S = "{or_seq p | p. p \<in> set t \<and> or_task p = or_task r \<and> or_published p = None}"
  have fin: "finite ?S" by simp
  have mem: "or_seq r \<in> ?S" using assms by blast
  then have "Min ?S \<in> ?S" using fin by (intro Min_in) auto
  then obtain p where p: "p \<in> set t" "or_task p = or_task r" "or_published p = None"
    "or_seq p = Min ?S" by force
  have "\<not> or_seq q < or_seq p" if "q \<in> set t" "or_task q = or_task p" "or_published q = None" for q
  proof -
    have "or_seq q \<in> ?S" using that p(2) by auto
    from Min_le [OF fin this] p(4) show ?thesis by simp
  qed
  moreover have "or_seq p \<le> or_seq r" using Min_le [OF fin mem] p(4) by simp
  ultimately show ?thesis
    using p(1-3) by (intro bexI [OF _ p(1)]) (auto simp: list_ex_iff)
qed

text \<open>
  The outbox never gets stuck: if a task has an unpublished event, no other transaction
  locks its rows, and the leases and retry times of the table have passed, then a claim large
  enough returns an event of that task, at or before that event.
\<close>

theorem claim_makes_progress:
  assumes "r \<in> set t" "or_published r = None"
    and "\<forall>p \<in> set t. or_next p \<le> now \<and> (case or_claimed_until p of None \<Rightarrow> True | Some u \<Rightarrow> u \<le> now)"
    and "length t \<le> limit"
  shows "\<exists>ev \<in> set (fst (claim_metric_outbox now limit token lease (\<lambda>_. False) t)).
    oe_TaskID ev = or_task r \<and> oe_EventSeq ev \<le> or_seq r \<and> oe_ClaimToken ev = token"
proof -
  obtain p where p: "p \<in> set t" "or_task p = or_task r" "or_published p = None" "or_seq p \<le> or_seq r"
    "\<not> list_ex (\<lambda>q. or_task q = or_task p \<and> or_seq q < or_seq p \<and> or_published q = None) t"
    using first_unpublished [OF assms(1,2)] by blast
  then have "candidate now t p" using assms(3) by (simp add: candidate_def)
  moreover have "length (filter (candidate now t) t) \<le> limit"
    using length_filter_le assms(4) by (rule order.trans)
  ultimately have "p \<in> set (candidates now limit (\<lambda>_. False) t)"
    using p(1) by (simp add: candidates_def)
  then have "row_event token p \<in> set (fst (claim_metric_outbox now limit token lease (\<lambda>_. False) t))"
    by (simp add: claim_metric_outbox_def Let_def)
  with p show ?thesis by (intro bexI [of _ "row_event token p"]) (simp_all add: row_event_def)
qed

definition example_row :: outbox_row where
  "example_row = \<lparr>or_id = 1, or_task = ''t'', or_seq = 1, or_payload = ''{}'', or_created = 0,
     or_claimed_until = Some 5, or_token = Some ''old'', or_published = None, or_attempts = 0, or_next = 0\<rparr>"

lemma claim_makes_progress_witness:
  "\<exists>ev \<in> set (fst (claim_metric_outbox 9 1 ''new'' 30 (\<lambda>_. False) [example_row])). oe_TaskID ev = ''t''"
  using claim_makes_progress [of example_row "[example_row]" 9 1 "''new''" 30]
  by (auto simp: example_row_def)

text \<open>
  A claim never returns two events of one task, whatever the table: with the rows of a
  table that has unique sequence numbers per task, the tasks of the returned events are
  distinct. A batch can therefore be published in any order without reordering a task.
\<close>

theorem claim_one_event_per_task:
  assumes "distinct (map (\<lambda>r. (or_task r, or_seq r)) t)"
  shows "distinct (map oe_TaskID (fst (claim_metric_outbox now limit token lease locked t)))"
proof -
  let ?P = "\<lambda>r. candidate now t r \<and> \<not> locked (or_id r)"
  have same: "r = q" if "r \<in> set t" "q \<in> set t" "candidate now t r" "candidate now t q"
      "or_task r = or_task q" for r q
  proof -
    have "\<not> or_seq q < or_seq r" "\<not> or_seq r < or_seq q"
      using that by (auto simp: candidate_def list_ex_iff)
    then have "(or_task r, or_seq r) = (or_task q, or_seq q)" using that(5) by simp
    then show ?thesis using assms that(1,2) by (auto simp: distinct_map dest: inj_onD)
  qed
  have "inj_on or_task (set (filter ?P t))"
    by (rule inj_onI) (use same in auto)
  moreover have "distinct (filter ?P t)"
    using assms by (auto simp: distinct_map)
  ultimately have "distinct (map or_task (filter ?P t))"
    by (simp add: distinct_map)
  then have "distinct (take limit (map or_task (filter ?P t)))" by (rule distinct_take)
  then show ?thesis
    by (simp add: claim_metric_outbox_def Let_def candidates_def take_map comp_def row_event_def)
qed

lemma claim_one_event_per_task_witness:
  "distinct (map oe_TaskID (fst (claim_metric_outbox 9 2 ''n'' 30 (\<lambda>_. False)
     [example_row, example_row\<lparr>or_id := 2, or_seq := 2\<rparr>])))"
  by (rule claim_one_event_per_task) (simp add: example_row_def)

subsection \<open>Order and completeness\<close>

text \<open>
  C11. Events of a task reach the broker in sequence order, for every interleaving of relays,
  flushes, expired leases, lost claims, failing calls and retention: whenever \<open>Publish\<close> is called for
  event n of a task, with or without success, an earlier \<open>Publish\<close> of every smaller event had returned
  nil; and nothing is lost: every event that was persisted has been published successfully or still
  has an unpublished row, so a row is never marked published or deleted without a \<open>Publish\<close> of its
  event that returned nil.
\<close>

theorem outbox_in_order_and_complete:
  assumes "outbox_reach s"
  shows "(ob_sent s = newer @ (task, n, ok) # older \<longrightarrow>
      (\<forall>m. 1 \<le> m \<and> m < n \<longrightarrow> (task, m, True) \<in> set older)) \<and>
    (\<forall>m. 1 \<le> m \<and> m \<le> ob_counter s task \<longrightarrow> (task, m, True) \<in> set (ob_sent s) \<or>
      (\<exists>r \<in> set (ob_table s). or_task r = task \<and> or_seq r = m \<and> or_published r = None))"
proof -
  have inv: "outbox_inv s" using assms by (rule outbox_reach_inv)
  have "in_order (newer @ (task, n, ok) # older) \<Longrightarrow> \<forall>m. 1 \<le> m \<and> m < n \<longrightarrow> (task, m, True) \<in> set older"
    by (induction newer) (auto simp: delivered_def)
  moreover have "in_order (ob_sent s)" using inv by (simp add: outbox_inv_def sent_inv_def)
  ultimately have "ob_sent s = newer @ (task, n, ok) # older \<longrightarrow>
      (\<forall>m. 1 \<le> m \<and> m < n \<longrightarrow> (task, m, True) \<in> set older)" by metis
  moreover have "(task, m, True) \<in> set (ob_sent s) \<or>
      (\<exists>r \<in> set (ob_table s). or_task r = task \<and> or_seq r = m \<and> or_published r = None)"
    if m: "1 \<le> m" "m \<le> ob_counter s task" for m
  proof -
    from inv m consider "(task, m) \<in> delivered (ob_sent s)"
      | r where "r \<in> set (ob_table s)" "or_task r = task" "or_seq r = m"
      unfolding outbox_inv_def sent_inv_def by blast
    then show ?thesis
    proof cases
      case 2
      show ?thesis
      proof (cases "or_published r = None")
        case False
        then have "(task, m) \<in> published_set (ob_table s)" using published_setI [of r] 2 by simp
        then show ?thesis using inv by (auto simp: outbox_inv_def sent_inv_def delivered_def)
      qed (use 2 in blast)
    qed (simp add: delivered_def)
  qed
  ultimately show ?thesis by blast
qed

definition example_event :: outbox_event where
  "example_event = \<lparr>oe_ID = 1, oe_TaskID = ''t'', oe_EventSeq = 1, oe_Payload = ''{}'',
     oe_ClaimToken = ''----''\<rparr>"

definition example_history :: "outbox_action list" where
  "example_history =
     [ActPersist 1 ''t'' 0 ''{}'', ActPersist 2 ''t'' 0 ''{}'', ActClaim DbOk (Inr []) 1 (\<lambda>_. False) 9 30,
      ActSend example_event True, ActPublished DbOk 2 example_event]"

lemma example_history_reach:
  "outbox_reach (fold perform example_history outbox_init)"
  by (intro performs_reach reach_init)

lemma example_history_state:
  "ob_sent (fold perform example_history outbox_init) = [(''t'', 1, True)]"
  "ob_counter (fold perform example_history outbox_init) ''t'' = 2"
  by (simp_all add: example_history_def perform_def outbox_init_def insert_metric_outbox_def OutboxStore_Claim_def
      newClaimToken_def hex_encode_def claim_metric_outbox_def candidates_def candidate_def Let_def
      claimed_by_def row_event_def example_event_def event_key_def)

lemma outbox_in_order_and_complete_witness:
  "\<exists>r \<in> set (ob_table (fold perform example_history outbox_init)).
    or_task r = ''t'' \<and> or_seq r = 2 \<and> or_published r = None"
proof -
  let ?s = "fold perform example_history outbox_init"
  have "(1::int) \<le> 2 \<and> 2 \<le> ob_counter ?s ''t''" by (simp add: example_history_state)
  then have "(''t'', 2, True) \<in> set (ob_sent ?s) \<or>
      (\<exists>r \<in> set (ob_table ?s). or_task r = ''t'' \<and> or_seq r = 2 \<and> or_published r = None)"
    using outbox_in_order_and_complete [OF example_history_reach, of "[]" "''t''" 1 True "[]"] by blast
  then show ?thesis by (simp add: example_history_state)
qed

text \<open>
  C12. The relay as it is written keeps to that protocol: run \<open>Run\<close> on the outbox store, its calls
  executed as they come, with any other activity that keeps to the protocol between them and any
  outcome of each call. It only publishes, fails and releases events it has claimed and only marks
  published what \<open>Publish\<close> has returned nil for, so it only leads to reachable states of the
  outbox: every \<open>Publish\<close> comes after a successful one of each smaller number of its task, and every
  row that is marked published has one.
\<close>

theorem relay_publishes_in_order:
  "case relay_Run n turns (outbox_relay_env q) cfg \<lparr>rl_log = [], rl_world = (outbox_init, 0)\<rparr> of
     (returned, s) \<Rightarrow> outbox_reach (fst (rl_world s)) \<and> in_order (ob_sent (fst (rl_world s))) \<and>
       published_set (ob_table (fst (rl_world s))) \<subseteq> delivered (ob_sent (fst (rl_world s)))"
proof -
  obtain returned s where run:
    "relay_Run n turns (outbox_relay_env q) cfg \<lparr>rl_log = [], rl_world = (outbox_init, 0)\<rparr> = (returned, s)"
    by fastforce
  have "outbox_reach (fst (rl_world s))"
    by (rule outbox_relay.relay_Run_inv [OF run]) (simp add: reach_init)
  moreover from this have "outbox_inv (fst (rl_world s))" by (rule outbox_reach_inv)
  ultimately show ?thesis by (simp add: run outbox_inv_def sent_inv_def)
qed

subsection \<open>Claims and delays\<close>

text \<open>
  C23. No claim is left behind: however the relay runs, the events it settles (marks published,
  marks failed or releases) are, in order, exactly the events it claimed, each once; and an
  event is marked published only immediately after its publish returned nil, marked failed only
  immediately after its publish failed.
\<close>

theorem relay_settles_every_claim:
  "case relay_Run n turns e cfg \<lparr>rl_log = [], rl_world = w\<rparr> of
     (returned, s) \<Rightarrow> settle_calls (rl_log s) = claims (rl_log s) \<and> marks_follow_publish (rl_log s)"
proof -
  obtain returned s where run:
    "relay_Run n turns e cfg \<lparr>rl_log = [], rl_world = w\<rparr> = (returned, s)" by fastforce
  have "balanced s" by (rule relay_Run_balanced [OF run]) (simp add: balanced_def)
  then show ?thesis by (simp add: run balanced_def)
qed

text \<open>The delay a failure gets, from what the log shows of the batch so far.\<close>

fun next_delay :: "relay_config \<Rightarrow> relay_effect list \<Rightarrow> duration" where
  "next_delay cfg (RMarkFailed ev d ok # l) = next_backoff (rc_MaxBackoff cfg) d"
| "next_delay cfg (RPublish ev ok # l) = next_delay cfg l"
| "next_delay cfg l = rc_InitialBackoff cfg"

fun delays_ok :: "relay_config \<Rightarrow> relay_effect list \<Rightarrow> bool" where
  "delays_ok cfg [] \<longleftrightarrow> True"
| "delays_ok cfg (RMarkFailed ev d ok # l) \<longleftrightarrow> d = next_delay cfg l \<and> delays_ok cfg l"
| "delays_ok cfg (_ # l) \<longleftrightarrow> delays_ok cfg l"

definition relay_limits :: "relay_config \<Rightarrow> bool" where
  "relay_limits cfg \<longleftrightarrow>
     0 < rc_InitialBackoff cfg \<and> rc_InitialBackoff cfg \<le> rc_MaxBackoff cfg \<and> rc_MaxBackoff cfg < 2 ^ 62"

lemma releaseClaims_delays:
  "releaseClaims e evs err s = (r, t) \<Longrightarrow> delays_ok cfg (rl_log s) \<Longrightarrow> delays_ok cfg (rl_log t)"
proof (induction evs arbitrary: err s)
  case (Cons ev evs)
  obtain x w where x: "rv_release e ev (rl_world s) = (x, w)" by fastforce
  obtain err1 where "releaseClaims e evs err1 (rl_note (RRelease ev (x = None)) w s) = (r, t)"
    using Cons.prems(1) x by (cases x) auto
  from Cons.IH [OF this] Cons.prems(2) show ?case by simp
qed simp

lemma process_events_delays:
  assumes "process_events e cfg evs b bb s = (r, t)" "relay_limits cfg"
    and "delays_ok cfg (rl_log s)" "b = next_delay cfg (rl_log s)"
    and "rc_InitialBackoff cfg \<le> b" "b \<le> rc_MaxBackoff cfg" "0 \<le> bb"
  shows "delays_ok cfg (rl_log t) \<and>
    (\<forall>b' bb'. r = Inr (b', bb') \<longrightarrow> bb \<le> bb' \<and> (bb' = 0 \<longrightarrow> evs = [] \<and> b' = b \<or> b' = rc_InitialBackoff cfg))"
  using assms
proof (induction evs arbitrary: b bb s)
  case Nil
  then show ?case by (metis Inr_inject order_refl prod.inject process_events.simps(1))
next
  case (Cons ev evs)
  have pos: "0 < b" using Cons.prems(2,5) by (simp add: relay_limits_def)
  obtain perr w where p: "rv_publish e ev (rl_world s) = (perr, w)" by fastforce
  show ?case
  proof (cases perr)
    case (Some x)
    obtain merr w1 where m: "rv_mark_failed e ev b w = (merr, w1)" by fastforce
    let ?s1 = "rl_note (RMarkFailed ev b (merr = None)) w1 (rl_note (RPublish ev False) w s)"
    have s1: "delays_ok cfg (rl_log ?s1)" using Cons.prems(3,4) by simp
    show ?thesis
    proof (cases merr)
      case (Some y)
      then obtain err' r' where "releaseClaims e evs err' ?s1 = (r', t)" "\<exists>z. r = Inl z"
        using Cons.prems(1) p \<open>perr = Some x\<close> m by (auto simp: Let_def split: prod.splits)
      then show ?thesis using releaseClaims_delays s1 by blast
    next
      case None
      let ?b = "next_backoff (rc_MaxBackoff cfg) b" and ?bb = "if bb = 0 then b else bb"
      have rec: "process_events e cfg evs ?b ?bb ?s1 = (r, t)"
        using Cons.prems(1) p Some m None by (simp add: Let_def)
      have nb: "rc_InitialBackoff cfg \<le> ?b" "?b \<le> rc_MaxBackoff cfg"
        using next_backoff_bounds [of "rc_InitialBackoff cfg" b "rc_MaxBackoff cfg"] Cons.prems(2,5,6)
        by (auto simp: relay_limits_def)
      have "delays_ok cfg (rl_log t) \<and> (\<forall>b' bb'. r = Inr (b', bb') \<longrightarrow> ?bb \<le> bb' \<and>
          (bb' = 0 \<longrightarrow> evs = [] \<and> b' = ?b \<or> b' = rc_InitialBackoff cfg))"
        using pos Cons.prems(2,7) by (intro Cons.IH [OF rec _ s1 _ nb]) auto
      then show ?thesis using pos Cons.prems(7) by (fastforce split: if_splits)
    qed
  next
    case None
    obtain merr w1 where m: "rv_mark_published e ev w = (merr, w1)" by fastforce
    let ?s1 = "rl_note (RMarkPublished ev (merr = None)) w1 (rl_note (RPublish ev True) w s)"
    have s1: "delays_ok cfg (rl_log ?s1)" using Cons.prems(3) by simp
    show ?thesis
    proof (cases merr)
      case (Some y)
      then obtain err' r' where "releaseClaims e evs err' ?s1 = (r', t)" "\<exists>z. r = Inl z"
        using Cons.prems(1) p None m by (auto simp: Let_def split: prod.splits)
      then show ?thesis using releaseClaims_delays s1 by blast
    next
      case None
      have rec: "process_events e cfg evs (rc_InitialBackoff cfg) bb ?s1 = (r, t)"
        using Cons.prems(1) p \<open>perr = None\<close> m None by (simp add: Let_def)
      have "delays_ok cfg (rl_log t) \<and> (\<forall>b' bb'. r = Inr (b', bb') \<longrightarrow> bb \<le> bb' \<and>
          (bb' = 0 \<longrightarrow> evs = [] \<and> b' = rc_InitialBackoff cfg \<or> b' = rc_InitialBackoff cfg))"
        using Cons.prems(2,7) by (intro Cons.IH [OF rec _ s1]) (simp_all add: relay_limits_def)
      then show ?thesis by blast
    qed
  qed
qed

lemma runLeader_loop_delays:
  assumes "runLeader_loop n e cfg (rc_InitialBackoff cfg) s = (r, t)" "relay_limits cfg"
    and "delays_ok cfg (rl_log s)"
  shows "delays_ok cfg (rl_log t)"
  using assms
proof (induction n arbitrary: s)
  case (Suc n)
  show ?case
  proof (cases "rv_ctx_err e (rl_world s) \<noteq> None")
    case False
    obtain res w where c: "rv_claim e (rc_BatchSize cfg) (rc_LeaseDuration cfg) (rl_world s) = (res, w)"
      by fastforce
    show ?thesis
    proof (cases res)
      case (Inl err)
      then show ?thesis using Suc.prems False c by auto
    next
      case (Inr x)
      obtain events token where x: "x = (events, token)" by fastforce
      let ?s1 = "rl_note (RClaim events) w s"
      have s1: "delays_ok cfg (rl_log ?s1)" using Suc.prems(3) by simp
      obtain ok s2 where wt: "relay_wait e (rc_PollInterval cfg) ?s1 = (ok, s2)" by fastforce
      have s2: "delays_ok cfg (rl_log s2)" using relay_wait_log [OF wt] s1 by simp
      obtain pr s3 where p: "process_events e cfg events (rc_InitialBackoff cfg) 0 ?s1 = (pr, s3)" by fastforce
      have s3: "delays_ok cfg (rl_log s3) \<and> (\<forall>b' bb'. pr = Inr (b', bb') \<longrightarrow> 0 \<le> bb' \<and>
          (bb' = 0 \<longrightarrow> events = [] \<and> b' = rc_InitialBackoff cfg \<or> b' = rc_InitialBackoff cfg))"
        using Suc.prems(2)
        by (intro process_events_delays [OF p Suc.prems(2) s1]) (simp_all add: relay_limits_def)
      obtain ok4 s4 where wt4: "relay_wait e (snd (projr pr)) s3 = (ok4, s4)" by fastforce
      have s4: "delays_ok cfg (rl_log s4)" using relay_wait_log [OF wt4] s3 by simp
      consider "t = s2" | "t = s3" | "t = s4"
        | "runLeader_loop n e cfg (rc_InitialBackoff cfg) s2 = (r, t)"
        | b' bb' where "pr = Inr (b', bb')" "\<not> bb' > 0" "runLeader_loop n e cfg b' s3 = (r, t)"
        using Suc.prems(1) False c Inr x wt p wt4
        by (cases "events = []"; cases ok; cases pr) (auto simp: Let_def split: if_splits)
      then show ?thesis
      proof cases
        case 5
        then have "bb' = 0" using s3 by force
        then have "b' = rc_InitialBackoff cfg" using s3 5(1) by blast
        then show ?thesis using Suc.IH 5(3) Suc.prems(2) s3 by blast
      qed (use Suc.IH Suc.prems(2) s2 s3 s4 in blast)+
    qed
  qed (use Suc in simp)
qed simp

lemma relay_Run_delays:
  assumes "relay_Run n turns e cfg s = (r, t)" "relay_limits cfg" "delays_ok cfg (rl_log s)"
  shows "delays_ok cfg (rl_log t)"
  using assms
proof (induction n arbitrary: s)
  case (Suc n)
  show ?case
  proof (cases "rv_ctx_err e (rl_world s) \<noteq> None")
    case False
    obtain res w1 where a: "rv_acquire e (rl_world s) = (res, w1)" by fastforce
    obtain ok s1 where wt: "relay_wait e (rc_PollInterval cfg) (s\<lparr>rl_world := w1\<rparr>) = (ok, s1)" by fastforce
    obtain lr s2 where l: "runLeader turns e cfg (s\<lparr>rl_world := w1\<rparr>) = (lr, s2)" by fastforce
    let ?s3 = "s2\<lparr>rl_world := rv_release_leader e (rl_world s2)\<rparr>"
    obtain ok4 s4 where wt4: "relay_wait e (rc_PollInterval cfg) ?s3 = (ok4, s4)" by fastforce
    have s1: "delays_ok cfg (rl_log s1)" using relay_wait_log [OF wt] Suc.prems(3) by simp
    have s2: "delays_ok cfg (rl_log s2)"
      using runLeader_loop_delays [OF l [unfolded runLeader_def] Suc.prems(2)] Suc.prems(3) by simp
    have s4: "delays_ok cfg (rl_log s4)" using relay_wait_log [OF wt4] s2 by simp
    have s3: "delays_ok cfg (rl_log ?s3)" using s2 by simp
    show ?thesis
    proof (cases "res = Inr True")
      case True
      have "t = s2 \<or> t = s4 \<or> relay_Run n turns e cfg s4 = (r, t) \<or> relay_Run n turns e cfg ?s3 = (r, t)"
        using Suc.prems(1) False a True l wt4
        by (cases ok4; cases lr) (auto simp: Let_def split: if_splits)
      then show ?thesis using Suc.IH Suc.prems(2) s2 s3 s4 by blast
    next
      case nt: False
      then have "t = s1 \<or> relay_Run n turns e cfg s1 = (r, t)"
        using Suc.prems(1) False a wt by (cases res; cases ok) (auto split: bool.splits)
      then show ?thesis using Suc.IH Suc.prems(2) s1 by blast
    qed
  qed (use Suc in simp)
qed simp

text \<open>
  The delay of a failed event depends only on the failures immediately before it in the
  same batch: the first failure of every batch, and every failure after a success, is delayed
  by \<open>InitialBackoff\<close>, each further one by the doubled delay up to \<open>MaxBackoff\<close>. How often the
  event itself has failed before plays no role, although \<open>tasks/design-metrics-pipeline.md\<close>
  asks for an exponential backoff of the record that fails.
\<close>

theorem relay_delays:
  assumes "NewOutboxRelay config False False = Inr cfg" "rc_MaxBackoff cfg < 2 ^ 62"
    and "relay_Run n turns e cfg \<lparr>rl_log = [], rl_world = w\<rparr> = (returned, s)"
    and "rl_log s = newer @ RMarkFailed ev d ok # older"
  shows "d = next_delay cfg older"
proof -
  have "relay_limits cfg"
    using assms(1,2) by (auto simp: NewOutboxRelay_def relay_limits_def Let_def split: if_splits)
  then have "delays_ok cfg (newer @ RMarkFailed ev d ok # older)"
    using relay_Run_delays [OF assms(3)] assms(4) by simp
  then show ?thesis by (induction newer rule: delays_ok.induct) auto
qed

definition example_relay_config :: relay_config where
  "example_relay_config = \<lparr>rc_BatchSize = 100, rc_PollInterval = 100 * millisecond,
     rc_LeaseDuration = 30 * second, rc_InitialBackoff = 100 * millisecond, rc_MaxBackoff = 30 * second\<rparr>"

lemma example_relay_new: "NewOutboxRelay example_relay_config False False = Inr example_relay_config"
  by (simp add: NewOutboxRelay_def example_relay_config_def or_default_def duration_defs Let_def)

text \<open>A relay that claims one event, forever, and fails to publish it.\<close>

definition failing_relay_env :: "unit relay_env" where
  "failing_relay_env =
     \<lparr>rv_ctx_err = (\<lambda>_. None), rv_acquire = (\<lambda>w. (Inr True, w)), rv_release_leader = (\<lambda>w. w),
      rv_claim = (\<lambda>_ _ w. (Inr ([example_event], ''----''), w)),
      rv_publish = (\<lambda>_ w. (Some (ErrNew ''down''), w)), rv_mark_published = (\<lambda>_ w. (None, w)),
      rv_mark_failed = (\<lambda>_ _ w. (None, w)), rv_release = (\<lambda>_ w. (None, w)), rv_wait = (\<lambda>_ w. (True, w))\<rparr>"

lemma example_failing_run:
  "\<exists>s. relay_Run 2 1 failing_relay_env example_relay_config \<lparr>rl_log = [], rl_world = ()\<rparr> = (False, s) \<and>
    rl_log s = [] @ RMarkFailed example_event (100 * millisecond) True #
      [RPublish example_event False, RClaim [example_event],
       RMarkFailed example_event (100 * millisecond) True, RPublish example_event False, RClaim [example_event]]"
  by (simp add: numeral_2_eq_2 runLeader_def failing_relay_env_def example_relay_config_def rl_note_def
      relay_wait_def Let_def duration_defs)

lemma relay_delays_witness:
  "100 * millisecond = next_delay example_relay_config
     [RPublish example_event False, RClaim [example_event],
      RMarkFailed example_event (100 * millisecond) True, RPublish example_event False, RClaim [example_event]]"
proof -
  obtain s where "relay_Run 2 1 failing_relay_env example_relay_config \<lparr>rl_log = [], rl_world = ()\<rparr> = (False, s)"
    "rl_log s = [] @ RMarkFailed example_event (100 * millisecond) True #
      [RPublish example_event False, RClaim [example_event],
       RMarkFailed example_event (100 * millisecond) True, RPublish example_event False, RClaim [example_event]]"
    using example_failing_run by blast
  from relay_delays [OF example_relay_new _ this] show ?thesis
    by (simp add: example_relay_config_def duration_defs)
qed

end
