(* ===== verification/Stream.thy ===== *)
theory Stream
  imports IngestHttp HubProps
begin

section \<open>The event stream handler\<close>

text \<open>
  \<open>internal/transport/http/stream.go\<close> and \<open>internal/service/events/service.go\<close>: a client of
  \<open>GET /api/v1/metrics/{task_id}/stream\<close> subscribes to the hub, gets the retained events after its
  cursor, then the live ones. The event repository, the hub, the connection and the
  \<open>select\<close> of the loop are operations on a world \<open>'w\<close>.
\<close>

subsection \<open>The cursor\<close>

definition invalid_last_event_id :: go_error where
  "invalid_last_event_id = ErrNew ''invalid Last-Event-ID''"

definition parseLastEventID :: "string \<Rightarrow> string \<Rightarrow> go_error + int \<times> bool" where
  "parseLastEventID header_value taskID =
     (if header_value = [] then Inr (0, False)
      else case split_on CHR '':'' header_value of
             [task, seq_text] \<Rightarrow>
               (if task \<noteq> taskID then Inl invalid_last_event_id
                else case parse_int64 seq_text of
                       None \<Rightarrow> Inl invalid_last_event_id
                     | Some seq \<Rightarrow>
                         if seq < 0 then Inl invalid_last_event_id else Inr (seq, True))
           | _ \<Rightarrow> Inl invalid_last_event_id)"

text \<open>\<open>err.Error()\<close>, for errors made by \<open>fmt.Errorf\<close> with at most one \<open>%w\<close> at the end.\<close>

fun error_text :: "go_error \<Rightarrow> string" where
  "error_text (Sentinel m) = m"
| "error_text (ErrNew m) = m"
| "error_text (ErrWrap m es) = m @ '': '' @ concat (map error_text es)"

subsection \<open>The service\<close>

record 'w event_repository =
  er_QueryEvents :: "string \<Rightarrow> int \<Rightarrow> 'w \<Rightarrow> (go_error + sse_event list) \<times> 'w"
  er_EventBounds :: "string \<Rightarrow> 'w \<Rightarrow> (go_error + int \<times> int) \<times> 'w"

definition events_Query ::
  "'w event_repository option \<Rightarrow> string \<Rightarrow> int \<Rightarrow> 'w \<Rightarrow> (go_error + sse_event list) \<times> 'w" where
  "events_Query repo taskID after w =
     (case repo of
        None \<Rightarrow> (Inl (ErrNew ''event repository is required''), w)
      | Some r \<Rightarrow> er_QueryEvents r taskID after w)"

definition events_Bounds ::
  "'w event_repository option \<Rightarrow> string \<Rightarrow> 'w \<Rightarrow> (go_error + int \<times> int) \<times> 'w" where
  "events_Bounds repo taskID w =
     (case repo of
        None \<Rightarrow> (Inl (ErrNew ''event repository is required''), w)
      | Some r \<Rightarrow> er_EventBounds r taskID w)"

subsection \<open>The handler\<close>

record 'w stream_handler =
  sh_service :: "'w event_repository option"
  sh_subscribe :: "string \<Rightarrow> 'w \<Rightarrow> subscription \<times> 'w"
  sh_close :: "subscription \<Rightarrow> 'w \<Rightarrow> 'w"
  sh_flusher :: bool
  sh_write :: "string \<Rightarrow> 'w \<Rightarrow> go_error option \<times> 'w"

text \<open>What the \<open>select\<close> of the loop yields; \<open>STick\<close> carries the Unix time in milliseconds.\<close>

datatype stream_input = SEvent sse_event | SClosed | STick int | SDone

datatype stream_output = OMetrics sse_event | OPing int

record 'w stream =
  st_after :: int
  st_out :: "stream_output list"
  st_world :: 'w

definition newline :: string where
  "newline = [CHR 0x0A]"

definition event_id :: "sse_event \<Rightarrow> string" where
  "event_id ev = se_TaskID ev @ '':'' @ int_digits (se_EventSeq ev)"

definition metrics_frame :: "sse_event \<Rightarrow> string" where
  "metrics_frame ev =
     ''event: metrics'' @ newline @ ''id: '' @ event_id ev @ newline @
     ''data: '' @ trim_space (se_Payload ev) @ newline @ newline"

definition ping_frame :: "int \<Rightarrow> string" where
  "ping_frame millis =
     ''event: ping'' @ newline @ ''data: '' @ ''{\"ts\":'' @ int_digits millis @ ''}'' @ newline @ newline"

text \<open>\<open>writeEvent\<close>; \<open>sh_write\<close> is the formatted write with both flushes.\<close>

definition writeEvent ::
  "'w stream_handler \<Rightarrow> sse_event \<Rightarrow> 'w stream \<Rightarrow> go_error option \<times> 'w stream" where
  "writeEvent h ev s =
     (if se_EventSeq ev \<le> st_after s then (None, s)
      else case sh_write h (metrics_frame ev) (st_world s) of
             (Some err, w) \<Rightarrow> (Some err, s\<lparr>st_world := w\<rparr>)
           | (None, w) \<Rightarrow>
               (None, s\<lparr>st_world := w, st_out := st_out s @ [OMetrics ev], st_after := se_EventSeq ev\<rparr>))"

fun write_events ::
  "'w stream_handler \<Rightarrow> sse_event list \<Rightarrow> 'w stream \<Rightarrow> go_error option \<times> 'w stream" where
  "write_events h [] s = (None, s)"
| "write_events h (ev # evs) s =
     (case writeEvent h ev s of
        (Some err, s1) \<Rightarrow> (Some err, s1)
      | (None, s1) \<Rightarrow> write_events h evs s1)"

text \<open>The loop over the answers of its \<open>select\<close>; True when the handler has returned.\<close>

fun stream_loop :: "'w stream_handler \<Rightarrow> stream_input list \<Rightarrow> 'w stream \<Rightarrow> bool \<times> 'w stream" where
  "stream_loop h [] s = (False, s)"
| "stream_loop h (x # xs) s =
     (case x of
        SEvent ev \<Rightarrow>
          (case writeEvent h ev s of
             (Some _, s1) \<Rightarrow> (True, s1)
           | (None, s1) \<Rightarrow> stream_loop h xs s1)
      | SClosed \<Rightarrow> (True, s)
      | STick millis \<Rightarrow>
          (case sh_write h (ping_frame millis) (st_world s) of
             (Some _, w) \<Rightarrow> (True, s\<lparr>st_world := w\<rparr>)
           | (None, w) \<Rightarrow> stream_loop h xs (s\<lparr>st_world := w, st_out := st_out s @ [OPing millis]\<rparr>))
      | SDone \<Rightarrow> (True, s))"

definition outside_retention :: "bool \<Rightarrow> int \<Rightarrow> int \<Rightarrow> int \<Rightarrow> bool" where
  "outside_retention hasCursor after oldest latest \<longleftrightarrow>
     hasCursor \<and> ((oldest > 0 \<and> after < wrap64 (oldest - 1)) \<or> (oldest = 0 \<and> latest > after))"

text \<open>
  How the handler ends: with an error reply before any output, or as a stream (still running or
  returned) with its outputs. The deferred \<open>Close\<close> runs on every return after \<open>Subscribe\<close>.
\<close>

datatype 'w stream_end =
    Rejected "unit reply" 'w
  | NoFlusher 'w
  | Streaming "'w stream"
  | Finished "'w stream" 'w

definition StreamMetrics ::
  "'w stream_handler \<Rightarrow> string \<Rightarrow> string \<Rightarrow> stream_input list \<Rightarrow> 'w \<Rightarrow> 'w stream_end" where
  "StreamMetrics h taskID lastEventID inputs w =
     (if taskID = [] \<or> \<not> http_taskIDPattern taskID \<or> length taskID > http_maxTaskIDLength
      then Rejected (WriteError StatusBadRequest ErrorCodeInvalidParams ''invalid task_id'') w
      else case parseLastEventID lastEventID taskID of
             Inl err \<Rightarrow>
               Rejected (WriteError StatusBadRequest ErrorCodeInvalidParams (error_text err)) w
           | Inr (cursor, hasCursor) \<Rightarrow>
        (case sh_subscribe h taskID w of (sub, w1) \<Rightarrow>
        (case events_Bounds (sh_service h) taskID w1 of
           (Inl _, w2) \<Rightarrow>
             Rejected (WriteError StatusInternalServerError ErrorCodeInternal ''internal server error'')
               (sh_close h sub w2)
         | (Inr (oldest, latest), w2) \<Rightarrow>
             if outside_retention hasCursor cursor oldest latest
             then Rejected (WriteError StatusBadRequest ErrorCodeInvalidParams
                    ''Last-Event-ID is outside retention window'') (sh_close h sub w2)
             else
               (let after = (if hasCursor then cursor else latest)
                in case events_Query (sh_service h) taskID after w2 of
                     (Inl _, w3) \<Rightarrow>
                       Rejected (WriteError StatusInternalServerError ErrorCodeInternal
                         ''internal server error'') (sh_close h sub w3)
                   | (Inr eventsToSend, w3) \<Rightarrow>
                       if \<not> sh_flusher h then NoFlusher (sh_close h sub w3)
                       else (case write_events h eventsToSend
                                    \<lparr>st_after = after, st_out = [], st_world = w3\<rparr> of
                               (Some _, s) \<Rightarrow> Finished s (sh_close h sub (st_world s))
                             | (None, s) \<Rightarrow>
                                 (case stream_loop h inputs s of
                                    (True, s1) \<Rightarrow> Finished s1 (sh_close h sub (st_world s1))
                                  | (False, s1) \<Rightarrow> Streaming s1))))))"

end
