(* ===== verification/StreamProps.thy ===== *)
theory StreamProps
  imports Stream
begin

section \<open>Properties of the event stream\<close>

text \<open>
  What a client of the stream sees: the reference is \<open>fresh\<close>, the greedy increasing
  subsequence; the handler's output equals it, which gives order, no duplicates and, over the
  handover from replayed to live events, no gap.
\<close>

fun output_events :: "stream_output list \<Rightarrow> sse_event list" where
  "output_events [] = []"
| "output_events (OMetrics ev # os) = ev # output_events os"
| "output_events (OPing _ # os) = output_events os"

fun input_events :: "stream_input list \<Rightarrow> sse_event list" where
  "input_events [] = []"
| "input_events (SEvent ev # xs) = ev # input_events xs"
| "input_events (_ # xs) = input_events xs"

lemma output_events_append [simp]: "output_events (xs @ ys) = output_events xs @ output_events ys"
  by (induction xs rule: output_events.induct) auto

fun fresh :: "int \<Rightarrow> sse_event list \<Rightarrow> sse_event list" where
  "fresh a [] = []"
| "fresh a (ev # evs) =
     (if se_EventSeq ev \<le> a then fresh a evs else ev # fresh (se_EventSeq ev) evs)"

definition newest :: "int \<Rightarrow> sse_event list \<Rightarrow> int" where
  "newest a evs = last (a # map se_EventSeq (fresh a evs))"

lemma newest_simps [simp]:
  "newest a [] = a"
  "se_EventSeq ev \<le> a \<Longrightarrow> newest a (ev # evs) = newest a evs"
  "\<not> se_EventSeq ev \<le> a \<Longrightarrow> newest a (ev # evs) = newest (se_EventSeq ev) evs"
  by (simp_all add: newest_def)

lemma fresh_append: "fresh a (xs @ ys) = fresh a xs @ fresh (newest a xs) ys"
  by (induction a xs rule: fresh.induct) simp_all

lemma newest_append: "newest a (xs @ ys) = newest (newest a xs) ys"
proof (induction xs arbitrary: a)
  case (Cons ev xs)
  show ?case by (cases "se_EventSeq ev \<le> a") (simp_all add: Cons.IH)
qed simp

lemma fresh_increasing: "sorted_wrt (<) (a # map se_EventSeq (fresh a evs))"
proof (induction a evs rule: fresh.induct)
  case (2 a ev evs)
  then show ?case by (cases "se_EventSeq ev \<le> a") (auto intro: order.strict_trans)
qed simp

text \<open>A run of consecutive numbers, of which a prefix is already known, is continued exactly.\<close>

lemma fresh_run:
  "map se_EventSeq evs = [j + 1..m] \<Longrightarrow> j \<le> a \<Longrightarrow>
    map se_EventSeq (fresh a evs) = [a + 1..m] \<and> newest a evs = max a m"
proof (induction evs arbitrary: a j)
  case Nil
  then have "m \<le> j" by (metis Nil_is_map_conv list.map(1) not_less upto_Nil2 zless_imp_add1_zle linorder_not_le)
  then show ?case using Nil by simp
next
  case (Cons ev evs)
  then have jm: "j + 1 \<le> m" by (metis list.distinct(1) list.simps(9) upto_Nil2 not_less)
  then have ev: "se_EventSeq ev = j + 1" "map se_EventSeq evs = [j + 1 + 1..m]"
    using Cons.prems(1) by (simp_all add: upto_rec1)
  show ?case
  proof (cases "j + 1 \<le> a")
    case True
    with Cons.IH [OF ev(2) True] ev(1) show ?thesis by simp
  next
    case False
    then have "a = j" using Cons.prems(2) by simp
    with Cons.IH [OF ev(2) order.refl] ev(1) jm show ?thesis by (simp add: upto_rec1)
  qed
qed

subsection \<open>The handler writes the fresh events\<close>

definition stream_at :: "int \<Rightarrow> sse_event list \<Rightarrow> 'w stream \<Rightarrow> bool" where
  "stream_at a evs s \<longleftrightarrow> output_events (st_out s) = fresh a evs \<and> st_after s = newest a evs"

lemma fresh_snoc:
  "fresh a (evs @ [ev]) = (if se_EventSeq ev \<le> newest a evs then fresh a evs else fresh a evs @ [ev])"
  "newest a (evs @ [ev]) = (if se_EventSeq ev \<le> newest a evs then newest a evs else se_EventSeq ev)"
  by (simp_all add: fresh_append newest_append)

lemma writeEvent_at:
  assumes "writeEvent h ev s = (r, t)" "stream_at a evs s"
  shows "(r = None \<longrightarrow> stream_at a (evs @ [ev]) t) \<and> (r \<noteq> None \<longrightarrow> stream_at a evs t)"
  using assms
  by (auto simp: writeEvent_def stream_at_def fresh_snoc split: if_splits prod.splits option.splits)

lemma write_events_at:
  "write_events h xs s = (r, t) \<Longrightarrow> stream_at a evs s \<Longrightarrow>
    \<exists>done left. xs = done @ left \<and> stream_at a (evs @ done) t \<and> (r = None \<longrightarrow> left = [])"
proof (induction xs arbitrary: s evs)
  case (Cons x xs)
  obtain r1 s1 where w: "writeEvent h x s = (r1, s1)" by fastforce
  note at = writeEvent_at [OF w Cons.prems(2)]
  show ?case
  proof (cases r1)
    case None
    then obtain dn lf where "xs = dn @ lf" "stream_at a ((evs @ [x]) @ dn) t" "r = None \<longrightarrow> lf = []"
      using Cons.IH [of s1 "evs @ [x]"] Cons.prems(1) w at by auto
    then show ?thesis by (intro exI [of _ "x # dn"] exI [of _ lf]) auto
  next
    case (Some y)
    then have "t = s1" "r \<noteq> None" using Cons.prems(1) w by auto
    then show ?thesis using at Some by (intro exI [of _ "[]"] exI [of _ "x # xs"]) auto
  qed
qed simp

lemma stream_at_frame: "st_after t = st_after s \<Longrightarrow> output_events (st_out t) = output_events (st_out s) \<Longrightarrow>
    stream_at a evs s \<Longrightarrow> stream_at a evs t"
  by (simp add: stream_at_def)

lemma stream_loop_at:
  "stream_loop h xs s = (stopped, t) \<Longrightarrow> stream_at a evs s \<Longrightarrow>
    \<exists>done left. xs = done @ left \<and> stream_at a (evs @ input_events done) t \<and> (\<not> stopped \<longrightarrow> left = [])"
proof (induction xs arbitrary: s evs)
  case Nil
  then show ?case by simp
next
  case (Cons x xs)
  have more: ?case if m: "stream_loop h xs s1 = (stopped, t)" "stream_at a (evs @ input_events [x]) s1" for s1
  proof -
    obtain dn lf where "xs = dn @ lf" "stream_at a ((evs @ input_events [x]) @ input_events dn) t"
      "\<not> stopped \<longrightarrow> lf = []" using Cons.IH [OF m] by blast
    then show ?thesis by (intro exI [of _ "x # dn"] exI [of _ lf]) (cases x; auto)
  qed
  have stop: ?case if "stopped" "stream_at a evs t"
    using that by (intro exI [of _ "[]"] exI [of _ "x # xs"]) auto
  show ?case
  proof (cases x)
    case (SEvent ev)
    obtain r1 s1 where w: "writeEvent h ev s = (r1, s1)" by fastforce
    note at = writeEvent_at [OF w Cons.prems(2)]
    show ?thesis
    proof (cases r1)
      case None
      with at w SEvent Cons.prems(1) show ?thesis by (intro more [of s1]) auto
    next
      case (Some y)
      with at w SEvent Cons.prems(1) show ?thesis by (intro stop) auto
    qed
  next
    case SClosed
    with Cons.prems show ?thesis by (intro stop) auto
  next
    case (STick n)
    obtain r1 w1 where w: "sh_write h (ping_frame n) (st_world s) = (r1, w1)" by fastforce
    show ?thesis
    proof (cases r1)
      case None
      let ?s1 = "s\<lparr>st_world := w1, st_out := st_out s @ [OPing n]\<rparr>"
      have "stream_at a evs ?s1" by (rule stream_at_frame [OF _ _ Cons.prems(2)]) simp_all
      with w STick Cons.prems(1) None show ?thesis by (intro more [of ?s1]) auto
    next
      case (Some y)
      then have "t = s\<lparr>st_world := w1\<rparr>" "stopped" using w STick Cons.prems(1) by auto
      then show ?thesis by (intro stop) (auto intro: stream_at_frame [OF _ _ Cons.prems(2)])
    qed
  next
    case SDone
    with Cons.prems show ?thesis by (intro stop) auto
  qed
qed

lemma StreamMetrics_stages:
  assumes "StreamMetrics h taskID lastID inputs w = fin" "fin = Streaming s \<or> fin = Finished s v"
  shows "\<exists>cursor hasCursor sub w1 oldest latest w2 replay w3 done left.
    parseLastEventID lastID taskID = Inr (cursor, hasCursor) \<and>
    sh_subscribe h taskID w = (sub, w1) \<and>
    events_Bounds (sh_service h) taskID w1 = (Inr (oldest, latest), w2) \<and>
    events_Query (sh_service h) taskID (if hasCursor then cursor else latest) w2 = (Inr replay, w3) \<and>
    replay @ input_events inputs = done @ left \<and>
    stream_at (if hasCursor then cursor else latest) done s \<and>
    (fin = Streaming s \<longrightarrow> left = [])"
proof -
  obtain cursor hasCursor where p: "parseLastEventID lastID taskID = Inr (cursor, hasCursor)"
    using assms by (cases "parseLastEventID lastID taskID") (auto simp: StreamMetrics_def split: if_splits)
  obtain sub w1 where sub: "sh_subscribe h taskID w = (sub, w1)" by fastforce
  obtain b w2 where b: "events_Bounds (sh_service h) taskID w1 = (b, w2)" by fastforce
  obtain oldest latest where b2: "b = Inr (oldest, latest)"
    using assms p sub b by (cases b) (auto simp: StreamMetrics_def split: if_splits)
  let ?a = "if hasCursor then cursor else latest"
  obtain q w3 where q: "events_Query (sh_service h) taskID ?a w2 = (q, w3)" by fastforce
  obtain replay where q2: "q = Inr replay"
    using assms p sub b b2 q by (cases q) (auto simp: StreamMetrics_def Let_def split: if_splits)
  let ?s0 = "\<lparr>st_after = ?a, st_out = [], st_world = w3\<rparr>"
  have s0: "stream_at ?a [] ?s0" by (simp add: stream_at_def)
  obtain r s1 where ws: "write_events h replay ?s0 = (r, s1)" by fastforce
  obtain dn lf where dn: "replay = dn @ lf" "stream_at ?a dn s1" "r = None \<longrightarrow> lf = []"
    using write_events_at [OF ws s0] by auto
  obtain stopped s2 where lp: "stream_loop h inputs s1 = (stopped, s2)" by fastforce
  obtain dn2 lf2 where dn2: "inputs = dn2 @ lf2" "stream_at ?a (dn @ input_events dn2) s2"
    "\<not> stopped \<longrightarrow> lf2 = []" using stream_loop_at [OF lp dn(2)] by auto
  have split_inputs: "input_events (xs @ ys) = input_events xs @ input_events ys" for xs ys
    by (induction xs rule: input_events.induct) auto
  have run: "fin = (case r of Some _ \<Rightarrow> Finished s1 (sh_close h sub (st_world s1))
      | None \<Rightarrow> if stopped then Finished s2 (sh_close h sub (st_world s2)) else Streaming s2)"
    using assms p sub b b2 q q2 ws lp
    by (auto simp: StreamMetrics_def Let_def split: if_splits option.splits)
  have "\<exists>done left. replay @ input_events inputs = done @ left \<and> stream_at ?a done s \<and>
      (fin = Streaming s \<longrightarrow> left = [])"
  proof (cases r)
    case None
    then have "s = s2" "fin = Streaming s \<longrightarrow> \<not> stopped" using run assms(2) by (auto split: if_splits)
    with dn dn2 None split_inputs show ?thesis
      by (intro exI [of _ "dn @ input_events dn2"] exI [of _ "input_events lf2"]) auto
  next
    case (Some x)
    then have "s = s1" "fin \<noteq> Streaming s" using run assms(2) by auto
    with dn show ?thesis by (intro exI [of _ dn] exI [of _ "lf @ input_events inputs"]) auto
  qed
  with p sub b b2 q q2 show ?thesis by blast
qed

subsection \<open>The properties\<close>

text \<open>
  The identifier the client is given with an event is accepted as its \<open>Last-Event-ID\<close> and read
  back as that event's number, for every task the handler accepts and every number of the database.
\<close>

theorem event_id_roundtrip:
  assumes "http_taskIDPattern (se_TaskID ev)" "0 \<le> se_EventSeq ev" "in_int64 (se_EventSeq ev)"
  shows "parseLastEventID (event_id ev) (se_TaskID ev) = Inr (se_EventSeq ev, True)"
proof -
  have "CHR '':'' \<notin> set (se_TaskID ev)"
    using assms(1)
    by (auto simp: http_taskIDPattern_def list_all_iff is_ident_char_def char_class_defs less_eq_char_def
        split: list.splits)
  moreover have "CHR '':'' \<notin> set (int_digits (se_EventSeq ev))"
    using assms(2) nat_digits_all_digits [of "CHR '':''"]
    by (auto simp: int_digits_def is_digit_def less_eq_char_def)
  ultimately have "split_on CHR '':'' (event_id ev) = [se_TaskID ev, int_digits (se_EventSeq ev)]"
    by (simp add: event_id_def split_on_append split_on_no_sep)
  moreover have "event_id ev \<noteq> []" by (simp add: event_id_def)
  ultimately show ?thesis using assms(2,3) by (simp add: parseLastEventID_def)
qed

lemma event_id_roundtrip_witness:
  "parseLastEventID ''t:7'' ''t'' = Inr (7, True)"
proof -
  have "int_digits 7 = ''7''" by code_simp
  then have "event_id (ev_of ''t'' 7) = ''t:7''" by (simp add: event_id_def ev_of_def)
  then show ?thesis
    using event_id_roundtrip [of "ev_of ''t'' 7"]
    by (simp add: ev_of_def http_taskIDPattern_def char_class_defs less_eq_char_def in_int64_def)
qed

text \<open>
  What a client is sent, up to any moment and however the connection ends, whatever the
  repository replays and the hub delivers (duplicates and stragglers included): the numbers are
  strictly increasing, so none is sent twice, and none is at or below the client's \<open>Last-Event-ID\<close>.
\<close>

theorem stream_output_increasing:
  assumes "StreamMetrics h taskID lastID inputs w = fin" "fin = Streaming s \<or> fin = Finished s v"
  shows "sorted_wrt (<) (map se_EventSeq (output_events (st_out s))) \<and>
    (\<forall>cursor. parseLastEventID lastID taskID = Inr (cursor, True) \<longrightarrow>
      (\<forall>ev \<in> set (output_events (st_out s)). cursor < se_EventSeq ev))"
proof -
  obtain cursor hasCursor latest done' where p: "parseLastEventID lastID taskID = Inr (cursor, hasCursor)"
    and at: "stream_at (if hasCursor then cursor else latest) done' s"
    using StreamMetrics_stages [OF assms] by blast
  have out: "output_events (st_out s) = fresh (if hasCursor then cursor else latest) done'"
    using at by (simp add: stream_at_def)
  then show ?thesis
    using fresh_increasing [of "if hasCursor then cursor else latest" done'] p by auto
qed

text \<open>A repository and a connection in memory: the world is not used.\<close>

definition example_repository :: "sse_event list \<Rightarrow> unit event_repository" where
  "example_repository evs =
     \<lparr>er_QueryEvents = (\<lambda>task after w. (Inr (filter (\<lambda>ev. after < se_EventSeq ev) evs), w)),
      er_EventBounds = (\<lambda>task w. (Inr (se_EventSeq (hd evs), se_EventSeq (last evs)), w))\<rparr>"

definition example_stream_handler :: "unit stream_handler" where
  "example_stream_handler =
     \<lparr>sh_service = Some (example_repository (map (ev_of ''t'') [1, 2, 3])),
      sh_subscribe = (\<lambda>task w. (example_sub 0, w)), sh_close = (\<lambda>_ w. w), sh_flusher = True,
      sh_write = (\<lambda>_ w. (None, w))\<rparr>"

lemma example_stream:
  "\<exists>s. StreamMetrics example_stream_handler ''t'' ''t:1''
      [SEvent (ev_of ''t'' 3), STick 5, SEvent (ev_of ''t'' 4)] () = Streaming s \<and>
    st_out s = [OMetrics (ev_of ''t'' 2), OMetrics (ev_of ''t'' 3), OPing 5, OMetrics (ev_of ''t'' 4)]"
proof -
  have "parseLastEventID ''t:1'' ''t'' = Inr (1, True)" "http_taskIDPattern ''t''"
    by (code_simp, code_simp)
  then show ?thesis
    by (simp add: StreamMetrics_def example_stream_handler_def example_repository_def events_Bounds_def
        events_Query_def outside_retention_def wrap64_def http_maxTaskIDLength_def Let_def
        writeEvent_def ev_of_def)
qed

lemma stream_output_increasing_witness:
  "\<exists>s. StreamMetrics example_stream_handler ''t'' ''t:1''
      [SEvent (ev_of ''t'' 3), STick 5, SEvent (ev_of ''t'' 4)] () = Streaming s \<and>
    sorted_wrt (<) (map se_EventSeq (output_events (st_out s)))"
proof -
  obtain s where s: "StreamMetrics example_stream_handler ''t'' ''t:1''
      [SEvent (ev_of ''t'' 3), STick 5, SEvent (ev_of ''t'' 4)] () = Streaming s"
    using example_stream by blast
  with stream_output_increasing [OF s disjI1 [OF refl]] show ?thesis by blast
qed

text \<open>On a list of increasing numbers the fresh events are those above the last one.\<close>

lemma fresh_sorted:
  "sorted_wrt (<) (map se_EventSeq evs) \<Longrightarrow> fresh a evs = filter (\<lambda>e. a < se_EventSeq e) evs"
proof (induction a evs rule: fresh.induct)
  case (2 a ev evs)
  show ?case
  proof (cases "se_EventSeq ev \<le> a")
    case False
    then have "filter (\<lambda>e. a < se_EventSeq e) evs = filter (\<lambda>e. se_EventSeq ev < se_EventSeq e) evs"
      using 2(3) by (intro filter_cong) auto
    with 2 False show ?thesis by simp
  qed (use 2 in simp)
qed simp

text \<open>
  The handover from replay to live events. The subscription is made before the replay is read, so
  the live events overlap it: if the replay is the run of numbers up to \<open>k\<close> after the cursor,
  then what the client has been sent is this run, and after it the live events above \<open>k\<close>.
\<close>

lemma stream_handover:
  assumes "StreamMetrics h taskID lastID inputs w = Streaming s"
    and "parseLastEventID lastID taskID = Inr (cursor, hasCursor)"
    and "sh_subscribe h taskID w = (sub, w1)"
    and "events_Bounds (sh_service h) taskID w1 = (Inr (oldest, latest), w2)"
    and "after = (if hasCursor then cursor else latest)"
    and "events_Query (sh_service h) taskID after w2 = (Inr replay, w3)"
    and "map se_EventSeq replay = [after + 1..k]" "after \<le> k"
    and "sorted_wrt (<) (map se_EventSeq (input_events inputs))"
  shows "output_events (st_out s) = replay @ filter (\<lambda>e. k < se_EventSeq e) (input_events inputs)"
proof -
  have at: "stream_at after (replay @ input_events inputs) s"
    using StreamMetrics_stages [OF assms(1) disjI1 [OF refl]] assms(2-6) by auto
  have r: "newest after replay = k"
    using fresh_run [OF assms(7) order.refl] assms(8) by simp
  have sorted: "sorted_wrt (<) (map se_EventSeq replay)" unfolding assms(7) by simp
  have "se_EventSeq e \<in> {after + 1..k}" if "e \<in> set replay" for e
    using arg_cong [OF assms(7), of set] that by (metis imageI list.set_map set_upto)
  then have "fresh after replay = replay"
    unfolding fresh_sorted [OF sorted] filter_id_conv by (fastforce simp: add1_zle_eq)
  then show ?thesis using at r fresh_sorted [OF assms(9)] by (simp add: stream_at_def fresh_append)
qed

text \<open>
  No leak: every way the handler returns after it subscribed ends with the deferred
  \<open>Close\<close> of its own subscription, and a rejection sends nothing; the replies are 400 for
  a bad task, a bad or expired cursor and 500 when the repository fails.
\<close>

theorem stream_closes_subscription:
  "case StreamMetrics h taskID lastID inputs w of
     Streaming s \<Rightarrow> True
   | Finished s v \<Rightarrow> v = sh_close h (fst (sh_subscribe h taskID w)) (st_world s)
   | NoFlusher v \<Rightarrow> \<exists>u. v = sh_close h (fst (sh_subscribe h taskID w)) u
   | Rejected r v \<Rightarrow>
       (v = w \<and> reply_status r = 400 \<and>
         (\<not> http_taskIDPattern taskID \<or> length taskID > 64 \<or> (\<exists>err. parseLastEventID lastID taskID = Inl err))) \<or>
       (\<exists>u. v = sh_close h (fst (sh_subscribe h taskID w)) u \<and>
         (reply_status r = 500 \<or> reply_status r = 400 \<and> parseLastEventID lastID taskID \<noteq> Inr (0, False)))"
proof -
  obtain sub w1 where sub: "sh_subscribe h taskID w = (sub, w1)" by fastforce
  obtain b w2 where b: "events_Bounds (sh_service h) taskID w1 = (b, w2)" by fastforce
  show ?thesis
  proof (cases "taskID = [] \<or> \<not> http_taskIDPattern taskID \<or> length taskID > http_maxTaskIDLength")
    case True
    then show ?thesis
      by (auto simp: StreamMetrics_def http_taskIDPattern_def http_maxTaskIDLength_def status_defs)
  next
    case ok: False
    show ?thesis
    proof (cases "parseLastEventID lastID taskID")
      case (Inl err)
      with ok show ?thesis by (simp add: StreamMetrics_def status_defs)
    next
      case (Inr c)
      obtain cursor hasCursor where p: "parseLastEventID lastID taskID = Inr (cursor, hasCursor)"
        using Inr by (cases c) auto
      let ?a = "\<lambda>latest. if hasCursor then cursor else latest"
      show ?thesis
      proof (cases b)
        case (Inl err)
        with ok p sub b show ?thesis by (auto simp: StreamMetrics_def status_defs)
      next
        case (Inr bounds)
        obtain oldest latest where bounds: "bounds = (oldest, latest)" by fastforce
        obtain q w3 where q: "events_Query (sh_service h) taskID (?a latest) w2 = (q, w3)" by fastforce
        note start = ok p sub b Inr bounds
        show ?thesis
        proof (cases "outside_retention hasCursor cursor oldest latest")
          case True
          then have "hasCursor" by (simp add: outside_retention_def)
          with True start show ?thesis by (auto simp: StreamMetrics_def status_defs)
        next
          case False
          show ?thesis
          proof (cases q)
            case (Inl err)
            with False start q show ?thesis by (auto simp: StreamMetrics_def Let_def status_defs)
          next
            case (Inr evs)
            obtain r s where ws: "write_events h evs \<lparr>st_after = ?a latest, st_out = [], st_world = w3\<rparr> = (r, s)"
              by fastforce
            obtain stopped t where lp: "stream_loop h inputs s = (stopped, t)" by fastforce
            show ?thesis
              using start False q Inr ws lp
              by (cases "sh_flusher h"; cases r; cases stopped) (auto simp: StreamMetrics_def Let_def)
          qed
        qed
      qed
    qed
  qed
qed

text \<open>A connection that breaks; the world counts the open subscriptions.\<close>

definition broken_stream_handler :: "nat stream_handler" where
  "broken_stream_handler =
     \<lparr>sh_service = Some \<lparr>er_QueryEvents = (\<lambda>task after w. (Inr [ev_of task 2], w)),
                         er_EventBounds = (\<lambda>task w. (Inr (1, 2), w))\<rparr>,
      sh_subscribe = (\<lambda>task w. (example_sub 0, Suc w)), sh_close = (\<lambda>_ w. w - 1), sh_flusher = True,
      sh_write = (\<lambda>_ w. (Some (ErrNew ''broken pipe''), w))\<rparr>"

lemma stream_closes_subscription_witness:
  "\<exists>s. StreamMetrics broken_stream_handler ''t'' ''t:1'' [] 0 = Finished s 0 \<and> st_world s = 1"
proof -
  have "parseLastEventID ''t:1'' ''t'' = Inr (1, True)" "http_taskIDPattern ''t''"
    by (code_simp, code_simp)
  then obtain s v where s: "StreamMetrics broken_stream_handler ''t'' ''t:1'' [] 0 = Finished s v" "st_world s = 1"
    by (simp add: StreamMetrics_def broken_stream_handler_def events_Bounds_def events_Query_def
        outside_retention_def wrap64_def http_maxTaskIDLength_def Let_def writeEvent_def ev_of_def)
  from stream_closes_subscription [where h = broken_stream_handler and taskID = "''t''"
      and lastID = "''t:1''" and inputs = "[]" and w = 0] s
  have "v = sh_close broken_stream_handler (fst (sh_subscribe broken_stream_handler ''t'' 0)) 1" by simp
  then show ?thesis using s by (simp add: broken_stream_handler_def)
qed

end
