(* ===== verification/MaintenanceProps.thy ===== *)
theory MaintenanceProps
  imports Maintenance
begin

section \<open>Properties of the maintenance\<close>

text \<open>
  Termination and exactness of the retention loop, and how its partition window meets the one
  the store assumes.
\<close>

lemma MaintainRetention_ok:
  assumes "MaintainRetention False reply (Some cutoff) batchSize db = (Inr res, db')"
  shows "1 \<le> batchSize" "maintain_metric_retention cutoff (nat batchSize) db = (res, db')"
  using assms by (auto simp: MaintainRetention_def split: if_splits prod.splits db_reply.splits)

text \<open>
  C29. The retention loop terminates: on every database, whatever its statements answer, it
  returns within one turn more than there are rows, because each turn that is followed by another
  has deleted a row. (Between the turns nothing else writes expired rows.)
\<close>

theorem retention_terminates:
  assumes "rows_left db < turns"
  shows "\<exists>res. retention_loop turns replies cutoff batchSize n db = Some res"
  using assms
proof (induction turns arbitrary: n db)
  case (Suc turns)
  obtain r db1 where m: "MaintainRetention False (replies n) (Some cutoff) batchSize db = (r, db1)"
    by fastforce
  show ?case
  proof (cases r)
    case (Inl err)
    then show ?thesis using m by simp
  next
    case (Inr res)
    note ok = MaintainRetention_ok [OF m [unfolded Inr]]
    show ?thesis
    proof (cases "MetricPointsDeleted res < batchSize \<and> MetricEventsDeleted res < batchSize
        \<and> MetricOutboxDeleted res < batchSize")
      case True
      then show ?thesis using m Inr by simp
    next
      case False
      then have "rows_left db1 < rows_left db"
        using retention_turn_shrinks [OF ok(2)] ok(1) by simp
      then have "rows_left db1 < turns" using Suc.prems by simp
      then show ?thesis using Suc.IH m Inr False by auto
    qed
  qed
qed simp

lemma retention_terminates_witness:
  "\<exists>res. retention_loop 4 (\<lambda>_. DbOk) 0 10000 0 one_point_pg = Some res"
  by (rule retention_terminates) (simp add: rows_left_def one_point_pg_def)

text \<open>What a statement keeps, whether or not more follow.\<close>

definition retained :: "int \<Rightarrow> pg \<Rightarrow> pg \<Rightarrow> bool" where
  "retained cutoff db db' \<longleftrightarrow>
     set (pg_points db') \<subseteq> set (pg_points db) \<and> set (pg_events db') \<subseteq> set (pg_events db) \<and>
     set (pg_outbox db') \<subseteq> set (pg_outbox db) \<and>
     (\<forall>r \<in> set (pg_points db). cutoff \<le> mr_ts r \<longrightarrow> r \<in> set (pg_points db')) \<and>
     (\<forall>e \<in> set (pg_events db). cutoff \<le> er_created e \<longrightarrow> e \<in> set (pg_events db')) \<and>
     (\<forall>r \<in> set (pg_outbox db). \<not> outbox_expired cutoff r \<longrightarrow> r \<in> set (pg_outbox db')) \<and>
     set (pg_point_days db') \<subseteq> {d. d \<in> set (pg_point_days db) \<and> day_of cutoff \<le> d} \<and>
     distinct (map or_id (pg_outbox db'))"

lemma after_drop_points:
  "set (points_after cutoff db) \<subseteq> set (pg_points db)"
  "r \<in> set (pg_points db) \<Longrightarrow> cutoff \<le> mr_ts r \<Longrightarrow> r \<in> set (points_after cutoff db)"
  using day_before [of "mr_ts r" cutoff] by (auto simp: points_after_def)

lemma after_drop_events:
  "set (events_after cutoff db) \<subseteq> set (pg_events db)"
  "e \<in> set (pg_events db) \<Longrightarrow> cutoff \<le> er_created e \<Longrightarrow> e \<in> set (events_after cutoff db)"
  using day_before [of "er_created e" cutoff] by (auto simp: events_after_def)

lemma statement_retains:
  assumes m: "maintain_metric_retention cutoff n db = (res, db')" and d: "distinct (map or_id (pg_outbox db))"
  shows "retained cutoff db db'"
  unfolding retained_def
proof (intro conjI ballI impI)
  note eq = maintain_metric_retention_eq [OF m]
  note ob = outbox_delete [OF d]
  show "set (pg_points db') \<subseteq> set (pg_points db)"
    using points_delete.left_subset(1) after_drop_points(1) unfolding eq(1) by blast
  show "set (pg_events db') \<subseteq> set (pg_events db)"
    using events_delete.left_subset(1) after_drop_events(1) unfolding eq(2) by blast
  show "set (pg_outbox db') \<subseteq> set (pg_outbox db)"
    unfolding eq(3) by (rule batch_delete.left_subset(1) [OF ob])
  show "r \<in> set (pg_points db')" if "r \<in> set (pg_points db)" "cutoff \<le> mr_ts r" for r
    unfolding eq(1) by (rule points_delete.left_keeps) (use after_drop_points(2) that in auto)
  show "e \<in> set (pg_events db')" if "e \<in> set (pg_events db)" "cutoff \<le> er_created e" for e
    unfolding eq(2) by (rule events_delete.left_keeps) (use after_drop_events(2) that in auto)
  show "r \<in> set (pg_outbox db')" if "r \<in> set (pg_outbox db)" "\<not> outbox_expired cutoff r" for r
    unfolding eq(3) by (rule batch_delete.left_keeps [OF ob that])
  show "set (pg_point_days db') \<subseteq> {d. d \<in> set (pg_point_days db) \<and> day_of cutoff \<le> d}"
    unfolding eq(4) by auto
  show "distinct (map or_id (pg_outbox db'))"
    using d unfolding eq(3) delete_keys_def by (simp add: distinct_map_filter)
qed

lemma retained_trans: "retained c a b \<Longrightarrow> retained c b d \<Longrightarrow> retained c a d"
  unfolding retained_def by fast

text \<open>Nothing expired is left once no batch was full.\<close>

definition clean :: "int \<Rightarrow> pg \<Rightarrow> bool" where
  "clean cutoff db \<longleftrightarrow> (\<forall>r \<in> set (pg_points db). cutoff \<le> mr_ts r) \<and>
     (\<forall>e \<in> set (pg_events db). cutoff \<le> er_created e) \<and>
     (\<forall>r \<in> set (pg_outbox db). \<not> outbox_expired cutoff r)"

lemma last_statement_cleans:
  assumes m: "maintain_metric_retention cutoff n db = (res, db')" and d: "distinct (map or_id (pg_outbox db))"
    and "MetricPointsDeleted res < int n" "MetricEventsDeleted res < int n" "MetricOutboxDeleted res < int n"
  shows "clean cutoff db'"
  unfolding clean_def
proof (intro conjI ballI)
  note eq = maintain_metric_retention_eq [OF m]
  fix r assume "r \<in> set (pg_points db')"
  then show "cutoff \<le> mr_ts r"
    using points_delete.left_clean [of cutoff n "points_after cutoff db" r] assms(3) unfolding eq by force
next
  note eq = maintain_metric_retention_eq [OF m]
  fix e assume "e \<in> set (pg_events db')"
  then show "cutoff \<le> er_created e"
    using events_delete.left_clean [of cutoff n "events_after cutoff db" e] assms(4) unfolding eq by force
next
  note eq = maintain_metric_retention_eq [OF m]
  fix r assume "r \<in> set (pg_outbox db')"
  then show "\<not> outbox_expired cutoff r"
    using batch_delete.left_clean [OF outbox_delete [OF d], of cutoff n r] assms(5) unfolding eq by force
qed

lemma retention_loop_spec:
  "retention_loop turns replies cutoff batchSize n db = Some (None, db') \<Longrightarrow>
    distinct (map or_id (pg_outbox db)) \<Longrightarrow> retained cutoff db db' \<and> clean cutoff db'"
proof (induction turns arbitrary: n db)
  case (Suc turns)
  obtain r db1 where m: "MaintainRetention False (replies n) (Some cutoff) batchSize db = (r, db1)"
    by fastforce
  then obtain res where r: "r = Inr res" using Suc.prems(1) by (cases r) auto
  note ok = MaintainRetention_ok [OF m [unfolded r]]
  note keeps = statement_retains [OF ok(2) Suc.prems(2)]
  show ?case
  proof (cases "MetricPointsDeleted res < batchSize \<and> MetricEventsDeleted res < batchSize
      \<and> MetricOutboxDeleted res < batchSize")
    case True
    then have "db' = db1" using Suc.prems(1) m r by simp
    moreover have "clean cutoff db1"
      using last_statement_cleans [OF ok(2) Suc.prems(2)] True ok(1) by simp
    ultimately show ?thesis using keeps by simp
  next
    case False
    then have "retention_loop turns replies cutoff batchSize (Suc n) db1 = Some (None, db')"
      using Suc.prems(1) m r by (simp split: if_splits)
    moreover have "distinct (map or_id (pg_outbox db1))" using keeps by (simp add: retained_def)
    ultimately have "retained cutoff db1 db' \<and> clean cutoff db'" by (rule Suc.IH)
    then show ?thesis using retained_trans [OF keeps] by blast
  qed
qed simp

lemma maintain_ok:
  assumes "maintain turns ensured replies clock now window batchSize db = Some (None, db')"
  obtains db1 where "db1 = ensure_metric_daily_partitions (day_of clock) 8 2 db"
    "retention_loop turns replies (now - window) batchSize 0 db1 = Some (None, db')"
proof -
  obtain e db1 where e: "EnsureWorkerDailyPartitions ensured clock db = (e, db1)" by fastforce
  then have none: "e = None" using assms by (cases e) (auto simp: maintain_def)
  then have "db1 = ensure_metric_daily_partitions (day_of clock) 8 2 db"
    using e by (cases ensured) (simp_all add: EnsureWorkerDailyPartitions_def ensureDailyPartitions_def
        partitionPastDays_def partitionFutureDays_def Let_def)
  moreover have "retention_loop turns replies (now - window) batchSize 0 db1 = Some (None, db')"
    using assms e none by (simp add: maintain_def)
  ultimately show thesis by (rule that)
qed

text \<open>
  C9. The retention window is exact: when a run of the maintenance succeeds, no point, no event
  and no published outbox row older than the window is left, and nothing else was removed:
  every point and event inside the window and every outbox row still to be published is there.
\<close>

theorem retention_exact:
  assumes "maintain turns ensured replies clock now window batchSize db = Some (None, db')"
    and "distinct (map or_id (pg_outbox db))"
  shows "(\<forall>r. r \<in> set (pg_points db') \<longleftrightarrow> r \<in> set (pg_points db) \<and> now - window \<le> mr_ts r) \<and>
    (\<forall>e. e \<in> set (pg_events db') \<longleftrightarrow> e \<in> set (pg_events db) \<and> now - window \<le> er_created e) \<and>
    (\<forall>r. r \<in> set (pg_outbox db') \<longleftrightarrow>
       r \<in> set (pg_outbox db) \<and> \<not> (or_created r < now - window \<and> or_published r \<noteq> None))"
proof -
  obtain db1 where db1: "db1 = ensure_metric_daily_partitions (day_of clock) 8 2 db"
    "retention_loop turns replies (now - window) batchSize 0 db1 = Some (None, db')"
    using maintain_ok [OF assms(1)] .
  then have same: "pg_points db1 = pg_points db" "pg_events db1 = pg_events db" "pg_outbox db1 = pg_outbox db"
    by (simp_all add: ensure_metric_daily_partitions_def)
  then have "retained (now - window) db1 db' \<and> clean (now - window) db'"
    using retention_loop_spec [OF db1(2)] assms(2) by simp
  then show ?thesis
    unfolding retained_def clean_def same outbox_expired_def by blast
qed

text \<open>A database with one point of day 0, maintained on day 8 and on day 0.\<close>

lemma example_maintain:
  "maintain 4 DbOk (\<lambda>_. DbOk) (day * 86400000) (day * 86400000) 604800000 10000 one_point_pg =
    retention_loop 4 (\<lambda>_. DbOk) (day * 86400000 - 604800000) 10000 0
      (ensure_metric_daily_partitions day 8 2 one_point_pg)"
  by (simp add: maintain_def EnsureWorkerDailyPartitions_def ensureDailyPartitions_def
      partitionPastDays_def partitionFutureDays_def day_of_def)

lemma example_cleaned:
  "\<exists>db'. maintain 4 DbOk (\<lambda>_. DbOk) (8 * 86400000) (8 * 86400000) 604800000 10000 one_point_pg = Some (None, db')"
proof -
  obtain res db' where m: "maintain_metric_retention 86400000 10000 (ensure_metric_daily_partitions 8 8 2 one_point_pg)
      = (res, db')" by fastforce
  note eq = maintain_metric_retention_eq [OF m]
  have "MetricPointsDeleted res = 0" "MetricEventsDeleted res = 0" "MetricOutboxDeleted res = 0"
    unfolding eq by (simp_all add: points_after_def events_after_def ensure_metric_daily_partitions_def
        one_point_pg_def empty_pg_def day_of_def store_row_def first_rows_def outbox_expired_def)
  then show ?thesis using m
    unfolding example_maintain by (simp add: MaintainRetention_def eval_nat_numeral)
qed

lemma retention_exact_witness:
  "\<exists>db'. maintain 4 DbOk (\<lambda>_. DbOk) (8 * 86400000) (8 * 86400000) 604800000 10000 one_point_pg = Some (None, db') \<and>
     store_row \<notin> set (pg_points db') \<and> length (pg_outbox one_point_pg) = 1 \<and>
     set (pg_outbox one_point_pg) \<subseteq> set (pg_outbox db')"
proof -
  obtain db' where m: "maintain 4 DbOk (\<lambda>_. DbOk) (8 * 86400000) (8 * 86400000) 604800000 10000 one_point_pg
      = Some (None, db')" using example_cleaned by blast
  have "distinct (map or_id (pg_outbox one_point_pg))" by (simp add: one_point_pg_def)
  from retention_exact [OF m this] m show ?thesis
    by (auto simp: one_point_pg_def store_row_def)
qed

text \<open>
  C8. The partitions of the maintenance and of the store do not meet: once the maintenance has
  run with the 168 hours of the worker, every flush of the same UTC day that contains a point of the
  eighth day before fails and stores nothing. The maintenance creates that day and its retention
  drops it again, while the store counts it inside the window and does not create it. The
  consumer requeues such a batch with everything that was flushed with it.
\<close>

theorem eighth_day_is_refused:
  assumes "maintain turns ensured replies clock now 604800000 batchSize db = Some (None, db')"
    and "distinct (map or_id (pg_outbox db))" "day_of later = day_of now"
    and "p \<in> set ps" "day_of (mp_TimestampMillis p) = day_of now - 8"
  shows "\<exists>err. store_Flush im r later ps db' = (Some err, db')"
proof -
  obtain db1 where db1: "db1 = ensure_metric_daily_partitions (day_of clock) 8 2 db"
    "retention_loop turns replies (now - 604800000) batchSize 0 db1 = Some (None, db')"
    using maintain_ok [OF assms(1)] .
  then have "distinct (map or_id (pg_outbox db1))"
    using assms(2) by (simp add: ensure_metric_daily_partitions_def)
  then have "retained (now - 604800000) db1 db'" using retention_loop_spec [OF db1(2)] by simp
  moreover have "day_of (now - 604800000) = day_of now - 7" by (simp add: day_of_def)
  ultimately have gone: "day_of now - 8 \<notin> set (pg_point_days db')"
    by (auto simp: retained_def)
  have never: "\<not> flushed im later ps db' ins db''" for ins db''
  proof
    assume "flushed im later ps db' ins db''"
    then obtain db2 where days: "ensure_days (\<lambda>_. None) (missing_days (map mp_TimestampMillis ps) later) db'
        = (None, db2)" and ok: "list_all (point_admissible (pg_point_days db2)) (map point_row ps)"
      by (auto simp: flushed_def)
    then have "day_of (mp_TimestampMillis p) \<in> set (pg_point_days db2)"
      using assms(4) by (auto simp: list_all_iff point_admissible_def point_row_def)
    then show False
      using gone assms(3,5) ensure_days_spec [OF days] by (simp add: set_missing_days)
  qed
  obtain res db2 where f: "store_Flush im r later ps db' = (res, db2)" by fastforce
  note ends = store_Flush_ends [OF f]
  have "ps \<noteq> []" using assms(4) by auto
  then have "res \<noteq> None" using ends never by blast
  moreover have "store_Flush im (r\<lparr>fl_commit := DbOk\<rparr>) later ps db' \<noteq> (None, db2)"
    using store_Flush_ends [of im "r\<lparr>fl_commit := DbOk\<rparr>" later ps db' None db2] never \<open>ps \<noteq> []\<close> by blast
  ultimately show ?thesis using ends f by auto
qed

lemma eighth_day_is_refused_witness:
  "\<exists>db' err. maintain 4 DbOk (\<lambda>_. DbOk) (8 * 86400000) (8 * 86400000) 604800000 10000 one_point_pg = Some (None, db') \<and>
     store_Flush example_impl no_errors (8 * 86400000 + 1) [store_point] db' = (Some err, db')"
proof -
  obtain db' where m: "maintain 4 DbOk (\<lambda>_. DbOk) (8 * 86400000) (8 * 86400000) 604800000 10000 one_point_pg
      = Some (None, db')" using example_cleaned by blast
  have "distinct (map or_id (pg_outbox one_point_pg))" by (simp add: one_point_pg_def)
  moreover have "day_of (8 * 86400000 + 1) = day_of (8 * 86400000)"
    and "day_of (mp_TimestampMillis store_point) = day_of (8 * 86400000) - 8"
    and "store_point \<in> set [store_point]"
    by (simp_all add: day_of_def store_point_def)
  ultimately show ?thesis using eighth_day_is_refused [OF m] m by blast
qed

end
