(* ===== verification/Queries.thy ===== *)
theory Queries
  imports Store Stream "HOL-Library.Product_Lexorder"
begin

section \<open>The metric point store: reading\<close>

text \<open>
  The queries of \<open>internal/storage/postgres/metric_point_store.go\<close> (\<open>QueryEvents\<close>,
  \<open>EventBounds\<close>, \<open>QuerySummary\<close>, \<open>QueryHistory\<close>, \<open>QueryAudit\<close>): each statement under \<open>sql/\<close> is a
  function of the database, each Go function reads its rows with every outcome of the driver.
  \<open>query_metric_history.sql\<close> is modelled as it is meant, without its lines that start with \<open>//\<close>: the
  database refuses the statement as it is embedded, so that \<open>rr_query\<close> of the reply is an error there. A row of a \<open>LEFT JOIN\<close> has its joined columns together or not at all, so they are
  one optional field; the average of a list of values is the database's (\<open>avg\<close>).
\<close>

subsection \<open>Reading rows\<close>

record rows_reply =
  rr_query :: "go_error option"
  rr_scan :: "nat \<Rightarrow> go_error option"
  rr_err :: "go_error option"

fun scan_rows ::
  "(nat \<Rightarrow> go_error option) \<Rightarrow> nat \<Rightarrow> ('row \<Rightarrow> 'a \<Rightarrow> 'a) \<Rightarrow> 'row list \<Rightarrow> 'a \<Rightarrow> go_error + 'a" where
  "scan_rows scan n add [] acc = Inr acc"
| "scan_rows scan n add (r # rs) acc =
     (case scan n of Some err \<Rightarrow> Inl err | None \<Rightarrow> scan_rows scan (Suc n) add rs (add r acc))"

text \<open>\<open>pool.Query\<close>, the loop over \<open>rows.Next\<close> and \<open>rows.Err\<close>, with the text of each error.\<close>

definition read_rows ::
  "rows_reply \<Rightarrow> string \<Rightarrow> string \<Rightarrow> string \<Rightarrow> ('row \<Rightarrow> 'a \<Rightarrow> 'a) \<Rightarrow> 'row list \<Rightarrow> 'a \<Rightarrow> go_error + 'a" where
  "read_rows r query_text scan_text read_text add rows acc =
     (case rr_query r of
        Some err \<Rightarrow> Inl (ErrWrap query_text [err])
      | None \<Rightarrow>
          (case scan_rows (rr_scan r) 0 add rows acc of
             Inl err \<Rightarrow> Inl (ErrWrap scan_text [err])
           | Inr acc' \<Rightarrow>
               (case rr_err r of
                  Some err \<Rightarrow> Inl (ErrWrap read_text [err])
                | None \<Rightarrow> Inr acc')))"

subsection \<open>Events\<close>

definition retention_millis :: int where
  "retention_millis = 604800000"

definition retained_events :: "int \<Rightarrow> string \<Rightarrow> pg \<Rightarrow> event_row list" where
  "retained_events now task db =
     filter (\<lambda>e. er_task e = task \<and> now - retention_millis \<le> er_created e) (pg_events db)"

definition query_metric_events :: "int \<Rightarrow> string \<Rightarrow> int \<Rightarrow> pg \<Rightarrow> (int \<times> string) list" where
  "query_metric_events now task after db =
     map (\<lambda>e. (er_seq e, er_payload e))
       (sort_key er_seq (filter (\<lambda>e. after < er_seq e) (retained_events now task db)))"

definition query_metric_event_bounds :: "int \<Rightarrow> string \<Rightarrow> pg \<Rightarrow> int \<times> int" where
  "query_metric_event_bounds now task db =
     (let seqs = map er_seq (retained_events now task db)
      in (if seqs = [] then 0 else Min (set seqs),
          max (if seqs = [] then 0 else Max (set seqs))
            (case pg_counters db task of None \<Rightarrow> 0 | Some n \<Rightarrow> n)))"

definition QueryEvents :: "rows_reply \<Rightarrow> int \<Rightarrow> string \<Rightarrow> int \<Rightarrow> pg \<Rightarrow> go_error + sse_event list" where
  "QueryEvents r now taskID after db =
     read_rows r ''query metric events'' ''scan metric event'' ''read metric events''
       (\<lambda>(seq, payload) events.
          events @ [\<lparr>se_TaskID = taskID, se_EventSeq = seq, se_Payload = payload\<rparr>])
       (query_metric_events now taskID after db) []"

definition EventBounds :: "go_error option \<Rightarrow> int \<Rightarrow> string \<Rightarrow> pg \<Rightarrow> go_error + int \<times> int" where
  "EventBounds scan now taskID db =
     (case scan of
        Some err \<Rightarrow> Inl (ErrWrap ''query metric event bounds'' [err])
      | None \<Rightarrow> Inr (query_metric_event_bounds now taskID db))"

subsection \<open>Values\<close>

text \<open>The order of finite \<open>double precision\<close> values: sign and magnitude.\<close>

definition float_key :: "float64 \<Rightarrow> int" where
  "float_key x =
     (let magnitude = uint (x AND 0x7FFFFFFFFFFFFFFF)
      in if bit x 63 then - magnitude else magnitude)"

definition smaller_value :: "float64 \<Rightarrow> float64 \<Rightarrow> float64" where
  "smaller_value x y = (if float_key x < float_key y then x else y)"

definition larger_value :: "float64 \<Rightarrow> float64 \<Rightarrow> float64" where
  "larger_value x y = (if float_key x > float_key y then x else y)"

text \<open>The aggregates \<open>min\<close> and \<open>max\<close>, of groups that have a row.\<close>

fun min_value :: "float64 list \<Rightarrow> float64" where
  "min_value [] = 0"
| "min_value (x # xs) = foldl smaller_value x xs"

fun max_value :: "float64 list \<Rightarrow> float64" where
  "max_value [] = 0"
| "max_value (x # xs) = foldl larger_value x xs"

text \<open>The time and step of a row, as \<open>ORDER BY ts, step\<close> compares them.\<close>

definition row_time :: "metric_row \<Rightarrow> int \<times> int" where
  "row_time r = (mr_ts r, mr_step r)"

definition later_row :: "metric_row \<Rightarrow> metric_row \<Rightarrow> metric_row" where
  "later_row a b = (if row_time a < row_time b then b else a)"

definition earlier_row :: "metric_row \<Rightarrow> metric_row \<Rightarrow> metric_row" where
  "earlier_row a b = (if row_time b < row_time a then b else a)"

definition rows_of_key :: "string \<Rightarrow> metric_row list \<Rightarrow> metric_row list" where
  "rows_of_key k rows = filter (\<lambda>r. mr_key r = k) rows"

definition keys_of :: "metric_row list \<Rightarrow> string list" where
  "keys_of rows = sort (remdups (map mr_key rows))"

subsection \<open>Summary\<close>

record summary_metric =
  sm_Last :: float64
  sm_Min :: float64
  sm_Max :: float64
  sm_Avg :: float64

record summary_result =
  su_Exists :: bool
  su_LastStep :: int
  su_UpdatedAt :: int
  su_Metrics :: "(string \<times> summary_metric) list"

record summary_row =
  sw_exists :: bool
  sw_last_step :: "int option"
  sw_updated_at :: "int option"
  sw_metric :: "(string \<times> summary_metric) option"

fun latest_row :: "metric_row list \<Rightarrow> metric_row option" where
  "latest_row [] = None"
| "latest_row (r # rs) = Some (foldl later_row r rs)"

definition summary_metrics :: "(float64 list \<Rightarrow> float64) \<Rightarrow> metric_row list \<Rightarrow> (string \<times> summary_metric) list" where
  "summary_metrics avg scoped =
     concat (map (\<lambda>k.
       (let values = map mr_value (rows_of_key k scoped)
        in case latest_row (rows_of_key k scoped) of
             None \<Rightarrow> []
           | Some r \<Rightarrow>
               [(k, \<lparr>sm_Last = mr_value r, sm_Min = min_value values, sm_Max = max_value values,
                     sm_Avg = avg values\<rparr>)])) (keys_of scoped))"

definition query_metric_summary ::
  "(float64 list \<Rightarrow> float64) \<Rightarrow> string \<Rightarrow> int \<Rightarrow> pg \<Rightarrow> summary_row list" where
  "query_metric_summary avg task cutoff db =
     (let scoped = filter (\<lambda>r. mr_task r = task \<and> cutoff \<le> mr_ts r) (pg_points db);
          key_latest = concat (map (\<lambda>k. case latest_row (rows_of_key k scoped) of None \<Rightarrow> [] | Some r \<Rightarrow> [r])
            (keys_of scoped));
          task_latest = latest_row key_latest;
          row = (\<lambda>m. \<lparr>sw_exists = scoped \<noteq> [], sw_last_step = map_option mr_step task_latest,
            sw_updated_at = map_option mr_ts task_latest, sw_metric = m\<rparr>)
      in case summary_metrics avg scoped of
           [] \<Rightarrow> [row None]
         | metrics \<Rightarrow> map (\<lambda>m. row (Some m)) metrics)"

definition add_summary_row :: "summary_row \<Rightarrow> summary_result \<Rightarrow> summary_result" where
  "add_summary_row row result =
     \<lparr>su_Exists = sw_exists row,
      su_LastStep = (case sw_last_step row of Some s \<Rightarrow> s | None \<Rightarrow> su_LastStep result),
      su_UpdatedAt = (case sw_updated_at row of Some t \<Rightarrow> t | None \<Rightarrow> su_UpdatedAt result),
      su_Metrics = (case sw_metric row of
          Some (k, m) \<Rightarrow> AList.update k m (su_Metrics result)
        | None \<Rightarrow> su_Metrics result)\<rparr>"

definition QuerySummary ::
  "(float64 list \<Rightarrow> float64) \<Rightarrow> rows_reply \<Rightarrow> int \<Rightarrow> string \<Rightarrow> pg \<Rightarrow> go_error + summary_result" where
  "QuerySummary avg r now taskID db =
     (let cutoff = now - retention_millis
      in read_rows r ''query metric summary'' ''scan metric summary'' ''read metric summary''
           add_summary_row (query_metric_summary avg taskID cutoff db)
           \<lparr>su_Exists = False, su_LastStep = 0, su_UpdatedAt = 0, su_Metrics = []\<rparr>)"

subsection \<open>History\<close>

record history_query =
  hq_TaskID :: string
  hq_Keys :: "string list"
  hq_From :: "int option"
  hq_To :: "int option"
  hq_StepFrom :: "int option"
  hq_StepTo :: "int option"
  hq_MaxPoints :: int

record history_point =
  hp_Key :: string
  hp_Step :: int
  hp_TS :: int
  hp_V :: float64
  hp_Min :: float64
  hp_Max :: float64

record history_result =
  hr_Exists :: bool
  hr_Downsampled :: bool
  hr_BucketMS :: int
  hr_Points :: "history_point list"

text \<open>The arguments \<open>$1\<close> to \<open>$8\<close> of the statement.\<close>

record history_args =
  ha_task :: string
  ha_cutoff :: int
  ha_keys :: "string list option"
  ha_from :: "int option"
  ha_to :: "int option"
  ha_step_from :: "int option"
  ha_step_to :: "int option"
  ha_max_points :: int

definition int32_of :: "int \<Rightarrow> int" where
  "int32_of x = (x + 2 ^ 31) mod 2 ^ 32 - 2 ^ 31"

definition nullableStrings :: "string list \<Rightarrow> string list option" where
  "nullableStrings xs = (if xs = [] then None else Some xs)"

definition nullableMillis :: "int option \<Rightarrow> int option" where
  "nullableMillis x = x"

definition nullableStep :: "int option \<Rightarrow> int option" where
  "nullableStep x = map_option int32_of x"

definition null_or :: "'a option \<Rightarrow> ('a \<Rightarrow> bool) \<Rightarrow> bool" where
  "null_or x P = (case x of None \<Rightarrow> True | Some a \<Rightarrow> P a)"

definition history_filtered :: "history_args \<Rightarrow> pg \<Rightarrow> metric_row list" where
  "history_filtered a db =
     filter (\<lambda>r. mr_task r = ha_task a \<and> ha_cutoff a \<le> mr_ts r \<and>
         null_or (ha_keys a) (\<lambda>keys. mr_key r \<in> set keys) \<and>
         null_or (ha_from a) (\<lambda>t. t \<le> mr_ts r) \<and> null_or (ha_to a) (\<lambda>t. mr_ts r < t) \<and>
         null_or (ha_step_from a) (\<lambda>s. s \<le> mr_step r) \<and> null_or (ha_step_to a) (\<lambda>s. mr_step r \<le> s))
       (pg_points db)"

definition min_ts :: "metric_row list \<Rightarrow> int" where
  "min_ts rows = Min (set (map mr_ts rows))"

definition max_ts :: "metric_row list \<Rightarrow> int" where
  "max_ts rows = Max (set (map mr_ts rows))"

definition over_limit :: "history_args \<Rightarrow> metric_row list \<Rightarrow> string \<Rightarrow> bool" where
  "over_limit a rows k \<longleftrightarrow> ha_max_points a < int (length (rows_of_key k rows))"

text \<open>\<open>CEIL\<close> of a quotient.\<close>

definition ceil_div :: "int \<Rightarrow> int \<Rightarrow> int" where
  "ceil_div x y = - ((- x) div y)"

definition bucket_config :: "history_args \<Rightarrow> metric_row list \<Rightarrow> int" where
  "bucket_config a rows =
     foldr max
       (map (\<lambda>k. max 1 (ceil_div (max_ts (rows_of_key k rows) - min_ts (rows_of_key k rows) + 1) (ha_max_points a)))
         (filter (over_limit a rows) (keys_of rows)))
       0"

definition raw_point :: "metric_row \<Rightarrow> history_point" where
  "raw_point r =
     \<lparr>hp_Key = mr_key r, hp_Step = mr_step r, hp_TS = mr_ts r, hp_V = mr_value r, hp_Min = mr_value r,
      hp_Max = mr_value r\<rparr>"

definition raw_points :: "history_args \<Rightarrow> metric_row list \<Rightarrow> history_point list" where
  "raw_points a rows = map raw_point (filter (\<lambda>r. \<not> over_limit a rows (mr_key r)) rows)"

text \<open>
  The point of one bucket: \<open>min(ARRAY[ts, step])[2]\<close> is the step of the earliest row.
  \<open>date_bin\<close> puts a row into the bucket of its distance from the first row of its key.
\<close>

definition bucket_index :: "int \<Rightarrow> int \<Rightarrow> metric_row \<Rightarrow> int" where
  "bucket_index bucket_ms origin r = (mr_ts r - origin) div bucket_ms"

fun sample_point :: "(float64 list \<Rightarrow> float64) \<Rightarrow> metric_row list \<Rightarrow> history_point list" where
  "sample_point avg [] = []"
| "sample_point avg (r # rs) =
     [\<lparr>hp_Key = mr_key r, hp_Step = mr_step (foldl earlier_row r rs), hp_TS = min_ts (r # rs),
       hp_V = avg (map mr_value (r # rs)), hp_Min = min_value (map mr_value (r # rs)),
       hp_Max = max_value (map mr_value (r # rs))\<rparr>]"

definition sample_key :: "(float64 list \<Rightarrow> float64) \<Rightarrow> int \<Rightarrow> metric_row list \<Rightarrow> history_point list" where
  "sample_key avg bucket_ms rows =
     concat (map (\<lambda>b. sample_point avg (filter (\<lambda>r. bucket_index bucket_ms (min_ts rows) r = b) rows))
       (remdups (map (bucket_index bucket_ms (min_ts rows)) rows)))"

definition sampled_points ::
  "(float64 list \<Rightarrow> float64) \<Rightarrow> history_args \<Rightarrow> metric_row list \<Rightarrow> history_point list" where
  "sampled_points avg a rows =
     concat (map (\<lambda>k. sample_key avg (bucket_config a rows) (rows_of_key k rows))
       (filter (over_limit a rows) (keys_of rows)))"

record history_row =
  hw_exists :: bool
  hw_bucket :: "int option"
  hw_point :: "history_point option"

definition query_metric_history ::
  "(float64 list \<Rightarrow> float64) \<Rightarrow> history_args \<Rightarrow> pg \<Rightarrow> history_row list" where
  "query_metric_history avg a db =
     (let rows = history_filtered a db;
          result_points = raw_points a rows @ sampled_points avg a rows;
          exists = list_ex (\<lambda>r. mr_task r = ha_task a \<and> ha_cutoff a \<le> mr_ts r) (pg_points db);
          row = (\<lambda>p. \<lparr>hw_exists = exists, hw_bucket = Some (bucket_config a rows), hw_point = p\<rparr>)
      in if result_points = [] then [row None]
         else map (\<lambda>p. row (Some p)) (sort_key (\<lambda>p. (hp_Key p, hp_TS p, hp_Step p)) result_points))"

definition add_history_row :: "history_row \<Rightarrow> history_result \<Rightarrow> history_result" where
  "add_history_row row result =
     \<lparr>hr_Exists = hw_exists row, hr_Downsampled = hr_Downsampled result,
      hr_BucketMS = (case hw_bucket row of Some b \<Rightarrow> b | None \<Rightarrow> hr_BucketMS result),
      hr_Points = (case hw_point row of Some p \<Rightarrow> hr_Points result @ [p] | None \<Rightarrow> hr_Points result)\<rparr>"

definition history_args_of :: "int \<Rightarrow> history_query \<Rightarrow> history_args" where
  "history_args_of now query =
     \<lparr>ha_task = hq_TaskID query, ha_cutoff = now - retention_millis, ha_keys = nullableStrings (hq_Keys query),
      ha_from = nullableMillis (hq_From query), ha_to = nullableMillis (hq_To query),
      ha_step_from = nullableStep (hq_StepFrom query), ha_step_to = nullableStep (hq_StepTo query),
      ha_max_points = hq_MaxPoints query\<rparr>"

definition QueryHistory ::
  "(float64 list \<Rightarrow> float64) \<Rightarrow> rows_reply \<Rightarrow> int \<Rightarrow> history_query \<Rightarrow> pg \<Rightarrow> go_error + history_result" where
  "QueryHistory avg r now query db =
     (if hq_MaxPoints query < 1 \<or> hq_MaxPoints query > 5000
      then Inl (ErrNew ''max_points must be between 1 and 5000'')
      else case read_rows r ''query metric history'' ''scan metric history'' ''read metric history''
             add_history_row (query_metric_history avg (history_args_of now query) db)
             \<lparr>hr_Exists = False, hr_Downsampled = False, hr_BucketMS = 0, hr_Points = []\<rparr> of
        Inl err \<Rightarrow> Inl err
      | Inr result \<Rightarrow> Inr (result\<lparr>hr_Downsampled := hr_BucketMS result > 0\<rparr>))"

subsection \<open>Audit\<close>

record audit_result =
  au_Exists :: bool
  au_PointCount :: int
  au_DistinctSteps :: int
  au_FirstStep :: "int option"
  au_LastStep :: "int option"
  au_Keys :: "string list"
  au_MissingSteps :: "int list"

definition query_metric_audit :: "string \<Rightarrow> pg \<Rightarrow> audit_result" where
  "query_metric_audit task db =
     (let task_points = filter (\<lambda>r. mr_task r = task) (pg_points db);
          steps = map mr_step task_points;
          first_step = (if steps = [] then None else Some (Min (set steps)));
          last_step = (if steps = [] then None else Some (Max (set steps)));
          missing = (case (first_step, last_step) of
              (Some f, Some l) \<Rightarrow> if l - f \<le> 100000 then filter (\<lambda>s. s \<notin> set steps) [f..l] else []
            | _ \<Rightarrow> [])
      in \<lparr>au_Exists = task_points \<noteq> [], au_PointCount = int (length task_points),
          au_DistinctSteps = int (length (remdups steps)), au_FirstStep = first_step,
          au_LastStep = last_step, au_Keys = keys_of task_points, au_MissingSteps = missing\<rparr>)"

text \<open>The second statement of \<open>QueryAudit\<close>; its rows are only logged.\<close>

definition query_duplicate_steps :: "string \<Rightarrow> pg \<Rightarrow> (string \<times> int) list" where
  "query_duplicate_steps task db =
     (let task_points = filter (\<lambda>r. mr_task r = task) (pg_points db)
      in filter (\<lambda>(k, s). 1 < card (set (map mr_ts (filter (\<lambda>r. mr_key r = k \<and> mr_step r = s) task_points))))
           (sort (remdups (map (\<lambda>r. (mr_key r, mr_step r)) task_points))))"

definition QueryAudit ::
  "go_error option \<Rightarrow> rows_reply \<Rightarrow> string \<Rightarrow> pg \<Rightarrow> go_error + audit_result" where
  "QueryAudit scan duplicates taskID db =
     (case scan of
        Some err \<Rightarrow> Inl (ErrWrap ''query metric audit'' [err])
      | None \<Rightarrow>
          (let result = query_metric_audit taskID db
           in if au_Exists result
              then (case read_rows duplicates ''query duplicate metric steps'' ''scan duplicate metric step''
                       ''read duplicate metric steps'' (\<lambda>row seen. seen) (query_duplicate_steps taskID db) () of
                      Inl err \<Rightarrow> Inl err
                    | Inr _ \<Rightarrow> Inr result)
              else Inr result))"

end
