(* ===== verification/QueriesProps.thy ===== *)
theory QueriesProps
  imports Queries StreamProps StoreProps
begin

section \<open>Properties of the queries\<close>

text \<open>
  The bound of a downsampled history (of the intended statement), the arithmetic of the audit, the
  summary, and the replay of the event stream from the database.
\<close>

lemma scan_rows_Inr: "scan_rows scan n add rows acc = Inr x \<Longrightarrow> x = fold add rows acc"
  by (induction rows arbitrary: n acc) (auto split: option.splits)

lemma read_rows_Inr: "read_rows r q s e add rows acc = Inr x \<Longrightarrow> x = fold add rows acc"
  by (auto simp: read_rows_def scan_rows_Inr split: option.splits sum.splits)

definition all_read :: rows_reply where
  "all_read = \<lparr>rr_query = None, rr_scan = (\<lambda>_. None), rr_err = None\<rparr>"

lemma scan_rows_none: "scan_rows (\<lambda>_. None) n add rows acc = Inr (fold add rows acc)"
  by (induction rows arbitrary: n acc) auto

lemma read_rows_all_read: "read_rows all_read q s e add rows acc = Inr (fold add rows acc)"
  by (simp add: read_rows_def all_read_def scan_rows_none)

subsection \<open>Values\<close>

lemma foldl_smaller:
  "foldl smaller_value x xs \<in> insert x (set xs) \<and>
   (\<forall>y \<in> insert x (set xs). float_key (foldl smaller_value x xs) \<le> float_key y)"
proof (induction xs arbitrary: x)
  case (Cons y ys)
  show ?case using Cons [of "smaller_value x y"] by (auto simp: smaller_value_def split: if_splits)
qed simp

lemma foldl_larger:
  "foldl larger_value x xs \<in> insert x (set xs) \<and>
   (\<forall>y \<in> insert x (set xs). float_key y \<le> float_key (foldl larger_value x xs))"
proof (induction xs arbitrary: x)
  case (Cons y ys)
  show ?case using Cons [of "larger_value x y"] by (auto simp: larger_value_def split: if_splits)
qed simp

lemma min_value_le: "x \<in> set xs \<Longrightarrow> float_key (min_value xs) \<le> float_key x"
  using foldl_smaller [of "hd xs" "tl xs"] by (cases xs) auto

lemma max_value_ge: "x \<in> set xs \<Longrightarrow> float_key x \<le> float_key (max_value xs)"
  using foldl_larger [of "hd xs" "tl xs"] by (cases xs) auto

subsection \<open>Buckets\<close>

lemma le_foldr_max: "x \<in> set xs \<Longrightarrow> x \<le> foldr max xs (b :: int)"
  by (induction xs) auto

lemma foldr_max_pos: "(\<And>x. x \<in> set xs \<Longrightarrow> 0 < x) \<Longrightarrow> 0 < foldr max xs (0 :: int) \<longleftrightarrow> xs \<noteq> []"
  by (induction xs) (auto simp: less_max_iff_disj)

lemma ceil_div_ge: "0 < y \<Longrightarrow> x \<le> ceil_div x y * y"
proof -
  assume "0 < y"
  then have "0 \<le> (- x) mod y" by simp
  moreover have "(- x) div y * y + (- x) mod y = - x" by (rule div_mult_mod_eq)
  ultimately have "x \<le> - ((- x) div y * y)" by linarith
  then show ?thesis by (simp add: ceil_div_def)
qed

lemma zdiv_less: "0 < b \<Longrightarrow> x < n * b \<Longrightarrow> x div b < (n :: int)"
proof (rule ccontr)
  assume b: "0 < b" "x < n * b" and "\<not> x div b < n"
  then have "n * b \<le> x div b * b" by (intro mult_right_mono) simp_all
  moreover have "x div b * b + x mod b = x" "0 \<le> x mod b" using b by (simp_all add: div_mult_mod_eq)
  ultimately show False using b(2) by linarith
qed

lemma concat_one_key:
  "distinct xs \<Longrightarrow> concat (map (\<lambda>x. if x = k then g x else []) xs) = (if k \<in> set xs then g k else [])"
  by (induction xs) auto

lemma keys_of_facts [simp]: "distinct (keys_of rows)" "set (keys_of rows) = mr_key ` set rows"
  by (auto simp: keys_of_def)

lemma in_rows_of_key [simp]: "r \<in> set (rows_of_key k rows) \<longleftrightarrow> r \<in> set rows \<and> mr_key r = k"
  by (auto simp: rows_of_key_def)

lemma min_max_ts:
  assumes "r \<in> set rows"
  shows "min_ts rows \<le> mr_ts r" "mr_ts r \<le> max_ts rows"
  using assms by (simp_all add: min_ts_def max_ts_def)

lemma sample_point_length: "length (sample_point avg rs) \<le> 1"
  by (cases rs) simp_all

lemma sample_point_key: "p \<in> set (sample_point avg rs) \<Longrightarrow> \<exists>r \<in> set rs. hp_Key p = mr_key r"
  by (cases rs) auto

lemma sample_key_key:
  "p \<in> set (sample_key avg b (rows_of_key k rows)) \<Longrightarrow> hp_Key p = k"
  by (auto simp: sample_key_def dest!: sample_point_key)

lemma length_concat_map_le:
  assumes "\<And>x. length (f x) \<le> 1"
  shows "length (concat (map f xs)) \<le> length xs"
proof (induction xs)
  case (Cons x xs)
  then show ?case using assms [of x] by simp
qed simp

text \<open>A bucket width that is large enough for a key leaves at most \<open>n\<close> buckets.\<close>

lemma sample_key_length:
  assumes "1 \<le> b" "max_ts rows - min_ts rows + 1 \<le> b * n" "0 \<le> n"
  shows "int (length (sample_key avg b rows)) \<le> n"
proof -
  let ?ix = "map (bucket_index b (min_ts rows)) rows"
  have "length (sample_key avg b rows) \<le> length (remdups ?ix)"
    unfolding sample_key_def by (rule length_concat_map_le) (rule sample_point_length)
  also have "\<dots> = card (set ?ix)" by (simp add: length_remdups_card_conv)
  also have "\<dots> \<le> card {0..<n}"
  proof (rule card_mono)
    show "set ?ix \<subseteq> {0..<n}"
    proof
      fix i
      assume "i \<in> set ?ix"
      then obtain r where r: "r \<in> set rows" and i: "i = (mr_ts r - min_ts rows) div b"
        by (auto simp: bucket_index_def)
      have "0 \<le> mr_ts r - min_ts rows" "mr_ts r - min_ts rows < n * b"
        using min_max_ts [OF r] assms(2) by (simp_all add: mult.commute)
      then show "i \<in> {0..<n}"
        using assms(1) i by (simp add: pos_imp_zdiv_nonneg_iff zdiv_less)
    qed
  qed simp
  also have "\<dots> = nat n" by simp
  finally show ?thesis using assms(3) by linarith
qed

text \<open>What a query that succeeds returns.\<close>

lemma fold_history_rows:
  "fold add_history_row (map (\<lambda>p. \<lparr>hw_exists = e, hw_bucket = Some b, hw_point = Some p\<rparr>) ps) result =
    (if ps = [] then result
     else \<lparr>hr_Exists = e, hr_Downsampled = hr_Downsampled result, hr_BucketMS = b,
           hr_Points = hr_Points result @ ps\<rparr>)"
  by (induction ps arbitrary: result) (auto simp: add_history_row_def)

definition history_points :: "(float64 list \<Rightarrow> float64) \<Rightarrow> history_args \<Rightarrow> metric_row list \<Rightarrow> history_point list" where
  "history_points avg a rows =
     sort_key (\<lambda>p. (hp_Key p, hp_TS p, hp_Step p)) (raw_points a rows @ sampled_points avg a rows)"

lemma QueryHistory_ok:
  assumes "QueryHistory avg r now q db = Inr res" "a = history_args_of now q" "rows = history_filtered a db"
  shows "1 \<le> hq_MaxPoints q" "hq_MaxPoints q \<le> 5000" "hr_Points res = history_points avg a rows"
    "hr_BucketMS res = bucket_config a rows" "hr_Downsampled res \<longleftrightarrow> 0 < bucket_config a rows"
    "hr_Exists res \<longleftrightarrow> (\<exists>x \<in> set (pg_points db). mr_task x = ha_task a \<and> ha_cutoff a \<le> mr_ts x)"
proof -
  obtain res0 where read: "read_rows r ''query metric history'' ''scan metric history'' ''read metric history''
      add_history_row (query_metric_history avg a db)
      \<lparr>hr_Exists = False, hr_Downsampled = False, hr_BucketMS = 0, hr_Points = []\<rparr> = Inr res0"
    and res: "res = res0\<lparr>hr_Downsampled := hr_BucketMS res0 > 0\<rparr>"
    and limits: "1 \<le> hq_MaxPoints q" "hq_MaxPoints q \<le> 5000"
    using assms(1,2) by (auto simp: QueryHistory_def split: if_splits sum.splits)
  show "1 \<le> hq_MaxPoints q" "hq_MaxPoints q \<le> 5000" by (fact limits)+
  have "sort_key (\<lambda>p. (hp_Key p, hp_TS p, hp_Step p)) ps = [] \<longleftrightarrow> ps = []" for ps
    by (metis length_0_conv length_sort)
  then have "hr_Points res0 = history_points avg a rows \<and> hr_BucketMS res0 = bucket_config a rows \<and>
      (hr_Exists res0 \<longleftrightarrow> (\<exists>x \<in> set (pg_points db). mr_task x = ha_task a \<and> ha_cutoff a \<le> mr_ts x))"
    using read_rows_Inr [OF read] assms(3)
    by (auto simp: query_metric_history_def Let_def history_points_def fold_history_rows
        add_history_row_def list_ex_iff split: if_splits)
  then show "hr_Points res = history_points avg a rows" "hr_BucketMS res = bucket_config a rows"
    "hr_Downsampled res \<longleftrightarrow> 0 < bucket_config a rows"
    "hr_Exists res \<longleftrightarrow> (\<exists>x \<in> set (pg_points db). mr_task x = ha_task a \<and> ha_cutoff a \<le> mr_ts x)"
    using res by simp_all
qed

text \<open>The points of one key.\<close>

lemma raw_points_of_key:
  "filter (\<lambda>p. hp_Key p = k) (raw_points a rows) =
    (if over_limit a rows k then [] else map raw_point (rows_of_key k rows))"
proof (cases "over_limit a rows k")
  case True
  then show ?thesis by (auto simp: raw_points_def filter_map raw_point_def filter_empty_conv)
next
  case False
  then have "filter (\<lambda>x. hp_Key (raw_point x) = k \<and> \<not> over_limit a rows (mr_key x)) rows = rows_of_key k rows"
    unfolding rows_of_key_def by (intro filter_cong) (auto simp: raw_point_def)
  then show ?thesis using False by (simp add: raw_points_def filter_map comp_def conj_commute)
qed

lemma sampled_points_of_key:
  "filter (\<lambda>p. hp_Key p = k) (sampled_points avg a rows) =
    (if over_limit a rows k \<and> k \<in> mr_key ` set rows
     then sample_key avg (bucket_config a rows) (rows_of_key k rows) else [])"
proof -
  have one: "filter (\<lambda>p. hp_Key p = k) (sample_key avg b (rows_of_key k' rows)) =
      (if k' = k then sample_key avg b (rows_of_key k rows) else [])" for k' b
    using sample_key_key [of _ avg b k' rows] by (auto simp: filter_id_conv filter_empty_conv)
  show ?thesis
    unfolding sampled_points_def filter_concat map_map comp_def one
    by (subst concat_one_key) (auto simp: distinct_filter)
qed

lemma bucket_config_covers:
  assumes "over_limit a rows k" "r \<in> set rows" "mr_key r = k" "1 \<le> ha_max_points a"
  shows "1 \<le> bucket_config a rows"
    "max_ts (rows_of_key k rows) - min_ts (rows_of_key k rows) + 1 \<le> bucket_config a rows * ha_max_points a"
proof -
  let ?w = "ceil_div (max_ts (rows_of_key k rows) - min_ts (rows_of_key k rows) + 1) (ha_max_points a)"
  have "k \<in> set (filter (over_limit a rows) (keys_of rows))" using assms(1-3) by auto
  then have le: "max 1 ?w \<le> bucket_config a rows"
    unfolding bucket_config_def by (intro le_foldr_max) (auto intro!: image_eqI)
  then show "1 \<le> bucket_config a rows" by simp
  have "max_ts (rows_of_key k rows) - min_ts (rows_of_key k rows) + 1 \<le> ?w * ha_max_points a"
    using assms(4) by (intro ceil_div_ge) simp
  also have "\<dots> \<le> bucket_config a rows * ha_max_points a"
    using le assms(4) by (intro mult_right_mono) simp_all
  finally show "max_ts (rows_of_key k rows) - min_ts (rows_of_key k rows) + 1
      \<le> bucket_config a rows * ha_max_points a" .
qed

lemma downsampled_iff: "0 < bucket_config a rows \<longleftrightarrow> (\<exists>k. k \<in> mr_key ` set rows \<and> over_limit a rows k)"
  unfolding bucket_config_def by (subst foldr_max_pos) (auto simp: filter_empty_conv)

text \<open>
  No series has more points than \<open>max_points\<close>, because the bucket width is the largest any key needs;
  the answer is downsampled exactly when some key has more rows than that.
\<close>

lemma history_within_max_points:
  assumes "QueryHistory avg r now q db = Inr res"
  shows "int (length (filter (\<lambda>p. hp_Key p = k) (hr_Points res))) \<le> hq_MaxPoints q \<and>
    (hr_Downsampled res \<longleftrightarrow>
      (\<exists>k'. hq_MaxPoints q < int (length (rows_of_key k' (history_filtered (history_args_of now q) db)))))"
proof -
  define a where "a = history_args_of now q"
  define rows where "rows = history_filtered a db"
  note ok = QueryHistory_ok [OF assms a_def rows_def]
  have max: "ha_max_points a = hq_MaxPoints q" by (simp add: a_def history_args_of_def)
  have "filter (\<lambda>p. hp_Key p = k) (hr_Points res) = sort_key (\<lambda>p. (hp_Key p, hp_TS p, hp_Step p))
      (filter (\<lambda>p. hp_Key p = k) (raw_points a rows) @ filter (\<lambda>p. hp_Key p = k) (sampled_points avg a rows))"
    unfolding ok(3) history_points_def by (simp add: filter_sort)
  then have len: "length (filter (\<lambda>p. hp_Key p = k) (hr_Points res)) =
      length (filter (\<lambda>p. hp_Key p = k) (raw_points a rows)) +
      length (filter (\<lambda>p. hp_Key p = k) (sampled_points avg a rows))" by simp
  have bound: "int (length (filter (\<lambda>p. hp_Key p = k) (hr_Points res))) \<le> hq_MaxPoints q"
  proof (cases "over_limit a rows k \<and> k \<in> mr_key ` set rows")
    case True
    then obtain x where x: "x \<in> set rows" "mr_key x = k" by auto
    note b = bucket_config_covers [OF conjunct1 [OF True] x, unfolded max, OF ok(1)]
    from sample_key_length [OF b] ok(1) show ?thesis
      unfolding len raw_points_of_key sampled_points_of_key using True by simp
  next
    case False
    then have "rows_of_key k rows = [] \<or> \<not> over_limit a rows k" by (auto simp: rows_of_key_def filter_empty_conv)
    then show ?thesis
      using False ok(1) unfolding len raw_points_of_key sampled_points_of_key
      by (auto simp: over_limit_def max)
  qed
  have "(\<exists>k'. k' \<in> mr_key ` set rows \<and> over_limit a rows k') \<longleftrightarrow>
      (\<exists>k'. hq_MaxPoints q < int (length (rows_of_key k' rows)))"
  proof -
    have "k' \<in> mr_key ` set rows" if "hq_MaxPoints q < int (length (rows_of_key k' rows))" for k'
    proof -
      have "rows_of_key k' rows \<noteq> []" using that ok(1) by auto
      then obtain x where "x \<in> set (rows_of_key k' rows)" by (meson last_in_set)
      then show ?thesis by auto
    qed
    then show ?thesis by (auto simp: over_limit_def max)
  qed
  then show ?thesis
    using bound ok(5) unfolding downsampled_iff by (simp add: rows_def a_def)
qed

lemma min_value_in: "xs \<noteq> [] \<Longrightarrow> min_value xs \<in> set xs"
  using foldl_smaller [of "hd xs" "tl xs"] by (cases xs) auto

lemma max_value_in: "xs \<noteq> [] \<Longrightarrow> max_value xs \<in> set xs"
  using foldl_larger [of "hd xs" "tl xs"] by (cases xs) auto

subsection \<open>Audit\<close>

lemma sorted_wrt_upto: "sorted_wrt (<) [i..j]"
  by (induction i j rule: upto.induct) (subst upto.simps, auto)

lemma QueryAudit_ok: "QueryAudit scan dup task db = Inr res \<Longrightarrow> res = query_metric_audit task db"
  by (auto simp: QueryAudit_def Let_def split: option.splits if_splits sum.splits)

text \<open>
  C15. The audit adds up: for a task that spans at most 100001 steps the missing steps are exactly
  those between the first and the last that no row has, in increasing order, and together with
  the distinct steps they make up the whole span; the counts and keys are those of its rows.
\<close>

theorem audit_adds_up:
  assumes "QueryAudit scan dup task db = Inr res" "rows = filter (\<lambda>r. mr_task r = task) (pg_points db)"
    and "au_FirstStep res = Some f" "au_LastStep res = Some l" "l - f \<le> 100000"
  shows "au_Exists res \<and> au_PointCount res = int (length rows) \<and> set (au_Keys res) = mr_key ` set rows \<and>
    mr_step ` set rows \<subseteq> {f..l} \<and> f \<in> mr_step ` set rows \<and> l \<in> mr_step ` set rows \<and>
    set (au_MissingSteps res) = {f..l} - mr_step ` set rows \<and> sorted_wrt (<) (au_MissingSteps res) \<and>
    au_DistinctSteps res + int (length (au_MissingSteps res)) = l - f + 1"
proof -
  let ?S = "mr_step ` set rows"
  have ne: "rows \<noteq> []" and f: "f = Min ?S" and l: "l = Max ?S"
    and res: "au_Exists res" "au_PointCount res = int (length rows)" "au_Keys res = keys_of rows"
      "au_DistinctSteps res = int (card ?S)" "au_MissingSteps res = filter (\<lambda>s. s \<notin> ?S) [f..l]"
    using assms(3-5) unfolding QueryAudit_ok [OF assms(1)] assms(2)
    by (auto simp: query_metric_audit_def Let_def length_remdups_card_conv split: if_splits)
  have S: "?S \<subseteq> {f..l}" "f \<in> ?S" "l \<in> ?S" using ne f l by auto
  have "int (card ?S) + int (card ({f..l} - ?S)) = int (card {f..l})"
  proof -
    have "card ({f..l} - ?S) = card {f..l} - card ?S" using S(1) by (intro card_Diff_subset) simp_all
    moreover have "card ?S \<le> card {f..l}" using S(1) by (intro card_mono) simp_all
    ultimately show ?thesis by linarith
  qed
  moreover have "length (au_MissingSteps res) = card ({f..l} - ?S)"
  proof -
    have "set (au_MissingSteps res) = {f..l} - ?S" "distinct (au_MissingSteps res)" by (auto simp: res(5))
    then show ?thesis by (metis distinct_card)
  qed
  ultimately have "au_DistinctSteps res + int (length (au_MissingSteps res)) = l - f + 1"
    using S by (auto simp: res(4))
  then show ?thesis
    using res S by (auto simp: sorted_wrt_filter sorted_wrt_upto)
qed

subsection \<open>Summary\<close>

lemma foldl_later:
  "foldl later_row x xs \<in> insert x (set xs) \<and>
   (\<forall>y \<in> insert x (set xs). row_time y \<le> row_time (foldl later_row x xs))"
proof (induction xs arbitrary: x)
  case (Cons y ys)
  show ?case
    using Cons [of "later_row x y"] by (auto simp: later_row_def not_less split: if_splits)
qed simp

lemma latest_row_spec:
  "latest_row rows = Some r \<Longrightarrow> r \<in> set rows \<and> (\<forall>y \<in> set rows. row_time y \<le> row_time r)"
  using foldl_later [of "hd rows" "tl rows"] by (cases rows) auto

lemma latest_row_None [simp]: "latest_row rows = None \<longleftrightarrow> rows = []"
  by (cases rows) simp_all

definition summary_of :: "(float64 list \<Rightarrow> float64) \<Rightarrow> metric_row list \<Rightarrow> summary_metric" where
  "summary_of avg rows =
     \<lparr>sm_Last = mr_value (the (latest_row rows)), sm_Min = min_value (map mr_value rows),
      sm_Max = max_value (map mr_value rows), sm_Avg = avg (map mr_value rows)\<rparr>"

lemma summary_of_spec:
  assumes "rows \<noteq> [] \<and> m = summary_of avg rows"
  shows "\<exists>x \<in> set rows. mr_value x = sm_Last m \<and> (\<forall>y \<in> set rows. row_time y \<le> row_time x)"
    "sm_Avg m = avg (map mr_value rows)" "sm_Min m \<in> mr_value ` set rows" "sm_Max m \<in> mr_value ` set rows"
    "\<forall>y \<in> set rows. float_key (sm_Min m) \<le> float_key (mr_value y) \<and> float_key (mr_value y) \<le> float_key (sm_Max m)"
proof -
  obtain x where x: "latest_row rows = Some x" using assms by (cases rows) auto
  have m: "sm_Last m = mr_value x" "sm_Avg m = avg (map mr_value rows)" "sm_Min m = min_value (map mr_value rows)"
    "sm_Max m = max_value (map mr_value rows)" using assms by (simp_all add: summary_of_def x)
  show "\<exists>x \<in> set rows. mr_value x = sm_Last m \<and> (\<forall>y \<in> set rows. row_time y \<le> row_time x)"
    using latest_row_spec [OF x] m(1) by auto
  show "sm_Avg m = avg (map mr_value rows)" by (fact m(2))
  show "sm_Min m \<in> mr_value ` set rows" "sm_Max m \<in> mr_value ` set rows"
    using min_value_in [of "map mr_value rows"] max_value_in [of "map mr_value rows"] assms m(3,4) by auto
  show "\<forall>y \<in> set rows. float_key (sm_Min m) \<le> float_key (mr_value y) \<and> float_key (mr_value y) \<le> float_key (sm_Max m)"
    unfolding m by (auto intro!: min_value_le max_value_ge)
qed

lemma summary_metrics_map:
  "summary_metrics avg rows = map (\<lambda>k. (k, summary_of avg (rows_of_key k rows))) (keys_of rows)"
proof -
  have "rows_of_key k rows \<noteq> []" if "k \<in> set (keys_of rows)" for k
    using that by (auto simp: rows_of_key_def filter_empty_conv)
  then have one: "latest_row (rows_of_key k rows) = Some (the (latest_row (rows_of_key k rows)))"
    if "k \<in> set (keys_of rows)" for k
    using that latest_row_None [of "rows_of_key k rows"] by (cases "latest_row (rows_of_key k rows)") auto
  have "concat (map (\<lambda>k. case latest_row (rows_of_key k rows) of None \<Rightarrow> [] | Some r \<Rightarrow> [g k r]) ks)
      = map (\<lambda>k. g k (the (latest_row (rows_of_key k rows)))) ks"
    if "set ks \<subseteq> set (keys_of rows)" for ks and g :: "string \<Rightarrow> metric_row \<Rightarrow> string \<times> summary_metric"
    using that by (induction ks) (auto simp: one [THEN arg_cong [where f = "\<lambda>x. case x of None \<Rightarrow> [] | Some r \<Rightarrow> [g _ r]"]])
  from this [OF order.refl] show ?thesis
    by (simp add: summary_metrics_def summary_of_def Let_def)
qed

lemma fold_summary_rows:
  "fold add_summary_row (map (\<lambda>m. \<lparr>sw_exists = e, sw_last_step = Some s, sw_updated_at = Some t, sw_metric = Some m\<rparr>) ms) res =
    (if ms = [] then res
     else \<lparr>su_Exists = e, su_LastStep = s, su_UpdatedAt = t,
           su_Metrics = fold (\<lambda>(k, m). AList.update k m) ms (su_Metrics res)\<rparr>)"
  by (induction ms arbitrary: res) (auto simp: add_summary_row_def)

lemma map_of_fold_update:
  "distinct ks \<Longrightarrow> map_of (fold (\<lambda>(k, m). AList.update k m) (map (\<lambda>k. (k, g k)) ks) al) =
    (\<lambda>k. if k \<in> set ks then Some (g k) else map_of al k)"
  by (induction ks arbitrary: al) (auto simp: update_conv')

text \<open>The latest of the latest rows of the keys is a latest row.\<close>

lemma latest_of_rows:
  assumes "rows \<noteq> []"
  obtains t where "latest_row (concat (map (\<lambda>k. case latest_row (rows_of_key k rows) of None \<Rightarrow> [] | Some r \<Rightarrow> [r])
      (keys_of rows))) = Some t" "t \<in> set rows" "\<forall>y \<in> set rows. row_time y \<le> row_time t"
proof -
  let ?latest = "concat (map (\<lambda>k. case latest_row (rows_of_key k rows) of None \<Rightarrow> [] | Some r \<Rightarrow> [r]) (keys_of rows))"
  have in_latest: "x \<in> set ?latest \<longleftrightarrow> (\<exists>k \<in> mr_key ` set rows. latest_row (rows_of_key k rows) = Some x)" for x
    by (force split: option.splits)
  have cover: "\<exists>x \<in> set ?latest. row_time y \<le> row_time x" if "y \<in> set rows" for y
  proof -
    have "y \<in> set (rows_of_key (mr_key y) rows)" using that by simp
    moreover from this have "rows_of_key (mr_key y) rows \<noteq> []" by (metis empty_iff list.set(1))
    then obtain x where "latest_row (rows_of_key (mr_key y) rows) = Some x"
      by (cases "latest_row (rows_of_key (mr_key y) rows)") auto
    ultimately show ?thesis using latest_row_spec in_latest that by blast
  qed
  have "?latest \<noteq> []" using cover assms by (cases rows) fastforce+
  then obtain t where t: "latest_row ?latest = Some t" by (cases "latest_row ?latest") auto
  have t_in: "t \<in> set ?latest" and t_max: "\<forall>y \<in> set ?latest. row_time y \<le> row_time t"
    using latest_row_spec [OF t] by blast+
  have "t \<in> set rows" using t_in in_latest latest_row_spec in_rows_of_key by blast
  moreover have "\<forall>y \<in> set rows. row_time y \<le> row_time t" using cover t_max order.trans by blast
  ultimately show ?thesis using that t by blast
qed

text \<open>What \<open>QuerySummary\<close> reads for a task that has rows.\<close>

lemma summary_of_rows:
  assumes "QuerySummary avg r now task db = Inr res"
    and "rows = filter (\<lambda>x. mr_task x = task \<and> now - retention_millis \<le> mr_ts x) (pg_points db)" "rows \<noteq> []"
  obtains t where "t \<in> set rows" "\<forall>y \<in> set rows. row_time y \<le> row_time t"
    "su_Exists res" "(su_UpdatedAt res, su_LastStep res) = row_time t"
    "map_of (su_Metrics res) =
       (\<lambda>k. if k \<in> mr_key ` set rows then Some (summary_of avg (rows_of_key k rows)) else None)"
proof -
  note res = read_rows_Inr [OF assms(1) [unfolded QuerySummary_def Let_def]]
  obtain t where t: "latest_row (concat (map (\<lambda>k. case latest_row (rows_of_key k rows) of None \<Rightarrow> [] | Some r \<Rightarrow> [r])
      (keys_of rows))) = Some t" "t \<in> set rows" "\<forall>y \<in> set rows. row_time y \<le> row_time t"
    by (rule latest_of_rows [OF assms(3)])
  let ?row = "\<lambda>m. \<lparr>sw_exists = True, sw_last_step = Some (mr_step t), sw_updated_at = Some (mr_ts t), sw_metric = Some m\<rparr>"
  have keys: "keys_of rows \<noteq> []" using assms(3) by (metis image_is_empty keys_of_facts(2) set_empty)
  then have some: "summary_metrics avg rows \<noteq> []" by (simp add: summary_metrics_map)
  then have "query_metric_summary avg task (now - retention_millis) db = map ?row (summary_metrics avg rows)"
    unfolding query_metric_summary_def Let_def assms(2) [symmetric] t(1) using assms(3) by (simp split: list.split)
  then have r: "su_Exists res" "su_LastStep res = mr_step t" "su_UpdatedAt res = mr_ts t"
    "su_Metrics res = fold (\<lambda>(k, m). AList.update k m) (summary_metrics avg rows) []"
    using res some by (simp_all add: fold_summary_rows)
  have "map_of (su_Metrics res) =
      (\<lambda>k. if k \<in> mr_key ` set rows then Some (summary_of avg (rows_of_key k rows)) else None)"
    unfolding r(4) summary_metrics_map map_of_fold_update [OF keys_of_facts(1)] by auto
  then show ?thesis using that t(2,3) r by (simp add: row_time_def)
qed

text \<open>
  C26. The summary of a task: it exists exactly when the task has rows in the window, it has an
  entry for every key with rows and no other, the entry has the value of a latest row of the
  key and the least and greatest of its values, and the task is dated by its latest row.
\<close>

theorem summary_describes_rows:
  assumes "QuerySummary avg r now task db = Inr res"
    and "rows = filter (\<lambda>x. mr_task x = task \<and> now - 604800000 \<le> mr_ts x) (pg_points db)"
  shows "(su_Exists res \<longleftrightarrow> rows \<noteq> []) \<and>
    (\<forall>k. map_of (su_Metrics res) k = None \<longleftrightarrow> k \<notin> mr_key ` set rows) \<and>
    (\<forall>k m. map_of (su_Metrics res) k = Some m \<longrightarrow>
      (\<exists>x \<in> set (rows_of_key k rows). mr_value x = sm_Last m \<and> (\<forall>y \<in> set (rows_of_key k rows). row_time y \<le> row_time x)) \<and>
      sm_Avg m = avg (map mr_value (rows_of_key k rows)) \<and>
      sm_Min m \<in> mr_value ` set (rows_of_key k rows) \<and> sm_Max m \<in> mr_value ` set (rows_of_key k rows) \<and>
      (\<forall>y \<in> set (rows_of_key k rows). float_key (sm_Min m) \<le> float_key (mr_value y) \<and>
         float_key (mr_value y) \<le> float_key (sm_Max m))) \<and>
    (rows \<noteq> [] \<longrightarrow> (\<exists>x \<in> set rows. (su_UpdatedAt res, su_LastStep res) = row_time x \<and>
      (\<forall>y \<in> set rows. row_time y \<le> row_time x)))"
proof (cases "rows = []")
  case True
  then show ?thesis
    using read_rows_Inr [OF assms(1) [unfolded QuerySummary_def Let_def]] assms(2)
    by (simp add: query_metric_summary_def retention_millis_def Let_def summary_metrics_def keys_of_def
        add_summary_row_def)
next
  case False
  have rows: "rows = filter (\<lambda>x. mr_task x = task \<and> now - retention_millis \<le> mr_ts x) (pg_points db)"
    by (simp add: assms(2) retention_millis_def)
  obtain t where t: "t \<in> set rows" "\<forall>y \<in> set rows. row_time y \<le> row_time t"
    "su_Exists res" "(su_UpdatedAt res, su_LastStep res) = row_time t"
    and m: "map_of (su_Metrics res) =
       (\<lambda>k. if k \<in> mr_key ` set rows then Some (summary_of avg (rows_of_key k rows)) else None)"
    by (rule summary_of_rows [OF assms(1) rows False])
  have entry: "rows_of_key k rows \<noteq> [] \<and> m = summary_of avg (rows_of_key k rows)"
    if "map_of (su_Metrics res) k = Some m" for k m
    using that m by (auto simp: rows_of_key_def filter_empty_conv split: if_splits)
  show ?thesis
  proof (intro conjI allI impI)
    show "su_Exists res \<longleftrightarrow> rows \<noteq> []" using t(3) False by simp
    show "map_of (su_Metrics res) k = None \<longleftrightarrow> k \<notin> mr_key ` set rows" for k by (simp add: m)
    show "\<exists>x \<in> set rows. (su_UpdatedAt res, su_LastStep res) = row_time x \<and> (\<forall>y \<in> set rows. row_time y \<le> row_time x)"
      using t by blast
  qed (use entry summary_of_spec in metis)+
qed

subsection \<open>Concrete answers\<close>

definition three_rows :: "metric_row list" where
  "three_rows = map (\<lambda>i. \<lparr>mr_task = ''t'', mr_key = ''k'', mr_step = 2 * i, mr_ts = i, mr_value = 0\<rparr>) [0, 1, 2]"

definition three_points_pg :: pg where
  "three_points_pg = (empty_pg [0])\<lparr>pg_points := three_rows\<rparr>"

lemma audit_adds_up_witness:
  "\<exists>res. QueryAudit None all_read ''t'' three_points_pg = Inr res \<and> set (au_MissingSteps res) = {1, 3}"
proof -
  have res: "QueryAudit None all_read ''t'' three_points_pg = Inr (query_metric_audit ''t'' three_points_pg)"
    by (simp add: QueryAudit_def read_rows_all_read Let_def)
  have "au_FirstStep (query_metric_audit ''t'' three_points_pg) = Some 0"
    "au_LastStep (query_metric_audit ''t'' three_points_pg) = Some 4"
    by (simp_all add: query_metric_audit_def Let_def three_points_pg_def three_rows_def)
  from audit_adds_up [OF res refl this]
  have "set (au_MissingSteps (query_metric_audit ''t'' three_points_pg)) = {0..4} - {0, 2, 4}"
    by (simp add: three_points_pg_def three_rows_def)
  moreover have "{0..4} - {0, 2, 4} = {1, 3 :: int}" by auto
  ultimately show ?thesis using res by simp
qed

lemma summary_describes_rows_witness:
  "\<exists>res. QuerySummary hd all_read 7 ''t'' three_points_pg = Inr res \<and> su_Exists res \<and>
    (su_UpdatedAt res, su_LastStep res) = (2, 4)"
proof -
  obtain res where res: "QuerySummary hd all_read 7 ''t'' three_points_pg = Inr res"
    by (simp add: QuerySummary_def read_rows_all_read)
  have rows: "filter (\<lambda>x. mr_task x = ''t'' \<and> 7 - 604800000 \<le> mr_ts x) (pg_points three_points_pg) = three_rows"
    by (simp add: three_points_pg_def three_rows_def)
  have "three_rows \<noteq> []" by (simp add: three_rows_def)
  with summary_describes_rows [OF res refl, unfolded rows]
  obtain x where "su_Exists res" "x \<in> set three_rows" "(su_UpdatedAt res, su_LastStep res) = row_time x"
    "\<forall>y \<in> set three_rows. row_time y \<le> row_time x" by blast
  then show ?thesis using res by (auto simp: three_rows_def row_time_def)
qed

end
