(* ===== verification/EventLog.thy ===== *)
theory EventLog
  imports MaintenanceProps QueriesProps
begin

section \<open>The event log and its readers\<close>

text \<open>
  What the writers of the database (flushes, retention, partitions, the outbox) guarantee to
  the event stream: at every moment the events of a task in the last 168 hours are a run of numbers up to
  its counter, in the order of their creation. From it follows that the replay of a stream
  misses nothing.
\<close>

subsection \<open>The visible events\<close>

definition visible :: "int \<Rightarrow> string \<Rightarrow> pg \<Rightarrow> event_row list" where
  "visible horizon t db = filter (\<lambda>e. er_task e = t \<and> horizon \<le> er_created e) (pg_events db)"

definition log_ok :: "int \<Rightarrow> pg \<Rightarrow> bool" where
  "log_ok horizon db \<longleftrightarrow>
     (\<forall>t. \<exists>f \<ge> 1. f \<le> counter_of db t + 1 \<and> map er_seq (visible horizon t db) = [f..counter_of db t] \<and>
        sorted (map er_created (visible horizon t db)))"

definition clock_before :: "pg \<Rightarrow> int \<Rightarrow> bool" where
  "clock_before db now \<longleftrightarrow> (\<forall>e \<in> set (pg_events db). er_created e \<le> now)"

lemma drop_upto: "int n \<le> j - i + 1 \<Longrightarrow> drop n [i..j] = [i + int n..j]"
proof (induction n arbitrary: i)
  case (Suc n)
  then have "[i..j] = i # [i + 1..j]" by (simp add: upto_rec1)
  then show ?case using Suc.IH [of "i + 1"] Suc.prems by (simp add: ac_simps)
qed simp

lemma filter_sorted_suffix:
  "sorted (map f xs) \<Longrightarrow> \<exists>n \<le> length xs. filter (\<lambda>x. h \<le> f x) xs = drop n (xs :: 'a list)" for h :: "'b :: linorder"
proof (induction xs)
  case (Cons x xs)
  show ?case
  proof (cases "h \<le> f x")
    case True
    then have "filter (\<lambda>x. h \<le> f x) (x # xs) = x # xs"
      using Cons.prems by (auto simp: filter_id_conv)
    then show ?thesis by (intro exI [of _ 0]) simp
  next
    case False
    from Cons.IH Cons.prems obtain n where "n \<le> length xs" "filter (\<lambda>x. h \<le> f x) xs = drop n xs" by auto
    then show ?thesis using False by (intro exI [of _ "Suc n"]) simp
  qed
qed simp

lemma log_ok_later:
  assumes "log_ok h db" "h \<le> h'"
  shows "log_ok h' db"
  unfolding log_ok_def
proof
  fix t
  obtain f where f: "1 \<le> f" "f \<le> counter_of db t + 1" "map er_seq (visible h t db) = [f..counter_of db t]"
    "sorted (map er_created (visible h t db))" using assms(1) unfolding log_ok_def by blast
  have v: "visible h' t db = filter (\<lambda>e. h' \<le> er_created e) (visible h t db)"
    unfolding visible_def filter_filter using assms(2) by (intro filter_cong) auto
  obtain n where n: "n \<le> length (visible h t db)" "visible h' t db = drop n (visible h t db)"
    using filter_sorted_suffix [OF f(4), of h'] v by auto
  have "length (visible h t db) = nat (counter_of db t - f + 1)"
    using arg_cong [OF f(3), of length] by simp
  then have le: "int n \<le> counter_of db t - f + 1" using n(1) f(2) by linarith
  have "map er_seq (visible h' t db) = drop n [f..counter_of db t]" by (simp add: n(2) drop_map f(3) [symmetric])
  then have "map er_seq (visible h' t db) = [f + int n..counter_of db t]" by (simp add: drop_upto le)
  moreover have "sorted (map er_created (visible h' t db))" by (simp add: n(2) drop_map [symmetric] sorted_wrt_drop f(4))
  ultimately show "\<exists>f \<ge> 1. f \<le> counter_of db t + 1 \<and> map er_seq (visible h' t db) = [f..counter_of db t] \<and>
      sorted (map er_created (visible h' t db))"
    using f(1) le by (intro exI [of _ "f + int n"]) simp
qed

subsection \<open>The writers\<close>

lemma log_ok_frame:
  assumes "log_ok h db" "\<And>t. visible h t db' = visible h t db" "\<And>t. counter_of db' t = counter_of db t"
  shows "log_ok h db'"
  using assms by (simp add: log_ok_def)

lemma log_ok_append:
  assumes "log_ok h db" "clock_before db now" "h \<le> now" "e = \<lparr>er_created = now, er_task = t, er_seq = n + 1, er_payload = x\<rparr>"
    and "pg_events db' = pg_events db @ [e]" "counter_of db t = n"
    and "\<And>u. counter_of db' u = (if u = t then n + 1 else counter_of db u)"
  shows "log_ok h db'"
  unfolding log_ok_def
proof
  fix u
  obtain f where f: "1 \<le> f" "f \<le> counter_of db u + 1" "map er_seq (visible h u db) = [f..counter_of db u]"
    "sorted (map er_created (visible h u db))" using assms(1) unfolding log_ok_def by blast
  have v: "visible h u db' = (if u = t then visible h u db @ [e] else visible h u db)"
    using assms(3-5) by (simp add: visible_def)
  have last: "\<forall>c \<in> set (map er_created (visible h u db)). c \<le> now"
    using assms(2) by (auto simp: visible_def clock_before_def)
  have "[f..counter_of db u + 1] = [f..counter_of db u] @ [counter_of db u + 1]"
    using f(2) by (simp add: upto_rec2)
  then show "\<exists>f \<ge> 1. f \<le> counter_of db' u + 1 \<and> map er_seq (visible h u db') = [f..counter_of db' u] \<and>
      sorted (map er_created (visible h u db'))"
    using f last assms(4,6,7) by (intro exI [of _ f]) (auto simp: v sorted_append)
qed

lemma add_events_log:
  assumes "log_ok h db" "clock_before db now" "h \<le> now"
  shows "log_ok h (add_events im now ins ts db) \<and> clock_before (add_events im now ins ts db) now"
  using assms
proof (induction ts arbitrary: db)
  case (Cons t ts)
  show ?case
  proof (cases "pg_counters db t")
    case None
    then show ?thesis using Cons by simp
  next
    case (Some n)
    let ?e = "\<lparr>er_created = now, er_task = t, er_seq = n + 1, er_payload = pi_jsonb im (filter (\<lambda>r. mr_task r = t) ins)\<rparr>"
    let ?db = "db\<lparr>pg_counters := (pg_counters db)(t \<mapsto> n + 1), pg_events := pg_events db @ [?e],
      pg_outbox := insert_metric_outbox now (pg_next_id db) t (n + 1)
        (pi_jsonb im (filter (\<lambda>r. mr_task r = t) ins)) (pg_outbox db),
      pg_next_id := pg_next_id db + 1\<rparr>"
    have c: "counter_of ?db u = (if u = t then n + 1 else counter_of db u)" "counter_of db t = n" for u
      using Some by (simp_all add: counter_of_def)
    have "log_ok h ?db" by (rule log_ok_append [OF Cons.prems refl _ c(2) c(1)]) simp
    moreover have "clock_before ?db now" using Cons.prems(2) by (auto simp: clock_before_def)
    ultimately have "log_ok h (add_events im now ins ts ?db) \<and> clock_before (add_events im now ins ts ?db) now"
      using Cons.IH Cons.prems(3) by blast
    then show ?thesis using Some by (simp add: Let_def)
  qed
qed simp

lemma flushed_log:
  assumes "flushed im now ps db ins db'" "log_ok h db" "clock_before db now" "h \<le> now"
  shows "log_ok h db' \<and> clock_before db' now"
proof -
  obtain db1 tasks t where
    d: "ensure_days (\<lambda>_. None) (missing_days (map mp_TimestampMillis ps) now) db = (None, db1)"
    and db': "db' = add_events im now ins (pi_order im (remdups (map mr_task ins)))
       ((seed_task_event_counters tasks db1)\<lparr>pg_points := t\<rparr>)"
    using assms(1) by (auto simp: flushed_def)
  let ?db = "(seed_task_event_counters tasks db1)\<lparr>pg_points := t\<rparr>"
  have "counter_of ?db u = counter_of db u" for u
    using seed_counter_of [of tasks db1 u] ensure_days_spec [OF d] by (simp add: counter_of_def)
  moreover have "visible h u ?db = visible h u db" for u
    using ensure_days_spec [OF d] by (simp add: visible_def)
  ultimately have "log_ok h ?db" using log_ok_frame [OF assms(2)] by blast
  moreover have "clock_before ?db now"
    using assms(3) ensure_days_spec [OF d] by (simp add: clock_before_def)
  ultimately show ?thesis unfolding db' by (rule add_events_log [OF _ _ assms(4)])
qed

lemma store_Flush_log:
  assumes "store_Flush im r now ps db = (res, db')" "log_ok h db" "clock_before db now" "h \<le> now"
  shows "log_ok h db' \<and> clock_before db' now"
proof (cases "db' = db")
  case False
  then obtain ins where "flushed im now ps db ins db'"
    using store_Flush_ends [OF assms(1)]
      store_Flush_ends [of im "r\<lparr>fl_commit := DbOk\<rparr>" now ps db None db'] by (cases res) auto
  then show ?thesis using flushed_log assms(2-4) by blast
qed (use assms in simp)

lemma retention_log:
  assumes "maintain_metric_retention cutoff n db = (res, db')" "log_ok h db" "clock_before db now" "cutoff \<le> h"
  shows "log_ok h db' \<and> clock_before db' now"
proof
  note ev = maintain_metric_retention_eq(2) [OF assms(1)]
  have keep: "e \<in> set (pg_events db')" if "e \<in> set (pg_events db)" "cutoff \<le> er_created e" for e
    unfolding ev by (rule events_delete.left_keeps) (use after_drop_events(2) that in auto)
  obtain P where P: "pg_events db' = filter P (pg_events db)"
    unfolding ev delete_keys_def events_after_def filter_filter by blast
  have "visible h t db' = visible h t db" for t
    unfolding visible_def P filter_filter
    using keep assms(4) by (intro filter_cong) (auto simp: P)
  moreover have "counter_of db' t = counter_of db t" for t
    using assms(1) by (auto simp: counter_of_def maintain_metric_retention_def drop_point_partitions_def
        drop_event_partitions_def delete_points_def delete_events_def delete_outbox_def Let_def split: prod.splits)
  ultimately show "log_ok h db'" by (rule log_ok_frame [OF assms(2)])
  show "clock_before db' now" using assms(3) by (auto simp: clock_before_def P)
qed

subsection \<open>Histories of the database\<close>

text \<open>
  A database and a clock that have come about by the writers: flushes of any worker with any
  outcome, statements of the retention with a cutoff of 168 hours or more ago, partitions, any change of the
  outbox, and time passing.
\<close>

inductive db_history :: "int \<Rightarrow> pg \<Rightarrow> bool" where
  created: "db_history now (empty_pg days)"
| flushes: "db_history now db \<Longrightarrow> store_Flush im r now ps db = (res, db') \<Longrightarrow> db_history now db'"
| maintains: "db_history now db \<Longrightarrow> cutoff \<le> now - 604800000 \<Longrightarrow>
    MaintainRetention False reply (Some cutoff) batchSize db = (result, db') \<Longrightarrow> db_history now db'"
| ensures: "db_history now db \<Longrightarrow> ensureDailyPartitions False reply day past future db = (err, db') \<Longrightarrow>
    db_history now db'"
| relays: "db_history now db \<Longrightarrow> db_history now (db\<lparr>pg_outbox := rows\<rparr>)"
| passes: "db_history now db \<Longrightarrow> now \<le> later \<Longrightarrow> db_history later db"

lemma MaintainRetention_log:
  assumes "MaintainRetention False reply (Some cutoff) batchSize db = (result, db')"
    and "log_ok h db" "clock_before db now" "cutoff \<le> h"
  shows "log_ok h db' \<and> clock_before db' now"
proof -
  obtain res db1 where m: "maintain_metric_retention cutoff (nat batchSize) db = (res, db1)" by fastforce
  then have "db' = db \<or> db' = db1"
    using assms(1) by (auto simp: MaintainRetention_def split: if_splits db_reply.splits)
  then show ?thesis using retention_log [OF m assms(2-4)] assms(2,3) by blast
qed

lemma ensure_log:
  assumes "ensureDailyPartitions False reply day past future db = (err, db')" "log_ok h db" "clock_before db now"
  shows "log_ok h db' \<and> clock_before db' now"
proof -
  have "db' = db \<or> db' = ensure_metric_daily_partitions day past future db"
    using assms(1) by (auto simp: ensureDailyPartitions_def Let_def split: if_splits db_reply.splits)
  moreover have "log_ok h (ensure_metric_daily_partitions day past future db)"
    by (rule log_ok_frame [OF assms(2)])
      (simp_all add: ensure_metric_daily_partitions_def visible_def counter_of_def)
  moreover have "clock_before (ensure_metric_daily_partitions day past future db) now"
    using assms(3) by (simp add: ensure_metric_daily_partitions_def clock_before_def)
  ultimately show ?thesis using assms(2,3) by blast
qed

lemma db_history_log: "db_history now db \<Longrightarrow> log_ok (now - 604800000) db \<and> clock_before db now"
proof (induction rule: db_history.induct)
  case (created now days)
  have "counter_of (empty_pg days) t = 0" "pg_events (empty_pg days) = []" for t
    by (simp_all add: counter_of_def empty_pg_def)
  then show ?case by (auto simp: log_ok_def clock_before_def visible_def intro: exI [of _ 1])
next
  case (flushes now db im r ps res db')
  then show ?case using store_Flush_log [OF flushes(2), of "now - 604800000"] by simp
next
  case (maintains now db cutoff reply batchSize result db')
  then show ?case using MaintainRetention_log [OF maintains(3), of "now - 604800000" now] by simp
next
  case (ensures now db reply day past future err db')
  then show ?case using ensure_log [OF ensures(2), of "now - 604800000" now] by simp
next
  case (relays now db rows)
  then have "log_ok (now - 604800000) (db\<lparr>pg_outbox := rows\<rparr>)"
    using log_ok_frame [of "now - 604800000" db "db\<lparr>pg_outbox := rows\<rparr>"]
    by (simp add: visible_def counter_of_def)
  then show ?case using relays by (simp add: clock_before_def)
next
  case (passes now db later)
  have "log_ok (later - 604800000) db"
    by (rule log_ok_later [of "now - 604800000"]) (use passes in simp_all)
  moreover have "clock_before db later"
    using passes by (meson clock_before_def order.trans)
  ultimately show ?case ..
qed

subsection \<open>The readers\<close>

text \<open>The number of the oldest visible event, or of the next one.\<close>

definition first_seq :: "int \<Rightarrow> string \<Rightarrow> pg \<Rightarrow> int" where
  "first_seq now t db =
     (case visible (now - 604800000) t db of [] \<Rightarrow> counter_of db t + 1 | e # es \<Rightarrow> er_seq e)"

lemma visible_run:
  assumes "db_history now db"
  shows "map er_seq (visible (now - 604800000) t db) = [first_seq now t db..counter_of db t]"
    "1 \<le> first_seq now t db" "first_seq now t db \<le> counter_of db t + 1"
proof -
  obtain f where f: "1 \<le> f" "f \<le> counter_of db t + 1"
    "map er_seq (visible (now - 604800000) t db) = [f..counter_of db t]"
    using db_history_log [OF assms] unfolding log_ok_def by blast
  have "f = first_seq now t db"
  proof (cases "visible (now - 604800000) t db")
    case Nil
    then have "[f..counter_of db t] = []" using f(3) by simp
    then show ?thesis using f(2) Nil by (simp add: first_seq_def)
  next
    case (Cons e es)
    then have "[f..counter_of db t] = er_seq e # map er_seq es" using f(3) by simp
    then have "f = er_seq e" by (cases "f \<le> counter_of db t") (auto simp: upto_rec1)
    then show ?thesis using Cons by (simp add: first_seq_def)
  qed
  with f show "map er_seq (visible (now - 604800000) t db) = [first_seq now t db..counter_of db t]"
    "1 \<le> first_seq now t db" "first_seq now t db \<le> counter_of db t + 1" by simp_all
qed

lemma retained_visible: "retained_events now t db = visible (now - 604800000) t db"
  by (simp add: retained_events_def visible_def retention_millis_def)

lemma bounds_from_history:
  assumes "db_history now db"
  shows "query_metric_event_bounds now t db =
    (if first_seq now t db = counter_of db t + 1 then 0 else first_seq now t db, counter_of db t)"
proof -
  note run = visible_run [OF assms, of t]
  have c: "(case pg_counters db t of None \<Rightarrow> 0 | Some n \<Rightarrow> n) = counter_of db t" by (simp add: counter_of_def)
  have "Min {first_seq now t db..counter_of db t} = first_seq now t db"
    "Max {first_seq now t db..counter_of db t} = counter_of db t"
    if "first_seq now t db \<noteq> counter_of db t + 1"
    using that run(3) by (auto intro!: Min_eqI Max_eqI)
  then show ?thesis
    unfolding query_metric_event_bounds_def retained_visible run(1) c Let_def
    using run(2,3) by auto
qed

lemma fold_append_rows: "fold (\<lambda>x acc. acc @ [f x]) xs acc = acc @ map f xs"
  by (induction xs arbitrary: acc) simp_all

lemma filter_greater_upto: "filter (\<lambda>s. k < s) [i..j] = [max (k + 1) i..(j :: int)]"
proof (rule sorted_distinct_set_unique)
  show "sorted (filter (\<lambda>s. k < s) [i..j])" using sorted_filter [of "\<lambda>x. x" "[i..j]"] by simp
qed auto

lemma QueryEvents_from_history:
  assumes "QueryEvents r now t after db = Inr evs" "db_history now db"
  shows "map se_EventSeq evs = [max (after + 1) (first_seq now t db)..counter_of db t]"
proof -
  note run = visible_run [OF assms(2), of t]
  have seqs: "map er_seq (filter (\<lambda>e. after < er_seq e) (visible (now - 604800000) t db)) =
      filter (\<lambda>s. after < s) [first_seq now t db..counter_of db t]"
    unfolding run(1) [symmetric] by (simp add: filter_map comp_def)
  then have "sort_key er_seq (filter (\<lambda>e. after < er_seq e) (visible (now - 604800000) t db)) =
      filter (\<lambda>e. after < er_seq e) (visible (now - 604800000) t db)"
    by (intro sort_key_id_if_sorted) (simp add: sorted_wrt_filter)
  then have "map fst (query_metric_events now t after db) = filter (\<lambda>s. after < s) [first_seq now t db..counter_of db t]"
    unfolding query_metric_events_def retained_visible by (simp add: comp_def seqs)
  moreover have "map se_EventSeq evs = map fst (query_metric_events now t after db)"
    using read_rows_Inr [OF assms(1) [unfolded QueryEvents_def]]
    by (simp add: case_prod_unfold fold_append_rows comp_def)
  ultimately show ?thesis by (simp add: filter_greater_upto)
qed

lemma StreamMetrics_reads:
  assumes "StreamMetrics h taskID lastID inputs w = Streaming s"
    and "parseLastEventID lastID taskID = Inr (cursor, hasCursor)" "sh_subscribe h taskID w = (sub, w1)"
    and "events_Bounds (sh_service h) taskID w1 = (Inr (oldest, latest), w2)"
  shows "\<not> outside_retention hasCursor cursor oldest latest"
    "\<exists>evs w3. events_Query (sh_service h) taskID (if hasCursor then cursor else latest) w2 = (Inr evs, w3)"
proof -
  obtain q w3 where q: "events_Query (sh_service h) taskID (if hasCursor then cursor else latest) w2 = (q, w3)"
    by fastforce
  show "\<not> outside_retention hasCursor cursor oldest latest"
    "\<exists>evs w3. events_Query (sh_service h) taskID (if hasCursor then cursor else latest) w2 = (Inr evs, w3)"
    using assms q by (cases q; auto simp: StreamMetrics_def Let_def split: if_splits)+
qed

definition store_events :: "rows_reply \<Rightarrow> int \<times> pg \<Rightarrow> int \<times> pg \<Rightarrow> 'w event_repository" where
  "store_events r bounds_at query_at =
     \<lparr>er_QueryEvents = (\<lambda>task after w. (QueryEvents r (fst query_at) task after (snd query_at), w)),
      er_EventBounds = (\<lambda>task w. (EventBounds None (fst bounds_at) task (snd bounds_at), w))\<rparr>"

lemma joined_runs:
  assumes "j \<le> c" "k = max a c"
  shows "[a + 1..k] @ [max (k + 1) (j + 1)..m] = [a + 1..max c (m :: int)]"
proof -
  have "max (k + 1) (j + 1) = k + 1" using assms by simp
  then show ?thesis
    using assms upto_split1 [of "a + 1" "k + 1" m] by (cases "k < m") (auto simp: max_def)
qed

text \<open>
  C13. What a client of the event stream has been sent, from the tables to the connection: the
  handler reads the bounds at one moment of the database and the replay at another, while live
  events already arrive, with increasing numbers (the bridge and the hub deliver them so, see
  \<open>EventFlow\<close>). As long as no event of the task expires between the two reads, a client whose
  cursor was accepted has been sent, first, every number after its cursor (after the newest event
  if it had none) up to the newest one in the tables, without a gap and without a repetition, and
  then exactly those live events that are newer. So a gap can only be one of the live events
  themselves, which they have when the bridge has reconnected in between; when they are a run
  that begins no later than the tables end, the whole stream is one run.
\<close>

theorem stream_from_database:
  assumes "db_history now1 db1" "db_history now2 db2" "first_seq now2 taskID db2 \<le> first_seq now1 taskID db1"
    and "sh_service h = Some (store_events r (now1, db1) (now2, db2))" "in_int64 (counter_of db1 taskID)"
    and "StreamMetrics h taskID lastID inputs w = Streaming s"
    and "parseLastEventID lastID taskID = Inr (cursor, hasCursor)"
    and "after = (if hasCursor then cursor else counter_of db1 taskID)"
    and "sorted_wrt (<) (map se_EventSeq (input_events inputs))"
  shows "map se_EventSeq (output_events (st_out s)) =
      [after + 1..max after (counter_of db2 taskID)] @
      filter (\<lambda>n. max after (counter_of db2 taskID) < n) (map se_EventSeq (input_events inputs)) \<and>
    (\<forall>j m. map se_EventSeq (input_events inputs) = [j + 1..m] \<and> j \<le> counter_of db2 taskID \<longrightarrow>
      map se_EventSeq (output_events (st_out s)) = [after + 1..max (counter_of db2 taskID) m])"
proof -
  obtain sub w1 where sub: "sh_subscribe h taskID w = (sub, w1)" by fastforce
  note run = visible_run [OF assms(1), of taskID]
  let ?oldest = "if first_seq now1 taskID db1 = counter_of db1 taskID + 1 then 0 else first_seq now1 taskID db1"
  have bounds: "events_Bounds (sh_service h) taskID w1 = (Inr (?oldest, counter_of db1 taskID), w1)"
    by (simp add: events_Bounds_def assms(4) store_events_def EventBounds_def bounds_from_history [OF assms(1)])
  have inside: "\<not> outside_retention hasCursor cursor ?oldest (counter_of db1 taskID)"
    using StreamMetrics_reads(1) [OF assms(6,7) sub bounds] .
  obtain replay where replay: "events_Query (sh_service h) taskID after w1 = (Inr replay, w1)"
    using StreamMetrics_reads(2) [OF assms(6,7) sub bounds] assms(8)
    by (auto simp: events_Query_def assms(4) store_events_def)
  have "first_seq now1 taskID db1 \<le> after + 1"
  proof (cases "hasCursor \<and> ?oldest \<noteq> 0")
    case True
    then have "wrap64 (first_seq now1 taskID db1 - 1) = first_seq now1 taskID db1 - 1"
      using run assms(5) by (intro wrap64_id) (auto simp: in_int64_def)
    then show ?thesis using True inside assms(8) run(2) by (auto simp: outside_retention_def split: if_splits)
  next
    case False
    then show ?thesis using inside assms(8) run(2,3) by (auto simp: outside_retention_def split: if_splits)
  qed
  then have "max (after + 1) (first_seq now2 taskID db2) = after + 1" using assms(3) by simp
  moreover have "QueryEvents r now2 taskID after db2 = Inr replay"
    using replay by (simp add: events_Query_def assms(4) store_events_def)
  ultimately have "map se_EventSeq replay = [after + 1..counter_of db2 taskID]"
    using QueryEvents_from_history [OF _ assms(2)] by simp
  then have "map se_EventSeq replay = [after + 1..max after (counter_of db2 taskID)]" by (simp add: max_def)
  from stream_handover [OF assms(6,7) sub bounds assms(8) replay this _ assms(9)] this
  have out: "map se_EventSeq (output_events (st_out s)) = [after + 1..max after (counter_of db2 taskID)] @
      filter (\<lambda>n. max after (counter_of db2 taskID) < n) (map se_EventSeq (input_events inputs))"
    by (simp add: filter_map comp_def)
  have "map se_EventSeq (output_events (st_out s)) = [after + 1..max (counter_of db2 taskID) m]"
    if "map se_EventSeq (input_events inputs) = [j + 1..m]" "j \<le> counter_of db2 taskID" for j m
    unfolding out that(1) filter_greater_upto using that(2) by (intro joined_runs) simp_all
  with out show ?thesis by blast
qed

text \<open>A database with one event, a client that has seen none, and the event again with its successor.\<close>

definition one_event_handler :: "unit stream_handler" where
  "one_event_handler = example_stream_handler
     \<lparr>sh_service := Some (store_events all_read (7, one_point_pg) (7, one_point_pg))\<rparr>"

lemma one_point_history: "db_history 7 one_point_pg"
proof -
  have "store_Flush example_impl (no_errors\<lparr>fl_commit := DbOk\<rparr>) 7 [store_point] (empty_pg [0]) = (None, one_point_pg)"
    by (simp add: example_flush)
  then show ?thesis by (rule db_history.flushes [OF db_history.created])
qed

lemma one_event_stream:
  "\<exists>s. StreamMetrics one_event_handler ''t'' ''t:0'' [SEvent (ev_of ''t'' 1), SEvent (ev_of ''t'' 2)] () = Streaming s"
proof -
  have "parseLastEventID ''t:0'' ''t'' = Inr (0, True)" "http_taskIDPattern ''t''"
    by (code_simp, code_simp)
  moreover have "query_metric_event_bounds 7 ''t'' one_point_pg = (1, 1)"
    by (simp add: query_metric_event_bounds_def retained_events_def retention_millis_def one_point_pg_def empty_pg_def Let_def)
  moreover have "\<not> outside_retention True 0 1 1" by (simp add: outside_retention_def wrap64_def)
  moreover have "QueryEvents all_read 7 ''t'' 0 one_point_pg = Inr [\<lparr>se_TaskID = ''t'', se_EventSeq = 1, se_Payload = ''{}''\<rparr>]"
    by (simp add: QueryEvents_def read_rows_all_read query_metric_events_def retained_events_def
        retention_millis_def one_point_pg_def empty_pg_def)
  ultimately show ?thesis
    by (simp add: StreamMetrics_def one_event_handler_def example_stream_handler_def store_events_def events_Bounds_def
        events_Query_def EventBounds_def http_maxTaskIDLength_def writeEvent_def ev_of_def Let_def)
qed

lemma stream_from_database_witness:
  "\<exists>s. StreamMetrics one_event_handler ''t'' ''t:0'' [SEvent (ev_of ''t'' 1), SEvent (ev_of ''t'' 2)] () = Streaming s \<and>
    map se_EventSeq (output_events (st_out s)) = [1, 2]"
proof -
  obtain s where s: "StreamMetrics one_event_handler ''t'' ''t:0'' [SEvent (ev_of ''t'' 1), SEvent (ev_of ''t'' 2)] ()
      = Streaming s" using one_event_stream by blast
  have p: "parseLastEventID ''t:0'' ''t'' = Inr (0, True)" by code_simp
  have c: "counter_of one_point_pg ''t'' = 1" by (simp add: counter_of_def one_point_pg_def)
  have runs: "[1..2] = [1, 2 :: int]" by code_simp
  have live: "map se_EventSeq (input_events [SEvent (ev_of ''t'' 1), SEvent (ev_of ''t'' 2)]) = [0 + 1..2]"
    by (simp add: ev_of_def runs)
  have "map se_EventSeq (output_events (st_out s)) = [0 + 1..max (counter_of one_point_pg ''t'') 2]"
    using stream_from_database [OF one_point_history one_point_history order.refl _ _ s p refl] live
    by (simp add: one_event_handler_def c in_int64_def runs)
  with s show ?thesis by (simp add: c runs)
qed

end
