(* ===== verification/QueryHttp.thy ===== *)
theory QueryHttp
  imports QueriesProps
begin

section \<open>The query handlers\<close>

text \<open>
  \<open>internal/transport/http/history.go\<close>, \<open>summary.go\<close>, \<open>audit.go\<close> and the services under
  \<open>internal/service\<close>. A request is its path parameter and the first value of each query
  parameter (\<open>c.Query\<close>, \<open>c.GetQuery\<close>); a repository is an operation on a world \<open>'w\<close>, and a nil one is
  \<open>None\<close>.
\<close>

type_synonym query_params = "string \<Rightarrow> string option"
type_synonym ('q, 'r, 'w) repository = "('q \<Rightarrow> 'w \<Rightarrow> (go_error + 'r) \<times> 'w) option"

definition param :: "query_params \<Rightarrow> string \<Rightarrow> string" where
  "param q name = (case q name of None \<Rightarrow> [] | Some v \<Rightarrow> v)"

definition and_then :: "go_error + 'a \<Rightarrow> ('a \<Rightarrow> go_error + 'b) \<Rightarrow> go_error + 'b" where
  "and_then r f = (case r of Inl err \<Rightarrow> Inl err | Inr x \<Rightarrow> f x)"

lemma and_then_Inr: "and_then r f = Inr y \<longleftrightarrow> (\<exists>x. r = Inr x \<and> f x = Inr y)"
  by (cases r) (simp_all add: and_then_def)

subsection \<open>Services\<close>

definition history_Query ::
  "(history_query, history_result, 'w) repository \<Rightarrow> history_query \<Rightarrow> 'w \<Rightarrow> (go_error + history_result) \<times> 'w" where
  "history_Query repo query w =
     (case repo of None \<Rightarrow> (Inl (ErrNew ''history repository is required''), w) | Some f \<Rightarrow> f query w)"

definition summary_Query ::
  "(string, summary_result, 'w) repository \<Rightarrow> string \<Rightarrow> 'w \<Rightarrow> (go_error + summary_result) \<times> 'w" where
  "summary_Query repo task w =
     (case repo of None \<Rightarrow> (Inl (ErrNew ''summary repository is required''), w) | Some f \<Rightarrow> f task w)"

definition audit_Query ::
  "(string, audit_result, 'w) repository \<Rightarrow> string \<Rightarrow> 'w \<Rightarrow> (go_error + audit_result) \<times> 'w" where
  "audit_Query repo task w =
     (case repo of None \<Rightarrow> (Inl (ErrNew ''audit repository is required''), w) | Some f \<Rightarrow> f task w)"

subsection \<open>The parameters of a history query\<close>

fun parse_keys :: "string list \<Rightarrow> string list \<Rightarrow> go_error + string list" where
  "parse_keys [] keys = Inr keys"
| "parse_keys (piece # pieces) keys =
     (let key = trim_space piece
      in if key = [] \<or> length key > http_maxMetricKeyLength \<or> \<not> http_metricKeyPattern key
         then Inl (ErrNew ''invalid keys'')
         else parse_keys pieces (if key \<in> set keys then keys else keys @ [key]))"

definition parse_keys_param :: "query_params \<Rightarrow> go_error + string list" where
  "parse_keys_param q =
     (if param q ''keys'' \<noteq> [] then parse_keys (split_on CHR '','' (param q ''keys'')) []
      else if q ''keys'' \<noteq> None then Inl (ErrNew ''keys must contain at least one key'')
      else Inr [])"

definition queryInt64 :: "query_params \<Rightarrow> string \<Rightarrow> go_error + int option" where
  "queryInt64 q name =
     (if param q name = [] then Inr None
      else case parse_int64 (param q name) of
             None \<Rightarrow> Inl (ErrNew (name @ '' must be an integer''))
           | Some v \<Rightarrow> Inr (Some v))"

definition queryStep :: "query_params \<Rightarrow> string \<Rightarrow> go_error + int option" where
  "queryStep q name =
     (case queryInt64 q name of
        Inl err \<Rightarrow> Inl err
      | Inr (Some v) \<Rightarrow>
          if v < 0 \<or> v > http_maxStepValue then Inl (ErrNew (name @ '' is outside supported range''))
          else Inr (Some v)
      | Inr None \<Rightarrow> Inr None)"

definition validHistoryTimestamp :: "int \<Rightarrow> bool" where
  "validHistoryTimestamp v \<longleftrightarrow> v > 0 \<and> v \<le> http_maxTimestampMillis"

definition parse_max_points :: "query_params \<Rightarrow> go_error + int" where
  "parse_max_points q =
     (if param q ''max_points'' = [] then Inr 500
      else case parse_int64 (param q ''max_points'') of
             None \<Rightarrow> Inl (ErrNew ''max_points must be between 1 and 5000'')
           | Some v \<Rightarrow>
               if v < 1 \<or> v > 5000 then Inl (ErrNew ''max_points must be between 1 and 5000'') else Inr v)"

definition parseHistoryQuery :: "string \<Rightarrow> query_params \<Rightarrow> go_error + history_query" where
  "parseHistoryQuery taskID q =
     (if taskID = [] \<or> \<not> http_taskIDPattern taskID \<or> length taskID > http_maxTaskIDLength
      then Inl (ErrNew ''invalid task_id'')
      else and_then (parse_keys_param q) (\<lambda>keys.
           and_then (queryInt64 q ''from'') (\<lambda>from_ms.
           and_then (queryInt64 q ''to'') (\<lambda>to_ms.
           and_then (queryStep q ''step_from'') (\<lambda>step_from.
           and_then (queryStep q ''step_to'') (\<lambda>step_to.
             if \<not> null_or from_ms validHistoryTimestamp \<or> \<not> null_or to_ms validHistoryTimestamp
             then Inl (ErrNew ''from and to must be positive'')
             else if \<not> null_or from_ms (\<lambda>f. null_or to_ms (\<lambda>t. f < t))
             then Inl (ErrNew ''from must be less than to'')
             else if \<not> null_or step_from (\<lambda>f. null_or step_to (\<lambda>t. f \<le> t))
             then Inl (ErrNew ''step_from must be less than or equal to step_to'')
             else and_then (parse_max_points q) (\<lambda>max_points.
                Inr \<lparr>hq_TaskID = taskID, hq_Keys = keys, hq_From = from_ms, hq_To = to_ms,
                     hq_StepFrom = step_from, hq_StepTo = step_to, hq_MaxPoints = max_points\<rparr>)))))))"

subsection \<open>Replies\<close>

record history_response_point =
  hx_step :: int
  hx_ts :: int
  hx_v :: float64
  hx_min :: float64
  hx_max :: float64

record history_response =
  hx_task_id :: string
  hx_downsampled :: bool
  hx_bucket_ms :: int
  hx_series :: "(string \<times> history_response_point list) list"

definition response_point :: "history_point \<Rightarrow> history_response_point" where
  "response_point p =
     \<lparr>hx_step = hp_Step p, hx_ts = hp_TS p, hx_v = hp_V p, hx_min = hp_Min p, hx_max = hp_Max p\<rparr>"

definition append_series :: "history_point \<Rightarrow> (string \<times> history_point list) list \<Rightarrow> (string \<times> history_point list) list" where
  "append_series p series =
     AList.update (hp_Key p) ((case map_of series (hp_Key p) of None \<Rightarrow> [] | Some ps \<Rightarrow> ps) @ [p]) series"

definition QueryMetrics ::
  "(history_query, history_result, 'w) repository \<Rightarrow> string \<Rightarrow> query_params \<Rightarrow> 'w \<Rightarrow> history_response reply \<times> 'w" where
  "QueryMetrics svc taskID q w =
     (case parseHistoryQuery taskID q of
        Inl err \<Rightarrow> (WriteError StatusBadRequest ErrorCodeInvalidParams (error_text err), w)
      | Inr query \<Rightarrow>
          (case history_Query svc query w of
             (Inl err, w') \<Rightarrow>
               (WriteError StatusInternalServerError ErrorCodeInternal ''internal server error'', w')
           | (Inr result, w') \<Rightarrow>
               if \<not> hr_Exists result
               then (WriteError StatusNotFound ErrorCodeTaskNotFound ''task not found'', w')
               else (let series = fold append_series (hr_Points result) [];
                         responseSeries = map (\<lambda>(k, ps). (k, map response_point ps)) series
                     in (ReplyJSON StatusOK
                           \<lparr>hx_task_id = hq_TaskID query, hx_downsampled = hr_Downsampled result,
                            hx_bucket_ms = hr_BucketMS result, hx_series = responseSeries\<rparr>, w'))))"

record summary_response =
  sx_task_id :: string
  sx_last_step :: int
  sx_updated_at :: int
  sx_metrics :: "(string \<times> summary_metric) list"

definition GetSummary ::
  "(string, summary_result, 'w) repository \<Rightarrow> string \<Rightarrow> 'w \<Rightarrow> summary_response reply \<times> 'w" where
  "GetSummary svc taskID w =
     (if taskID = [] \<or> \<not> http_taskIDPattern taskID \<or> length taskID > http_maxTaskIDLength
      then (WriteError StatusBadRequest ErrorCodeInvalidParams ''invalid task_id'', w)
      else case summary_Query svc taskID w of
             (Inl err, w') \<Rightarrow>
               (WriteError StatusInternalServerError ErrorCodeInternal ''internal server error'', w')
           | (Inr result, w') \<Rightarrow>
               if \<not> su_Exists result
               then (WriteError StatusNotFound ErrorCodeTaskNotFound ''task not found'', w')
               else (ReplyJSON StatusOK
                       \<lparr>sx_task_id = taskID, sx_last_step = su_LastStep result,
                        sx_updated_at = su_UpdatedAt result, sx_metrics = su_Metrics result\<rparr>, w'))"

definition GetAudit ::
  "(string, audit_result, 'w) repository \<Rightarrow> string \<Rightarrow> 'w \<Rightarrow> (string \<times> audit_result) reply \<times> 'w" where
  "GetAudit svc taskID w =
     (if taskID = [] \<or> \<not> http_taskIDPattern taskID \<or> length taskID > http_maxTaskIDLength
      then (WriteError StatusBadRequest ErrorCodeInvalidParams ''invalid task_id'', w)
      else case audit_Query svc taskID w of
             (Inl err, w') \<Rightarrow>
               (WriteError StatusInternalServerError ErrorCodeInternal ''internal server error'', w')
           | (Inr result, w') \<Rightarrow>
               if \<not> au_Exists result
               then (WriteError StatusNotFound ErrorCodeTaskNotFound ''task not found'', w')
               else (ReplyJSON StatusOK (taskID, result), w'))"

subsection \<open>The contract of the parameters\<close>

text \<open>
  What a request asks for, stated on its parameters, after the table of \<open>src/api.md\<close>: which query
  they stand for, and the ranges. A number or \<open>max_points\<close> that is empty counts as left out;
  \<open>keys\<close> may be left out but not be empty, and a key that is repeated counts once, where it comes first.
\<close>

definition query_in_contract :: "history_query \<Rightarrow> bool" where
  "query_in_contract query \<longleftrightarrow>
     spec_task_id (hq_TaskID query) \<and> (\<forall>k \<in> set (hq_Keys query). spec_key k) \<and>
     null_or (hq_From query) spec_ts \<and> null_or (hq_To query) spec_ts \<and>
     null_or (hq_From query) (\<lambda>f. null_or (hq_To query) (\<lambda>t. f < t)) \<and>
     null_or (hq_StepFrom query) spec_step \<and> null_or (hq_StepTo query) spec_step \<and>
     null_or (hq_StepFrom query) (\<lambda>f. null_or (hq_StepTo query) (\<lambda>t. f \<le> t)) \<and>
     1 \<le> hq_MaxPoints query \<and> hq_MaxPoints query \<le> 5000"

definition left_out :: "query_params \<Rightarrow> string \<Rightarrow> bool" where
  "left_out q name \<longleftrightarrow> q name = None \<or> q name = Some []"

definition asks_number :: "query_params \<Rightarrow> string \<Rightarrow> int \<Rightarrow> bool" where
  "asks_number q name i \<longleftrightarrow> (\<exists>v. q name = Some v \<and> v \<noteq> [] \<and> parse_int64 v = Some i)"

definition asks_bound :: "query_params \<Rightarrow> string \<Rightarrow> int option \<Rightarrow> bool" where
  "asks_bound q name x \<longleftrightarrow> (case x of None \<Rightarrow> left_out q name | Some i \<Rightarrow> asks_number q name i)"

definition each_once :: "'a list \<Rightarrow> 'a list" where
  "each_once xs = rev (remdups (rev xs))"

definition asks_keys :: "query_params \<Rightarrow> string list \<Rightarrow> bool" where
  "asks_keys q ks \<longleftrightarrow>
     q ''keys'' = None \<and> ks = [] \<or>
     (\<exists>v. q ''keys'' = Some v \<and> v \<noteq> [] \<and> ks = each_once (map trim_space (split_on CHR '','' v)))"

definition asks :: "string \<Rightarrow> query_params \<Rightarrow> history_query \<Rightarrow> bool" where
  "asks taskID q query \<longleftrightarrow>
     query_in_contract query \<and> hq_TaskID query = taskID \<and> asks_keys q (hq_Keys query) \<and>
     asks_bound q ''from'' (hq_From query) \<and> asks_bound q ''to'' (hq_To query) \<and>
     asks_bound q ''step_from'' (hq_StepFrom query) \<and> asks_bound q ''step_to'' (hq_StepTo query) \<and>
     (left_out q ''max_points'' \<and> hq_MaxPoints query = 500 \<or> asks_number q ''max_points'' (hq_MaxPoints query))"

subsection \<open>The parser implements it\<close>

lemma each_once_append:
  "each_once (keys @ k # ks) =
    (if k \<in> set keys then each_once (keys @ ks) else each_once ((keys @ [k]) @ ks))"
proof -
  have "remdups (rev ks @ k # rev keys) = remdups (rev ks @ rev keys)" if "k \<in> set keys"
    using that by (metis remdups.simps(2) remdups_append2 set_rev)
  then show ?thesis by (simp add: each_once_def)
qed

lemma each_once_distinct: "distinct xs \<Longrightarrow> each_once xs = xs"
  by (simp add: each_once_def distinct_remdups_id)

lemma parse_keys_iff:
  "distinct keys \<Longrightarrow> parse_keys pieces keys = Inr ks \<longleftrightarrow>
    (\<forall>p \<in> set pieces. spec_key (trim_space p)) \<and> ks = each_once (keys @ map trim_space pieces)"
proof (induction pieces arbitrary: keys)
  case (Cons p ps)
  show ?case
  proof (cases "spec_key (trim_space p)")
    case True
    then have "parse_keys (p # ps) keys = parse_keys ps (if trim_space p \<in> set keys then keys else keys @ [trim_space p])"
      by (auto simp: Let_def simp flip: http_metricKey_iff)
    moreover have "distinct (if trim_space p \<in> set keys then keys else keys @ [trim_space p])"
      using Cons.prems by simp
    ultimately show ?thesis using True Cons.IH
      by (simp only: list.map each_once_append) auto
  qed (auto simp: Let_def simp flip: http_metricKey_iff)
qed (auto simp: each_once_distinct)

lemma set_each_once [simp]: "set (each_once xs) = set xs"
  by (simp add: each_once_def)

lemma parse_keys_param_iff:
  "parse_keys_param q = Inr ks \<longleftrightarrow> asks_keys q ks \<and> (\<forall>k \<in> set ks. spec_key k)"
  by (auto simp: parse_keys_param_def asks_keys_def param_def parse_keys_iff split: option.splits)

lemma queryInt64_iff: "queryInt64 q name = Inr x \<longleftrightarrow> asks_bound q name x"
  by (cases x) (auto simp: queryInt64_def asks_bound_def asks_number_def left_out_def param_def split: option.splits)

lemma queryStep_iff: "queryStep q name = Inr x \<longleftrightarrow> asks_bound q name x \<and> null_or x spec_step"
proof -
  have "queryStep q name = Inr x \<longleftrightarrow> queryInt64 q name = Inr x \<and> null_or x spec_step"
    by (auto simp: queryStep_def null_or_def spec_step_def http_maxStepValue_def
        split: sum.splits option.splits if_splits)
  then show ?thesis by (simp add: queryInt64_iff)
qed

lemma parse_max_points_iff:
  "parse_max_points q = Inr m \<longleftrightarrow> 1 \<le> m \<and> m \<le> 5000 \<and>
    (left_out q ''max_points'' \<and> m = 500 \<or> asks_number q ''max_points'' m)"
  by (auto simp: parse_max_points_def left_out_def asks_number_def param_def split: option.splits if_splits)

lemma validHistoryTimestamp_iff: "validHistoryTimestamp v \<longleftrightarrow> spec_ts v"
  by (simp add: validHistoryTimestamp_def spec_ts_def http_maxTimestampMillis_def)

lemma parseHistoryQuery_iff: "parseHistoryQuery taskID q = Inr query \<longleftrightarrow> asks taskID q query"
proof -
  have task: "\<not> (taskID = [] \<or> \<not> http_taskIDPattern taskID \<or> length taskID > http_maxTaskIDLength) \<longleftrightarrow> spec_task_id taskID"
    by (auto simp flip: http_taskIDPattern_iff)
  have "parseHistoryQuery taskID q = Inr query \<longleftrightarrow>
      spec_task_id taskID \<and>
      (\<exists>keys f t sf st m. parse_keys_param q = Inr keys \<and> queryInt64 q ''from'' = Inr f \<and> queryInt64 q ''to'' = Inr t \<and>
         queryStep q ''step_from'' = Inr sf \<and> queryStep q ''step_to'' = Inr st \<and>
         null_or f validHistoryTimestamp \<and> null_or t validHistoryTimestamp \<and>
         null_or f (\<lambda>f. null_or t (\<lambda>t. f < t)) \<and> null_or sf (\<lambda>f. null_or st (\<lambda>t. f \<le> t)) \<and>
         parse_max_points q = Inr m \<and>
         query = \<lparr>hq_TaskID = taskID, hq_Keys = keys, hq_From = f, hq_To = t, hq_StepFrom = sf,
           hq_StepTo = st, hq_MaxPoints = m\<rparr>)"
    unfolding task [symmetric] by (auto simp: parseHistoryQuery_def and_then_Inr split: if_splits)
  also have "\<dots> \<longleftrightarrow> asks taskID q query"
    unfolding parse_keys_param_iff queryInt64_iff queryStep_iff parse_max_points_iff validHistoryTimestamp_iff
    by (cases query) (auto simp: asks_def query_in_contract_def)
  finally show ?thesis .
qed

end
