(* ===== verification/QueryHttpProps.thy ===== *)
theory QueryHttpProps
  imports QueryHttp
begin

section \<open>Properties of the query handlers\<close>

text \<open>
  Which reply a request of the history gets and what is in it.
\<close>

lemma fold_append_series:
  "map_of (fold append_series ps s) k =
    (let xs = filter (\<lambda>p. hp_Key p = k) ps
     in case map_of s k of None \<Rightarrow> if xs = [] then None else Some xs | Some ys \<Rightarrow> Some (ys @ xs))"
proof (induction ps arbitrary: s)
  case (Cons p ps)
  show ?case
    unfolding fold.simps comp_def Cons.IH
    by (auto simp: append_series_def update_conv' Let_def split: option.split)
qed (simp split: option.split)

lemma append_series_distinct: "distinct (map fst s) \<Longrightarrow> distinct (map fst (fold append_series ps s))"
  by (induction ps arbitrary: s) (auto simp: append_series_def intro!: distinct_update)

lemma history_series:
  "map_of (map (\<lambda>(k, ps). (k, map response_point ps)) (fold append_series ps [])) k =
    (let xs = filter (\<lambda>p. hp_Key p = k) ps in if xs = [] then None else Some (map response_point xs))"
  using fold_append_series [of ps "[]" k] by (simp add: map_of_map Let_def)

text \<open>
  C14. Every reply of the history endpoint, for any repository. The contract of the parameters is stated on the
  parameters themselves (\<open>asks\<close>): task identifier, keys, bounds and \<open>max_points\<close> as \<open>src/api.md\<close> has them. A request in the
  contract is handed to the repository once, as exactly the query it stands for (each key once, in order;
  \<open>max_points\<close> 500 when left out); the reply is then 500 when the repository fails (as the store does when the
  database refuses the embedded statement), 404 when it knows no such task, else 200 with the
  task, the bucket width and a series for exactly the keys that have points, each with all its points in the order
  of the repository. A request outside the contract is answered 400 and the repository never sees it; nothing
  is clamped or dropped to make it fit.
\<close>

theorem history_reply_contract:
  "case QueryMetrics (Some f) taskID q w of (reply, w') \<Rightarrow>
     (\<exists>query err. asks taskID q query \<and> f query w = (Inl err, w') \<and>
        reply = ReplyError 500 ''INTERNAL'' ''internal server error'')
   \<or> (\<exists>query res. asks taskID q query \<and> f query w = (Inr res, w') \<and> \<not> hr_Exists res \<and>
        reply = ReplyError 404 ''TASK_NOT_FOUND'' ''task not found'')
   \<or> (\<exists>query res doc. asks taskID q query \<and> f query w = (Inr res, w') \<and> hr_Exists res \<and>
        reply = ReplyJSON 200 doc \<and> hx_task_id doc = taskID \<and> hx_downsampled doc = hr_Downsampled res \<and>
        hx_bucket_ms doc = hr_BucketMS res \<and> distinct (map fst (hx_series doc)) \<and>
        (\<forall>k. map_of (hx_series doc) k =
           (case filter (\<lambda>p. hp_Key p = k) (hr_Points res) of
              [] \<Rightarrow> None
            | ps \<Rightarrow> Some (map (\<lambda>p. \<lparr>hx_step = hp_Step p, hx_ts = hp_TS p, hx_v = hp_V p, hx_min = hp_Min p,
                                  hx_max = hp_Max p\<rparr>) ps))))
   \<or> ((\<nexists>query. asks taskID q query) \<and> w' = w \<and> (\<exists>m. reply = ReplyError 400 ''INVALID_PARAMS'' m))"
proof (cases "parseHistoryQuery taskID q")
  case (Inl err)
  then have "\<nexists>query. asks taskID q query" by (simp flip: parseHistoryQuery_iff)
  with Inl show ?thesis
    by (simp add: QueryMetrics_def WriteError_def status_defs ErrorCodeInvalidParams_def)
next
  case (Inr query)
  then have asks: "asks taskID q query" by (simp add: parseHistoryQuery_iff)
  then have task: "hq_TaskID query = taskID" by (simp add: asks_def)
  obtain r w' where f: "f query w = (r, w')" by fastforce
  show ?thesis
  proof (cases r)
    case (Inl err)
    with Inr f asks show ?thesis
      by (auto simp: QueryMetrics_def history_Query_def WriteError_def status_defs ErrorCodeInternal_def)
  next
    case res: (Inr res)
    show ?thesis
    proof (cases "hr_Exists res")
      case False
      with Inr f asks res show ?thesis
        by (auto simp: QueryMetrics_def history_Query_def WriteError_def status_defs ErrorCodeTaskNotFound_def)
    next
      case True
      let ?series = "map (\<lambda>(k, ps). (k, map response_point ps)) (fold append_series (hr_Points res) [])"
      let ?doc = "\<lparr>hx_task_id = taskID, hx_downsampled = hr_Downsampled res, hx_bucket_ms = hr_BucketMS res,
        hx_series = ?series\<rparr>"
      have "QueryMetrics (Some f) taskID q w = (ReplyJSON 200 ?doc, w')"
        using Inr f res True task by (simp add: QueryMetrics_def history_Query_def status_defs)
      moreover have "distinct (map fst ?series)"
        using append_series_distinct [of "[]" "hr_Points res"] by (simp add: comp_def case_prod_unfold)
      moreover have "map_of ?series k = (case filter (\<lambda>p. hp_Key p = k) (hr_Points res) of
          [] \<Rightarrow> None
        | p # ps \<Rightarrow> Some (map (\<lambda>p. \<lparr>hx_step = hp_Step p, hx_ts = hp_TS p, hx_v = hp_V p, hx_min = hp_Min p,
                           hx_max = hp_Max p\<rparr>) (p # ps)))" for k
        unfolding history_series Let_def by (simp add: response_point_def [abs_def] split: list.split)
      ultimately show ?thesis using asks f res True by auto
    qed
  qed
qed

end
