(* ===== verification/Environment.thy ===== *)
theory Environment
  imports GoText
begin

section \<open>Process environment, durations and folding\<close>

text \<open>
  What \<open>config.go\<close> and \<open>cmd/migrate/main.go\<close> call of \<open>os\<close>, \<open>strings\<close> and \<open>time\<close>:
  \<open>os.LookupEnv\<close> as a map, \<open>strings.ToLower\<close> and \<open>time.ParseDuration\<close>, with a printer of whole
  durations whose text the parser reads back.
\<close>

type_synonym environment = "string \<Rightarrow> string option"

text \<open>
  What \<open>godotenv.Load\<close> left: its error, with \<open>os.IsNotExist\<close> of it, and the environment, into
  which it has put the variables of \<open>.env\<close> that were not set.
\<close>

record loaded_env =
  le_error :: "(go_error \<times> bool) option"
  le_env :: environment

text \<open>
  \<open>strings.ToLower\<close> on ASCII letters and on the two other characters whose lower case is ASCII,
  U+0130 and the Kelvin sign U+212A. The lower case of the remaining letters is not ASCII; their
  bytes are kept, which no comparison with an ASCII word can tell.
\<close>

definition lower_char :: "char \<Rightarrow> char" where
  "lower_char c = (if is_upper c then char_of (of_char c + (32::nat)) else c)"

fun to_lower :: "string \<Rightarrow> string" where
  "to_lower [] = []"
| "to_lower (a # s) =
     (case s of
        [] \<Rightarrow> [lower_char a]
      | b # t \<Rightarrow>
          (if a = CHR 0xC4 \<and> b = CHR 0xB0 then CHR ''i'' # to_lower t
           else case t of
             [] \<Rightarrow> lower_char a # to_lower s
           | c # u \<Rightarrow>
               (if a = CHR 0xE2 \<and> b = CHR 0x84 \<and> c = CHR 0xAA then CHR ''k'' # to_lower u
                else lower_char a # to_lower s)))"

subsection \<open>Trimming\<close>

lemma trim_space_Nil [simp]: "trim_space [] = []"
  by (simp add: trim_space_def)

text \<open>A text whose ends are printable ASCII is trimmed of nothing.\<close>

definition is_plain :: "char \<Rightarrow> bool" where
  "is_plain c \<longleftrightarrow> 32 < (of_char c :: nat) \<and> (of_char c :: nat) < 127"

lemma plain_no_space:
  assumes "is_plain c"
  shows "\<not> is_ascii_space c" "c # x \<notin> set unicode_spaces" "x @ [c] \<notin> set unicode_spaces"
  using assms by (auto simp: is_plain_def is_ascii_space_def unicode_spaces_def append_eq_Cons_conv)

lemma plain_trimmed:
  assumes "is_plain (hd s)" "is_plain (last s)" "s \<noteq> []"
  shows "trim_space s = s"
proof -
  have left: "trim_left t = t" if "is_plain (hd t)" for t
    using plain_no_space(1,2) [OF that] by (cases t; cases "tl t"; cases "tl (tl t)") auto
  have right: "trim_right_rev t = t" if "is_plain (hd t)" for t
    using plain_no_space(1) [OF that] plain_no_space(3) [OF that, of "[hd (tl t)]"]
      plain_no_space(3) [OF that, of "[hd (tl (tl t)), hd (tl t)]"]
    by (cases t; cases "tl t"; cases "tl (tl t)") auto
  show ?thesis using left [OF assms(1)] right [of "rev s"] assms(2,3) by (simp add: trim_space_def hd_rev)
qed

subsection \<open>Durations\<close>

definition unit_map :: "string \<Rightarrow> nat option" where
  "unit_map = map_of
     [(''ns'', 1), (''us'', 1000), ([CHR 0xC2, CHR 0xB5, CHR ''s''], 1000),
      ([CHR 0xCE, CHR 0xBC, CHR ''s''], 1000), (''ms'', 1000000), (''s'', 1000000000),
      (''m'', 60000000000), (''h'', 3600000000000)]"

text \<open>\<open>leadingInt\<close> (\<open>None\<close> on overflow of \<open>1<<63\<close>) and \<open>leadingFraction\<close> with the digits it used.\<close>

fun leading_int :: "nat \<Rightarrow> string \<Rightarrow> (nat \<times> string) option" where
  "leading_int x [] = Some (x, [])"
| "leading_int x (c # s) =
     (if is_digit c
      then if 2 ^ 63 div 10 < x then None
           else if 2 ^ 63 < 10 * x + digit_val c then None
           else leading_int (10 * x + digit_val c) s
      else Some (x, c # s))"

fun leading_fraction :: "bool \<Rightarrow> nat \<Rightarrow> nat \<Rightarrow> string \<Rightarrow> nat \<times> nat \<times> string" where
  "leading_fraction over x k [] = (x, k, [])"
| "leading_fraction over x k (c # s) =
     (if is_digit c
      then if over \<or> (2 ^ 63 - 1) div 10 < x \<or> 2 ^ 63 < 10 * x + digit_val c
           then leading_fraction True x k s
           else leading_fraction False (10 * x + digit_val c) (Suc k) s
      else (x, k, c # s))"

definition unit_stop :: "char \<Rightarrow> bool" where
  "unit_stop c \<longleftrightarrow> c = CHR ''.'' \<or> is_digit c"

text \<open>
  One number with its unit: the value in nanoseconds and the rest. \<open>frac f k unit\<close> is the
  \<open>float64\<close> product of the fraction \<open>f / 10 ^ k\<close> and the unit, truncated.
\<close>

definition parse_component :: "(nat \<Rightarrow> nat \<Rightarrow> nat \<Rightarrow> nat) \<Rightarrow> string \<Rightarrow> (nat \<times> string) option" where
  "parse_component frac s =
     (case leading_int 0 s of
        None \<Rightarrow> None
      | Some (v, s1) \<Rightarrow>
          (let pre = (length s1 \<noteq> length s);
               (f, k, s2, post) =
                 (case s1 of
                    c # t \<Rightarrow>
                      if c = CHR ''.''
                      then (case leading_fraction False 0 0 t of (f, k, s2) \<Rightarrow> (f, k, s2, length s2 \<noteq> length t))
                      else (0, 0, s1, False)
                  | [] \<Rightarrow> (0, 0, s1, False));
               u = takeWhile (\<lambda>c. \<not> unit_stop c) s2
           in if \<not> pre \<and> \<not> post then None
              else if u = [] then None
              else case unit_map u of
                     None \<Rightarrow> None
                   | Some unit \<Rightarrow>
                       if 2 ^ 63 div unit < v then None
                       else (let w = v * unit + (if 0 < f then frac f k unit else 0)
                             in if 2 ^ 63 < w then None else Some (w, drop (length u) s2))))"

text \<open>The loop over the components; each takes at least one byte, so the length is fuel enough.\<close>

fun parse_components :: "(nat \<Rightarrow> nat \<Rightarrow> nat \<Rightarrow> nat) \<Rightarrow> nat \<Rightarrow> nat \<Rightarrow> string \<Rightarrow> nat option" where
  "parse_components frac fuel d [] = Some d"
| "parse_components frac 0 d (c # s) = None"
| "parse_components frac (Suc fuel) d (c # s) =
     (case parse_component frac (c # s) of
        None \<Rightarrow> None
      | Some (v, rest) \<Rightarrow> if 2 ^ 63 < d + v then None else parse_components frac fuel (d + v) rest)"

definition ParseDuration :: "(nat \<Rightarrow> nat \<Rightarrow> nat \<Rightarrow> nat) \<Rightarrow> string \<Rightarrow> int option" where
  "ParseDuration frac s =
     (let neg = (case s of c # t \<Rightarrow> c = CHR ''-'' | [] \<Rightarrow> False);
          body = (case s of c # t \<Rightarrow> if c = CHR ''-'' \<or> c = CHR ''+'' then t else s | [] \<Rightarrow> s)
      in if body = ''0'' then Some 0
         else if body = [] then None
         else case parse_components frac (length body) 0 body of
                None \<Rightarrow> None
              | Some d \<Rightarrow> if neg then Some (- int d) else if 2 ^ 63 - 1 < d then None else Some (int d))"

lemma parse_components_bound: "parse_components frac fuel d s = Some n \<Longrightarrow> d \<le> 2 ^ 63 \<Longrightarrow> n \<le> 2 ^ 63"
  by (induction frac fuel d s rule: parse_components.induct) (auto split: option.splits if_splits)

lemma ParseDuration_range: "ParseDuration frac s = Some d \<Longrightarrow> in_int64 d"
  using parse_components_bound [of frac _ 0]
  by (fastforce simp: ParseDuration_def in_int64_def Let_def split: option.splits if_splits)

text \<open>A whole number of a unit reads back: the form the deployment files use.\<close>

lemma leading_int_digits:
  assumes "digits_val x ds = Some n" "n < 2 ^ 63 div 10" "s = [] \<or> \<not> is_digit (hd s)"
  shows "leading_int x (ds @ s) = Some (n, s)"
  using assms
proof (induction ds arbitrary: x)
  case Nil
  then show ?case by (cases s) auto
next
  case (Cons c ds)
  then have c: "is_digit c" "digits_val (10 * x + digit_val c) ds = Some n" by (auto split: if_splits)
  have grow: "x \<le> n" if "digits_val x ds = Some n" for x ds
    using that by (induction x ds rule: digits_val.induct) (auto split: if_splits)
  have "10 * x + digit_val c \<le> n" using grow [OF c(2)] .
  then show ?case using c Cons.IH [OF c(2) Cons.prems(2,3)] Cons.prems(2) by simp
qed

lemma ParseDuration_whole:
  assumes "n < 2 ^ 63 div 10" "unit_map u = Some unit" "u \<noteq> []" "list_all (\<lambda>c. \<not> unit_stop c) u"
    and "n * unit < 2 ^ 63"
  shows "ParseDuration frac (nat_digits n @ u) = Some (int (n * unit))"
proof -
  obtain c cs where cs: "nat_digits n = c # cs" by (cases "nat_digits n") auto
  have digit: "is_digit c" using nat_digits_all_digits [of c n] cs by simp
  have hd: "\<not> is_digit (hd u)" "hd u \<noteq> CHR ''.''" using assms(3,4) by (cases u; auto simp: unit_stop_def)+
  have int: "leading_int 0 (nat_digits n @ u) = Some (n, u)"
    by (rule leading_int_digits [OF digits_val_nat_digits assms(1)]) (use hd in simp)
  have all: "takeWhile (\<lambda>c. \<not> unit_stop c) u = u" using assms(4) by (simp add: takeWhile_eq_all_conv list_all_iff)
  have unit: "0 < unit" using assms(2) by (auto simp: unit_map_def split: if_splits)
  have "n \<le> 2 ^ 63 div unit" using assms(5) unit by (simp add: less_eq_div_iff_mult_less_eq)
  then have comp: "parse_component frac (nat_digits n @ u) = Some (n * unit, [])"
    using int all assms(2,3,5) hd
    by (cases u) (auto simp: parse_component_def Let_def)
  have sign: "c \<noteq> CHR ''-''" "c \<noteq> CHR ''+''" using digit_not_sign [OF digit] by auto
  obtain u' us where u: "u = u' # us" using assms(3) by (cases u) auto
  have "nat_digits n @ u \<noteq> ''0''" using cs u by auto
  moreover obtain m where "length (nat_digits n @ u) = Suc m" using cs by (cases "length (nat_digits n @ u)") auto
  moreover have "parse_components frac (Suc m) 0 (nat_digits n @ u) = Some (n * unit)" for m
    using comp cs assms(5) by simp
  ultimately show ?thesis
    using cs sign assms(3,5) by (simp add: ParseDuration_def Let_def)
qed

end
