(* ===== verification/MigrateProps.thy ===== *)
theory MigrateProps
  imports Migrate
begin

section \<open>Properties of the migrations\<close>

text \<open>
  Which migrations \<open>DiscoverMigrations\<close> returns, and that runs of the migrator, however they fail,
  leave a database to which a prefix of them has been applied, each once and in the order of their
  versions.
\<close>

subsection \<open>The files\<close>

definition sql_file :: "dir_entry \<Rightarrow> bool" where
  "sql_file e \<longleftrightarrow> (case e of SubDir d \<Rightarrow> False | DirFile f c \<Rightarrow> has_suffix ''.sql'' f)"

definition migration_of :: "(string \<Rightarrow> string) \<Rightarrow> dir_entry \<Rightarrow> migration \<Rightarrow> bool" where
  "migration_of digest e m \<longleftrightarrow>
     e = DirFile (mg_Filename m) (Inr (mg_SQL m)) \<and> mg_Checksum m = digest (mg_SQL m) \<and>
     (\<exists>ds. migrationFilePattern (mg_Filename m) = Some (ds, mg_Name m) \<and>
        parse_int64 ds = Some (mg_Version m) \<and> 0 < mg_Version m)"

lemma pattern_shape:
  assumes "migrationFilePattern s = Some (ds, name)"
  shows "s = ds @ ''_'' @ name @ ''.sql'' \<and> ds \<noteq> [] \<and> list_all is_digit ds \<and> name \<noteq> [] \<and> list_all name_char name"
proof -
  define rest where "rest = drop (length ds) s"
  define body where "body = drop 1 rest"
  have p: "ds = takeWhile is_digit s" "ds \<noteq> []" "take 1 rest = ''_''" "has_suffix ''.sql'' body"
    "name = take (length body - 4) body" "name \<noteq> []" "name_first (hd name)" "list_all name_char (tl name)"
    using assms unfolding migrationFilePattern_def rest_def body_def Let_def by (auto split: if_splits)
  have "s = ds @ rest" using p(1) by (metis rest_def append_take_drop_id takeWhile_eq_take)
  moreover have "rest = ''_'' @ body" using p(3) unfolding body_def by (metis append_take_drop_id)
  moreover have "drop (length body - 4) body = ''.sql''" using p(4) by (simp add: has_suffix_def eval_nat_numeral)
  then have "body = name @ ''.sql''" using p(5) by (metis append_take_drop_id)
  moreover have "list_all is_digit ds" unfolding p(1) list_all_iff by (auto dest: set_takeWhileD)
  moreover have "list_all name_char name" using p(6,7,8) by (cases name) (auto simp: name_char_def)
  ultimately show ?thesis using p(2,6) by simp
qed

lemma discover_loop_spec:
  assumes "discover_loop digest es versions result = Inr out"
    and "list_all2 (migration_of digest) (filter sql_file before) result"
    and "distinct (map mg_Version result)" "dom versions = mg_Version ` set result"
  shows "list_all2 (migration_of digest) (filter sql_file (before @ es)) out \<and> distinct (map mg_Version out)"
  using assms
proof (induction digest es versions result arbitrary: before rule: discover_loop.induct)
  case (2 digest d es versions result)
  then show ?case using 2 (1) [of "before @ [SubDir d]"] by (simp add: sql_file_def)
next
  case (3 digest filename content es versions result)
  show ?case
  proof (cases "has_suffix ''.sql'' filename")
    case False
    then show ?thesis
      using "3.IH"(1) [OF _ _ _ "3.prems"(3,4), of "before @ [DirFile filename content]"] "3.prems"
      by (simp add: sql_file_def)
  next
    case True
    then obtain ds name version contents where p: "migrationFilePattern filename = Some (ds, name)"
      "parse_int64 ds = Some version" "0 < version" "versions version = None" "content = Inr contents"
      and rest: "discover_loop digest es (versions(version \<mapsto> filename))
        (result @ [\<lparr>mg_Version = version, mg_Name = name, mg_Filename = filename, mg_SQL = contents,
                   mg_Checksum = digest contents\<rparr>]) = Inr out"
      using "3.prems"(1) by (auto split: option.splits prod.splits if_splits sum.splits)
    have new: "version \<notin> mg_Version ` set result" using p(4) "3.prems"(4) by (metis domIff)
    have is_sql: "sql_file (DirFile filename content)" using True by (simp add: sql_file_def)
    have "migration_of digest (DirFile filename content) \<lparr>mg_Version = version, mg_Name = name,
        mg_Filename = filename, mg_SQL = contents, mg_Checksum = digest contents\<rparr>"
      using p by (simp add: migration_of_def)
    then have l2: "list_all2 (migration_of digest) (filter sql_file (before @ [DirFile filename content]))
        (result @ [\<lparr>mg_Version = version, mg_Name = name, mg_Filename = filename, mg_SQL = contents,
                   mg_Checksum = digest contents\<rparr>])"
      using "3.prems"(2) is_sql by (auto intro!: list_all2_appendI)
    have dist: "distinct (map mg_Version (result @ [\<lparr>mg_Version = version, mg_Name = name,
        mg_Filename = filename, mg_SQL = contents, mg_Checksum = digest contents\<rparr>]))"
      using "3.prems"(3) new by simp
    have dom: "dom (versions(version \<mapsto> filename)) = mg_Version ` set (result @ [\<lparr>mg_Version = version,
        mg_Name = name, mg_Filename = filename, mg_SQL = contents, mg_Checksum = digest contents\<rparr>])"
      using "3.prems"(4) by simp
    have "list_all2 (migration_of digest) (filter sql_file ((before @ [DirFile filename content]) @ es)) out \<and>
        distinct (map mg_Version out)"
      by (rule "3.IH"(2) [OF _ p(1) refl p(2) _ p(4,5) rest l2 dist dom]) (use True p(3) in auto)
    then show ?thesis by simp
  qed
qed simp

lemma list_all2_perm_set:
  "list_all2 P xs ys \<Longrightarrow> (\<forall>y \<in> set ys. \<exists>x \<in> set xs. P x y) \<and> (\<forall>x \<in> set xs. \<exists>y \<in> set ys. P x y)"
  by (induction rule: list_all2_induct) auto

subsection \<open>The database\<close>

fun run_all :: "(string \<Rightarrow> 'd \<Rightarrow> 'd option) \<Rightarrow> migration list \<Rightarrow> 'd \<Rightarrow> 'd option" where
  "run_all run_sql [] d = Some d"
| "run_all run_sql (m # ms) d = (case run_sql (mg_SQL m) d of None \<Rightarrow> None | Some d' \<Rightarrow> run_all run_sql ms d')"

lemma run_all_snoc:
  "run_all run_sql (ms @ [m]) d = (case run_all run_sql ms d of None \<Rightarrow> None | Some d' \<Rightarrow> run_sql (mg_SQL m) d')"
  by (induction ms arbitrary: d) (auto split: option.splits)

text \<open>The first \<open>k\<close> of the migrations, and nothing else, have been applied to \<open>d0\<close>.\<close>

definition applied_prefix ::
  "(string \<Rightarrow> 'd \<Rightarrow> 'd option) \<Rightarrow> migration list \<Rightarrow> 'd \<Rightarrow> nat \<Rightarrow> 'd schema_db \<Rightarrow> bool" where
  "applied_prefix run_sql ms d0 k db \<longleftrightarrow>
     k \<le> length ms \<and> sd_rows db = map migration_row (take k ms) \<and>
     run_all run_sql (take k ms) d0 = Some (sd_data db)"

lemma versions_rows: "fst ` set (map migration_row ms) = mg_Version ` set ms"
  by (force simp: migration_row_def)

lemma isApplied_rows:
  assumes "distinct (map mg_Version ms)" "sd_rows db = map migration_row (take k ms)" "m = ms ! i" "i < length ms"
    and "isApplied r m db = Inr b"
  shows "b \<longleftrightarrow> i < k"
proof -
  have key: "mg_Version (ms ! j) = mg_Version (ms ! i) \<longleftrightarrow> j = i" if "j < length ms" for j
    using assms(1,4) that by (metis length_map nth_eq_iff_index_eq nth_map)
  have "mg_Version m \<in> mg_Version ` set (take k ms) \<longleftrightarrow> i < k"
    using key assms(3,4) by (force simp: in_set_conv_nth image_iff)
  moreover have "map_of (sd_rows db) (mg_Version m) = None \<longleftrightarrow> mg_Version m \<notin> mg_Version ` set (take k ms)"
    unfolding map_of_eq_None_iff assms(2) versions_rows ..
  ultimately show ?thesis
    using assms(5) by (auto simp: isApplied_def split: option.splits prod.splits if_splits)
qed

lemma applied_next:
  assumes "applied_prefix run_sql ms d0 k db" "k < length ms" "run_sql (mg_SQL (ms ! k)) (sd_data db) = Some data"
  shows "applied_prefix run_sql ms d0 (Suc k)
    \<lparr>sd_versions = Some (sd_rows db @ [migration_row (ms ! k)]), sd_data = data\<rparr>"
  using assms by (simp add: applied_prefix_def take_Suc_conv_app_nth sd_rows_def [of "schema_db.make _ _"]
      run_all_snoc sd_rows_def)

lemma apply_cases:
  assumes "apply_migration run_sql r (ms ! k) db = (err, t)" "applied_prefix run_sql ms d0 k db" "k < length ms"
  shows "(err \<noteq> None \<and> t = db) \<or> applied_prefix run_sql ms d0 (Suc k) t"
  using assms(1) applied_next [OF assms(2,3)]
  by (auto simp: apply_migration_def Let_def split: option.splits db_reply.splits if_splits)

lemma migrate_loop_prefix:
  assumes "migrate_loop run_sql r (drop j ms) n db = (n', err, t)" "distinct (map mg_Version ms)"
    and "applied_prefix run_sql ms d0 k db" "j \<le> k"
  shows "\<exists>k' \<ge> k. applied_prefix run_sql ms d0 k' t \<and> n \<le> n' \<and> n' - n \<le> k' - k \<and> k' - k \<le> Suc (n' - n) \<and>
    (err = None \<longrightarrow> k' = length ms \<and> n' - n = k' - k)"
  using assms
proof (induction "length ms - j" arbitrary: j n db k)
  case 0
  then have "drop j ms = []" "k = length ms" by (auto simp: applied_prefix_def)
  then show ?case using 0 by auto
next
  case (Suc x)
  then have j: "j < length ms" by simp
  then have d: "drop j ms = ms ! j # drop (Suc j) ms" by (simp add: Cons_nth_drop_Suc)
  have rows: "sd_rows db = map migration_row (take k ms)" using Suc.prems(3) by (simp add: applied_prefix_def)
  show ?case
  proof (cases "isApplied r (ms ! j) db")
    case (Inl e)
    then show ?thesis using Suc.prems(1,3) d by auto
  next
    case (Inr b)
    note b = isApplied_rows [OF Suc.prems(2) rows refl j Inr]
    show ?thesis
    proof (cases b)
      case True
      then have "migrate_loop run_sql r (drop (Suc j) ms) n db = (n', err, t)" "Suc j \<le> k"
        using Suc.prems(1) d Inr b by auto
      then show ?thesis using Suc.hyps(1) [of "Suc j" n db k] Suc.hyps(2) Suc.prems(2,3) by auto
    next
      case False
      then have k: "k = j" using b Suc.prems(4) by simp
      obtain e db' where a: "apply_migration run_sql r (ms ! j) db = (e, db')" by fastforce
      note step = apply_cases [OF a [folded k] Suc.prems(3)] 
      show ?thesis
      proof (cases e)
        case None
        then have next_k: "applied_prefix run_sql ms d0 (Suc k) db'" using step j k by simp
        have "migrate_loop run_sql r (drop (Suc j) ms) (Suc n) db' = (n', err, t)"
          using Suc.prems(1) d Inr False a None by simp
        moreover have "x = length ms - Suc j" "Suc j \<le> Suc k" using Suc.hyps(2) k by simp_all
        ultimately obtain k' where "Suc k \<le> k'" "applied_prefix run_sql ms d0 k' t" "Suc n \<le> n'"
          "n' - Suc n \<le> k' - Suc k" "k' - Suc k \<le> Suc (n' - Suc n)"
          "err = None \<longrightarrow> k' = length ms \<and> n' - Suc n = k' - Suc k"
          using Suc.hyps(1) [of "Suc j" "Suc n" db' "Suc k"] Suc.prems(2) next_k by blast
        then show ?thesis by (intro exI [of _ k']) auto
      next
        case (Some e')
        then have "n' = n" "err \<noteq> None" "t = db'" using Suc.prems(1) d Inr False a by auto
        then show ?thesis
          using step j k Suc.prems(3) by (cases "db' = db") (auto intro: exI [of _ "Suc k"])
      qed
    qed
  qed
qed

lemma table_prefix:
  assumes "ensureVersionTable reply db = (err, t)" "applied_prefix run_sql ms d0 k db"
  shows "applied_prefix run_sql ms d0 k t"
  using assms by (auto simp: ensureVersionTable_def applied_prefix_def sd_rows_def Let_def split: db_reply.splits if_splits)

lemma Run_prefix:
  assumes "migrator_Run digest run_sql dir r db = (n, err, t)" "DiscoverMigrations digest dir = Inr ms"
    and "distinct (map mg_Version ms)" "applied_prefix run_sql ms d0 k db"
  shows "\<exists>k' \<ge> k. applied_prefix run_sql ms d0 k' t \<and> n \<le> k' - k \<and> k' - k \<le> Suc n \<and>
    (err = None \<longrightarrow> k' = length ms \<and> n = k' - k)"
proof (cases "mr_lock r")
  case (Some e)
  then show ?thesis using assms(1,4) by (auto simp: migrator_Run_def)
next
  case None
  obtain e db1 where t: "ensureVersionTable (mr_table r) db = (e, db1)" by fastforce
  note p = table_prefix [OF t assms(4)]
  show ?thesis
  proof (cases e)
    case (Some e')
    then show ?thesis using assms(1) p None t by (auto simp: migrator_Run_def)
  next
    case none: None
    then have "migrate_loop run_sql r (drop 0 ms) 0 db1 = (n, err, t)"
      using assms(1,2) None t by (simp add: migrator_Run_def)
    from migrate_loop_prefix [OF this assms(3) p] show ?thesis by simp
  qed
qed

lemma discover_distinct:
  assumes "DiscoverMigrations digest dir = Inr ms"
  shows "distinct (map mg_Version ms)" "sorted (map mg_Version ms)"
proof -
  obtain es out where out: "discover_loop digest es Map.empty [] = Inr out" "ms = sort_key mg_Version out"
    using assms by (auto simp: DiscoverMigrations_def split: sum.splits if_splits)
  have "distinct (map mg_Version out)" using discover_loop_spec [OF out(1), of "[]"] by simp
  then show "distinct (map mg_Version ms)" using out(2) by (metis mset_eq_imp_distinct_iff mset_map mset_sort)
  show "sorted (map mg_Version ms)" by (simp add: out(2))
qed

lemma runs_prefix:
  assumes "DiscoverMigrations digest dir = Inr ms" "applied_prefix run_sql ms d0 k db"
  shows "\<exists>k' \<ge> k. applied_prefix run_sql ms d0 k' (migrator_runs digest run_sql dir rs db)"
  using assms(2)
proof (induction rs arbitrary: k db)
  case (Cons r rs)
  obtain n err t where run: "migrator_Run digest run_sql dir r db = (n, err, t)" by (metis prod_cases3)
  from Run_prefix [OF run assms(1) discover_distinct(1) [OF assms(1)] Cons.prems]
  obtain k' where "k \<le> k'" "applied_prefix run_sql ms d0 k' t" by blast
  with Cons.IH [of k' t] run show ?case by (auto intro: order_trans)
qed auto

subsection \<open>A changed file\<close>

lemma migrate_loop_stops:
  assumes "migrate_loop run_sql r ms n db = (n', err, t)" "sorted (map mg_Version ms)" "m \<in> set ms"
    and "map_of (sd_rows db) (mg_Version m) = Some (name, checksum)" "checksum \<noteq> mg_Checksum m"
    and "distinct (map mg_Version ms)"
  shows "err \<noteq> None \<and> filter (\<lambda>row. mg_Version m \<le> fst row) (sd_rows t) = filter (\<lambda>row. mg_Version m \<le> fst row) (sd_rows db)"
  using assms
proof (induction ms arbitrary: n db)
  case (Cons m1 ms)
  show ?case
  proof (cases "m1 = m")
    case True
    then have "isApplied r m1 db \<noteq> Inr b" for b
      using Cons.prems(4,5) by (auto simp: isApplied_def split: option.splits if_splits)
    then show ?thesis using Cons.prems(1) by (cases "isApplied r m1 db") auto
  next
    case False
    then have less: "mg_Version m1 < mg_Version m" and m: "m \<in> set ms"
      using Cons.prems(2,3,6) by (auto simp: image_iff order_less_le)
    have ms: "sorted (map mg_Version ms)" "distinct (map mg_Version ms)" using Cons.prems(2,6) by simp_all
    show ?thesis
    proof (cases "isApplied r m1 db")
      case (Inl e)
      then show ?thesis using Cons.prems(1) by auto
    next
      case (Inr b)
      show ?thesis
      proof (cases b)
        case True
        then have "migrate_loop run_sql r ms n db = (n', err, t)" using Cons.prems(1) Inr by simp
        then show ?thesis using Cons.IH ms(1) m Cons.prems(4,5) ms(2) by blast
      next
        case False
        obtain e db' where a: "apply_migration run_sql r m1 db = (e, db')" by fastforce
        then have rows: "sd_rows db' = sd_rows db \<or> sd_rows db' = sd_rows db @ [migration_row m1]"
          by (auto simp: apply_migration_def Let_def sd_rows_def split: option.splits db_reply.splits if_splits)
        then have keep: "filter (\<lambda>row. mg_Version m \<le> fst row) (sd_rows db') = filter (\<lambda>row. mg_Version m \<le> fst row) (sd_rows db)"
          using less by (auto simp: migration_row_def)
        have row: "map_of (sd_rows db') (mg_Version m) = Some (name, checksum)"
          using rows Cons.prems(4) by (auto simp: map_of_append map_add_Some_iff migration_row_def)
        show ?thesis
        proof (cases e)
          case None
          then have "migrate_loop run_sql r ms (Suc n) db' = (n', err, t)" using Cons.prems(1) Inr False a by simp
          from Cons.IH [OF this ms(1) m row Cons.prems(5) ms(2)] keep show ?thesis by simp
        next
          case (Some e')
          then show ?thesis using Cons.prems(1) Inr False a keep by auto
        qed
      qed
    qed
  qed
qed simp

subsection \<open>An example directory\<close>

definition example_dir :: "go_error + dir_entry list" where
  "example_dir = Inr [DirFile ''02_b.sql'' (Inr ''two''), DirFile ''1_a.sql'' (Inr ''one''), SubDir ''old'',
     DirFile ''notes.md'' (Inr ''x'')]"

definition first_migration :: migration where
  "first_migration = \<lparr>mg_Version = 1, mg_Name = ''a'', mg_Filename = ''1_a.sql'', mg_SQL = ''one'', mg_Checksum = ''one''\<rparr>"

definition second_migration :: migration where
  "second_migration = \<lparr>mg_Version = 2, mg_Name = ''b'', mg_Filename = ''02_b.sql'', mg_SQL = ''two'', mg_Checksum = ''two''\<rparr>"

lemma example_discovered: "DiscoverMigrations id example_dir = Inr [first_migration, second_migration]"
proof -
  have "migrationFilePattern ''02_b.sql'' = Some (''02'', ''b'')" "migrationFilePattern ''1_a.sql'' = Some (''1'', ''a'')"
    "parse_int64 ''02'' = Some 2" "parse_int64 ''1'' = Some 1"
    "has_suffix ''.sql'' ''02_b.sql''" "has_suffix ''.sql'' ''1_a.sql''" "\<not> has_suffix ''.sql'' ''notes.md''"
    by code_simp+
  then show ?thesis
    by (simp add: DiscoverMigrations_def example_dir_def first_migration_def second_migration_def)
qed

text \<open>Every call succeeds, or only the commit of version 2 fails.\<close>

definition replies :: "db_reply \<Rightarrow> migrate_replies" where
  "replies commit2 = \<lparr>mr_lock = None, mr_table = DbOk, mr_query = (\<lambda>_. None), mr_begin = (\<lambda>_. None),
     mr_exec = (\<lambda>_. None), mr_insert = (\<lambda>_. None), mr_commit = (\<lambda>v. if v = 2 then commit2 else DbOk)\<rparr>"

definition record_sql :: "string \<Rightarrow> string list \<Rightarrow> string list option" where
  "record_sql sql d = Some (d @ [sql])"

lemmas example_migrate = example_discovered migrator_Run_def replies_def ensureVersionTable_def
  sd_rows_def isApplied_def apply_migration_def Let_def migration_row_def
  first_migration_def second_migration_def

subsection \<open>The properties\<close>

text \<open>
  What \<open>DiscoverMigrations\<close> returns: every file of the directory whose name ends in \<open>.sql\<close>,
  each once, with its contents and their digest, named \<open>version_name.sql\<close> with a positive version,
  in strictly increasing order of versions; a directory with any other \<open>.sql\<close> name is refused.
\<close>

theorem discovered_migrations:
  assumes "DiscoverMigrations digest (Inr entries) = Inr ms"
  shows "ms \<noteq> [] \<and> sorted_wrt (\<lambda>a b. mg_Version a < mg_Version b) ms \<and>
    (\<forall>m \<in> set ms. DirFile (mg_Filename m) (Inr (mg_SQL m)) \<in> set entries \<and> mg_Checksum m = digest (mg_SQL m) \<and>
      0 < mg_Version m \<and> (\<exists>ds. list_all is_digit ds \<and> parse_int64 ds = Some (mg_Version m) \<and>
        mg_Filename m = ds @ ''_'' @ mg_Name m @ ''.sql'')) \<and>
    (\<forall>f c. DirFile f c \<in> set entries \<and> has_suffix ''.sql'' f \<longrightarrow> (\<exists>m \<in> set ms. mg_Filename m = f \<and> c = Inr (mg_SQL m)))"
proof -
  obtain out where out: "discover_loop digest entries Map.empty [] = Inr out" "out \<noteq> []" "ms = sort_key mg_Version out"
    using assms by (auto simp: DiscoverMigrations_def split: sum.splits if_splits)
  have spec: "list_all2 (migration_of digest) (filter sql_file entries) out \<and> distinct (map mg_Version out)"
    using discover_loop_spec [OF out(1), of "[]"] by simp
  have set: "set ms = set out" by (simp add: out(3))
  have "mset (map mg_Version ms) = mset (map mg_Version out)" by (simp add: out(3))
  then have "distinct (map mg_Version ms)" using spec by (metis mset_eq_imp_distinct_iff)
  then have "sorted_wrt (<) (map mg_Version ms)"
    by (simp add: strict_sorted_iff out(3))
  then have order: "sorted_wrt (\<lambda>a b. mg_Version a < mg_Version b) ms" by (simp add: sorted_wrt_map)
  note both = list_all2_perm_set [OF conjunct1 [OF spec]]
  have from_entries: "DirFile (mg_Filename m) (Inr (mg_SQL m)) \<in> set entries \<and> mg_Checksum m = digest (mg_SQL m) \<and>
      0 < mg_Version m \<and> (\<exists>ds. list_all is_digit ds \<and> parse_int64 ds = Some (mg_Version m) \<and>
        mg_Filename m = ds @ ''_'' @ mg_Name m @ ''.sql'')" if m: "m \<in> set ms" for m
  proof -
    obtain e where e: "e \<in> set entries" "migration_of digest e m" using both m set by auto
    then obtain ds where ds: "migrationFilePattern (mg_Filename m) = Some (ds, mg_Name m)"
      "parse_int64 ds = Some (mg_Version m)" by (auto simp: migration_of_def)
    show ?thesis using e ds pattern_shape [OF ds(1)] unfolding migration_of_def by blast
  qed
  have "\<exists>m \<in> set ms. mg_Filename m = f \<and> c = Inr (mg_SQL m)" if "DirFile f c \<in> set entries" "has_suffix ''.sql'' f" for f c
  proof -
    have "DirFile f c \<in> set (filter sql_file entries)" using that by (simp add: sql_file_def)
    then obtain m where "m \<in> set out" "migration_of digest (DirFile f c) m" using both by blast
    then show ?thesis unfolding migration_of_def set by blast
  qed
  moreover have "ms \<noteq> []" using out(2) set by fastforce
  ultimately show ?thesis using order from_entries by blast
qed

lemma discovered_migrations_witness:
  "first_migration \<in> set [first_migration, second_migration] \<and>
    (\<exists>ds. list_all is_digit ds \<and> mg_Filename first_migration = ds @ ''_'' @ mg_Name first_migration @ ''.sql'')"
  using discovered_migrations [OF example_discovered [unfolded example_dir_def]] by auto

text \<open>
  C32. Migrations are applied once and in order: after any runs of the migrator on a fresh database,
  each failing wherever the driver makes it fail (also with a commit whose answer is lost), the
  database holds exactly the first \<open>k\<close> migrations in the order of their versions, executed once
  each, and \<open>schema_migrations\<close> their rows. A further run that returns no error has applied all the
  rest and counts it, so that a second one counts zero; a run that fails has applied as many as it
  counts, or one more when the answer to a commit was lost.
\<close>

theorem migrations_once_in_order:
  assumes "DiscoverMigrations digest dir = Inr ms"
    and "s = migrator_runs digest run_sql dir rs \<lparr>sd_versions = None, sd_data = d0\<rparr>"
    and "migrator_Run digest run_sql dir r s = (n, err, t)"
  shows "\<exists>k k'. k \<le> k' \<and> k' \<le> length ms \<and>
    sd_rows s = map migration_row (take k ms) \<and> run_all run_sql (take k ms) d0 = Some (sd_data s) \<and>
    sd_rows t = map migration_row (take k' ms) \<and> run_all run_sql (take k' ms) d0 = Some (sd_data t) \<and>
    k + n \<le> k' \<and> k' \<le> k + n + 1 \<and> (err = None \<longrightarrow> k' = length ms \<and> k' = k + n)"
proof -
  have "applied_prefix run_sql ms d0 0 \<lparr>sd_versions = None, sd_data = d0\<rparr>"
    by (simp add: applied_prefix_def sd_rows_def)
  from runs_prefix [OF assms(1) this, of rs]
  obtain k where k: "applied_prefix run_sql ms d0 k s" using assms(2) by blast
  from Run_prefix [OF assms(3,1) discover_distinct(1) [OF assms(1)] k]
  obtain k' where k': "k \<le> k'" "applied_prefix run_sql ms d0 k' t" "n \<le> k' - k" "k' - k \<le> Suc n"
    "err = None \<longrightarrow> k' = length ms \<and> n = k' - k" by blast
  then show ?thesis using k by (intro exI [of _ k] exI [of _ k']) (auto simp: applied_prefix_def)
qed

lemma migrations_once_in_order_witness:
  "\<exists>s t. s = migrator_runs id record_sql example_dir [replies (DbFailed context_Canceled False)]
      \<lparr>sd_versions = None, sd_data = []\<rparr> \<and> sd_data s = [''one''] \<and>
    migrator_Run id record_sql example_dir (replies DbOk) s = (1, None, t) \<and> sd_data t = [''one'', ''two'']"
proof -
  define s where "s = migrator_runs id record_sql example_dir [replies (DbFailed context_Canceled False)]
      \<lparr>sd_versions = None, sd_data = []\<rparr>"
  have s1: "s = \<lparr>sd_versions = Some [(1, ''a'', ''one'')], sd_data = [''one'']\<rparr>"
    by (simp add: s_def example_migrate record_sql_def)
  obtain t where t: "migrator_Run id record_sql example_dir (replies DbOk) s = (1, None, t)"
    by (simp add: s1 example_migrate record_sql_def)
  from migrations_once_in_order [OF example_discovered s_def t]
  have "run_all record_sql [first_migration, second_migration] [] = Some (sd_data t)" by auto
  then have "sd_data t = [''one'', ''two'']"
    by (simp add: record_sql_def first_migration_def second_migration_def)
  moreover have "sd_data s = [''one'']" by (simp add: s1)
  ultimately show ?thesis using t s_def by blast
qed

text \<open>
  A changed migration is refused: when the digest recorded for a version differs from that of
  its file, the run fails, and no migration of that version or a later one is applied.
\<close>

theorem changed_migration_refused:
  assumes "DiscoverMigrations digest dir = Inr ms" "m \<in> set ms"
    and "map_of (sd_rows db) (mg_Version m) = Some (name, checksum)" "checksum \<noteq> mg_Checksum m"
    and "migrator_Run digest run_sql dir r db = (n, err, t)"
  shows "err \<noteq> None \<and> filter (\<lambda>row. mg_Version m \<le> fst row) (sd_rows t) = filter (\<lambda>row. mg_Version m \<le> fst row) (sd_rows db)"
proof -
  obtain e db1 where t: "ensureVersionTable (mr_table r) db = (e, db1)" by fastforce
  then have rows: "sd_rows db1 = sd_rows db"
    by (auto simp: ensureVersionTable_def sd_rows_def Let_def split: db_reply.splits if_splits)
  note D = discover_distinct [OF assms(1)]
  show ?thesis
  proof (cases "mr_lock r = None \<and> e = None")
    case True
    then have "migrate_loop run_sql r ms 0 db1 = (n, err, t)"
      using assms(1,5) t by (simp add: migrator_Run_def)
    from migrate_loop_stops [OF this D(2) assms(2) _ assms(4) D(1)] assms(3) rows show ?thesis by simp
  next
    case False
    then show ?thesis using assms(5) t rows by (auto simp: migrator_Run_def split: option.splits)
  qed
qed

lemma changed_migration_refused_witness:
  "\<exists>n err t. migrator_Run id record_sql example_dir (replies DbOk)
      \<lparr>sd_versions = Some [(1, ''a'', ''edited'')], sd_data = []\<rparr> = (n, err, t) \<and> err \<noteq> None"
proof -
  let ?db = "\<lparr>sd_versions = Some [(1, ''a'', ''edited'')], sd_data = []\<rparr> :: string list schema_db"
  obtain n err t where run: "migrator_Run id record_sql example_dir (replies DbOk) ?db = (n, err, t)"
    by (metis prod_cases3)
  have "first_migration \<in> set [first_migration, second_migration]"
    "map_of (sd_rows ?db) (mg_Version first_migration) = Some (''a'', ''edited'')"
    "''edited'' \<noteq> mg_Checksum first_migration"
    by (simp_all add: sd_rows_def first_migration_def)
  from changed_migration_refused [OF example_discovered this run] run show ?thesis by blast
qed

text \<open>A loop without error leaves every migration recorded with the digest of its file.\<close>

lemma migrate_loop_records:
  assumes "migrate_loop run_sql r ms n db = (n', None, t)"
  shows "(\<forall>m \<in> set ms. \<exists>name. map_of (sd_rows t) (mg_Version m) = Some (name, mg_Checksum m)) \<and>
    (\<forall>v row. map_of (sd_rows db) v = Some row \<longrightarrow> map_of (sd_rows t) v = Some row)"
  using assms
proof (induction ms arbitrary: n db)
  case (Cons m ms)
  show ?case
  proof (cases "isApplied r m db")
    case (Inl e)
    then show ?thesis using Cons.prems by simp
  next
    case (Inr b)
    show ?thesis
    proof (cases b)
      case True
      then have run: "migrate_loop run_sql r ms n db = (n', None, t)" using Cons.prems Inr by simp
      have "\<exists>name. map_of (sd_rows db) (mg_Version m) = Some (name, mg_Checksum m)"
        using Inr True by (auto simp: isApplied_def split: option.splits if_splits)
      then show ?thesis using Cons.IH [OF run] by auto
    next
      case False
      then obtain db' where a: "apply_migration run_sql r m db = (None, db')"
        and run: "migrate_loop run_sql r ms (Suc n) db' = (n', None, t)"
        using Cons.prems Inr by (auto split: prod.splits option.splits)
      have rows: "sd_rows db' = sd_rows db @ [migration_row m]" "mg_Version m \<notin> fst ` set (sd_rows db)"
        using a by (auto simp: apply_migration_def Let_def sd_rows_def split: option.splits db_reply.splits if_splits)
      then have "map_of (sd_rows db) (mg_Version m) = None" by (simp add: map_of_eq_None_iff)
      then have "map_of (sd_rows db') (mg_Version m) = Some (mg_Name m, mg_Checksum m)"
        "map_of (sd_rows db) v = Some row \<Longrightarrow> map_of (sd_rows db') v = Some row" for v row
        by (auto simp: rows(1) migration_row_def map_add_def split: option.splits)
      then show ?thesis using Cons.IH [OF run] by auto
    qed
  qed
qed simp

text \<open>
  C37. Exit code zero of the migration command means a complete schema: every migration file of the
  configured directory is recorded with the digest of its contents, and the partitions of points
  and of events exist for every day from \<open>PARTITION_PAST_DAYS\<close> before to \<open>PARTITION_FUTURE_DAYS\<close>
  after today.
\<close>

theorem migrate_exit_zero:
  assumes "migrate_command frac digest run_sql loaded connect dirs r now ensure db = (0, t)"
  shows "\<exists>c ms. loadConfiguration frac loaded = Inr c \<and>
    DiscoverMigrations digest (dirs (ml_migrationsDir c)) = Inr ms \<and>
    (\<forall>m \<in> set ms. \<exists>name. map_of (sd_rows t) (mg_Version m) = Some (name, mg_Checksum m)) \<and>
    {day_of now - ml_partitionPastDays c..day_of now + ml_partitionFutureDays c}
      \<subseteq> set (pg_point_days (sd_data t)) \<inter> set (pg_event_days (sd_data t))"
proof -
  obtain c where c: "loadConfiguration frac loaded = Inr c"
    using assms by (auto simp: migrate_command_def split: sum.splits)
  obtain n db1 where run: "migrator_Run digest run_sql (dirs (ml_migrationsDir c)) r db = (n, None, db1)"
    using assms c by (auto simp: migrate_command_def split: option.splits prod.splits)
  obtain ms db0 where ms: "DiscoverMigrations digest (dirs (ml_migrationsDir c)) = Inr ms"
    and loop: "migrate_loop run_sql r ms 0 db0 = (n, None, db1)"
    using run by (auto simp: migrator_Run_def split: option.splits prod.splits sum.splits)
  obtain data where ensured: "ensureDailyPartitions False ensure (day_of now) (ml_partitionPastDays c)
      (ml_partitionFutureDays c) (sd_data db1) = (None, data)" and t: "t = db1\<lparr>sd_data := data\<rparr>"
    using assms c run by (auto simp: migrate_command_def split: option.splits prod.splits)
  then have "data = ensure_metric_daily_partitions (day_of now) (ml_partitionPastDays c) (ml_partitionFutureDays c) (sd_data db1)"
    by (auto simp: ensureDailyPartitions_def Let_def split: if_splits db_reply.splits)
  then have "{day_of now - ml_partitionPastDays c..day_of now + ml_partitionFutureDays c}
      \<subseteq> set (pg_point_days data) \<inter> set (pg_event_days data)"
    by (auto simp: ensure_metric_daily_partitions_def add_days_def)
  moreover have "sd_rows t = sd_rows db1" "sd_data t = data" by (simp_all add: t sd_rows_def)
  ultimately show ?thesis using c ms migrate_loop_records [OF loop] by auto
qed

lemma example_configuration:
  "loadConfiguration frac \<lparr>le_error = None, le_env = Map.empty\<rparr> =
     Inr \<lparr>ml_databaseURL = defaultDatabaseURL, ml_migrationsDir = ''migrations'', ml_timeout = minute,
          ml_partitionPastDays = 8, ml_partitionFutureDays = 2\<rparr>"
proof -
  have "trim_space defaultDatabaseURL = defaultDatabaseURL" "trim_space ''migrations'' = ''migrations''"
    by (simp_all add: plain_trimmed is_plain_def defaultDatabaseURL_def)
  moreover have "defaultDatabaseURL \<noteq> []" by (simp add: defaultDatabaseURL_def)
  ultimately show ?thesis
    by (simp add: loadConfiguration_def durationEnvironment_def integerEnvironment_def stringEnvironment_def)
qed

lemma migrate_exit_zero_witness:
  "\<exists>t. migrate_command (\<lambda>_ _ _. 0) id (\<lambda>_. Some) \<lparr>le_error = None, le_env = Map.empty\<rparr> (\<lambda>_. None)
      (\<lambda>_. example_dir) (replies DbOk) 864000000 DbOk \<lparr>sd_versions = None, sd_data = one_point_pg\<rparr> = (0, t) \<and>
    {2..12} \<subseteq> set (pg_point_days (sd_data t))"
proof -
  have "fst (migrate_command (\<lambda>_ _ _. 0) id (\<lambda>_. Some) \<lparr>le_error = None, le_env = Map.empty\<rparr> (\<lambda>_. None)
      (\<lambda>_. example_dir) (replies DbOk) 864000000 DbOk \<lparr>sd_versions = None, sd_data = one_point_pg\<rparr>) = 0"
    by (simp add: migrate_command_def example_configuration example_migrate ensureDailyPartitions_def)
  then obtain t where t: "migrate_command (\<lambda>_ _ _. 0) id (\<lambda>_. Some) \<lparr>le_error = None, le_env = Map.empty\<rparr> (\<lambda>_. None)
      (\<lambda>_. example_dir) (replies DbOk) 864000000 DbOk \<lparr>sd_versions = None, sd_data = one_point_pg\<rparr> = (0, t)"
    by (metis prod.collapse)
  from migrate_exit_zero [OF t] have "{2..12} \<subseteq> set (pg_point_days (sd_data t))"
    by (auto simp: example_configuration day_of_def)
  then show ?thesis using t by blast
qed

end
