(* ===== verification/Simulator.thy ===== *)
theory Simulator
  imports Protocol QueryHttp
begin

section \<open>The simulator\<close>

text \<open>
  \<open>internal/simulator/simulator.go\<close>: the generator of batches, a task's loop of posting, replaying
  and dropping them, the tally of what it has posted, and the comparison of the tally with the
  audit reply of the API. Arithmetic on \<open>float64\<close> is the record \<open>float_ops\<close>, the pseudo-random
  generator the record \<open>rng_ops\<close>; comparisons and \<open>math.Max\<close>, \<open>math.Min\<close> are defined on the bits.
\<close>

subsection \<open>Floating point and random numbers\<close>

definition float_less :: "float64 \<Rightarrow> float64 \<Rightarrow> bool" where
  "float_less x y \<longleftrightarrow> \<not> math_IsNaN x \<and> \<not> math_IsNaN y \<and> float_key x < float_key y"

definition float_leq :: "float64 \<Rightarrow> float64 \<Rightarrow> bool" where
  "float_leq x y \<longleftrightarrow> \<not> math_IsNaN x \<and> \<not> math_IsNaN y \<and> float_key x \<le> float_key y"

definition float_one :: float64 where "float_one = 0x3FF0000000000000"
definition float_pinf :: float64 where "float_pinf = 0x7FF0000000000000"
definition float_minf :: float64 where "float_minf = 0xFFF0000000000000"
definition float_nan :: float64 where "float_nan = 0x7FF8000000000001"

definition math_Max :: "float64 \<Rightarrow> float64 \<Rightarrow> float64" where
  "math_Max x y =
     (if x = float_pinf \<or> y = float_pinf then float_pinf
      else if math_IsNaN x \<or> math_IsNaN y then float_nan
      else if float_key x = 0 \<and> float_key y = 0 then (if bit x 63 then y else x)
      else if float_less y x then x else y)"

definition math_Min :: "float64 \<Rightarrow> float64 \<Rightarrow> float64" where
  "math_Min x y =
     (if x = float_minf \<or> y = float_minf then float_minf
      else if math_IsNaN x \<or> math_IsNaN y then float_nan
      else if float_key x = 0 \<and> float_key y = 0 then (if bit x 63 then x else y)
      else if float_less x y then x else y)"

text \<open>\<open>fo_lit\<close> is the value of a literal of the source, \<open>fo_int\<close> and \<open>fo_trunc\<close> the conversions.\<close>

record float_ops =
  fo_add :: "float64 \<Rightarrow> float64 \<Rightarrow> float64"
  fo_sub :: "float64 \<Rightarrow> float64 \<Rightarrow> float64"
  fo_mul :: "float64 \<Rightarrow> float64 \<Rightarrow> float64"
  fo_div :: "float64 \<Rightarrow> float64 \<Rightarrow> float64"
  fo_exp :: "float64 \<Rightarrow> float64"
  fo_cos :: "float64 \<Rightarrow> float64"
  fo_mod :: "float64 \<Rightarrow> float64 \<Rightarrow> float64"
  fo_lit :: "string \<Rightarrow> float64"
  fo_int :: "int \<Rightarrow> float64"
  fo_trunc :: "float64 \<Rightarrow> int"

record 'r rng_ops =
  rn_NewSource :: "int \<Rightarrow> 'r"
  rn_Float64 :: "'r \<Rightarrow> float64 \<times> 'r"
  rn_Intn :: "nat \<Rightarrow> 'r \<Rightarrow> nat \<times> 'r"

definition clamp :: "float64 \<Rightarrow> float64 \<Rightarrow> float64 \<Rightarrow> float64" where
  "clamp v low high = math_Max low (math_Min high v)"

subsection \<open>Configuration\<close>

text \<open>The HTTP client and the failure callback have no influence on the report.\<close>

record sim_config =
  si_Endpoint :: string
  si_Tasks :: int
  si_Rate :: float64
  si_Duration :: duration
  si_BatchSize :: int
  si_TaskPrefix :: string
  si_EvalLoss :: bool
  si_EvalEvery :: int
  si_GPUUtil :: bool
  si_GPUMem :: bool
  si_Throughput :: bool
  si_Seed :: int
  si_DuplicateRate :: float64
  si_FailureRate :: float64
  si_Audit :: bool
  si_AuditTimeout :: duration
  si_AuditInterval :: duration

definition taskPrefixPattern :: "string \<Rightarrow> bool" where
  "taskPrefixPattern s \<longleftrightarrow> (case s of [] \<Rightarrow> False | c # cs \<Rightarrow> is_alnum c \<and> list_all is_ident_char cs)"

definition sim_Validate :: "sim_config \<Rightarrow> go_error option" where
  "sim_Validate c =
     (if trim_space (si_Endpoint c) = [] then Some (ErrNew ''endpoint must not be empty'')
      else if si_Tasks c \<le> 0 then Some (ErrNew ''tasks must be greater than zero'')
      else if float_leq (si_Rate c) 0 then Some (ErrNew ''rate must be greater than zero'')
      else if si_Duration c \<le> 0 then Some (ErrNew ''duration must be greater than zero'')
      else if si_BatchSize c \<le> 0 \<or> si_BatchSize c > 500
        then Some (ErrNew ''batch size must be between 1 and 500'')
      else if si_EvalEvery c \<le> 0 then Some (ErrNew ''eval every must be greater than zero'')
      else if length (si_TaskPrefix c) = 0 \<or> length (si_TaskPrefix c) > 48 \<or> \<not> taskPrefixPattern (si_TaskPrefix c)
        then Some (ErrNew ''task prefix must start with an alphanumeric character'')
      else if float_less (si_DuplicateRate c) 0 \<or> float_less float_one (si_DuplicateRate c)
        then Some (ErrNew ''duplicate rate must be between 0 and 1'')
      else if float_less (si_FailureRate c) 0 \<or> float_less float_one (si_FailureRate c)
        then Some (ErrNew ''failure rate must be between 0 and 1'')
      else None)"

text \<open>\<open>fmt.Sprintf("%s-%04d", prefix, index+1)\<close>.\<close>

definition sim_task_id :: "sim_config \<Rightarrow> nat \<Rightarrow> string" where
  "sim_task_id c index =
     (let ds = nat_digits (Suc index)
      in si_TaskPrefix c @ ''-'' @ replicate (4 - length ds) (CHR ''0'') @ ds)"

definition batchInterval :: "float_ops \<Rightarrow> float64 \<Rightarrow> int \<Rightarrow> duration" where
  "batchInterval fo rate batchSize =
     (let interval = fo_trunc fo (fo_div fo (fo_mul fo (fo_int fo second) (fo_int fo batchSize)) rate)
      in if interval < millisecond then millisecond else interval)"

subsection \<open>The generator\<close>

record 'r generator =
  gn_TaskID :: string
  gn_step :: int
  gn_nextTS :: int
  gn_interval :: duration
  gn_rng :: 'r
  gn_loss :: float64
  gn_gpuUtil :: float64
  gn_gpuMem :: float64
  gn_throughput :: float64
  gn_config :: sim_config

definition NewGenerator ::
  "float_ops \<Rightarrow> 'r rng_ops \<Rightarrow> string \<Rightarrow> int \<Rightarrow> sim_config \<Rightarrow> int \<Rightarrow> 'r generator" where
  "NewGenerator fo ro taskID startMillis cfg seed =
     (let interval = fo_trunc fo (fo_div fo (fo_int fo second) (si_Rate cfg));
          interval = (if interval < millisecond then millisecond else interval)
      in \<lparr>gn_TaskID = taskID, gn_step = 0, gn_nextTS = startMillis, gn_interval = interval,
          gn_rng = rn_NewSource ro seed, gn_loss = fo_lit fo ''2'', gn_gpuUtil = fo_lit fo ''70'',
          gn_gpuMem = fo_lit fo ''55'', gn_throughput = fo_lit fo ''900'', gn_config = cfg\<rparr>)"

definition learningRate :: "float_ops \<Rightarrow> int \<Rightarrow> float64" where
  "learningRate fo step =
     (if float_less (fo_int fo step) (fo_lit fo ''100'')
      then fo_div fo (fo_mul fo (fo_lit fo ''3e-4'') (fo_add fo (fo_int fo step) (fo_lit fo ''1''))) (fo_lit fo ''100'')
      else (let progress = fo_div fo (fo_mod fo (fo_sub fo (fo_int fo step) (fo_lit fo ''100'')) (fo_lit fo ''2000''))
                             (fo_lit fo ''2000'')
            in fo_mul fo (fo_lit fo ''1.5e-4'')
                 (fo_add fo (fo_lit fo ''1'') (fo_cos fo (fo_mul fo (fo_lit fo ''pi'') progress)))))"

text \<open>\<open>(rng.Float64() - 0.5) * scale\<close>.\<close>

definition noise :: "float_ops \<Rightarrow> 'r rng_ops \<Rightarrow> string \<Rightarrow> 'r \<Rightarrow> float64 \<times> 'r" where
  "noise fo ro scale r =
     (case rn_Float64 ro r of
        (x, r') \<Rightarrow> (fo_mul fo (fo_sub fo x (fo_lit fo ''0.5'')) (fo_lit fo scale), r'))"

text \<open>
  The metrics a sample gets beyond \<open>loss\<close> and \<open>lr\<close>: \<open>eval_loss\<close>, and the three random walks, which
  keep their value in the generator.
\<close>

definition put_eval_loss ::
  "float_ops \<Rightarrow> 'r rng_ops \<Rightarrow> sim_config \<Rightarrow> int \<Rightarrow> float64 \<Rightarrow> metric_map \<Rightarrow> 'r \<Rightarrow> metric_map \<times> 'r" where
  "put_eval_loss fo ro cfg step loss m r =
     (if si_EvalLoss cfg \<and> step mod si_EvalEvery cfg = 0
      then (case noise fo ro ''0.03'' r of
              (n, r') \<Rightarrow> (m @ [(''eval_loss'', fo_add fo (fo_mul fo loss (fo_lit fo ''1.05'')) n)], r'))
      else (m, r))"

definition put_walk ::
  "float_ops \<Rightarrow> 'r rng_ops \<Rightarrow> bool \<Rightarrow> string \<Rightarrow> string \<Rightarrow> (float64 \<Rightarrow> float64) \<Rightarrow> float64 \<Rightarrow> metric_map \<Rightarrow> 'r
    \<Rightarrow> metric_map \<times> float64 \<times> 'r" where
  "put_walk fo ro enabled name scale bound current m r =
     (if enabled
      then (case noise fo ro scale r of
              (n, r') \<Rightarrow> (let u = bound (fo_add fo current n) in (m @ [(name, u)], u, r')))
      else (m, current, r))"

text \<open>One turn of the loop of \<open>NextBatch\<close>.\<close>

definition next_sample :: "float_ops \<Rightarrow> 'r rng_ops \<Rightarrow> 'r generator \<Rightarrow> metric_sample \<times> 'r generator" where
  "next_sample fo ro g =
     (let cfg = gn_config g; step = gn_step g; percent = (\<lambda>u. clamp u 0 (fo_lit fo ''100'')) in
      case noise fo ro ''0.08'' (gn_rng g) of
        (n, r1) \<Rightarrow>
      (let loss = math_Max 0 (fo_add fo (fo_mul fo (gn_loss g)
                    (fo_exp fo (fo_mul fo (fo_lit fo ''-0.002'') (fo_int fo step)))) n) in
      case put_eval_loss fo ro cfg step loss [(''loss'', loss), (''lr'', learningRate fo step)] r1 of
        (m2, r2) \<Rightarrow>
      (case put_walk fo ro (si_GPUUtil cfg) ''gpu_util'' ''6'' percent (gn_gpuUtil g) m2 r2 of
        (m3, gpuUtil, r3) \<Rightarrow>
      (case put_walk fo ro (si_GPUMem cfg) ''gpu_mem'' ''2'' percent (gn_gpuMem g) m3 r3 of
        (m4, gpuMem, r4) \<Rightarrow>
      (case put_walk fo ro (si_Throughput cfg) ''throughput'' ''80'' (math_Max (fo_lit fo ''1''))
              (gn_throughput g) m4 r4 of
        (m5, throughput, r5) \<Rightarrow>
          (\<lparr>ms_Step = step, ms_TimestampMillis = gn_nextTS g, ms_Metrics = m5\<rparr>,
           g\<lparr>gn_step := wrap64 (step + 1),
             gn_nextTS := wrap64 (gn_nextTS g + go_div (gn_interval g) millisecond),
             gn_rng := r5, gn_gpuUtil := gpuUtil, gn_gpuMem := gpuMem, gn_throughput := throughput\<rparr>))))))"

fun next_samples :: "float_ops \<Rightarrow> 'r rng_ops \<Rightarrow> nat \<Rightarrow> 'r generator \<Rightarrow> metric_sample list \<times> 'r generator" where
  "next_samples fo ro 0 g = ([], g)"
| "next_samples fo ro (Suc n) g =
     (case next_sample fo ro g of
        (s, g1) \<Rightarrow> (case next_samples fo ro n g1 of (ss, g2) \<Rightarrow> (s # ss, g2)))"

definition NextBatch :: "float_ops \<Rightarrow> 'r rng_ops \<Rightarrow> int \<Rightarrow> 'r generator \<Rightarrow> metric_batch \<times> 'r generator" where
  "NextBatch fo ro n g =
     (let n = (if n < 1 then 1 else n)
      in case next_samples fo ro (nat n) g of
           (samples, g') \<Rightarrow> (\<lparr>mb_TaskID = gn_TaskID g, mb_Samples = samples\<rparr>, g'))"

subsection \<open>The tally\<close>

record expected =
  ex_TaskID :: string
  ex_BatchItems :: int
  ex_PointCount :: int
  ex_DistinctSteps :: int
  ex_FirstStep :: "int option"
  ex_LastStep :: "int option"
  ex_Keys :: "string list"
  ex_MissingSteps :: "int list"

text \<open>The maps \<open>steps\<close> and \<open>batches\<close> hold only \<open>true\<close>: lists without repetition.\<close>

record expected_state = expected +
  es_steps :: "int list"
  es_batches :: "string list"

definition newExpectedState :: "string \<Rightarrow> expected_state" where
  "newExpectedState taskID =
     \<lparr>ex_TaskID = taskID, ex_BatchItems = 0, ex_PointCount = 0, ex_DistinctSteps = 0, ex_FirstStep = None,
      ex_LastStep = None, ex_Keys = [], ex_MissingSteps = [], es_steps = [], es_batches = []\<rparr>"

definition add_sample :: "expected_state \<Rightarrow> metric_sample \<Rightarrow> expected_state" where
  "add_sample e s =
     (let steps = List.insert (ms_Step s) (es_steps e)
      in e\<lparr>ex_BatchItems := ex_BatchItems e + 1,
           ex_PointCount := ex_PointCount e + int (length (ms_Metrics s)),
           ex_FirstStep := (case ex_FirstStep e of
                              None \<Rightarrow> Some (ms_Step s)
                            | Some f \<Rightarrow> if ms_Step s < f then Some (ms_Step s) else Some f),
           ex_LastStep := (case ex_LastStep e of
                             None \<Rightarrow> Some (ms_Step s)
                           | Some l \<Rightarrow> if ms_Step s > l then Some (ms_Step s) else Some l),
           ex_DistinctSteps := int (length steps),
           ex_Keys := fold (\<lambda>k keys. if k \<in> set keys then keys else keys @ [k]) (map fst (ms_Metrics s)) (ex_Keys e),
           es_steps := steps\<rparr>)"

definition addExpected :: "expected_state \<Rightarrow> metric_batch \<Rightarrow> expected_state" where
  "addExpected e batch =
     (let e1 = foldl add_sample e (mb_Samples batch) in e1\<lparr>ex_Keys := sort (ex_Keys e1)\<rparr>)"

definition expected_finish :: "expected_state \<Rightarrow> expected" where
  "expected_finish e =
     expected.truncate
       (case (ex_FirstStep e, ex_LastStep e) of
          (Some f, Some l) \<Rightarrow> e\<lparr>ex_MissingSteps := ex_MissingSteps e @ filter (\<lambda>s. s \<notin> set (es_steps e)) [f..l]\<rparr>
        | _ \<Rightarrow> e)"

definition batchFingerprint :: "metric_batch \<Rightarrow> string" where
  "batchFingerprint batch =
     (if mb_Samples batch = [] then []
      else int_digits (ms_Step (hd (mb_Samples batch))) @ '':'' @ int_digits (ms_Step (last (mb_Samples batch))))"

subsection \<open>Posting a batch\<close>

datatype http_outcome =
    NoResponse go_error
  | Response int "go_error + string"   \<comment> \<open>the status, and what reading the body gives\<close>

definition request_json :: "(float64 \<Rightarrow> string) \<Rightarrow> metric_batch \<Rightarrow> json option" where
  "request_json ff b =
     map_option (\<lambda>samples. JObj [(''task_id'', JStr (mb_TaskID b)), (''batch'', JArr samples)])
       (those_json (map (\<lambda>s. sample_json ff \<lparr>is_Step = ms_Step s, is_TS = ms_TimestampMillis s,
                                              is_Metrics = ms_Metrics s\<rparr>) (mb_Samples b)))"

text \<open>\<open>send\<close> is the request that is made: content type and body.\<close>

definition postBatch ::
  "(float64 \<Rightarrow> string) \<Rightarrow> (string \<Rightarrow> string \<Rightarrow> http_outcome) \<Rightarrow> metric_batch \<Rightarrow> go_error option" where
  "postBatch ff send b =
     (case request_json ff b of
        None \<Rightarrow> Some (ErrNew ''json: unsupported value'')
      | Some body \<Rightarrow>
          (case send ''application/json'' (json_print body) of
             NoResponse err \<Rightarrow> Some err
           | Response status text \<Rightarrow>
               if status < 200 \<or> status \<ge> 300
               then (case text of
                       Inl err \<Rightarrow> Some (ErrWrap ''ingest returned status'' [err])
                     | Inr t \<Rightarrow> Some (ErrNew (''ingest returned status '' @ int_digits status @
                                       (if trim_space t = [] then [] else '': '' @ trim_space t))))
               else None))"

subsection \<open>A task\<close>

text \<open>
  A turn of the loop of a task: whether the context or the deadline ends it before the batch, how
  the server answers a request, and whether the wait after it ends the loop.
\<close>

record turn =
  tn_stop :: bool
  tn_send :: "string \<Rightarrow> string \<Rightarrow> http_outcome"
  tn_stop_after :: bool

record 'r task_state =
  ts_gen :: "'r generator"
  ts_rng :: 'r
  ts_history :: "metric_batch list"
  ts_expected :: expected_state

text \<open>The replayed batch, if one is chosen; the draw is made only when there is a history.\<close>

definition choose_batch ::
  "'r rng_ops \<Rightarrow> sim_config \<Rightarrow> metric_batch list \<Rightarrow> metric_batch \<Rightarrow> 'r \<Rightarrow> metric_batch \<times> 'r" where
  "choose_batch ro cfg history batch r =
     (if history = [] then (batch, r)
      else case rn_Float64 ro r of
        (x, r1) \<Rightarrow>
          if float_less x (si_DuplicateRate cfg)
          then (case rn_Intn ro (length history) r1 of (i, r2) \<Rightarrow> (history ! i, r2))
          else (batch, r1))"

definition note_posted :: "metric_batch \<Rightarrow> expected_state \<Rightarrow> expected_state" where
  "note_posted batch e =
     (if batchFingerprint batch \<in> set (es_batches e) then e
      else addExpected (e\<lparr>es_batches := batchFingerprint batch # es_batches e\<rparr>) batch)"

fun task_loop ::
  "(float64 \<Rightarrow> string) \<Rightarrow> float_ops \<Rightarrow> 'r rng_ops \<Rightarrow> sim_config \<Rightarrow> turn list \<Rightarrow> 'r task_state
    \<Rightarrow> go_error option \<times> 'r task_state" where
  "task_loop ff fo ro cfg [] s = (None, s)"
| "task_loop ff fo ro cfg (t # ts) s =
     (if tn_stop t then (None, s)
      else
       (case NextBatch fo ro (si_BatchSize cfg) (ts_gen s) of
          (generated, g) \<Rightarrow>
       (case choose_batch ro cfg (ts_history s) generated (ts_rng s) of
          (batch, r1) \<Rightarrow>
       (case rn_Float64 ro r1 of
          (x, r2) \<Rightarrow>
            (let s1 = s\<lparr>ts_gen := g, ts_rng := r2\<rparr>
             in if float_leq (si_FailureRate cfg) x
                then (case postBatch ff (tn_send t) batch of
                        Some err \<Rightarrow> (Some err, s1)
                      | None \<Rightarrow>
                          (let s2 = s1\<lparr>ts_history := ts_history s @ [batch],
                                       ts_expected := note_posted batch (ts_expected s)\<rparr>
                           in if tn_stop_after t then (None, s2) else task_loop ff fo ro cfg ts s2))
                else if tn_stop_after t then (None, s1) else task_loop ff fo ro cfg ts s1)))))"

definition run_task ::
  "(float64 \<Rightarrow> string) \<Rightarrow> float_ops \<Rightarrow> 'r rng_ops \<Rightarrow> sim_config \<Rightarrow> int \<Rightarrow> turn list \<Rightarrow> nat
    \<Rightarrow> go_error option \<times> 'r task_state" where
  "run_task ff fo ro cfg startMillis ts index =
     (let taskID = sim_task_id cfg index
      in task_loop ff fo ro cfg ts
           \<lparr>ts_gen = NewGenerator fo ro taskID startMillis cfg (wrap64 (si_Seed cfg + int index)),
            ts_rng = rn_NewSource ro (wrap64 (si_Seed cfg + int index + 1000000)),
            ts_history = [], ts_expected = newExpectedState taskID\<rparr>)"

subsection \<open>The audit\<close>

record audit_response =
  ar_TaskID :: string
  ar_PointCount :: int
  ar_DistinctSteps :: int
  ar_FirstStep :: "int option"
  ar_LastStep :: "int option"
  ar_Keys :: "string list"
  ar_MissingSteps :: "int list"

record sim_audit =
  sa_TaskID :: string
  sa_Pass :: bool
  sa_Expected :: expected
  sa_Actual :: "audit_response option"
  sa_Differences :: "string list"
  sa_Error :: string

definition expectedResult :: "expected \<Rightarrow> sim_audit" where
  "expectedResult e =
     \<lparr>sa_TaskID = ex_TaskID e, sa_Pass = True, sa_Expected = e, sa_Actual = None, sa_Differences = [],
      sa_Error = []\<rparr>"

text \<open>An audit request: no response, a status with a body, decoded or not.\<close>

datatype audit_outcome = AuditNoResponse string | AuditReply int "string + audit_response"

text \<open>\<open>strings.Join(values, "\x00")\<close>.\<close>

fun join_zero :: "string list \<Rightarrow> string" where
  "join_zero [] = []"
| "join_zero [x] = x"
| "join_zero (x # y # xs) = x @ CHR 0x00 # join_zero (y # xs)"

definition equalStrings :: "string list \<Rightarrow> string list \<Rightarrow> bool" where
  "equalStrings a b \<longleftrightarrow> join_zero a = join_zero b"

definition audit_differences :: "string \<Rightarrow> expected \<Rightarrow> audit_response \<Rightarrow> string list" where
  "audit_differences taskID e actual =
     (if ar_TaskID actual \<noteq> taskID then [''task_id expected '' @ taskID @ '' got '' @ ar_TaskID actual] else []) @
     (if ar_PointCount actual \<noteq> ex_PointCount e
      then [''point_count expected '' @ int_digits (ex_PointCount e) @ '' got '' @ int_digits (ar_PointCount actual)]
      else []) @
     (if ar_DistinctSteps actual \<noteq> ex_DistinctSteps e
      then [''distinct_steps expected '' @ int_digits (ex_DistinctSteps e) @ '' got ''
            @ int_digits (ar_DistinctSteps actual)]
      else []) @
     (if ar_FirstStep actual \<noteq> ex_FirstStep e then [''first_step differs''] else []) @
     (if ar_LastStep actual \<noteq> ex_LastStep e then [''last_step differs''] else []) @
     (if \<not> equalStrings (ar_Keys actual) (ex_Keys e) then [''keys differ''] else []) @
     (if ar_MissingSteps actual \<noteq> ex_MissingSteps e then [''missing_steps differ''] else [])"

definition compareAudit :: "audit_outcome \<Rightarrow> sim_audit \<Rightarrow> sim_audit" where
  "compareAudit outcome r =
     (let result = r\<lparr>sa_Pass := False\<rparr> in
      case outcome of
        AuditNoResponse err \<Rightarrow> result\<lparr>sa_Error := err\<rparr>
      | AuditReply status body \<Rightarrow>
          if status < 200 \<or> status \<ge> 300
          then result\<lparr>sa_Error := ''audit returned status '' @ int_digits status\<rparr>
          else (case body of
                  Inl err \<Rightarrow> result\<lparr>sa_Error := err\<rparr>
                | Inr actual \<Rightarrow>
                    (let differences = sa_Differences result @ audit_differences (sa_TaskID r) (sa_Expected r) actual
                     in result\<lparr>sa_Actual := Some actual, sa_Differences := differences,
                               sa_Pass := (differences = [])\<rparr>)))"

definition auditOnce :: "(string \<Rightarrow> audit_outcome) \<Rightarrow> sim_audit list \<Rightarrow> sim_audit list" where
  "auditOnce answer results =
     map (\<lambda>r. compareAudit (answer (sa_TaskID r))
            (r\<lparr>sa_Pass := True, sa_Actual := None, sa_Differences := [], sa_Error := []\<rparr>)) results"

definition allAuditResultsPass :: "sim_audit list \<Rightarrow> bool" where
  "allAuditResultsPass results \<longleftrightarrow> list_all sa_Pass results"

text \<open>
  The rounds of \<open>auditReport\<close>: the answers of each and whether the wait after it ends the loop;
  the deadline ends it at the latest with the last round.
\<close>

fun audit_rounds :: "((string \<Rightarrow> audit_outcome) \<times> bool) list \<Rightarrow> sim_audit list \<Rightarrow> sim_audit list" where
  "audit_rounds [] results = results"
| "audit_rounds ((answer, stop) # rounds) results =
     (let results = auditOnce answer results
      in if allAuditResultsPass results \<or> stop then results else audit_rounds rounds results)"

definition auditReport ::
  "duration \<Rightarrow> (string \<Rightarrow> audit_outcome) \<times> bool \<Rightarrow> ((string \<Rightarrow> audit_outcome) \<times> bool) list
    \<Rightarrow> sim_audit list \<Rightarrow> sim_audit list" where
  "auditReport timeout first rounds results =
     (if timeout \<le> 0 then auditOnce (fst first) results else audit_rounds (first # rounds) results)"

subsection \<open>The whole run\<close>

record sim_report =
  sr_Pass :: bool
  sr_Results :: "sim_audit list"
  sr_Failures :: "(string \<times> go_error) list"

text \<open>The tasks run side by side; what they send over the two channels is sorted by task.\<close>

definition RunWithReport ::
  "(float64 \<Rightarrow> string) \<Rightarrow> float_ops \<Rightarrow> 'r rng_ops \<Rightarrow> sim_config \<Rightarrow> (nat \<Rightarrow> int) \<Rightarrow> (nat \<Rightarrow> turn list)
    \<Rightarrow> (string \<Rightarrow> audit_outcome) \<times> bool \<Rightarrow> ((string \<Rightarrow> audit_outcome) \<times> bool) list
    \<Rightarrow> sim_report \<times> go_error option" where
  "RunWithReport ff fo ro cfg start turns first rounds =
     (case sim_Validate cfg of
        Some err \<Rightarrow> (\<lparr>sr_Pass = False, sr_Results = [], sr_Failures = []\<rparr>, Some err)
      | None \<Rightarrow>
          (let tasks = map (\<lambda>i. (sim_task_id cfg i, run_task ff fo ro cfg (start i) (turns i) i))
                           [0..<nat (si_Tasks cfg)];
               results = sort_key sa_TaskID
                 (map (\<lambda>(n, err, s). expectedResult (expected_finish (ts_expected s))) tasks);
               failures = sort_key fst (concat (map (\<lambda>(n, err, s). case err of None \<Rightarrow> [] | Some e \<Rightarrow> [(n, e)]) tasks));
               results = (if si_Audit cfg then auditReport (si_AuditTimeout cfg) first rounds results else results);
               pass = list_all sa_Pass results
           in if failures \<noteq> []
              then (\<lparr>sr_Pass = False, sr_Results = results, sr_Failures = failures\<rparr>,
                    Some (ErrWrap ''task(s) failed to ingest; first failure'' [snd (hd failures)]))
              else (\<lparr>sr_Pass = pass, sr_Results = results, sr_Failures = []\<rparr>, None)))"

end
