(* ===== verification/SimulatorProps.thy ===== *)
theory SimulatorProps
  imports Simulator
begin

section \<open>Properties of the simulator\<close>

text \<open>
  What the generator produces, that the ingest handler accepts the request \<open>postBatch\<close> makes of
  it, and that the tally of a task agrees with the audit of the database that holds what the task
  has posted.
\<close>

subsection \<open>Samples\<close>

definition metric_names :: "string list" where
  "metric_names = [''loss'', ''lr'', ''eval_loss'', ''gpu_util'', ''gpu_mem'', ''throughput'']"

lemma metric_names_keys: "list_all spec_key metric_names"
  by code_simp

text \<open>The names a sample has so far: distinct, and followed by \<open>rest\<close> in the order of the names.\<close>

definition names_so_far :: "metric_map \<Rightarrow> string list \<Rightarrow> bool" where
  "names_so_far m rest \<longleftrightarrow> m \<noteq> [] \<and> distinct (map fst m @ rest) \<and> set (map fst m @ rest) \<subseteq> set metric_names"

lemma names_so_far_put:
  assumes "names_so_far m (name # rest)"
  shows "names_so_far (m @ [(name, v)]) rest" "names_so_far m rest"
proof -
  show "names_so_far (m @ [(name, v)]) rest"
    using assms by (simp add: names_so_far_def del: distinct_append set_append)
  show "names_so_far m rest" using assms by (simp add: names_so_far_def)
qed

lemma put_eval_loss_names:
  assumes "put_eval_loss fo ro cfg step loss m r = (m', r')" "names_so_far m (''eval_loss'' # rest)"
  shows "names_so_far m' rest"
  using assms(1) names_so_far_put [OF assms(2)] by (auto simp: put_eval_loss_def split: prod.splits if_splits)

lemma put_walk_names:
  assumes "put_walk fo ro b name scale bound current m r = (m', u, r')" "names_so_far m (name # rest)"
  shows "names_so_far m' rest"
  using assms(1) names_so_far_put [OF assms(2)] by (auto simp: put_walk_def Let_def split: prod.splits if_splits)

lemma next_sample_spec:
  assumes "next_sample fo ro g = (s, g')"
  shows "ms_Step s = gn_step g" "ms_TimestampMillis s = gn_nextTS g"
    "ms_Metrics s \<noteq> []" "go_map (ms_Metrics s)" "fst ` set (ms_Metrics s) \<subseteq> set metric_names"
    "gn_step g' = wrap64 (gn_step g + 1)"
    "gn_nextTS g' = wrap64 (gn_nextTS g + go_div (gn_interval g) millisecond)"
    "gn_TaskID g' = gn_TaskID g" "gn_interval g' = gn_interval g" "gn_config g' = gn_config g"
proof -
  let ?p = "\<lambda>u. clamp u 0 (fo_lit fo ''100'')"
  obtain n r1 where 1: "noise fo ro ''0.08'' (gn_rng g) = (n, r1)" by fastforce
  define loss where "loss = math_Max 0 (fo_add fo (fo_mul fo (gn_loss g)
      (fo_exp fo (fo_mul fo (fo_lit fo ''-0.002'') (fo_int fo (gn_step g))))) n)"
  obtain m2 r2 where 2: "put_eval_loss fo ro (gn_config g) (gn_step g) loss
      [(''loss'', loss), (''lr'', learningRate fo (gn_step g))] r1 = (m2, r2)" by fastforce
  obtain m3 u3 r3 where 3: "put_walk fo ro (si_GPUUtil (gn_config g)) ''gpu_util'' ''6'' ?p (gn_gpuUtil g) m2 r2 = (m3, u3, r3)"
    by (metis prod_cases3)
  obtain m4 u4 r4 where 4: "put_walk fo ro (si_GPUMem (gn_config g)) ''gpu_mem'' ''2'' ?p (gn_gpuMem g) m3 r3 = (m4, u4, r4)"
    by (metis prod_cases3)
  obtain m5 u5 r5 where 5: "put_walk fo ro (si_Throughput (gn_config g)) ''throughput'' ''80'' (math_Max (fo_lit fo ''1''))
      (gn_throughput g) m4 r4 = (m5, u5, r5)" by (metis prod_cases3)
  have eq: "s = \<lparr>ms_Step = gn_step g, ms_TimestampMillis = gn_nextTS g, ms_Metrics = m5\<rparr>"
    "g' = g\<lparr>gn_step := wrap64 (gn_step g + 1),
            gn_nextTS := wrap64 (gn_nextTS g + go_div (gn_interval g) millisecond),
            gn_rng := r5, gn_gpuUtil := u3, gn_gpuMem := u4, gn_throughput := u5\<rparr>"
    using assms unfolding next_sample_def Let_def 1 prod.case loss_def [symmetric] 2 3 4 5 by simp_all
  have "names_so_far [(''loss'', loss), (''lr'', learningRate fo (gn_step g))]
      [''eval_loss'', ''gpu_util'', ''gpu_mem'', ''throughput'']"
    by (simp add: names_so_far_def metric_names_def)
  from put_walk_names [OF 5 put_walk_names [OF 4 put_walk_names [OF 3 put_eval_loss_names [OF 2 this]]]]
  have "names_so_far m5 []" .
  then show "ms_Metrics s \<noteq> []" "go_map (ms_Metrics s)" "fst ` set (ms_Metrics s) \<subseteq> set metric_names"
    by (simp_all add: eq names_so_far_def go_map_def)
  show "ms_Step s = gn_step g" "ms_TimestampMillis s = gn_nextTS g" "gn_step g' = wrap64 (gn_step g + 1)"
    "gn_nextTS g' = wrap64 (gn_nextTS g + go_div (gn_interval g) millisecond)"
    "gn_TaskID g' = gn_TaskID g" "gn_interval g' = gn_interval g" "gn_config g' = gn_config g"
    by (simp_all add: eq)
qed

text \<open>The samples of a batch: consecutive steps, timestamps an interval apart.\<close>

lemma next_samples_spec:
  assumes "next_samples fo ro n g = (ss, g')" "0 \<le> gn_step g" "gn_step g + int n < 2 ^ 63"
  shows "map ms_Step ss = [gn_step g..gn_step g + int n - 1] \<and> gn_step g' = gn_step g + int n \<and>
    length ss = n \<and> gn_TaskID g' = gn_TaskID g \<and> gn_interval g' = gn_interval g \<and> gn_config g' = gn_config g \<and>
    (\<forall>s \<in> set ss. ms_Metrics s \<noteq> [] \<and> go_map (ms_Metrics s) \<and> fst ` set (ms_Metrics s) \<subseteq> set metric_names)"
  using assms
proof (induction n arbitrary: g ss)
  case (Suc n)
  obtain s g1 where s: "next_sample fo ro g = (s, g1)" by fastforce
  obtain ss1 where ss1: "next_samples fo ro n g1 = (ss1, g')" "ss = s # ss1"
    using Suc.prems(1) s by (auto split: prod.splits)
  note spec = next_sample_spec [OF s]
  have step: "gn_step g1 = gn_step g + 1"
    using spec(6) Suc.prems(2,3) by (simp add: wrap64_id in_int64_def)
  have IH: "map ms_Step ss1 = [gn_step g1..gn_step g1 + int n - 1] \<and> gn_step g' = gn_step g1 + int n \<and>
    length ss1 = n \<and> gn_TaskID g' = gn_TaskID g1 \<and> gn_interval g' = gn_interval g1 \<and> gn_config g' = gn_config g1 \<and>
    (\<forall>s \<in> set ss1. ms_Metrics s \<noteq> [] \<and> go_map (ms_Metrics s) \<and> fst ` set (ms_Metrics s) \<subseteq> set metric_names)"
    using Suc.prems(2,3) step by (intro Suc.IH [OF ss1(1)]) simp_all
  have "[gn_step g..gn_step g + int (Suc n) - 1] = gn_step g # [gn_step g1..gn_step g1 + int n - 1]"
    using step by (simp add: upto_rec1 algebra_simps)
  then show ?case using IH spec step ss1(2) by simp
qed simp

lemma next_samples_ts:
  assumes "next_samples fo ro n g = (ss, g')" "s \<in> set ss" "0 < gn_nextTS g" "millisecond \<le> gn_interval g"
    and "gn_nextTS g + int n * (gn_interval g div millisecond) < 2 ^ 63"
  shows "gn_nextTS g \<le> ms_TimestampMillis s \<and>
    ms_TimestampMillis s \<le> gn_nextTS g + int n * (gn_interval g div millisecond)"
  using assms
proof (induction n arbitrary: g ss)
  case (Suc n)
  obtain s1 g1 where s: "next_sample fo ro g = (s1, g1)" by fastforce
  obtain ss1 where ss1: "next_samples fo ro n g1 = (ss1, g')" "ss = s1 # ss1"
    using Suc.prems(1) s by (auto split: prod.splits)
  note spec = next_sample_spec [OF s]
  let ?d = "gn_interval g div millisecond"
  have d: "0 \<le> ?d" "go_div (gn_interval g) millisecond = ?d"
    using Suc.prems(4) by (simp_all add: go_div_nonneg millisecond_def)
  have prod: "int (Suc n) * ?d = int n * ?d + ?d" "0 \<le> int n * ?d" using d(1) by (simp_all add: algebra_simps)
  have "in_int64 (gn_nextTS g + ?d)"
    using d(1) prod Suc.prems(3,5) unfolding in_int64_def by linarith
  then have next_ts: "gn_nextTS g1 = gn_nextTS g + ?d"
    using spec(7) d(2) by (simp add: wrap64_id)
  show ?case
  proof (cases "s = s1")
    case True
    then show ?thesis using spec(2) d(1) prod by simp
  next
    case False
    then have "s \<in> set ss1" using Suc.prems(2) ss1(2) by simp
    from Suc.IH [OF ss1(1) this] next_ts spec(9) Suc.prems(3,4,5) d(1) prod show ?thesis by simp
  qed
qed simp

subsection \<open>The request is the batch\<close>

definition wire_sample :: "metric_sample \<Rightarrow> ingest_sample" where
  "wire_sample s = \<lparr>is_Step = ms_Step s, is_TS = ms_TimestampMillis s, is_Metrics = ms_Metrics s\<rparr>"

definition sample_request :: "metric_sample \<Rightarrow> metric_sample_request" where
  "sample_request s = \<lparr>msr_Step = Some (ms_Step s), msr_TS = Some (ms_TimestampMillis s),
     msr_Metrics = sorted_entries (ms_Metrics s)\<rparr>"

text \<open>The batch as the handler rebuilds it: the metrics of each sample in key order.\<close>

definition key_ordered :: "metric_batch \<Rightarrow> metric_batch" where
  "key_ordered b = b\<lparr>mb_Samples := map (\<lambda>s. s\<lparr>ms_Metrics := sorted_entries (ms_Metrics s)\<rparr>) (mb_Samples b)\<rparr>"

lemma batch_of_wire [simp]: "batch_sample (wire_sample s) = s"
  by (simp add: batch_sample_def wire_sample_def)

lemma decode_request_sample:
  assumes "float_codec pf ff" "spec_sample s" "sample_json ff (wire_sample s) = Some j"
  shows "decode_sample_request pf j zero_sample_request = Some (sample_request s)"
proof -
  have m: "spec_metrics (ms_Metrics s)" and i: "in_int64 (ms_Step s)" "in_int64 (ms_TimestampMillis s)"
    using assms(2) by (auto simp: spec_sample_def spec_step_int64 spec_ts_int64)
  have e: "spec_metrics (sorted_entries (ms_Metrics s))" by (rule spec_metrics_sorted [OF m])
  have d: "decode_members pf (map (\<lambda>(k, v). (k, JNum (ff v))) (sorted_entries (ms_Metrics s))) []
      = Some (sorted_entries (ms_Metrics s))"
    using decode_members_codec [OF assms(1) spec_metrics_finite [OF e], of "[]"] e
    by (simp flip: copy_map_def)
  have j: "j = JObj [(''step'', JNum (int_digits (ms_Step s))), (''ts'', JNum (int_digits (ms_TimestampMillis s))),
      (''metrics'', JObj (map (\<lambda>(k, v). (k, JNum (ff v))) (sorted_entries (ms_Metrics s))))]"
    using assms(3) by (auto simp: sample_json_def wire_sample_def metrics_json_spec [OF m])
  show ?thesis
    by (simp add: j decode_sample_request_def decode_struct_def match_field_def put_sample_field_def
        decode_int_ptr_def decode_metrics_def zero_sample_request_def i d sample_request_def)
qed

lemma decode_request_samples:
  assumes "float_codec pf ff" "\<forall>s \<in> set ss. spec_sample s"
    and "those_json (map (\<lambda>s. sample_json ff (wire_sample s)) ss) = Some js"
  shows "decode_elems (decode_sample_request pf) zero_sample_request js [] = Some (map sample_request ss, []) \<and>
    length js = length ss"
  using assms(2,3)
proof (induction ss arbitrary: js)
  case (Cons s ss)
  then obtain j js' where "sample_json ff (wire_sample s) = Some j" "js = j # js'"
    "those_json (map (\<lambda>s. sample_json ff (wire_sample s)) ss) = Some js'"
    by (auto split: option.splits)
  moreover from this Cons.prems(1) have "decode_sample_request pf j zero_sample_request = Some (sample_request s)"
    by (intro decode_request_sample [OF assms(1)]) simp_all
  ultimately show ?case using Cons by simp
qed simp

lemma to_samples_request:
  assumes "\<forall>s \<in> set ss. go_map (ms_Metrics s)"
  shows "to_metric_samples (map sample_request ss) = Some (map (\<lambda>s. s\<lparr>ms_Metrics := sorted_entries (ms_Metrics s)\<rparr>) ss)"
  using assms by (induction ss) (simp_all add: to_metric_sample_def sample_request_def sorted_entries_go_map)

lemma key_ordered_spec:
  assumes "spec_batch b"
  shows "spec_batch (key_ordered b)" "batch_points (key_ordered b) = batch_points b"
    "mb_TaskID (key_ordered b) = mb_TaskID b" "length (mb_Samples (key_ordered b)) = length (mb_Samples b)"
proof -
  have sorted_twice: "sorted_entries (sorted_entries m) = sorted_entries m" if "go_map m" for m :: metric_map
    using map_of_sorted_entries [OF that] by (simp add: sorted_entries_def [of "sorted_entries m"] sorted_entries_keys sorted_sort_id)
      (simp add: sorted_entries_def)
  show "spec_batch (key_ordered b)"
    using assms by (auto simp: spec_batch_def key_ordered_def spec_sample_def spec_metrics_sorted)
  show "batch_points (key_ordered b) = batch_points b"
    using assms sorted_twice
    by (auto simp: batch_points_def key_ordered_def spec_batch_def spec_sample_def spec_metrics_def
        intro!: arg_cong [where f = concat])
qed (simp_all add: key_ordered_def)

lemma request_decodes:
  assumes "float_codec pf ff" "spec_batch b" "request_json ff b = Some j" "length (json_print j) \<le> maxIngestBodyBytes"
  shows "\<exists>r. decodeIngestMetricsRequest pf (json_print j) = Some r \<and> ToMetricBatch r = Some (key_ordered b)"
proof -
  have ss: "\<forall>s \<in> set (mb_Samples b). spec_sample s" using assms(2) by (simp add: spec_batch_def)
  obtain js where js: "those_json (map (\<lambda>s. sample_json ff (wire_sample s)) (mb_Samples b)) = Some js"
    and j: "j = JObj [(''task_id'', JStr (mb_TaskID b)), (''batch'', JArr js)]"
    using assms(3) by (auto simp: request_json_def wire_sample_def)
  have wires: "those_json (map (sample_json ff) (map wire_sample (mb_Samples b))) = Some js"
    using js by (simp add: comp_def)
  have "\<forall>w \<in> set (map wire_sample (mb_Samples b)). spec_sample (batch_sample w)" using ss by simp
  from printable_samples_json [OF assms(1) this wires] have p: "\<forall>x \<in> set js. printable x \<and> depth x \<le> 2" .
  have "ascii (mb_TaskID b)" using assms(2) by (simp add: spec_batch_def spec_task_id_ascii)
  moreover have "ascii ''task_id''" "ascii ''batch''" by (simp_all add: ascii_def byte_def)
  ultimately have "printable j" using p by (simp add: j list_all_iff)
  moreover have "depth (JArr js) \<le> Suc 2" using p by (intro depth_JArr_le) simp
  then have "depth j \<le> Suc 3" unfolding j by (intro depth_JObj_le) (auto simp del: depth.simps(1))
  ultimately have parse: "parse_single (json_print j) = Some j" using parse_single_print by simp
  have d: "decode_elems (decode_sample_request pf) zero_sample_request js [] = Some (map sample_request (mb_Samples b), [])"
    and len: "length js = length (mb_Samples b)"
    using decode_request_samples [OF assms(1) ss js] by simp_all
  have "js \<noteq> []" using len assms(2) by (auto simp: spec_batch_def)
  then have "decode_struct [''task_id'', ''batch''] (put_request_field pf) j ([], [], [])
      = Some (mb_TaskID b, map sample_request (mb_Samples b), [])"
    by (simp add: j decode_struct_def match_field_def put_request_field_def decode_string_def decode_slice_def d)
  moreover have "\<forall>s \<in> set (mb_Samples b). go_map (ms_Metrics s)"
    using ss by (simp add: spec_sample_def spec_metrics_def)
  ultimately show ?thesis
    using assms(4) parse to_samples_request
    by (simp add: decodeIngestMetricsRequest_def ToMetricBatch_def key_ordered_def)
qed

subsection \<open>The batch is of the contract\<close>

lemma sim_task_id_spec:
  assumes "sim_Validate cfg = None" "length (nat_digits (Suc index)) \<le> 15"
  shows "spec_task_id (sim_task_id cfg index)"
proof -
  have p: "si_TaskPrefix cfg \<noteq> []" "length (si_TaskPrefix cfg) \<le> 48" "taskPrefixPattern (si_TaskPrefix cfg)"
    using assms(1) by (auto simp: sim_Validate_def split: if_splits)
  have ident: "is_alnum c \<Longrightarrow> is_ident_char c" "is_digit c \<Longrightarrow> is_ident_char c" for c
    by (simp_all add: is_ident_char_def is_alnum_def)
  have "is_alnum (hd (si_TaskPrefix cfg)) \<and> list_all is_ident_char (si_TaskPrefix cfg)"
    using p(1,3) ident by (cases "si_TaskPrefix cfg") (auto simp: taskPrefixPattern_def)
  moreover have "is_digit (CHR ''0'')" "is_ident_char (CHR ''-'')" by (simp_all add: is_digit_def is_ident_char_def)
  ultimately show ?thesis
    using p(1,2) assms(2) nat_digits_all_digits ident
    by (auto simp: spec_task_id_def sim_task_id_def Let_def list_all_iff hd_append)
qed

lemma NextBatch_spec:
  assumes "NextBatch fo ro n g = (b, g')" "1 \<le> n" "0 \<le> gn_step g" "gn_step g + n < 2 ^ 63"
  shows "mb_TaskID b = gn_TaskID g \<and> map ms_Step (mb_Samples b) = [gn_step g..gn_step g + n - 1] \<and>
    gn_step g' = gn_step g + n \<and> gn_TaskID g' = gn_TaskID g \<and>
    (\<forall>s \<in> set (mb_Samples b). ms_Metrics s \<noteq> [] \<and> go_map (ms_Metrics s) \<and> fst ` set (ms_Metrics s) \<subseteq> set metric_names)"
proof -
  obtain ss where ss: "next_samples fo ro (nat n) g = (ss, g')" and b: "b = \<lparr>mb_TaskID = gn_TaskID g, mb_Samples = ss\<rparr>"
    using assms(1,2) by (auto simp: NextBatch_def split: prod.splits)
  show ?thesis using next_samples_spec [OF ss assms(3)] assms(2,4) by (simp add: b)
qed

lemma NextBatch_contract:
  assumes "NextBatch fo ro n g = (b, g')" "1 \<le> n" "n \<le> 500" "spec_task_id (gn_TaskID g)"
    and "0 \<le> gn_step g" "gn_step g + n \<le> 2 ^ 31"
    and "0 < gn_nextTS g" "millisecond \<le> gn_interval g"
    and "gn_nextTS g + n * (gn_interval g div millisecond) \<le> 253402300799999"
    and "\<forall>s \<in> set (mb_Samples b). \<forall>(k, v) \<in> set (ms_Metrics s). float_finite v"
  shows "spec_batch b"
proof -
  obtain ss where ss: "next_samples fo ro (nat n) g = (ss, g')" and b: "b = \<lparr>mb_TaskID = gn_TaskID g, mb_Samples = ss\<rparr>"
    using assms(1,2) by (auto simp: NextBatch_def split: prod.splits)
  have steps: "map ms_Step ss = [gn_step g..gn_step g + n - 1]" "length ss = nat n"
    and metrics: "\<forall>s \<in> set ss. ms_Metrics s \<noteq> [] \<and> go_map (ms_Metrics s) \<and> fst ` set (ms_Metrics s) \<subseteq> set metric_names"
    using next_samples_spec [OF ss assms(5)] assms(2,6) by simp_all
  have "spec_sample s" if s: "s \<in> set ss" for s
  proof -
    have "ms_Step s \<in> set (map ms_Step ss)" using s by simp
    then have "spec_step (ms_Step s)" using assms(5,6) unfolding steps by (simp add: spec_step_def)
    moreover have "spec_ts (ms_TimestampMillis s)"
      using next_samples_ts [OF ss s assms(7,8)] assms(2,7,9) by (simp add: spec_ts_def)
    moreover have "spec_metrics (ms_Metrics s)"
      using metrics s assms(10) metric_names_keys by (fastforce simp: spec_metrics_def b list_all_iff)
    ultimately show ?thesis by (simp add: spec_sample_def)
  qed
  then show ?thesis
    using assms(2,3,4) steps(2) by (auto simp: spec_batch_def b)
qed

end
