(* ===== verification/SimulatorAudit.thy ===== *)
theory SimulatorAudit
  imports SimulatorProps
begin

section \<open>The simulator's tally and the audit\<close>

text \<open>
  The tally a task keeps of the batches it has posted, replayed batches counted once, is what the
  audit of the API says of a database that holds exactly the points of these batches.
\<close>

subsection \<open>The tally of a list of samples\<close>

definition tally :: "expected_state \<Rightarrow> metric_sample list \<Rightarrow> bool" where
  "tally e xs \<longleftrightarrow>
     ex_PointCount e = (\<Sum>s\<leftarrow>xs. int (length (ms_Metrics s))) \<and>
     ex_FirstStep e = (if xs = [] then None else Some (Min (ms_Step ` set xs))) \<and>
     ex_LastStep e = (if xs = [] then None else Some (Max (ms_Step ` set xs))) \<and>
     set (es_steps e) = ms_Step ` set xs \<and> distinct (es_steps e) \<and>
     ex_DistinctSteps e = int (length (es_steps e)) \<and>
     set (ex_Keys e) = (\<Union>s \<in> set xs. fst ` set (ms_Metrics s)) \<and> distinct (ex_Keys e) \<and>
     ex_MissingSteps e = []"

lemma tally_new: "tally (newExpectedState taskID) []"
  by (simp add: tally_def newExpectedState_def)

lemma keys_fold:
  "distinct keys \<Longrightarrow>
    distinct (fold (\<lambda>k keys. if k \<in> set keys then keys else keys @ [k]) ks keys) \<and>
    set (fold (\<lambda>k keys. if k \<in> set keys then keys else keys @ [k]) ks keys) = set keys \<union> set ks"
  by (induction ks arbitrary: keys) auto

lemma extremes_insert:
  fixes x :: int
  assumes "finite A" "A \<noteq> {}"
  shows "Min (insert x A) = (if x < Min A then x else Min A)" "Max (insert x A) = (if x > Max A then x else Max A)"
proof -
  have "min x m = (if x < m then x else m)" "max x m = (if x > m then x else m)" for m by simp_all
  then show "Min (insert x A) = (if x < Min A then x else Min A)" "Max (insert x A) = (if x > Max A then x else Max A)"
    by (simp_all only: Min_insert [OF assms] Max_insert [OF assms])
qed

lemma tally_add:
  assumes "tally e xs"
  shows "tally (add_sample e s) (xs @ [s])"
proof -
  note e = assms [unfolded tally_def]
  have "set (fold (\<lambda>k keys. if k \<in> set keys then keys else keys @ [k]) (map fst (ms_Metrics s)) (ex_Keys e))
      = (\<Union>s \<in> set (xs @ [s]). fst ` set (ms_Metrics s))"
    "distinct (fold (\<lambda>k keys. if k \<in> set keys then keys else keys @ [k]) (map fst (ms_Metrics s)) (ex_Keys e))"
    using e keys_fold [of "ex_Keys e" "map fst (ms_Metrics s)"] by auto
  moreover have "ex_FirstStep (add_sample e s) = Some (Min (ms_Step ` set (xs @ [s])))"
    "ex_LastStep (add_sample e s) = Some (Max (ms_Step ` set (xs @ [s])))"
    using e extremes_insert [of "ms_Step ` set xs" "ms_Step s"]
    by (cases "xs = []"; simp add: add_sample_def Let_def)+
  ultimately show ?thesis
    using e by (simp add: tally_def) (simp add: add_sample_def Let_def)
qed

lemma tally_samples: "tally e xs \<Longrightarrow> tally (foldl add_sample e ss) (xs @ ss)"
proof (induction ss arbitrary: e xs)
  case (Cons s ss)
  from Cons.IH [OF tally_add [OF Cons.prems, of s]] show ?case by simp
qed simp

lemma tally_batch:
  assumes "tally e xs"
  shows "tally (addExpected e b) (xs @ mb_Samples b)" "sorted (ex_Keys (addExpected e b))"
  using tally_samples [OF assms, of "mb_Samples b"] by (simp_all add: addExpected_def Let_def tally_def)

lemma foldl_add_sample_keeps [simp]:
  "ex_TaskID (foldl add_sample e ss) = ex_TaskID e" "es_batches (foldl add_sample e ss) = es_batches e"
  by (induction ss arbitrary: e) (simp_all add: add_sample_def Let_def)

lemma addExpected_keeps [simp]:
  "ex_TaskID (addExpected e b) = ex_TaskID e" "es_batches (addExpected e b) = es_batches e"
  by (simp_all add: addExpected_def Let_def)

subsection \<open>Posted batches\<close>

definition batch_steps :: "metric_batch \<Rightarrow> int set" where
  "batch_steps b = ms_Step ` set (mb_Samples b)"

text \<open>A batch the generator of a task has made before step \<open>n\<close>.\<close>

definition made :: "string \<Rightarrow> int \<Rightarrow> metric_batch \<Rightarrow> bool" where
  "made taskID n b \<longleftrightarrow>
     mb_TaskID b = taskID \<and> mb_Samples b \<noteq> [] \<and> distinct (map ms_Step (mb_Samples b)) \<and>
     batch_steps b \<subseteq> {0..<n} \<and>
     (\<forall>s \<in> set (mb_Samples b). ms_Metrics s \<noteq> [] \<and> go_map (ms_Metrics s))"

lemma made_mono: "made taskID n b \<Longrightarrow> n \<le> n' \<Longrightarrow> made taskID n' b"
  by (auto simp: made_def)

lemma fingerprint_first:
  assumes "batchFingerprint b = batchFingerprint b'" "mb_Samples b \<noteq> []" "mb_Samples b' \<noteq> []"
    and "in_int64 (ms_Step (hd (mb_Samples b)))" "in_int64 (ms_Step (hd (mb_Samples b')))"
  shows "ms_Step (hd (mb_Samples b)) = ms_Step (hd (mb_Samples b'))"
proof -
  have no_colon: "CHR '':'' \<notin> set (int_digits i)" for i
  proof
    assume "CHR '':'' \<in> set (int_digits i)"
    then have "is_digit (CHR '':'')" using nat_digits_all_digits by (auto simp: int_digits_def split: if_splits)
    then show False by (simp add: is_digit_def less_eq_char_def)
  qed
  have cut: "takeWhile (\<lambda>c. c \<noteq> CHR '':'') (int_digits i @ CHR '':'' # t) = int_digits i" for i t
    using no_colon [of i] by (subst takeWhile_append2) auto
  have "int_digits (ms_Step (hd (mb_Samples b))) = int_digits (ms_Step (hd (mb_Samples b')))"
    using arg_cong [where f = "takeWhile (\<lambda>c. c \<noteq> CHR '':'')", OF assms(1)] assms(2,3)
    by (simp add: batchFingerprint_def cut)
  then show ?thesis
    using parse_int64_int_digits [OF assms(4)] parse_int64_int_digits [OF assms(5)] by (metis option.inject)
qed

text \<open>
  What holds of a task after some turns, its generator at step \<open>n\<close>: \<open>us\<close> are the batches posted,
  without the replays.
\<close>

definition task_inv :: "string \<Rightarrow> metric_batch list \<Rightarrow> 'r task_state \<Rightarrow> bool" where
  "task_inv taskID us s \<longleftrightarrow>
     gn_TaskID (ts_gen s) = taskID \<and> 0 \<le> gn_step (ts_gen s) \<and>
     set us = set (ts_history s) \<and> distinct us \<and> (\<forall>b \<in> set us. made taskID (gn_step (ts_gen s)) b) \<and>
     (\<forall>b \<in> set us. \<forall>b' \<in> set us. b \<noteq> b' \<longrightarrow> batch_steps b \<inter> batch_steps b' = {}) \<and>
     set (es_batches (ts_expected s)) = batchFingerprint ` set us \<and>
     ex_TaskID (ts_expected s) = taskID \<and> tally (ts_expected s) (concat (map mb_Samples us)) \<and>
     sorted (ex_Keys (ts_expected s))"

lemma made_hd:
  assumes "made taskID n b" "n \<le> 2 ^ 62"
  shows "ms_Step (hd (mb_Samples b)) \<in> batch_steps b" "in_int64 (ms_Step (hd (mb_Samples b)))"
proof -
  show hd: "ms_Step (hd (mb_Samples b)) \<in> batch_steps b" using assms(1) by (auto simp: made_def batch_steps_def)
  then show "in_int64 (ms_Step (hd (mb_Samples b)))" using assms by (auto simp: made_def in_int64_def)
qed

lemma fingerprint_inj:
  assumes "made taskID n b" "made taskID n b'" "n \<le> 2 ^ 62" "b \<noteq> b' \<longrightarrow> batch_steps b \<inter> batch_steps b' = {}"
    and "batchFingerprint b = batchFingerprint b'"
  shows "b = b'"
  using fingerprint_first [OF assms(5)] made_hd [OF assms(1,3)] made_hd [OF assms(2,3)] assms(1,2,4)
  unfolding made_def by (metis disjoint_iff)

lemma post_inv:
  assumes "task_inv taskID us s" "ts_expected t = note_posted b (ts_expected s)" "ts_history t = ts_history s @ [b]"
    and "gn_TaskID (ts_gen t) = taskID" "gn_step (ts_gen s) \<le> gn_step (ts_gen t)" "gn_step (ts_gen t) \<le> 2 ^ 62"
    and "made taskID (gn_step (ts_gen t)) b" "\<forall>b' \<in> set us. b \<noteq> b' \<longrightarrow> batch_steps b \<inter> batch_steps b' = {}"
  shows "task_inv taskID (if b \<in> set us then us else us @ [b]) t"
proof -
  note I = assms(1) [unfolded task_inv_def]
  have made: "\<forall>b' \<in> set us. made taskID (gn_step (ts_gen t)) b'" using I made_mono assms(5) by blast
  have known: "batchFingerprint b \<in> set (es_batches (ts_expected s)) \<longleftrightarrow> b \<in> set us"
  proof
    assume "batchFingerprint b \<in> set (es_batches (ts_expected s))"
    then obtain b' where "b' \<in> set us" "batchFingerprint b = batchFingerprint b'" using I by auto
    then show "b \<in> set us" using fingerprint_inj [OF assms(7) _ assms(6)] made assms(8) by metis
  qed (use I in simp)
  show ?thesis
  proof (cases "b \<in> set us")
    case True
    then show ?thesis using I made known assms(2-5) by (auto simp: task_inv_def note_posted_def)
  next
    case False
    let ?e = "(ts_expected s)\<lparr>es_batches := batchFingerprint b # es_batches (ts_expected s)\<rparr>"
    have e: "ts_expected t = addExpected ?e b" using known False assms(2) by (simp add: note_posted_def)
    have "tally ?e (concat (map mb_Samples us))" using I by (simp add: tally_def)
    from tally_batch [OF this, of b] have "tally (ts_expected t) (concat (map mb_Samples (us @ [b])))"
      "sorted (ex_Keys (ts_expected t))" by (simp_all add: e)
    moreover have "\<forall>x \<in> set (us @ [b]). \<forall>y \<in> set (us @ [b]). x \<noteq> y \<longrightarrow> batch_steps x \<inter> batch_steps y = {}"
      using I assms(8) by auto
    moreover have "0 \<le> gn_step (ts_gen t)" using I assms(5) by linarith
    ultimately show ?thesis
      using I made False assms(3,4,7) by (simp add: task_inv_def e)
  qed
qed

lemma choose_cases:
  assumes "choose_batch ro cfg history b r = (b', r')" "\<And>n r. 0 < n \<Longrightarrow> fst (rn_Intn ro n r) < n"
  shows "b' = b \<or> b' \<in> set history"
proof (cases "history = []")
  case False
  then have "fst (rn_Intn ro (length history) r) < length history" for r by (intro assms(2)) simp
  then have "i < length history" if "rn_Intn ro (length history) r = (i, r2)" for i r r2
    using that by (metis fst_conv)
  then show ?thesis using assms(1) False
    by (auto simp: choose_batch_def split: prod.splits if_splits)
qed (use assms(1) in \<open>simp add: choose_batch_def\<close>)

text \<open>One turn: a new batch is generated, and it or a replayed one may be posted.\<close>

lemma turn_inv:
  assumes inv: "task_inv taskID us s" and gen: "NextBatch fo ro B (ts_gen s) = (b, g)"
    and choose: "choose_batch ro cfg (ts_history s) b (ts_rng s) = (b', r1)"
    and draws: "\<And>n r. 0 < n \<Longrightarrow> fst (rn_Intn ro n r) < n"
    and B: "1 \<le> B" "gn_step (ts_gen s) + B \<le> 2 ^ 62"
  shows "gn_step g = gn_step (ts_gen s) + B"
    and "task_inv taskID us (s\<lparr>ts_gen := g, ts_rng := r2\<rparr>)"
    and "task_inv taskID (if b' \<in> set us then us else us @ [b'])
      (s\<lparr>ts_gen := g, ts_rng := r2, ts_history := ts_history s @ [b'],
         ts_expected := note_posted b' (ts_expected s)\<rparr>)"
proof -
  note I = inv [unfolded task_inv_def]
  have bound: "gn_step (ts_gen s) + B < 2 ^ 63" using B(2) by simp
  have G: "mb_TaskID b = taskID" "map ms_Step (mb_Samples b) = [gn_step (ts_gen s)..gn_step (ts_gen s) + B - 1]"
    "gn_step g = gn_step (ts_gen s) + B" "gn_TaskID g = taskID"
    "\<forall>s \<in> set (mb_Samples b). ms_Metrics s \<noteq> [] \<and> go_map (ms_Metrics s)"
    using NextBatch_spec [OF gen B(1) _ bound] I by simp_all
  have steps: "batch_steps b = {gn_step (ts_gen s)..gn_step (ts_gen s) + B - 1}"
    using arg_cong [where f = set, OF G(2)] by (simp add: batch_steps_def)
  have new: "made taskID (gn_step g) b"
    using G I B(1) steps by (auto simp: made_def)
  let ?s1 = "s\<lparr>ts_gen := g, ts_rng := r2\<rparr>"
  show s1: "task_inv taskID us ?s1"
    using I G(3,4) made_mono B(1) by (fastforce simp: task_inv_def)
  have b': "b' = b \<or> b' \<in> set us" using choose_cases [OF choose draws] I by auto
  have "made taskID (gn_step g) b'" using b' new s1 by (auto simp: task_inv_def)
  moreover have "\<forall>y \<in> set us. b' \<noteq> y \<longrightarrow> batch_steps b' \<inter> batch_steps y = {}"
  proof (cases "b' \<in> set us")
    case True
    then show ?thesis using I by blast
  next
    case False
    then have "b' = b" using b' by blast
    moreover have "batch_steps y \<subseteq> {0..<gn_step (ts_gen s)}" if "y \<in> set us" for y
      using I that by (auto simp: made_def)
    ultimately show ?thesis using steps by fastforce
  qed
  ultimately show "task_inv taskID (if b' \<in> set us then us else us @ [b'])
      (?s1\<lparr>ts_history := ts_history s @ [b'], ts_expected := note_posted b' (ts_expected s)\<rparr>)"
    using G(3,4) B(2) by (intro post_inv [OF s1]) simp_all
  show "gn_step g = gn_step (ts_gen s) + B" by (rule G(3))
qed

lemma task_loop_inv:
  assumes "task_loop ff fo ro cfg ts s = (err, t)" "task_inv taskID us s"
    and "\<And>n r. 0 < n \<Longrightarrow> fst (rn_Intn ro n r) < n" "1 \<le> si_BatchSize cfg"
    and "gn_step (ts_gen s) + int (length ts) * si_BatchSize cfg \<le> 2 ^ 62"
  shows "\<exists>us'. task_inv taskID us' t \<and> gn_step (ts_gen t) \<le> gn_step (ts_gen s) + int (length ts) * si_BatchSize cfg"
  using assms(1,2,5)
proof (induction ts arbitrary: s us)
  case (Cons tn ts)
  let ?B = "si_BatchSize cfg"
  have grow: "int (length (tn # ts)) * ?B = int (length ts) * ?B + ?B" "0 \<le> int (length ts) * ?B"
    using assms(4) by (simp_all add: algebra_simps)
  show ?case
  proof (cases "tn_stop tn")
    case True
    then have "t = s" using Cons.prems(1) by simp
    then show ?thesis using Cons.prems(2) grow assms(4) by auto
  next
    case False
    obtain b g where gen: "NextBatch fo ro ?B (ts_gen s) = (b, g)" by fastforce
    obtain b' r1 where choose: "choose_batch ro cfg (ts_history s) b (ts_rng s) = (b', r1)" by fastforce
    obtain x r2 where draw: "rn_Float64 ro r1 = (x, r2)" by fastforce
    have "gn_step (ts_gen s) + ?B \<le> 2 ^ 62" using Cons.prems(3) grow by simp
    note turn = turn_inv [OF Cons.prems(2) gen choose assms(3,4) this]
    note G = turn(1) and s1 = turn(2) [of r2] and posted = turn(3) [of r2]
    let ?s1 = "s\<lparr>ts_gen := g, ts_rng := r2\<rparr>"
    have next_bound: "gn_step (ts_gen ?s1) + int (length ts) * ?B \<le> 2 ^ 62" using Cons.prems(3) grow G by simp
    have rest: ?thesis if "task_loop ff fo ro cfg ts u = (err, t)" "task_inv taskID us' u" "ts_gen u = g" for u us'
    proof -
      have "gn_step (ts_gen u) + int (length ts) * ?B \<le> 2 ^ 62" using next_bound that(3) by simp
      from Cons.IH [OF that(1,2) this] obtain us'' where "task_inv taskID us'' t"
        "gn_step (ts_gen t) \<le> gn_step (ts_gen u) + int (length ts) * ?B" by blast
      then show ?thesis using that(3) grow(1) G by (intro exI [of _ us''] conjI) simp_all
    qed
    have stop: ?thesis if "t = u" "task_inv taskID us' u" "ts_gen u = g" for u us'
      using that grow G by (intro exI [of _ us']) simp
    show ?thesis
    proof (cases "float_leq (si_FailureRate cfg) x")
      case False
      then have "t = ?s1 \<or> task_loop ff fo ro cfg ts ?s1 = (err, t)"
        using Cons.prems(1) \<open>\<not> tn_stop tn\<close> gen choose draw by (auto simp: Let_def split: if_splits)
      then show ?thesis using rest stop s1 by fastforce
    next
      case True
      show ?thesis
      proof (cases "postBatch ff (tn_send tn) b'")
        case (Some e)
        then have "t = ?s1" using Cons.prems(1) \<open>\<not> tn_stop tn\<close> gen choose draw True by (simp add: Let_def)
        then show ?thesis using stop s1 by fastforce
      next
        case None
        let ?s2 = "?s1\<lparr>ts_history := ts_history s @ [b'], ts_expected := note_posted b' (ts_expected s)\<rparr>"
        have "t = ?s2 \<or> task_loop ff fo ro cfg ts ?s2 = (err, t)"
          using Cons.prems(1) \<open>\<not> tn_stop tn\<close> gen choose draw True None by (auto simp: Let_def split: if_splits)
        then show ?thesis using rest stop posted by fastforce
      qed
    qed
  qed
qed auto

subsection \<open>The points of the batches\<close>

text \<open>The keys of the rows the database has for the samples of a task.\<close>

definition sample_keys :: "string \<Rightarrow> metric_sample list \<Rightarrow> (string \<times> string \<times> int \<times> int) list" where
  "sample_keys taskID xs =
     concat (map (\<lambda>s. map (\<lambda>(k, v). (taskID, k, ms_Step s, ms_TimestampMillis s)) (ms_Metrics s)) xs)"

definition samples_of :: "metric_batch list \<Rightarrow> metric_sample list" where
  "samples_of bs = concat (map mb_Samples bs)"

lemma sample_keys_set:
  "set (sample_keys taskID xs) =
     {(taskID, k, ms_Step s, ms_TimestampMillis s) |s k. s \<in> set xs \<and> k \<in> fst ` set (ms_Metrics s)}"
  by (force simp: sample_keys_def)

lemma sample_keys_length: "length (sample_keys taskID xs) = (\<Sum>s\<leftarrow>xs. length (ms_Metrics s))"
  by (simp add: sample_keys_def length_concat comp_def)

lemma sample_keys_distinct:
  assumes "distinct (map ms_Step xs)" "\<forall>s \<in> set xs. go_map (ms_Metrics s)"
  shows "distinct (sample_keys taskID xs)"
  using assms
proof (induction xs)
  case (Cons s xs)
  have "distinct (map (\<lambda>(k, v). (taskID, k, ms_Step s, ms_TimestampMillis s)) (ms_Metrics s))"
  proof -
    have "map (\<lambda>(k, v). (taskID, k, ms_Step s, ms_TimestampMillis s)) (ms_Metrics s)
        = map (\<lambda>k. (taskID, k, ms_Step s, ms_TimestampMillis s)) (map fst (ms_Metrics s))" by auto
    then show ?thesis using Cons.prems(2) by (simp add: distinct_map go_map_def inj_on_def del: map_map)
  qed
  moreover have "(a, b, ms_Step s, c) \<notin> set (sample_keys taskID xs)" for a b c
    using Cons.prems(1) by (auto simp: sample_keys_set)
  ultimately show ?case using Cons by (auto simp: sample_keys_def)
qed (simp add: sample_keys_def)

lemma samples_distinct:
  assumes "distinct us" "\<forall>b \<in> set us. distinct (map ms_Step (mb_Samples b))"
    and "\<forall>b \<in> set us. \<forall>b' \<in> set us. b \<noteq> b' \<longrightarrow> batch_steps b \<inter> batch_steps b' = {}"
  shows "distinct (map ms_Step (samples_of us))"
  using assms
proof (induction us)
  case (Cons b us)
  have "batch_steps b \<inter> batch_steps b' = {}" if "b' \<in> set us" for b'
    using Cons.prems(1,3) that by fastforce
  then have "set (map ms_Step (mb_Samples b)) \<inter> set (map ms_Step (samples_of us)) = {}"
    by (fastforce simp: samples_of_def batch_steps_def)
  then show ?case using Cons by (auto simp: samples_of_def)
qed (simp add: samples_of_def)

subsection \<open>The audit reply\<close>

text \<open>What the client reads of a reply of the audit handler.\<close>

definition audit_answer :: "(string \<times> audit_result) reply \<Rightarrow> audit_outcome" where
  "audit_answer r =
     (case r of
        ReplyJSON status (taskID, res) \<Rightarrow>
          AuditReply (int status) (Inr \<lparr>ar_TaskID = taskID, ar_PointCount = au_PointCount res,
            ar_DistinctSteps = au_DistinctSteps res, ar_FirstStep = au_FirstStep res,
            ar_LastStep = au_LastStep res, ar_Keys = au_Keys res, ar_MissingSteps = au_MissingSteps res\<rparr>)
      | ReplyError status code msg \<Rightarrow> AuditReply (int status) (Inl msg)
      | ReplyStatus status \<Rightarrow> AuditReply (int status) (Inl []))"

lemma image_pairs: "f ` {g s k |s k. P s k} = {f (g s k) |s k. P s k}"
  by blast

lemma union_pairs: "{k |s k. s \<in> A \<and> k \<in> K s} = (\<Union>s \<in> A. K s)"
  by blast

lemma int_sum_list: "int (\<Sum>s\<leftarrow>xs. f s) = (\<Sum>s\<leftarrow>xs. int (f s))"
  by (induction xs) simp_all

lemma audit_agrees:
  assumes "tally e xs" "xs \<noteq> []" "sorted (ex_Keys e)" "distinct (map ms_Step xs)"
    and "\<forall>s \<in> set xs. ms_Metrics s \<noteq> [] \<and> go_map (ms_Metrics s)"
    and "rows = filter (\<lambda>r. mr_task r = taskID) (pg_points db)" "distinct (map point_key rows)"
    and "point_key ` set rows = set (sample_keys taskID xs)"
    and "Max (ms_Step ` set xs) - Min (ms_Step ` set xs) \<le> 100000"
  shows "query_metric_audit taskID db =
    \<lparr>au_Exists = True, au_PointCount = ex_PointCount e, au_DistinctSteps = ex_DistinctSteps e,
     au_FirstStep = ex_FirstStep e, au_LastStep = ex_LastStep e, au_Keys = ex_Keys e,
     au_MissingSteps = ex_MissingSteps (expected_finish e)\<rparr>"
proof -
  note T = assms(1) [unfolded tally_def]
  have projections: "mr_step ` set rows = (\<lambda>(t, k, s, ts). s) ` set (sample_keys taskID xs)"
    "mr_key ` set rows = (\<lambda>(t, k, s, ts). k) ` set (sample_keys taskID xs)"
    unfolding assms(8) [symmetric] by (force simp: point_key_def)+
  have "(\<lambda>(t, k, s, ts). s) ` set (sample_keys taskID xs)
      = {ms_Step s |s k. s \<in> set xs \<and> k \<in> fst ` set (ms_Metrics s)}"
    unfolding sample_keys_set image_pairs by simp
  moreover have "\<exists>k. k \<in> fst ` set (ms_Metrics s)" if "s \<in> set xs" for s
    using assms(5) that by (cases "ms_Metrics s") force+
  then have "{ms_Step s |s k. s \<in> set xs \<and> k \<in> fst ` set (ms_Metrics s)} = {ms_Step s |s. s \<in> set xs}"
    by metis
  ultimately have steps: "mr_step ` set rows = ms_Step ` set xs"
    unfolding projections(1) by (simp only: Setcompr_eq_image)
  have "(\<lambda>(t, k, s, ts). k) ` set (sample_keys taskID xs)
      = {k |s k. s \<in> set xs \<and> k \<in> fst ` set (ms_Metrics s)}"
    unfolding sample_keys_set image_pairs by simp
  then have keys: "mr_key ` set rows = set (ex_Keys e)"
    unfolding projections(2) union_pairs using T by metis
  have rows_ne: "rows \<noteq> []" using steps assms(2) by auto
  have "length rows = card (point_key ` set rows)"
    using assms(7) distinct_card [of "map point_key rows"] by simp
  also have "... = length (sample_keys taskID xs)"
    unfolding assms(8) using sample_keys_distinct [OF assms(4)] assms(5) by (simp add: distinct_card)
  finally have count: "int (length rows) = ex_PointCount e"
    using T int_sum_list [of "\<lambda>s. length (ms_Metrics s)" xs] by (simp add: sample_keys_length)
  have "sorted (keys_of rows)" "distinct (keys_of rows)" "set (keys_of rows) = set (ex_Keys e)"
    using keys by (simp_all add: keys_of_def)
  moreover have "distinct (ex_Keys e)" using T by (elim conjE)
  ultimately have keys_eq: "keys_of rows = ex_Keys e"
    by (intro sorted_distinct_set_unique assms(3))
  have es: "set (es_steps e) = mr_step ` set rows" "distinct (es_steps e)" "ex_DistinctSteps e = int (length (es_steps e))"
    using T steps by simp_all
  then have distinct_count: "int (length (remdups (map mr_step rows))) = ex_DistinctSteps e"
    by (metis distinct_card length_remdups_card_conv set_map)
  have ends: "ex_FirstStep e = Some (Min (mr_step ` set rows))" "ex_LastStep e = Some (Max (mr_step ` set rows))"
    using T assms(2) steps by simp_all
  have missing: "ex_MissingSteps (expected_finish e) =
      filter (\<lambda>s. s \<notin> mr_step ` set rows) [Min (mr_step ` set rows)..Max (mr_step ` set rows)]"
    using T es(1) ends by (simp add: expected_finish_def expected.defs)
  have span: "Max (mr_step ` set rows) - Min (mr_step ` set rows) \<le> 100000" using assms(9) steps by simp
  show ?thesis
    unfolding query_metric_audit_def Let_def assms(6) [symmetric]
    using rows_ne count keys_eq distinct_count ends missing span by simp
qed

lemma audit_passes:
  assumes "query_metric_audit taskID db =
    \<lparr>au_Exists = True, au_PointCount = ex_PointCount e, au_DistinctSteps = ex_DistinctSteps e,
     au_FirstStep = ex_FirstStep e, au_LastStep = ex_LastStep e, au_Keys = ex_Keys e,
     au_MissingSteps = ex_MissingSteps (expected_finish e)\<rparr>"
    and "ex_TaskID e = taskID"
  shows "sa_Pass (compareAudit (audit_answer (ReplyJSON StatusOK (taskID, query_metric_audit taskID db)))
    (expectedResult (expected_finish e)))"
proof -
  have keep: "ex_TaskID (expected_finish e) = ex_TaskID e" "ex_PointCount (expected_finish e) = ex_PointCount e"
    "ex_DistinctSteps (expected_finish e) = ex_DistinctSteps e" "ex_FirstStep (expected_finish e) = ex_FirstStep e"
    "ex_LastStep (expected_finish e) = ex_LastStep e" "ex_Keys (expected_finish e) = ex_Keys e"
    by (simp_all add: expected_finish_def expected.defs split: option.splits)
  show ?thesis
    using assms by (simp add: audit_answer_def compareAudit_def expectedResult_def audit_differences_def
        equalStrings_def StatusOK_def keep Let_def)
qed

subsection \<open>A task and its audit\<close>

lemma run_task_inv:
  assumes "run_task ff fo ro cfg start ts index = (err, t)" "sim_Validate cfg = None"
    and "\<And>n r. 0 < n \<Longrightarrow> fst (rn_Intn ro n r) < n" "int (length ts) * si_BatchSize cfg \<le> 100000"
  shows "\<exists>us. task_inv (sim_task_id cfg index) us t \<and> gn_step (ts_gen t) \<le> 100000"
proof -
  let ?s = "\<lparr>ts_gen = NewGenerator fo ro (sim_task_id cfg index) start cfg (wrap64 (si_Seed cfg + int index)),
            ts_rng = rn_NewSource ro (wrap64 (si_Seed cfg + int index + 1000000)),
            ts_history = [], ts_expected = newExpectedState (sim_task_id cfg index)\<rparr>"
  have run: "task_loop ff fo ro cfg ts ?s = (err, t)" using assms(1) unfolding run_task_def Let_def .
  have zero: "gn_step (ts_gen ?s) = 0" "gn_TaskID (ts_gen ?s) = sim_task_id cfg index"
    by (simp_all add: NewGenerator_def Let_def)
  have inv: "task_inv (sim_task_id cfg index) [] ?s"
    using zero tally_new by (simp add: task_inv_def) (simp add: newExpectedState_def)
  have size: "1 \<le> si_BatchSize cfg" using assms(2) by (auto simp: sim_Validate_def split: if_splits)
  from task_loop_inv [OF run inv assms(3) size] zero assms(4) show ?thesis by fastforce
qed

subsection \<open>An example run\<close>

text \<open>Arithmetic that is always zero, a generator of zeros, one sample a batch, replays whenever possible.\<close>

definition zero_ops :: float_ops where
  "zero_ops = \<lparr>fo_add = (\<lambda>_ _. 0), fo_sub = (\<lambda>_ _. 0), fo_mul = (\<lambda>_ _. 0), fo_div = (\<lambda>_ _. 0),
     fo_exp = (\<lambda>_. 0), fo_cos = (\<lambda>_. 0), fo_mod = (\<lambda>_ _. 0), fo_lit = (\<lambda>_. 0), fo_int = (\<lambda>_. 0), fo_trunc = (\<lambda>_. 0)\<rparr>"

definition zero_rng :: "unit rng_ops" where
  "zero_rng = \<lparr>rn_NewSource = (\<lambda>_. ()), rn_Float64 = (\<lambda>_. (0, ())), rn_Intn = (\<lambda>_ _. (0, ()))\<rparr>"

definition example_sim :: "float64 \<Rightarrow> sim_config" where
  "example_sim failure =
     \<lparr>si_Endpoint = ''http'', si_Tasks = 1, si_Rate = float_one, si_Duration = 1, si_BatchSize = 1,
      si_TaskPrefix = ''sim'', si_EvalLoss = False, si_EvalEvery = 10, si_GPUUtil = False, si_GPUMem = False,
      si_Throughput = False, si_Seed = 1, si_DuplicateRate = float_one, si_FailureRate = failure,
      si_Audit = True, si_AuditTimeout = 0, si_AuditInterval = 0\<rparr>"

definition ok_turn :: turn where
  "ok_turn = \<lparr>tn_stop = False, tn_send = (\<lambda>_ _. Response 200 (Inr [])), tn_stop_after = False\<rparr>"

definition sim_batch :: metric_batch where
  "sim_batch = \<lparr>mb_TaskID = ''sim-0001'', mb_Samples =
     [\<lparr>ms_Step = 0, ms_TimestampMillis = 1, ms_Metrics = [(''loss'', 0), (''lr'', 0)]\<rparr>]\<rparr>"

definition sim_gen :: "float64 \<Rightarrow> int \<Rightarrow> unit generator" where
  "sim_gen failure n = \<lparr>gn_TaskID = ''sim-0001'', gn_step = n, gn_nextTS = n + 1, gn_interval = 1000000, gn_rng = (),
     gn_loss = 0, gn_gpuUtil = 0, gn_gpuMem = 0, gn_throughput = 0, gn_config = example_sim failure\<rparr>"

lemma example_generator: "NewGenerator zero_ops zero_rng ''sim-0001'' 1 (example_sim x) seed = sim_gen x 0"
  by (simp add: NewGenerator_def zero_ops_def zero_rng_def sim_gen_def millisecond_def)

lemma max_zero: "math_Max 0 0 = 0" by code_simp
lemma lr_zero: "learningRate zero_ops n = 0" by (simp add: learningRate_def zero_ops_def)

lemma example_NextBatch: "0 \<le> n \<Longrightarrow> n < 100 \<Longrightarrow> NextBatch zero_ops zero_rng 1 (sim_gen x n) =
   (\<lparr>mb_TaskID = ''sim-0001'', mb_Samples =
     [\<lparr>ms_Step = n, ms_TimestampMillis = n + 1, ms_Metrics = [(''loss'', 0), (''lr'', 0)]\<rparr>]\<rparr>, sim_gen x (n + 1))"
  using max_zero lr_zero [of n]
  by (simp add: NextBatch_def next_sample_def sim_gen_def example_sim_def put_eval_loss_def put_walk_def noise_def
    zero_ops_def zero_rng_def wrap64_id in_int64_def go_div_nonneg millisecond_def numeral_eq_Suc)

lemma example_compares: "float_less 0 float_one" "float_leq 0 0" "\<not> float_leq float_one 0"
  by code_simp+

lemma example_sim_id: "sim_task_id (example_sim x) 0 = ''sim-0001''"
proof -
  have "nat_digits (Suc 0) = ''1''" by code_simp
  then show ?thesis by (simp add: sim_task_id_def example_sim_def Let_def numeral_eq_Suc)
qed

lemma example_sim_valid: "sim_Validate (example_sim 0) = None"
  by code_simp

lemma example_request:
  obtains j where "request_json bits_format sim_batch = Some j" "length (json_print j) \<le> maxIngestBodyBytes"
proof -
  have "case request_json bits_format sim_batch of None \<Rightarrow> False | Some j \<Rightarrow> length (json_print j) \<le> 100"
    by code_simp
  then show ?thesis using that by (auto simp: maxIngestBodyBytes_def split: option.splits)
qed

lemma example_post: "postBatch bits_format (tn_send ok_turn) sim_batch = None"
proof (rule example_request)
  fix j assume "request_json bits_format sim_batch = Some j"
  then show ?thesis by (simp add: postBatch_def ok_turn_def)
qed

lemma example_replay:
  obtains t where "run_task bits_format zero_ops zero_rng (example_sim 0) 1 [ok_turn, ok_turn] 0 = (None, t)"
    "ts_history t = [sim_batch, sim_batch]"
proof -
  have first: "NextBatch zero_ops zero_rng 1 (sim_gen 0 0) = (sim_batch, sim_gen 0 1)"
    using example_NextBatch [of 0 0] by (simp add: sim_batch_def)
  have rates: "si_BatchSize (example_sim 0) = 1" "si_DuplicateRate (example_sim 0) = float_one"
    "si_FailureRate (example_sim 0) = 0" by (simp_all add: example_sim_def)
  have draws: "rn_Float64 zero_rng r = (0, ())" "rn_Intn zero_rng n r = (0, ())" for n r
    by (simp_all add: zero_rng_def)
  have turns: "\<not> tn_stop ok_turn" "\<not> tn_stop_after ok_turn" by (simp_all add: ok_turn_def)
  show ?thesis
    using that example_NextBatch [of 1 0]
    by (simp add: run_task_def Let_def example_sim_id example_generator choose_batch_def first rates draws turns
        example_compares example_post)
qed

text \<open>
  C36. What the simulator posts is ingested as it is: a batch the generator makes for a task of a
  valid configuration, within the range of steps and timestamps and with finite values, is accepted
  by the ingest handler when the body fits its limit, and the publisher is given, once, a batch of
  the same task with the same points in the same order.
\<close>

theorem simulated_batch_ingested:
  assumes "float_codec pf ff" "sim_Validate cfg = None" "length (nat_digits (Suc index)) \<le> 15"
    and "NextBatch fo ro (si_BatchSize cfg) g = (b, g')" "gn_TaskID g = sim_task_id cfg index"
    and "0 \<le> gn_step g" "gn_step g + si_BatchSize cfg \<le> 2 ^ 31"
    and "0 < gn_nextTS g" "millisecond \<le> gn_interval g"
    and "gn_nextTS g + si_BatchSize cfg * (gn_interval g div millisecond) \<le> 253402300799999"
    and "\<forall>s \<in> set (mb_Samples b). \<forall>(k, v) \<in> set (ms_Metrics s). float_finite v"
    and "request_json ff b = Some j" "length (json_print j) \<le> maxIngestBodyBytes"
    and "pmt ''application/json'' = Some ''application/json''"
  shows "\<exists>b'. batch_points b' = batch_points b \<and> mb_TaskID b' = mb_TaskID b \<and>
    IngestMetrics pmt pf (Some p) ''application/json'' (json_print j) w =
      (case p b' w of
         (None, w') \<Rightarrow> (ReplyJSON StatusOK \<lparr>io_accepted = length (mb_Samples b), io_task_id = mb_TaskID b\<rparr>, w')
       | (Some e, w') \<Rightarrow>
           (WriteError StatusServiceUnavailable ErrorCodeMQUnavailable ''message queue unavailable'', w'))"
proof -
  have size: "1 \<le> si_BatchSize cfg" "si_BatchSize cfg \<le> 500"
    using assms(2) by (auto simp: sim_Validate_def split: if_splits)
  have b: "spec_batch b"
    by (rule NextBatch_contract [OF assms(4) size _ assms(6-11)])
      (simp add: assms(5) sim_task_id_spec [OF assms(2,3)])
  from request_decodes [OF assms(1) b assms(12,13)]
  have "decoded_batch pmt pf ''application/json'' (json_print j) (key_ordered b)"
    using key_ordered_spec(1) [OF b] assms(14) by (auto simp: decoded_batch_def)
  from IngestMetrics_accepts [OF this, of p w, unfolded key_ordered_spec(3,4) [OF b]] show ?thesis
    using key_ordered_spec(2,3) [OF b] by blast
qed

lemma simulated_batch_ingested_witness:
  "\<exists>j b'. request_json bits_format sim_batch = Some j \<and> batch_points b' = batch_points sim_batch \<and>
    IngestMetrics Some bits_parse (Some (\<lambda>b w. (None, b # w))) ''application/json'' (json_print j) []
      = (ReplyJSON StatusOK \<lparr>io_accepted = 1, io_task_id = ''sim-0001''\<rparr>, [b'])"
proof -
  obtain j where j: "request_json bits_format sim_batch = Some j" "length (json_print j) \<le> maxIngestBodyBytes"
    by (rule example_request)
  have gen: "NextBatch zero_ops zero_rng (si_BatchSize (example_sim 0)) (sim_gen 0 0) = (sim_batch, sim_gen 0 1)"
    using example_NextBatch [of 0 0] by (simp add: sim_batch_def example_sim_def)
  have size: "length (nat_digits (Suc 0)) \<le> 15" by (simp add: nat_digits.simps)
  have id: "gn_TaskID (sim_gen 0 0) = sim_task_id (example_sim 0) 0" by (simp add: example_sim_id sim_gen_def)
  have ranges: "0 \<le> gn_step (sim_gen 0 0)" "gn_step (sim_gen 0 0) + si_BatchSize (example_sim 0) \<le> 2 ^ 31"
    "0 < gn_nextTS (sim_gen 0 0)" "millisecond \<le> gn_interval (sim_gen 0 0)"
    "gn_nextTS (sim_gen 0 0) + si_BatchSize (example_sim 0) * (gn_interval (sim_gen 0 0) div millisecond) \<le> 253402300799999"
    by (simp_all add: sim_gen_def example_sim_def millisecond_def)
  have fin: "\<forall>s \<in> set (mb_Samples sim_batch). \<forall>(k, v) \<in> set (ms_Metrics s). float_finite v"
    by (simp add: sim_batch_def float_finite_def float_exponent_def)
  from simulated_batch_ingested [OF float_codec_bits example_sim_valid size gen id ranges fin j,
      of Some "\<lambda>b w. (None, b # w)" "[]"]
  show ?thesis using j(1) by (auto simp: sim_batch_def)
qed

definition sim_db :: pg where
  "sim_db = (empty_pg [0])\<lparr>pg_points :=
     [\<lparr>mr_task = ''sim-0001'', mr_key = ''loss'', mr_step = 0, mr_ts = 1, mr_value = 0\<rparr>,
      \<lparr>mr_task = ''sim-0001'', mr_key = ''lr'', mr_step = 0, mr_ts = 1, mr_value = 0\<rparr>]\<rparr>"

text \<open>
  C31. The simulator's audit passes when nothing is lost: for a task that has posted something and
  generated at most 100000 samples, whatever was replayed, dropped or cut short, if the database
  holds exactly one row for each metric of each sample posted, the reply of the audit handler passes
  the comparison with the tally: points, distinct, first and last step, keys and missing steps agree.
\<close>

theorem simulation_audit_passes:
  assumes "run_task ff fo ro cfg start ts index = (err, t)" "sim_Validate cfg = None"
    and "\<And>n r. 0 < n \<Longrightarrow> fst (rn_Intn ro n r) < n" "int (length ts) * si_BatchSize cfg \<le> 100000"
    and "length (nat_digits (Suc index)) \<le> 15" "taskID = sim_task_id cfg index"
    and "ts_history t \<noteq> []" "rows = filter (\<lambda>r. mr_task r = taskID) (pg_points db)"
    and "distinct (map point_key rows)" "point_key ` set rows = set (sample_keys taskID (samples_of (ts_history t)))"
    and "repo taskID w = (Inr (query_metric_audit taskID db), w')"
  shows "\<exists>reply. GetAudit (Some repo) taskID w = (reply, w') \<and>
    sa_Pass (compareAudit (audit_answer reply) (expectedResult (expected_finish (ts_expected t))))"
proof -
  obtain us where inv: "task_inv taskID us t" and bound: "gn_step (ts_gen t) \<le> 100000"
    using run_task_inv [OF assms(1-4)] assms(6) by blast
  note I = inv [unfolded task_inv_def]
  let ?xs = "samples_of us"
  have made: "\<forall>b \<in> set us. distinct (map ms_Step (mb_Samples b))" "\<forall>b \<in> set us. mb_Samples b \<noteq> []"
    "\<forall>b \<in> set us. batch_steps b \<subseteq> {0..<gn_step (ts_gen t)}"
    "\<forall>b \<in> set us. \<forall>s \<in> set (mb_Samples b). ms_Metrics s \<noteq> [] \<and> go_map (ms_Metrics s)"
    using I unfolding made_def by blast+
  have xs: "?xs \<noteq> []" "distinct (map ms_Step ?xs)" "\<forall>s \<in> set ?xs. ms_Metrics s \<noteq> [] \<and> go_map (ms_Metrics s)"
    using I assms(7) made(2) made(4) samples_distinct [OF _ made(1)] by (force simp: samples_of_def)+
  have range: "ms_Step ` set ?xs \<subseteq> {0..<100000}"
    using made(3) bound by (fastforce simp: samples_of_def batch_steps_def)
  then have "Max (ms_Step ` set ?xs) \<in> {0..<100000}" "Min (ms_Step ` set ?xs) \<in> {0..<100000}"
    using xs(1) Max_in [of "ms_Step ` set ?xs"] Min_in [of "ms_Step ` set ?xs"] by blast+
  then have span: "Max (ms_Step ` set ?xs) - Min (ms_Step ` set ?xs) \<le> 100000" by simp
  have "set ?xs = set (samples_of (ts_history t))" using I by (simp add: samples_of_def)
  then have keys: "point_key ` set rows = set (sample_keys taskID ?xs)"
    using assms(10) by (simp add: sample_keys_set)
  have tally: "tally (ts_expected t) ?xs" "sorted (ex_Keys (ts_expected t))" "ex_TaskID (ts_expected t) = taskID"
    using I by (simp_all add: samples_of_def)
  note agrees = audit_agrees [OF tally(1) xs(1) tally(2) xs(2,3) assms(8,9) keys span]
  have "spec_task_id taskID" using sim_task_id_spec [OF assms(2,5)] assms(6) by simp
  then have "taskID \<noteq> [] \<and> http_taskIDPattern taskID \<and> length taskID \<le> http_maxTaskIDLength"
    using http_taskIDPattern_iff by blast
  then have "GetAudit (Some repo) taskID w = (ReplyJSON StatusOK (taskID, query_metric_audit taskID db), w')"
    using assms(11) agrees by (simp add: GetAudit_def audit_Query_def)
  then show ?thesis using audit_passes [OF agrees tally(3)] by blast
qed

lemma simulation_audit_passes_witness:
  "\<exists>t reply. run_task bits_format zero_ops zero_rng (example_sim 0) 1 [ok_turn, ok_turn] 0 = (None, t) \<and>
    ts_history t = [sim_batch, sim_batch] \<and> GetAudit (Some (\<lambda>task w. (Inr (query_metric_audit task sim_db), w))) ''sim-0001'' () = (reply, ()) \<and>
    sa_Pass (compareAudit (audit_answer reply) (expectedResult (expected_finish (ts_expected t))))"
proof -
  obtain t where t: "run_task bits_format zero_ops zero_rng (example_sim 0) 1 [ok_turn, ok_turn] 0 = (None, t)"
    "ts_history t = [sim_batch, sim_batch]" by (rule example_replay)
  have rng: "0 < n \<Longrightarrow> fst (rn_Intn zero_rng n r) < n" for n r by (simp add: zero_rng_def)
  have small: "int (length [ok_turn, ok_turn]) * si_BatchSize (example_sim 0) \<le> 100000"
    "length (nat_digits (Suc 0)) \<le> 15" by (simp_all add: example_sim_def nat_digits.simps)
  have rows: "filter (\<lambda>r. mr_task r = ''sim-0001'') (pg_points sim_db) = pg_points sim_db"
    "distinct (map point_key (pg_points sim_db))"
    "point_key ` set (pg_points sim_db) = set (sample_keys ''sim-0001'' (samples_of (ts_history t)))"
    by (auto simp: sim_db_def empty_pg_def point_key_def t(2) samples_of_def sample_keys_def sim_batch_def)
  from simulation_audit_passes [OF t(1) example_sim_valid rng small example_sim_id [symmetric] _ rows(1) [symmetric]
      rows(2,3), of "\<lambda>task w. (Inr (query_metric_audit task sim_db), w)" "()" "()"] t
  show ?thesis by auto
qed

text \<open>
  C39. A task whose every request was dropped fails its audit, although nothing was lost: with a
  failure rate of one, which \<open>Validate\<close> accepts, no request is made and the run reports no failed
  task, but the audit handler answers 404 for a task without rows and the audit result is a failure.
\<close>

theorem dropped_task_fails_audit:
  assumes "run_task ff fo ro cfg start ts index = (err, t)"
    and "\<And>r. \<not> float_leq (si_FailureRate cfg) (fst (rn_Float64 ro r))"
    and "taskID = sim_task_id cfg index" "spec_task_id taskID"
    and "filter (\<lambda>r. mr_task r = taskID) (pg_points db) = []"
    and "repo taskID w = (Inr (query_metric_audit taskID db), w')"
  shows "err = None \<and> ts_history t = [] \<and> ex_PointCount (ts_expected t) = 0 \<and>
    (\<exists>reply. GetAudit (Some repo) taskID w = (reply, w') \<and> reply_status reply = 404 \<and>
      \<not> sa_Pass (compareAudit (audit_answer reply) (expectedResult (expected_finish (ts_expected t)))))"
proof -
  have idle: "task_loop ff fo ro cfg ts s = (err, t) \<Longrightarrow>
      err = None \<and> ts_history t = ts_history s \<and> ts_expected t = ts_expected s" for s
  proof (induction ts arbitrary: s)
    case (Cons tn ts)
    show ?case
    proof (cases "tn_stop tn")
      case False
      obtain b g where gen: "NextBatch fo ro (si_BatchSize cfg) (ts_gen s) = (b, g)" by fastforce
      obtain b' r1 where choose: "choose_batch ro cfg (ts_history s) b (ts_rng s) = (b', r1)" by fastforce
      obtain x r2 where draw: "rn_Float64 ro r1 = (x, r2)" by fastforce
      have "\<not> float_leq (si_FailureRate cfg) x" using assms(2) [of r1] draw by simp
      then show ?thesis
        using Cons.IH [of "s\<lparr>ts_gen := g, ts_rng := r2\<rparr>"] Cons.prems False gen choose draw
        by (auto simp: Let_def split: if_splits)
    qed (use Cons.prems in simp)
  qed simp
  have "task_loop ff fo ro cfg ts
      \<lparr>ts_gen = NewGenerator fo ro taskID start cfg (wrap64 (si_Seed cfg + int index)),
       ts_rng = rn_NewSource ro (wrap64 (si_Seed cfg + int index + 1000000)),
       ts_history = [], ts_expected = newExpectedState taskID\<rparr> = (err, t)"
    using assms(1) unfolding run_task_def Let_def assms(3) .
  from idle [OF this] have "err = None \<and> ts_history t = [] \<and> ts_expected t = newExpectedState taskID"
    by simp
  moreover have "taskID \<noteq> [] \<and> http_taskIDPattern taskID \<and> length taskID \<le> http_maxTaskIDLength"
    using http_taskIDPattern_iff assms(4) by blast
  moreover have "\<not> au_Exists (query_metric_audit taskID db)"
    using assms(5) by (simp add: query_metric_audit_def Let_def)
  ultimately show ?thesis
    using assms(6)
    by (simp add: GetAudit_def audit_Query_def newExpectedState_def WriteError_def StatusNotFound_def
        audit_answer_def compareAudit_def expectedResult_def Let_def)
qed

lemma dropped_task_fails_audit_witness:
  "\<exists>t reply. run_task bits_format zero_ops zero_rng (example_sim float_one) 1 [ok_turn] 0 = (None, t) \<and>
    sim_Validate (example_sim float_one) = None \<and>
    GetAudit (Some (\<lambda>task w. (Inr (query_metric_audit task (empty_pg [])), w))) ''sim-0001'' () = (reply, ()) \<and>
    \<not> sa_Pass (compareAudit (audit_answer reply) (expectedResult (expected_finish (ts_expected t))))"
proof -
  obtain err t where t: "run_task bits_format zero_ops zero_rng (example_sim float_one) 1 [ok_turn] 0 = (err, t)"
    by fastforce
  have never: "\<not> float_leq (si_FailureRate (example_sim float_one)) (fst (rn_Float64 zero_rng r))" for r
    using example_compares(3) by (simp add: example_sim_def zero_rng_def)
  have valid: "sim_Validate (example_sim float_one) = None" by code_simp
  have "length (nat_digits (Suc 0)) \<le> 15" by (simp add: nat_digits.simps)
  from sim_task_id_spec [OF valid this] have id: "spec_task_id ''sim-0001''" by (simp add: example_sim_id)
  have "filter (\<lambda>r. mr_task r = ''sim-0001'') (pg_points (empty_pg [])) = []" by (simp add: empty_pg_def)
  from dropped_task_fails_audit [OF t never example_sim_id [symmetric] id this,
      of "\<lambda>task w. (Inr (query_metric_audit task (empty_pg [])), w)" "()" "()"] t valid
  show ?thesis by auto
qed

end
