(* ===== verification/Config.thy ===== *)
theory Config
  imports Environment Publisher Consumer Relay Realtime Maintenance
begin

section \<open>Configuration\<close>

text \<open>
  \<open>internal/config/config.go\<close>: \<open>Load\<close> and \<open>Validate\<close>, and the settings the \<open>runService\<close> of
  \<open>internal/app/api/run.go\<close> and \<open>internal/app/worker/run.go\<close> build from a configuration for the
  constructors of the components.
\<close>

subsection \<open>The struct and its defaults\<close>

record config =
  cf_ServiceName :: string
  cf_InstanceID :: string
  cf_HTTPAddr :: string
  cf_AdminAddr :: string
  cf_ShutdownTimeout :: duration
  cf_LogLevel :: string
  cf_DatabaseURL :: string
  cf_AMQPURL :: string
  cf_AMQPPublishers :: int
  cf_AMQPWriteTimeout :: duration
  cf_AMQPConfirmTimeout :: duration
  cf_AMQPPublishMaxAttempts :: int
  cf_AMQPPublishInitialBackoff :: duration
  cf_AMQPPublishMaxBackoff :: duration
  cf_RetentionWindow :: duration
  cf_PartitionMaintenanceInterval :: duration
  cf_WorkerConsumerPrefetch :: int
  cf_WorkerConsumerBatchMax :: int
  cf_WorkerConsumerFlushInterval :: duration

definition defaultShutdownTimeout :: duration where "defaultShutdownTimeout = 15 * second"
definition defaultAMQPPublishers :: int where "defaultAMQPPublishers = 1"
definition defaultAMQPWriteTimeout :: duration where "defaultAMQPWriteTimeout = 5 * second"
definition defaultAMQPConfirmTimeout :: duration where "defaultAMQPConfirmTimeout = 5 * second"
definition defaultAMQPPublishMaxAttempts :: int where "defaultAMQPPublishMaxAttempts = 3"
definition defaultAMQPPublishInitialBackoff :: duration where
  "defaultAMQPPublishInitialBackoff = 100 * millisecond"
definition defaultAMQPPublishMaxBackoff :: duration where "defaultAMQPPublishMaxBackoff = second"
definition defaultRetentionWindow :: duration where "defaultRetentionWindow = 168 * hour"
definition defaultPartitionMaintenanceInterval :: duration where
  "defaultPartitionMaintenanceInterval = hour"
definition defaultWorkerConsumerPrefetch :: int where "defaultWorkerConsumerPrefetch = 500"
definition defaultWorkerConsumerBatchMax :: int where "defaultWorkerConsumerBatchMax = 500"
definition defaultWorkerConsumerFlushInterval :: duration where
  "defaultWorkerConsumerFlushInterval = 100 * millisecond"

lemmas config_defaults =
  defaultShutdownTimeout_def defaultAMQPPublishers_def defaultAMQPWriteTimeout_def
  defaultAMQPConfirmTimeout_def defaultAMQPPublishMaxAttempts_def defaultAMQPPublishInitialBackoff_def
  defaultAMQPPublishMaxBackoff_def defaultRetentionWindow_def defaultPartitionMaintenanceInterval_def
  defaultWorkerConsumerPrefetch_def defaultWorkerConsumerBatchMax_def defaultWorkerConsumerFlushInterval_def

subsection \<open>Reading the environment\<close>

definition stringEnv :: "environment \<Rightarrow> string \<Rightarrow> string \<Rightarrow> string" where
  "stringEnv env name fallback = (case env name of None \<Rightarrow> fallback | Some value \<Rightarrow> value)"

definition durationEnv ::
  "(nat \<Rightarrow> nat \<Rightarrow> nat \<Rightarrow> nat) \<Rightarrow> environment \<Rightarrow> string \<Rightarrow> duration \<Rightarrow> go_error + duration" where
  "durationEnv frac env name fallback =
     (case env name of
        None \<Rightarrow> Inr fallback
      | Some value \<Rightarrow>
          (case ParseDuration frac value of
             None \<Rightarrow> Inl (ErrWrap (''parse '' @ name) [ErrNew ''time: invalid duration''])
           | Some d \<Rightarrow> Inr d))"

definition intEnv :: "environment \<Rightarrow> string \<Rightarrow> int \<Rightarrow> go_error + int" where
  "intEnv env name fallback =
     (case env name of
        None \<Rightarrow> Inr fallback
      | Some value \<Rightarrow>
          (case parse_int64 value of
             None \<Rightarrow> Inl (ErrWrap (''parse '' @ name) [ErrNew ''strconv.Atoi''])
           | Some i \<Rightarrow> Inr i))"

definition requiresAMQP :: "string \<Rightarrow> bool" where
  "requiresAMQP serviceName \<longleftrightarrow> serviceName = ''api'' \<or> serviceName = ''worker''"

definition requiresDatabase :: "string \<Rightarrow> bool" where
  "requiresDatabase serviceName \<longleftrightarrow> serviceName = ''worker'' \<or> serviceName = ''api''"

subsection \<open>Validate\<close>

definition config_Validate :: "config \<Rightarrow> go_error option" where
  "config_Validate c =
     (if trim_space (cf_ServiceName c) = [] then Some (ErrNew ''SERVICE_NAME must not be empty'')
      else if trim_space (cf_InstanceID c) = [] then Some (ErrNew ''INSTANCE_ID must not be empty'')
      else if trim_space (cf_HTTPAddr c) = [] then Some (ErrNew ''HTTP_ADDR must not be empty'')
      else if trim_space (cf_AdminAddr c) = [] then Some (ErrNew ''ADMIN_ADDR must not be empty'')
      else if cf_ShutdownTimeout c \<le> 0
        then Some (ErrNew ''SHUTDOWN_TIMEOUT must be greater than zero'')
      else if requiresAMQP (cf_ServiceName c) \<and> trim_space (cf_AMQPURL c) = []
        then Some (ErrNew (''AMQP_URL must not be empty for '' @ cf_ServiceName c))
      else if requiresDatabase (cf_ServiceName c) \<and> trim_space (cf_DatabaseURL c) = []
        then Some (ErrNew (''DATABASE_URL must not be empty for '' @ cf_ServiceName c))
      else if cf_AMQPPublishers c \<le> 0 then Some (ErrNew ''AMQP_PUBLISHERS must be greater than zero'')
      else if cf_AMQPWriteTimeout c \<le> 0
        then Some (ErrNew ''AMQP_WRITE_TIMEOUT must be greater than zero'')
      else if cf_AMQPConfirmTimeout c \<le> 0
        then Some (ErrNew ''AMQP_CONFIRM_TIMEOUT must be greater than zero'')
      else if cf_AMQPPublishMaxAttempts c \<le> 0
        then Some (ErrNew ''AMQP_PUBLISH_MAX_ATTEMPTS must be greater than zero'')
      else if cf_AMQPPublishInitialBackoff c \<le> 0
        then Some (ErrNew ''AMQP_PUBLISH_INITIAL_BACKOFF must be greater than zero'')
      else if cf_AMQPPublishMaxBackoff c < cf_AMQPPublishInitialBackoff c
        then Some (ErrNew ''AMQP_PUBLISH_MAX_BACKOFF must be greater than or equal to AMQP_PUBLISH_INITIAL_BACKOFF'')
      else if cf_RetentionWindow c \<noteq> defaultRetentionWindow
        then Some (ErrNew ''RETENTION_WINDOW must equal 168h0m0s'')
      else if cf_PartitionMaintenanceInterval c \<le> 0
        then Some (ErrNew ''PARTITION_MAINTENANCE_INTERVAL must be greater than zero'')
      else if cf_WorkerConsumerPrefetch c \<le> 0
        then Some (ErrNew ''WORKER_CONSUMER_PREFETCH must be greater than zero'')
      else if cf_WorkerConsumerBatchMax c \<le> 0
        then Some (ErrNew ''WORKER_CONSUMER_BATCH_MAX must be greater than zero'')
      else if cf_WorkerConsumerFlushInterval c \<le> 0
        then Some (ErrNew ''WORKER_CONSUMER_FLUSH_INTERVAL must be greater than zero'')
      else if cf_LogLevel c \<in> {''debug'', ''info'', ''warn'', ''error''} then None
      else Some (ErrNew ''LOG_LEVEL must be one of debug, info, warn, or error''))"

subsection \<open>Load\<close>

text \<open>The error returns of \<open>Load\<close> are those of the \<open>Inl\<close> case of each reading, in its order.\<close>

definition or_err :: "go_error + 'a \<Rightarrow> ('a \<Rightarrow> go_error + 'b) \<Rightarrow> go_error + 'b" where
  "or_err r k = (case r of Inl err \<Rightarrow> Inl err | Inr x \<Rightarrow> k x)"

lemma or_err_Inr [simp]: "or_err r k = Inr y \<longleftrightarrow> (\<exists>x. r = Inr x \<and> k x = Inr y)"
  by (cases r) (auto simp: or_err_def)

definition config_Load ::
  "(nat \<Rightarrow> nat \<Rightarrow> nat \<Rightarrow> nat) \<Rightarrow> loaded_env \<Rightarrow> string \<Rightarrow> go_error + config" where
  "config_Load frac loaded defaultServiceName =
     (let env = le_env loaded in
      case le_error loaded of
        Some (err, False) \<Rightarrow> Inl (ErrWrap ''load .env'' [err])
      | _ \<Rightarrow>
        or_err (durationEnv frac env ''SHUTDOWN_TIMEOUT'' defaultShutdownTimeout) (\<lambda>shutdownTimeout.
        or_err (durationEnv frac env ''AMQP_WRITE_TIMEOUT'' defaultAMQPWriteTimeout) (\<lambda>amqpWriteTimeout.
        or_err (durationEnv frac env ''AMQP_CONFIRM_TIMEOUT'' defaultAMQPConfirmTimeout) (\<lambda>amqpConfirmTimeout.
        or_err (durationEnv frac env ''AMQP_PUBLISH_INITIAL_BACKOFF'' defaultAMQPPublishInitialBackoff)
          (\<lambda>amqpPublishInitialBackoff.
        or_err (durationEnv frac env ''AMQP_PUBLISH_MAX_BACKOFF'' defaultAMQPPublishMaxBackoff)
          (\<lambda>amqpPublishMaxBackoff.
        or_err (durationEnv frac env ''RETENTION_WINDOW'' defaultRetentionWindow) (\<lambda>retentionWindow.
        or_err (durationEnv frac env ''PARTITION_MAINTENANCE_INTERVAL'' defaultPartitionMaintenanceInterval)
          (\<lambda>partitionMaintenanceInterval.
        or_err (durationEnv frac env ''WORKER_CONSUMER_FLUSH_INTERVAL'' defaultWorkerConsumerFlushInterval)
          (\<lambda>workerConsumerFlushInterval.
        or_err (intEnv env ''AMQP_PUBLISHERS'' defaultAMQPPublishers) (\<lambda>amqpPublishers.
        or_err (intEnv env ''AMQP_PUBLISH_MAX_ATTEMPTS'' defaultAMQPPublishMaxAttempts)
          (\<lambda>amqpPublishMaxAttempts.
        or_err (intEnv env ''WORKER_CONSUMER_PREFETCH'' defaultWorkerConsumerPrefetch)
          (\<lambda>workerConsumerPrefetch.
        or_err (intEnv env ''WORKER_CONSUMER_BATCH_MAX'' defaultWorkerConsumerBatchMax)
          (\<lambda>workerConsumerBatchMax.
          (let cfg = \<lparr>cf_ServiceName = stringEnv env ''SERVICE_NAME'' defaultServiceName,
                 cf_InstanceID = stringEnv env ''INSTANCE_ID'' ''local'',
                 cf_HTTPAddr = stringEnv env ''HTTP_ADDR'' '':8080'',
                 cf_AdminAddr = stringEnv env ''ADMIN_ADDR'' '':8081'',
                 cf_ShutdownTimeout = shutdownTimeout,
                 cf_LogLevel = to_lower (stringEnv env ''LOG_LEVEL'' ''info''),
                 cf_DatabaseURL = stringEnv env ''DATABASE_URL'' [],
                 cf_AMQPURL = stringEnv env ''AMQP_URL'' [],
                 cf_AMQPPublishers = amqpPublishers,
                 cf_AMQPWriteTimeout = amqpWriteTimeout,
                 cf_AMQPConfirmTimeout = amqpConfirmTimeout,
                 cf_AMQPPublishMaxAttempts = amqpPublishMaxAttempts,
                 cf_AMQPPublishInitialBackoff = amqpPublishInitialBackoff,
                 cf_AMQPPublishMaxBackoff = amqpPublishMaxBackoff,
                 cf_RetentionWindow = retentionWindow,
                 cf_PartitionMaintenanceInterval = partitionMaintenanceInterval,
                 cf_WorkerConsumerPrefetch = workerConsumerPrefetch,
                 cf_WorkerConsumerBatchMax = workerConsumerBatchMax,
                 cf_WorkerConsumerFlushInterval = workerConsumerFlushInterval\<rparr>
           in case config_Validate cfg of Some err \<Rightarrow> Inl err | None \<Rightarrow> Inr cfg))))))))))))))"

subsection \<open>What the processes build from it\<close>

definition runtimeInstanceID :: "config \<Rightarrow> string" where
  "runtimeInstanceID cfg = (if cf_InstanceID cfg \<noteq> [] then cf_InstanceID cfg else ''api'')"

definition api_bridge_config :: "config \<Rightarrow> bridge_config" where
  "api_bridge_config cfg =
     \<lparr>bc_URL = cf_AMQPURL cfg, bc_InstanceID = runtimeInstanceID cfg, bc_Topology = zero_topology,
      bc_SinkFailureBackoff = 0, bc_SinkFailureMaxBackoff = 0, bc_ReconnectBackoff = 0, bc_ReconnectMaxBackoff = 0\<rparr>"

definition api_publisher_config :: "config \<Rightarrow> publisher_config" where
  "api_publisher_config cfg =
     \<lparr>pc_URL = cf_AMQPURL cfg, pc_Publishers = cf_AMQPPublishers cfg,
      pc_WriteTimeout = cf_AMQPWriteTimeout cfg, pc_ConfirmTimeout = cf_AMQPConfirmTimeout cfg,
      pc_MaxAttempts = cf_AMQPPublishMaxAttempts cfg, pc_InitialBackoff = cf_AMQPPublishInitialBackoff cfg,
      pc_MaxBackoff = cf_AMQPPublishMaxBackoff cfg, pc_Topology = zero_topology\<rparr>"

definition worker_event_publisher_config :: "config \<Rightarrow> event_publisher_config" where
  "worker_event_publisher_config cfg =
     \<lparr>ec_URL = cf_AMQPURL cfg, ec_WriteTimeout = 0, ec_ConfirmTimeout = cf_AMQPConfirmTimeout cfg,
      ec_Topology = zero_topology\<rparr>"

definition worker_relay_config :: relay_config where
  "worker_relay_config =
     \<lparr>rc_BatchSize = 0, rc_PollInterval = 0, rc_LeaseDuration = 0, rc_InitialBackoff = 0, rc_MaxBackoff = 0\<rparr>"

definition worker_consumer_config :: "config \<Rightarrow> consumer_config" where
  "worker_consumer_config cfg =
     \<lparr>cc_URL = cf_AMQPURL cfg, cc_Prefetch = cf_WorkerConsumerPrefetch cfg,
      cc_BatchMax = cf_WorkerConsumerBatchMax cfg, cc_FlushInterval = cf_WorkerConsumerFlushInterval cfg,
      cc_FailureBackoff = 0, cc_FailureMaxBackoff = 0, cc_ReconnectBackoff = 0, cc_ReconnectMaxBackoff = 0,
      cc_ShutdownTimeout = cf_ShutdownTimeout cfg, cc_Topology = zero_topology, cc_ConsumerTag = []\<rparr>"

end
