(* ===== verification/ConfigProps.thy ===== *)
theory ConfigProps
  imports Config
begin

section \<open>Properties of the configuration\<close>

text \<open>
  A configuration that \<open>Load\<close> returns is one every component accepts: no constructor of a process
  fails on a value \<open>Validate\<close> has let through, and the values reach the components unchanged.
\<close>

definition config_ok :: "config \<Rightarrow> bool" where
  "config_ok c \<longleftrightarrow>
     cf_InstanceID c \<noteq> [] \<and> 0 < cf_ShutdownTimeout c \<and>
     (cf_ServiceName c \<in> {''api'', ''worker''} \<longrightarrow> cf_AMQPURL c \<noteq> [] \<and> cf_DatabaseURL c \<noteq> []) \<and>
     0 < cf_AMQPPublishers c \<and> 0 < cf_AMQPWriteTimeout c \<and> 0 < cf_AMQPConfirmTimeout c \<and>
     0 < cf_AMQPPublishMaxAttempts c \<and> 0 < cf_AMQPPublishInitialBackoff c \<and>
     cf_AMQPPublishInitialBackoff c \<le> cf_AMQPPublishMaxBackoff c \<and>
     cf_RetentionWindow c = 168 * hour \<and> 0 < cf_PartitionMaintenanceInterval c \<and>
     0 < cf_WorkerConsumerPrefetch c \<and> 0 < cf_WorkerConsumerBatchMax c \<and>
     0 < cf_WorkerConsumerFlushInterval c"

lemma trim_space_nonempty: "trim_space s \<noteq> [] \<Longrightarrow> s \<noteq> []"
  by auto

lemma Validate_ok:
  assumes "config_Validate c = None"
  shows "config_ok c"
  using assms trim_space_nonempty
  unfolding config_Validate_def config_ok_def requiresAMQP_def requiresDatabase_def defaultRetentionWindow_def
  by (auto split: if_splits)

lemma Load_validated:
  assumes "config_Load frac loaded service = Inr cfg"
  shows "config_Validate cfg = None"
proof -
  have last: "(case config_Validate c of Some err \<Rightarrow> Inl err | None \<Rightarrow> Inr c) = Inr cfg \<Longrightarrow> config_Validate cfg = None" for c
    by (auto split: option.splits)
  show ?thesis
    using assms unfolding config_Load_def Let_def
    by (auto split: option.splits bool.splits dest!: last)
qed

lemma Load_ok: "config_Load frac loaded service = Inr cfg \<Longrightarrow> config_ok cfg"
  by (rule Validate_ok) (rule Load_validated)

subsection \<open>The components start\<close>

lemma topology_default [simp]: "or_default_topology zero_topology = DefaultTopology"
  by (simp add: or_default_topology_def)

lemma api_bridge_accepted:
  assumes "config_ok cfg" "cf_AMQPURL cfg \<noteq> []"
  shows "\<exists>b. NewRabbitMQMetricEventBridge (api_bridge_config cfg) False = Inr b \<and>
    bc_InstanceID b = cf_InstanceID cfg \<and> bc_Topology b = DefaultTopology"
  using assms
  by (simp add: NewRabbitMQMetricEventBridge_def api_bridge_config_def runtimeInstanceID_def config_ok_def
      or_default_def Let_def duration_defs)

lemma api_publisher_accepted:
  assumes "config_ok cfg" "cf_AMQPURL cfg \<noteq> []"
  shows "NewRabbitMQMetricBatchPublisher (api_publisher_config cfg)
    = Inr ((api_publisher_config cfg)\<lparr>pc_Topology := DefaultTopology\<rparr>)"
  using assms
  by (simp add: NewRabbitMQMetricBatchPublisher_def publisher_withDefaults_def publisher_validate_def
      api_publisher_config_def config_ok_def or_default_def Let_def)

lemma worker_publisher_accepted:
  assumes "config_ok cfg" "cf_AMQPURL cfg \<noteq> []"
  shows "\<exists>p. NewRabbitMQMetricEventPublisher (worker_event_publisher_config cfg) = Inr p \<and>
    ec_ConfirmTimeout p = cf_AMQPConfirmTimeout cfg \<and> ec_WriteTimeout p = 5 * second"
  using assms
  by (simp add: NewRabbitMQMetricEventPublisher_def worker_event_publisher_config_def config_ok_def)

lemma worker_consumer_accepted:
  assumes "config_ok cfg" "cf_AMQPURL cfg \<noteq> []"
  shows "\<exists>c. NewRabbitMQMetricConsumer (worker_consumer_config cfg) False = Inr c \<and>
    cc_Prefetch c = cf_WorkerConsumerPrefetch cfg \<and> cc_BatchMax c = cf_WorkerConsumerBatchMax cfg \<and>
    cc_FlushInterval c = cf_WorkerConsumerFlushInterval cfg \<and> cc_ShutdownTimeout c = cf_ShutdownTimeout cfg"
  using assms
  by (simp add: NewRabbitMQMetricConsumer_def consumer_withDefaults_def consumer_validate_def
      worker_consumer_config_def config_ok_def or_default_def Let_def duration_defs)

lemma worker_relay_accepted: "\<exists>r. NewOutboxRelay worker_relay_config False False = Inr r"
  by (simp add: NewOutboxRelay_def worker_relay_config_def or_default_def Let_def duration_defs)

lemma worker_maintenance_accepted:
  assumes "config_ok cfg"
  shows "RunPartitionMaintenance turns (cf_RetentionWindow cfg) (cf_PartitionMaintenanceInterval cfg) 10000 runs db
    = run_maintenance turns 604800000 10000 runs db"
  using assms by (simp add: RunPartitionMaintenance_def config_ok_def duration_defs)

text \<open>
  C35. A loaded configuration starts every component: when \<open>Load\<close> returns a configuration for the
  service \<open>api\<close> or \<open>worker\<close>, none of the constructors of that process refuses the settings built
  from it; the batch publisher runs with exactly the configured counts, timeouts and backoffs, the
  consumer with the configured counts and times, and the maintenance loop with the retention of seven
  days (604800000 milliseconds). The event publisher of the worker runs with the configured confirm
  timeout, but not with the configured write timeout: the worker does not pass it on, so it is
  5 seconds whatever \<open>AMQP_WRITE_TIMEOUT\<close> says.
\<close>

theorem config_starts_components:
  assumes "config_Load frac loaded service = Inr cfg" "cf_ServiceName cfg \<in> {''api'', ''worker''}"
  shows "(\<exists>b. NewRabbitMQMetricEventBridge (api_bridge_config cfg) False = Inr b \<and>
      bc_InstanceID b = cf_InstanceID cfg) \<and>
    NewRabbitMQMetricBatchPublisher (api_publisher_config cfg)
      = Inr ((api_publisher_config cfg)\<lparr>pc_Topology := DefaultTopology\<rparr>) \<and>
    (\<exists>p. NewRabbitMQMetricEventPublisher (worker_event_publisher_config cfg) = Inr p \<and>
      ec_ConfirmTimeout p = cf_AMQPConfirmTimeout cfg \<and> ec_WriteTimeout p = 5 * second) \<and>
    (\<exists>r. NewOutboxRelay worker_relay_config False False = Inr r) \<and>
    (\<exists>c. NewRabbitMQMetricConsumer (worker_consumer_config cfg) False = Inr c \<and>
      cc_Prefetch c = cf_WorkerConsumerPrefetch cfg \<and> cc_BatchMax c = cf_WorkerConsumerBatchMax cfg \<and>
      cc_FlushInterval c = cf_WorkerConsumerFlushInterval cfg \<and> cc_ShutdownTimeout c = cf_ShutdownTimeout cfg) \<and>
    (\<forall>turns runs db. RunPartitionMaintenance turns (cf_RetentionWindow cfg) (cf_PartitionMaintenanceInterval cfg)
      10000 runs db = run_maintenance turns 604800000 10000 runs db)"
proof -
  have ok: "config_ok cfg" by (rule Load_ok [OF assms(1)])
  then have url: "cf_AMQPURL cfg \<noteq> []" using assms(2) unfolding config_ok_def by blast
  show ?thesis
    using api_bridge_accepted [OF ok url] api_publisher_accepted [OF ok url] worker_publisher_accepted [OF ok url]
      worker_relay_accepted worker_consumer_accepted [OF ok url] worker_maintenance_accepted [OF ok]
    by blast
qed

text \<open>The defaults, with the two addresses, the retention of \<open>.env.example\<close> and a log level set.\<close>

definition example_environment :: environment where
  "example_environment = map_of
     [(''DATABASE_URL'', ''postgres''), (''AMQP_URL'', ''amqp''), (''RETENTION_WINDOW'', ''168h''),
      (''AMQP_PUBLISHERS'', ''4''), (''LOG_LEVEL'', ''WARN'')]"

lemma example_retention: "ParseDuration frac ''168h'' = Some 604800000000000"
proof -
  have "nat_digits 168 = ''168''" by code_simp
  then show ?thesis
    using ParseDuration_whole [of 168 "''h''" 3600000000000 frac]
    by (simp add: unit_map_def unit_stop_def is_digit_def less_eq_char_def)
qed

definition example_config :: config where
  "example_config =
     \<lparr>cf_ServiceName = ''worker'', cf_InstanceID = ''local'', cf_HTTPAddr = '':8080'', cf_AdminAddr = '':8081'',
      cf_ShutdownTimeout = 15000000000, cf_LogLevel = ''warn'', cf_DatabaseURL = ''postgres'', cf_AMQPURL = ''amqp'',
      cf_AMQPPublishers = 4, cf_AMQPWriteTimeout = 5000000000, cf_AMQPConfirmTimeout = 5000000000,
      cf_AMQPPublishMaxAttempts = 3, cf_AMQPPublishInitialBackoff = 100000000,
      cf_AMQPPublishMaxBackoff = 1000000000, cf_RetentionWindow = 604800000000000,
      cf_PartitionMaintenanceInterval = 3600000000000, cf_WorkerConsumerPrefetch = 500,
      cf_WorkerConsumerBatchMax = 500, cf_WorkerConsumerFlushInterval = 100000000\<rparr>"

lemma example_config_valid: "config_Validate example_config = None"
proof -
  have words: "trim_space ''worker'' \<noteq> []" "trim_space ''local'' \<noteq> []" "trim_space '':8080'' \<noteq> []"
    "trim_space '':8081'' \<noteq> []" "trim_space ''amqp'' \<noteq> []" "trim_space ''postgres'' \<noteq> []"
    by (simp_all add: plain_trimmed is_plain_def)
  then show ?thesis
    by (simp add: config_Validate_def example_config_def defaultRetentionWindow_def duration_defs)
qed

lemma example_loads:
  "config_Load frac \<lparr>le_error = None, le_env = example_environment\<rparr> ''worker'' = Inr example_config"
proof -
  let ?env = example_environment
  have unset: "?env ''SHUTDOWN_TIMEOUT'' = None" "?env ''AMQP_WRITE_TIMEOUT'' = None"
    "?env ''AMQP_CONFIRM_TIMEOUT'' = None" "?env ''AMQP_PUBLISH_INITIAL_BACKOFF'' = None"
    "?env ''AMQP_PUBLISH_MAX_BACKOFF'' = None" "?env ''PARTITION_MAINTENANCE_INTERVAL'' = None"
    "?env ''WORKER_CONSUMER_FLUSH_INTERVAL'' = None" "?env ''AMQP_PUBLISH_MAX_ATTEMPTS'' = None"
    "?env ''WORKER_CONSUMER_PREFETCH'' = None" "?env ''WORKER_CONSUMER_BATCH_MAX'' = None"
    "?env ''SERVICE_NAME'' = None" "?env ''INSTANCE_ID'' = None" "?env ''HTTP_ADDR'' = None"
    "?env ''ADMIN_ADDR'' = None"
    by (simp_all add: example_environment_def)
  have sets: "?env ''RETENTION_WINDOW'' = Some ''168h''" "?env ''AMQP_PUBLISHERS'' = Some ''4''"
    "?env ''LOG_LEVEL'' = Some ''WARN''" "?env ''DATABASE_URL'' = Some ''postgres''"
    "?env ''AMQP_URL'' = Some ''amqp''"
    by (simp_all add: example_environment_def)
  have texts: "parse_int64 ''4'' = Some 4" "to_lower ''WARN'' = ''warn''" by code_simp+
  show ?thesis
    using example_config_valid
    by (simp add: config_Load_def or_err_def durationEnv_def intEnv_def stringEnv_def unset sets texts
        example_retention config_defaults duration_defs example_config_def Let_def del: to_lower.simps)
qed

lemma config_starts_components_witness:
  "\<exists>cfg c. config_Load (\<lambda>_ _ _. 0) \<lparr>le_error = None, le_env = example_environment\<rparr> ''worker'' = Inr cfg \<and>
    NewRabbitMQMetricConsumer (worker_consumer_config cfg) False = Inr c \<and>
    cc_Prefetch c = cf_WorkerConsumerPrefetch cfg"
proof -
  have "cf_ServiceName example_config \<in> {''api'', ''worker''}" by (simp add: example_config_def)
  from config_starts_components [OF example_loads this] example_loads show ?thesis by blast
qed

end
