(* ===== verification/Process.thy ===== *)
theory Process
  imports ConfigProps PublisherPool Hub
begin

section \<open>Health checks and processes\<close>

text \<open>
  \<open>internal/health\<close>, \<open>internal/app/run.go\<close> and the \<open>runService\<close> of \<open>internal/app/api\<close> and
  \<open>internal/app/worker\<close>: the order in which a process starts its components, what it waits for, and
  its exit code. The components are those of their theories; what the HTTP servers, the database
  pool and the goroutines answer is given.
\<close>

subsection \<open>Health\<close>

text \<open>A check of a dependency is its error, a missing check \<open>None\<close>; \<open>h_ready\<close> is \<open>None\<close> without a state.\<close>

record health_handler =
  h_ready :: "bool option"
  h_Postgres :: "go_error option option"
  h_RabbitMQ :: "go_error option option"

definition check_text :: "go_error option option \<Rightarrow> string" where
  "check_text check = (case check of None \<Rightarrow> ''unconfigured'' | Some (Some err) \<Rightarrow> ''failed'' | Some None \<Rightarrow> ''ok'')"

text \<open>
  The reply: the status, the \<open>status\<close> field and the \<open>checks\<close>, in some order as Go visits a map;
  \<open>None\<close> is \<open>http.NotFound\<close>.
\<close>

definition health_ServeHTTP ::
  "health_handler \<Rightarrow> string \<Rightarrow> (nat \<times> string \<times> (string \<times> string) list) option" where
  "health_ServeHTTP h path =
     (if path = ''/healthz'' then Some (200, ''ok'', [])
      else if path \<noteq> ''/readyz'' then None
      else if h_ready h \<noteq> Some True then Some (503, ''not_ready'', [])
      else (let checks = [(''postgres'', check_text (h_Postgres h)), (''rabbitmq'', check_text (h_RabbitMQ h))];
                status = foldl (\<lambda>status (name, result). if result = ''ok'' then status else (503::nat)) 200 checks
            in Some (status, if status \<noteq> 200 then ''not_ready'' else ''ready'', checks)))"

lemma readyz_ready:
  "(\<exists>checks. health_ServeHTTP h ''/readyz'' = Some (200, ''ready'', checks)) \<longleftrightarrow>
     h_ready h = Some True \<and> h_Postgres h = Some None \<and> h_RabbitMQ h = Some None"
  by (auto simp: health_ServeHTTP_def check_text_def Let_def split: option.splits)

text \<open>\<open>messaging.Ping\<close>: the error of the dial, else that of \<open>Close\<close>.\<close>

definition messaging_Ping :: "go_error option \<Rightarrow> go_error option \<Rightarrow> go_error option" where
  "messaging_Ping dialed closed = (case dialed of Some err \<Rightarrow> Some err | None \<Rightarrow> closed)"

text \<open>\<open>cmd/healthcheck\<close>: the arguments, whether the request is well formed, and the status or no response.\<close>

definition healthcheck_exit :: "nat \<Rightarrow> bool \<Rightarrow> int option \<Rightarrow> int" where
  "healthcheck_exit args well_formed status =
     (if args \<noteq> 2 then 2
      else if \<not> well_formed then 2
      else case status of None \<Rightarrow> 1 | Some code \<Rightarrow> if code < 200 \<or> code \<ge> 300 then 1 else 0)"

subsection \<open>Start\<close>

definition Bootstrap :: "(nat \<Rightarrow> nat \<Rightarrow> nat \<Rightarrow> nat) \<Rightarrow> loaded_env \<Rightarrow> string \<Rightarrow> config option \<times> int" where
  "Bootstrap frac loaded defaultServiceName =
     (case config_Load frac loaded defaultServiceName of
        Inl err \<Rightarrow> (None, 1)
      | Inr cfg \<Rightarrow> (Some cfg, 0))"

text \<open>\<open>OpenPool\<close>: parse, create, ping; a pool that does not answer is closed again.\<close>

definition OpenPool :: "go_error option \<Rightarrow> go_error option \<Rightarrow> go_error option \<Rightarrow> go_error option" where
  "OpenPool parsed created pinged =
     (case parsed of
        Some err \<Rightarrow> Some (ErrWrap ''parse database configuration'' [err])
      | None \<Rightarrow>
          (case created of
             Some err \<Rightarrow> Some (ErrWrap ''create postgres pool'' [err])
           | None \<Rightarrow>
               (case pinged of
                  Some err \<Rightarrow> Some (ErrWrap ''ping postgres'' [err])
                | None \<Rightarrow> None)))"

subsection \<open>The API process\<close>

text \<open>What ends it: the context, or a server that stops with or without an error.\<close>

datatype api_event = ApiCtxDone | ApiServerEnded "go_error option"

record api_world =
  aw_ctx_err :: "go_error option"
  aw_database :: "string \<Rightarrow> go_error option"
  aw_event :: api_event
  aw_server_shutdown :: "go_error option"
  aw_admin_shutdown :: "go_error option"
  aw_bridge_done :: bool   \<comment> \<open>before the shutdown timeout\<close>
  aw_server_result :: "go_error option"

text \<open>The end of a process: its exit code, and the readiness and resources it leaves.\<close>

record process_end =
  pd_exit :: int
  pd_ready :: bool
  pd_database_closed :: bool
  pd_publisher_closed :: bool

definition ended :: "int \<Rightarrow> bool \<Rightarrow> bool \<Rightarrow> bool \<Rightarrow> process_end" where
  "ended code ready db pub =
     \<lparr>pd_exit = code, pd_ready = ready, pd_database_closed = db, pd_publisher_closed = pub\<rparr>"

definition api_shutdown :: "api_world \<Rightarrow> int" where
  "api_shutdown w =
     (if aw_server_shutdown w \<noteq> None then 1
      else if aw_admin_shutdown w \<noteq> None then 1
      else if \<not> aw_bridge_done w then 1
      else if aw_server_result w \<noteq> None then 1
      else 0)"

definition api_runService ::
  "'w publisher_env \<Rightarrow> (nat \<Rightarrow> 'w) \<Rightarrow> api_world \<Rightarrow> config \<Rightarrow> process_end" where
  "api_runService e ws w cfg =
     (if aw_ctx_err w \<noteq> None then ended 0 False False False
      else case aw_database w (cf_DatabaseURL cfg) of
        Some err \<Rightarrow> ended 1 False False False
      | None \<Rightarrow>
          (case NewRabbitMQMetricEventBridge (api_bridge_config cfg) False of
             Inl err \<Rightarrow> ended 1 False True False
           | Inr bridge \<Rightarrow>
               (case new_pool e (api_publisher_config cfg) ws of
                  Inl failed \<Rightarrow> ended 1 False True False
                | Inr pool \<Rightarrow>
                    (case aw_event w of
                       ApiCtxDone \<Rightarrow> ended (api_shutdown w) False True True
                     | ApiServerEnded None \<Rightarrow> ended 0 True True True
                     | ApiServerEnded (Some err) \<Rightarrow> ended 1 True True True))))"

definition api_Run ::
  "(nat \<Rightarrow> nat \<Rightarrow> nat \<Rightarrow> nat) \<Rightarrow> loaded_env \<Rightarrow> 'w publisher_env \<Rightarrow> (nat \<Rightarrow> 'w) \<Rightarrow> api_world \<Rightarrow> int" where
  "api_Run frac loaded e ws w =
     (case Bootstrap frac loaded ''api'' of
        (Some cfg, code) \<Rightarrow> if code \<noteq> 0 then code else pd_exit (api_runService e ws w cfg)
      | (None, code) \<Rightarrow> code)"

subsection \<open>The worker process\<close>

text \<open>
  The group has three loops, and what they do to the database is one sequence of actions: the runs of
  \<open>RunPartitionMaintenance\<close>, the flushes of the consumer and the statements of the relay, in the order
  they take effect. The maintenance ends with the first of its runs that fails; how the other two loops end
  is given (they are modelled in their own theories).
\<close>

datatype worker_action =
    MaintenanceRun int int db_reply "nat \<Rightarrow> db_reply"
  | ConsumerFlush flush_replies int "metric_point list"
  | RelayWrite outbox

fun worker_act :: "pg_impl \<Rightarrow> config \<Rightarrow> worker_action \<Rightarrow> go_error option \<times> pg \<Rightarrow> go_error option \<times> pg" where
  "worker_act im cfg (MaintenanceRun clock now ensured replies) (over, db) =
     (if over \<noteq> None then (over, db)
      else case maintain (Suc (rows_left db)) ensured replies clock now (cf_RetentionWindow cfg div millisecond) 10000 db of
        None \<Rightarrow> (Some (ErrNew ''not returned''), db)   \<comment> \<open>never: it has more turns than there are rows\<close>
      | Some (err, db') \<Rightarrow> (err, db'))"
| "worker_act im cfg (ConsumerFlush r now ps) (over, db) = (over, snd (store_Flush im r now ps db))"
| "worker_act im cfg (RelayWrite t) (over, db) = (over, db\<lparr>pg_outbox := t\<rparr>)"

text \<open>The error of the maintenance loop and the database; without runs it only checks its arguments.\<close>

definition worker_loops :: "pg_impl \<Rightarrow> config \<Rightarrow> worker_action list \<Rightarrow> pg \<Rightarrow> go_error option \<times> pg" where
  "worker_loops im cfg actions db =
     (case RunPartitionMaintenance 0 (cf_RetentionWindow cfg) (cf_PartitionMaintenanceInterval cfg) 10000 [] db of
        None \<Rightarrow> (None, db)
      | Some (err, db') \<Rightarrow> fold (worker_act im cfg) actions (err, db'))"

text \<open>
  \<open>group.Wait\<close> returns the first error of a loop; which one it is only shows in the log.
\<close>

definition group_Wait :: "go_error option list \<Rightarrow> go_error option" where
  "group_Wait results = (case find (\<lambda>r. r \<noteq> None) results of None \<Rightarrow> None | Some r \<Rightarrow> r)"

text \<open>
  What ends the process: the context, the end of the group, or the administration server, whose channel only
  ever carries an error.
\<close>

datatype worker_event =
    WorkerCtxDone
  | WorkerGroupDone
  | WorkerAdminEnded go_error

record worker_world =
  ww_ctx_err :: "go_error option"
  ww_database :: "string \<Rightarrow> go_error option"
  ww_partitions :: db_reply
  ww_now :: int
  ww_actions :: "worker_action list"
  ww_consumer :: "go_error option"
  ww_relay :: "go_error option"
  ww_event :: worker_event
  ww_admin_shutdown :: "go_error option"

text \<open>The end of the process, the database when it reported ready (if it did), and the database at the end.\<close>

definition worker_runService :: "pg_impl \<Rightarrow> worker_world \<Rightarrow> config \<Rightarrow> pg \<Rightarrow> process_end \<times> pg option \<times> pg" where
  "worker_runService im w cfg db =
     (if ww_ctx_err w \<noteq> None then (ended 0 False False False, None, db)
      else case ww_database w (cf_DatabaseURL cfg) of
        Some err \<Rightarrow> (ended 1 False False False, None, db)
      | None \<Rightarrow>
          (case EnsureWorkerDailyPartitions (ww_partitions w) (ww_now w) db of
             (Some err, db1) \<Rightarrow> (ended 1 False True False, None, db1)
           | (None, db1) \<Rightarrow>
               (case NewRabbitMQMetricEventPublisher (worker_event_publisher_config cfg) of
                  Inl err \<Rightarrow> (ended 1 False True False, None, db1)
                | Inr publisher \<Rightarrow>
                    (case NewOutboxRelay worker_relay_config False False of
                       Inl err \<Rightarrow> (ended 1 False True True, None, db1)
                     | Inr relay \<Rightarrow>
                         (case NewRabbitMQMetricConsumer (worker_consumer_config cfg) False of
                            Inl err \<Rightarrow> (ended 1 False True True, None, db1)
                          | Inr consumer \<Rightarrow>
                              (case worker_loops im cfg (ww_actions w) db1 of
                                 (maintenance, db2) \<Rightarrow>
                                   (let result = group_Wait [maintenance, ww_consumer w, ww_relay w]
                                    in (case ww_event w of
                                          WorkerCtxDone \<Rightarrow>
                                            if ww_admin_shutdown w \<noteq> None then ended 1 False True True
                                            else if result \<noteq> None then ended 1 False True True
                                            else ended 0 False True True
                                        | WorkerGroupDone \<Rightarrow>
                                            if result \<noteq> None then ended 1 False True True
                                            else ended 0 False True True
                                        | WorkerAdminEnded err \<Rightarrow> ended 1 False True True,
                                        Some db1, db2))))))))"

definition worker_Run ::
  "(nat \<Rightarrow> nat \<Rightarrow> nat \<Rightarrow> nat) \<Rightarrow> loaded_env \<Rightarrow> pg_impl \<Rightarrow> worker_world \<Rightarrow> pg \<Rightarrow> int \<times> pg option \<times> pg" where
  "worker_Run frac loaded im w db =
     (case Bootstrap frac loaded ''worker'' of
        (Some cfg, code) \<Rightarrow>
          if code \<noteq> 0 then (code, None, db)
          else (case worker_runService im w cfg db of (t, dbs) \<Rightarrow> (pd_exit t, dbs))
      | (None, code) \<Rightarrow> (code, None, db))"

subsection \<open>The routes and the log level\<close>

text \<open>The handlers of \<open>NewRouter\<close> by the method and path they are registered under.\<close>

datatype route_handler =
    RouteIngestMetrics
  | RouteQueryMetrics
  | RouteGetSummary
  | RouteStreamMetrics
  | RouteGetAudit

definition NewRouter :: "hub option \<Rightarrow> hub \<times> (string \<times> string \<times> route_handler) list" where
  "NewRouter eventHub =
     (let hub = (case eventHub of None \<Rightarrow> NewHub | Some h \<Rightarrow> h);
          api = (\<lambda>path. ''/api/v1'' @ path)
      in (hub,
          [(''POST'', api ''/ingest/metrics'', RouteIngestMetrics),
           (''GET'', api ''/tasks/:task_id/metrics'', RouteQueryMetrics),
           (''GET'', api ''/tasks/:task_id/summary'', RouteGetSummary),
           (''GET'', api ''/tasks/:task_id/metrics/stream'', RouteStreamMetrics),
           (''GET'', api ''/admin/tasks/:task_id/audit'', RouteGetAudit)]))"

datatype log_level = LevelDebug | LevelInfo | LevelWarn | LevelError

definition logging_level :: "string \<Rightarrow> log_level" where
  "logging_level level =
     (if level = ''debug'' then LevelDebug
      else if level = ''warn'' then LevelWarn
      else if level = ''error'' then LevelError
      else LevelInfo)"

text \<open>
  The levels in the order of \<open>slog\<close>: the handler of \<open>logging.New\<close> writes the records that are not
  below its level.
\<close>

instantiation log_level :: linorder
begin

fun level_number :: "log_level \<Rightarrow> int" where
  "level_number LevelDebug = -4"
| "level_number LevelInfo = 0"
| "level_number LevelWarn = 4"
| "level_number LevelError = 8"

definition less_eq_log_level :: "log_level \<Rightarrow> log_level \<Rightarrow> bool" where
  "l \<le> l' \<longleftrightarrow> level_number l \<le> level_number l'"

definition less_log_level :: "log_level \<Rightarrow> log_level \<Rightarrow> bool" where
  "l < l' \<longleftrightarrow> level_number l < level_number l'"

instance
proof
  fix l l' :: log_level
  show "l \<le> l' \<Longrightarrow> l' \<le> l \<Longrightarrow> l = l'"
    by (cases l; cases l') (simp_all add: less_eq_log_level_def)
qed (auto simp: less_eq_log_level_def less_log_level_def)

end

lemma errors_always_logged:
  "logging_level level \<le> LevelError" "level \<noteq> ''error'' \<Longrightarrow> logging_level level \<le> LevelWarn"
  "LevelDebug < logging_level level \<longleftrightarrow> level \<noteq> ''debug''"
  by (auto simp: logging_level_def less_eq_log_level_def less_log_level_def)

end
