(* ===== verification/ProcessProps.thy ===== *)
theory ProcessProps
  imports Process
begin

section \<open>How the processes end\<close>

text \<open>
  The exit code of the API and of the worker process as a function of what happens to them. With a
  configuration that \<open>Load\<close> has accepted no constructor fails (theory \<open>ConfigProps\<close>), so that only
  the database, the broker and the servers decide.
\<close>

subsection \<open>The pool opens when every session does\<close>




subsection \<open>The end of each process\<close>

definition clean_stop :: "api_world \<Rightarrow> bool" where
  "clean_stop w \<longleftrightarrow> aw_server_shutdown w = None \<and> aw_admin_shutdown w = None \<and> aw_bridge_done w \<and>
     aw_server_result w = None"

lemma api_shutdown_zero [simp]: "api_shutdown w = 0 \<longleftrightarrow> clean_stop w"
  by (simp add: api_shutdown_def clean_stop_def)

lemma ended_simps [simp]:
  "pd_exit (ended code ready db pub) = code" "pd_ready (ended code ready db pub) = ready"
  "pd_database_closed (ended code ready db pub) = db" "pd_publisher_closed (ended code ready db pub) = pub"
  by (simp_all add: ended_def)



lemma group_Wait_None [simp]: "group_Wait rs = None \<longleftrightarrow> (\<forall>r \<in> set rs. r = None)"
  by (induction rs) (auto simp: group_Wait_def)
















end
