(* ===== verification/Perf.thy ===== *)
theory Perf
  imports Simulator
begin

section \<open>The performance harness\<close>

text \<open>
  \<open>cmd/perf/main.go\<close>: the checks N1 to N6, the seeding of eight hours of history, the measurements
  of the queries and of the event stream, the report and the exit code. What the simulator, docker
  and the HTTP client answer is given; what the command prints is left out.
\<close>

subsection \<open>Texts\<close>

text \<open>Chinese text is given by its code points; in order: throughput and reconciliation, duplicate
  rows, recovery, history query, summary query, write load, kill, restart, history preparation, the
  main load made no task, delivery.\<close>

definition unicode :: "nat list \<Rightarrow> string" where
  "unicode cs = concat (map utf8_encode cs)"

definition text_N1 :: string where "text_N1 = unicode [0x541E, 0x5410, 0x4E0E, 0x5BF9, 0x8D26]"
definition text_N2 :: string where "text_N2 = unicode [0x91CD, 0x590D, 0x843D, 0x5E93]"
definition text_N3 :: string where "text_N3 = ''worker '' @ unicode [0x6062, 0x590D]"
definition text_N4 :: string where "text_N4 = unicode [0x5386, 0x53F2, 0x67E5, 0x8BE2] @ '' P95''"
definition text_N5 :: string where "text_N5 = unicode [0x6458, 0x8981, 0x67E5, 0x8BE2] @ '' P95''"
definition text_load :: string where "text_load = ''N1-N3 '' @ unicode [0x5199, 0x5165, 0x538B, 0x6D4B]"
definition text_kill :: string where "text_kill = ''N3 '' @ unicode [0x7EC8, 0x6B62] @ '' worker''"
definition text_restart :: string where "text_restart = ''N3 '' @ unicode [0x91CD, 0x542F] @ '' worker''"
definition text_seed :: string where
  "text_seed = ''N4-N5 '' @ unicode [0x5386, 0x53F2, 0x6570, 0x636E, 0x51C6, 0x5907]"
definition text_no_task :: string where
  "text_no_task = unicode [0x4E3B, 0x538B, 0x6D4B, 0x672A, 0x751F, 0x6210, 0x4EFB, 0x52A1] @ '' ID''"
definition text_stream :: string where "text_stream = ''N6 SSE '' @ unicode [0x63A8, 0x9001]"

definition strings_TrimSuffix :: "string \<Rightarrow> string \<Rightarrow> string" where
  "strings_TrimSuffix s suffix =
     (if starts_with (rev suffix) (rev s) then take (length s - length suffix) s else s)"

definition strings_TrimPrefix :: "string \<Rightarrow> string \<Rightarrow> string" where
  "strings_TrimPrefix s prefix = (if starts_with prefix s then drop (length prefix) s else s)"

text \<open>\<open>os.Getenv\<close> is empty for a variable that is not set.\<close>

definition envOr :: "(string \<Rightarrow> string option) \<Rightarrow> string \<Rightarrow> string \<Rightarrow> string" where
  "envOr env name fallback =
     (case env name of None \<Rightarrow> fallback | Some v \<Rightarrow> if v \<noteq> [] then v else fallback)"

definition baseURL :: "string \<Rightarrow> string" where
  "baseURL endpoint = strings_TrimSuffix endpoint ''/api/v1/ingest/metrics''"

subsection \<open>The report\<close>

record check =
  ck_ID :: string
  ck_Name :: string
  ck_Value :: float64
  ck_Threshold :: float64
  ck_Unit :: string
  ck_Pass :: bool

text \<open>The message of an error is kept as the error.\<close>

record run_error =
  rn_Stage :: string
  rn_Message :: go_error

record load_profile =
  lp_Tasks :: int
  lp_SamplesPerTaskPerSec :: float64
  lp_BatchSize :: int
  lp_SamplesPerSecond :: float64
  lp_MetricPointsPerSecond :: float64

text \<open>The times of the start and of the end are left out.\<close>

record perf_report =
  pr_Pass :: bool
  pr_Checks :: "check list"
  pr_Audit :: sim_report
  pr_Load :: load_profile
  pr_Errors :: "run_error list"

definition addError :: "string \<Rightarrow> go_error option \<Rightarrow> run_error list \<Rightarrow> run_error list" where
  "addError stage err errors =
     (case err of None \<Rightarrow> errors | Some e \<Rightarrow> errors @ [\<lparr>rn_Stage = stage, rn_Message = e\<rparr>])"

text \<open>The error of the command and its combined output.\<close>

fun join_spaces :: "string list \<Rightarrow> string" where
  "join_spaces [] = []"
| "join_spaces [x] = x"
| "join_spaces (x # y # xs) = x @ '' '' @ join_spaces (y # xs)"

definition runDockerCompose :: "string list \<Rightarrow> go_error option \<times> string \<Rightarrow> go_error option" where
  "runDockerCompose args answer =
     (let text = ''docker '' @ join_spaces (''compose'' # args) in
      case answer of
        (None, output) \<Rightarrow> None
      | (Some err, output) \<Rightarrow>
          (let message = trim_space output
           in if message = [] then Some (ErrWrap text [err])
              else Some (ErrWrap text [err, ErrNew message])))"

subsection \<open>Latencies\<close>

text \<open>A request: its error, or its status and the nanoseconds until its body was read.\<close>

datatype get_outcome = GetFailed go_error | GetReply int duration

text \<open>\<open>float64(elapsed.Microseconds()) / 1000\<close>.\<close>

definition elapsed_millis :: "float_ops \<Rightarrow> duration \<Rightarrow> float64" where
  "elapsed_millis fo elapsed = fo_div fo (fo_int fo (go_div elapsed 1000)) (fo_int fo 1000)"

fun measure_values :: "float_ops \<Rightarrow> get_outcome list \<Rightarrow> float64 list option" where
  "measure_values fo [] = Some []"
| "measure_values fo (GetFailed err # gets) = None"
| "measure_values fo (GetReply status elapsed # gets) =
     map_option (Cons (elapsed_millis fo elapsed)) (measure_values fo gets)"

text \<open>\<open>sort.Float64s\<close> puts not-a-numbers first.\<close>

definition sort_Float64s :: "float64 list \<Rightarrow> float64 list" where
  "sort_Float64s values = filter math_IsNaN values @ sort_key float_key (filter (\<lambda>v. \<not> math_IsNaN v) values)"

definition percentile95 :: "float64 list \<Rightarrow> float64" where
  "percentile95 values = sort_Float64s values ! ((length values * 95 + 99) div 100 - 1)"

definition perf_measure :: "float_ops \<Rightarrow> (nat \<Rightarrow> get_outcome) \<Rightarrow> string \<Rightarrow> float64 \<Rightarrow> string \<Rightarrow> check" where
  "perf_measure fo get name threshold unit =
     (case measure_values fo (map get [0..<20]) of
        None \<Rightarrow> \<lparr>ck_ID = [], ck_Name = name, ck_Value = 0, ck_Threshold = threshold, ck_Unit = unit,
                 ck_Pass = False\<rparr>
      | Some values \<Rightarrow>
          (let p95 = percentile95 values
           in \<lparr>ck_ID = take 2 name, ck_Name = name, ck_Value = p95, ck_Threshold = threshold,
               ck_Unit = unit, ck_Pass = float_less p95 threshold\<rparr>))"

subsection \<open>Seeding the history\<close>

datatype post_outcome = PostFailed go_error | PostReply int

text \<open>A query while the deadline has not passed: no reply, one that is no document, or
  \<open>downsampled\<close> and the length of each series.\<close>

datatype poll_outcome = PollFailed | PollUndecoded | PollDoc bool "(string \<times> nat) list"

text \<open>\<open>time.Now().Add(-8 * time.Hour).Truncate(time.Second)\<close>, in nanoseconds.\<close>

definition seed_start :: "int \<Rightarrow> int" where
  "seed_start now = (let t = now - 8 * hour in t - t mod second)"

text \<open>The number 0.001.\<close>

definition float_milli :: float64 where "float_milli = 0x3F50624DD2F1A9FC"

definition seed_sample :: "int \<Rightarrow> int \<Rightarrow> metric_sample" where
  "seed_sample start step =
     \<lparr>ms_Step = step, ms_TimestampMillis = (start + step * second) div millisecond,
      ms_Metrics = [(''loss'', float_one), (''lr'', float_milli)]\<rparr>"

definition seed_batch :: "string \<Rightarrow> int \<Rightarrow> int \<Rightarrow> metric_batch" where
  "seed_batch taskID start offset =
     \<lparr>mb_TaskID = taskID, mb_Samples = map (seed_sample start) [offset..min (offset + 499) 28799]\<rparr>"

text \<open>\<open>json.Marshal\<close> of a map sorts its keys.\<close>

definition map_sample_json :: "(float64 \<Rightarrow> string) \<Rightarrow> metric_sample \<Rightarrow> json option" where
  "map_sample_json ff s =
     map_option (\<lambda>m. JObj [(''metrics'', m), (''step'', JNum (int_digits (ms_Step s))),
                           (''ts'', JNum (int_digits (ms_TimestampMillis s)))])
       (metrics_json ff (ms_Metrics s))"

definition map_batch_json :: "(float64 \<Rightarrow> string) \<Rightarrow> metric_batch \<Rightarrow> json option" where
  "map_batch_json ff b =
     map_option (\<lambda>samples. JObj [(''batch'', JArr samples), (''task_id'', JStr (mb_TaskID b))])
       (those_json (map (map_sample_json ff) (mb_Samples b)))"

definition post_map ::
  "(float64 \<Rightarrow> string) \<Rightarrow> (string \<Rightarrow> string \<Rightarrow> post_outcome) \<Rightarrow> string \<Rightarrow> metric_batch \<Rightarrow> go_error option" where
  "post_map ff send refused b =
     (case map_batch_json ff b of
        None \<Rightarrow> Some (ErrNew ''json: unsupported value'')
      | Some body \<Rightarrow>
          (case send ''application/json'' (json_print body) of
             PostFailed err \<Rightarrow> Some err
           | PostReply status \<Rightarrow> if status \<noteq> 200 then Some (ErrNew (refused @ int_digits status)) else None))"

text \<open>The requests of \<open>seedHistory\<close>; \<open>send offset\<close> is the one of that offset.\<close>

function seed_posts ::
  "(float64 \<Rightarrow> string) \<Rightarrow> (int \<Rightarrow> string \<Rightarrow> string \<Rightarrow> post_outcome) \<Rightarrow> string \<Rightarrow> int \<Rightarrow> int \<Rightarrow> go_error option" where
  "seed_posts ff send taskID start offset =
     (if offset < 28800
      then (case post_map ff (send offset) ''history seed status '' (seed_batch taskID start offset) of
              Some err \<Rightarrow> Some err
            | None \<Rightarrow> seed_posts ff send taskID start (offset + 500))
      else None)"
  by pat_completeness auto
termination by (relation "measure (\<lambda>(ff, send, taskID, start, offset). nat (28800 - offset))") auto

declare seed_posts.simps [simp del]

definition series_length :: "string \<Rightarrow> (string \<times> nat) list \<Rightarrow> nat" where
  "series_length k series = (case map_of series k of None \<Rightarrow> 0 | Some n \<Rightarrow> n)"

definition seed_visible :: "poll_outcome \<Rightarrow> bool" where
  "seed_visible poll =
     (case poll of
        PollDoc downsampled series \<Rightarrow>
          downsampled \<and> series_length ''loss'' series = 500 \<and> series_length ''lr'' series = 500
      | _ \<Rightarrow> False)"

definition seedHistory ::
  "(float64 \<Rightarrow> string) \<Rightarrow> (int \<Rightarrow> string \<Rightarrow> string \<Rightarrow> post_outcome) \<Rightarrow> poll_outcome list \<Rightarrow> string \<Rightarrow> int
    \<Rightarrow> go_error option" where
  "seedHistory ff send polls taskID now =
     (case seed_posts ff send taskID (seed_start now) 0 of
        Some err \<Rightarrow> Some err
      | None \<Rightarrow>
          if list_ex seed_visible polls then None
          else Some (ErrNew ''history seed did not become queryable''))"

subsection \<open>The event stream\<close>

text \<open>
  The payload of an event as \<open>observeSSE\<close> decodes it, \<open>json.Unmarshal\<close> of a struct: unknown members
  are skipped, a member of the wrong type is an error.
\<close>

definition decode_int64 :: "json \<Rightarrow> int \<Rightarrow> int option" where
  "decode_int64 j cur = (case j of JNull \<Rightarrow> Some cur | JNum s \<Rightarrow> parse_int64 s | _ \<Rightarrow> None)"

definition known_fields :: "string list \<Rightarrow> json \<Rightarrow> json" where
  "known_fields names j =
     (case j of JObj ms \<Rightarrow> JObj (filter (\<lambda>(k, v). match_field names k \<noteq> None) ms) | _ \<Rightarrow> j)"

definition decode_point_ts :: "json \<Rightarrow> int \<Rightarrow> int option" where
  "decode_point_ts j = decode_struct [''ts''] (\<lambda>n. decode_int64) (known_fields [''ts''] j)"

definition decode_points :: "string \<Rightarrow> int list option" where
  "decode_points data =
     (case parse_single data of
        None \<Rightarrow> None
      | Some j \<Rightarrow>
          map_option fst (decode_struct [''points''] (\<lambda>n. decode_slice decode_point_ts 0)
            (known_fields [''points''] j) ([], [])))"

definition data_prefix :: string where "data_prefix = ''data: ''"

text \<open>The latencies of the lines of the stream, each with the millisecond at which it was read.\<close>

definition line_latencies :: "float_ops \<Rightarrow> string \<times> int \<Rightarrow> float64 list" where
  "line_latencies fo = (\<lambda>(line, received).
     if \<not> starts_with data_prefix line then []
     else (case decode_points (strings_TrimPrefix line data_prefix) of
             None \<Rightarrow> []
           | Some stamps \<Rightarrow> map (\<lambda>ts. fo_int fo (wrap64 (received - ts))) stamps))"

text \<open>The connection: its error, or its status and the lines that arrive before a wait times out.\<close>

datatype sse_connection = SseFailed go_error | SseOpen int "(string \<times> int) list"

definition observeSSE :: "float_ops \<Rightarrow> sse_connection \<Rightarrow> go_error + float64 list" where
  "observeSSE fo conn =
     (case conn of
        SseFailed err \<Rightarrow> Inl err
      | SseOpen status rows \<Rightarrow>
          if status \<noteq> 200 then Inl (ErrNew (''SSE status '' @ int_digits status))
          else Inr (concat (map (line_latencies fo) rows)))"

definition probe_batch :: "string \<Rightarrow> int \<Rightarrow> int \<Rightarrow> metric_batch" where
  "probe_batch taskID step now =
     \<lparr>mb_TaskID = taskID,
      mb_Samples = [\<lparr>ms_Step = step, ms_TimestampMillis = now, ms_Metrics = [(''loss'', float_one)]\<rparr>]\<rparr>"

text \<open>The probes that are left; \<open>clock step\<close> is the millisecond of a probe, \<open>send step\<close> its request.\<close>

fun probe_posts ::
  "(float64 \<Rightarrow> string) \<Rightarrow> (int \<Rightarrow> int) \<Rightarrow> (int \<Rightarrow> string \<Rightarrow> string \<Rightarrow> post_outcome) \<Rightarrow> string \<Rightarrow> int list
    \<Rightarrow> go_error option" where
  "probe_posts ff clock send taskID [] = None"
| "probe_posts ff clock send taskID (step # steps) =
     (case post_map ff (send step) ''SSE probe ingest status '' (probe_batch taskID step (clock step)) of
        Some err \<Rightarrow> Some err
      | None \<Rightarrow> probe_posts ff clock send taskID steps)"

definition maximum_of :: "float64 list \<Rightarrow> float64" where
  "maximum_of = foldl (\<lambda>maximum latency. if float_less maximum latency then latency else maximum) 0"

definition measureSSE ::
  "(float64 \<Rightarrow> string) \<Rightarrow> float_ops \<Rightarrow> sse_connection \<Rightarrow> (int \<Rightarrow> int) \<Rightarrow> (int \<Rightarrow> string \<Rightarrow> string \<Rightarrow> post_outcome)
    \<Rightarrow> string \<Rightarrow> go_error + float64" where
  "measureSSE ff fo conn clock send taskID =
     (case observeSSE fo conn of
        Inl err \<Rightarrow> Inl err
      | Inr latencies \<Rightarrow>
          (case probe_posts ff clock send taskID [0..19] of
             Some err \<Rightarrow> Inl err
           | None \<Rightarrow>
               if length latencies < 20
               then Inl (ErrNew (''timed out waiting for SSE sample '' @ nat_digits (Suc (length latencies))))
               else Inr (maximum_of (take 20 latencies))))"

subsection \<open>The command\<close>

text \<open>The flags, and what the harness gets from docker, the API and the file system.\<close>

record perf_flags =
  pf_Endpoint :: string
  pf_Duration :: duration
  pf_BatchSize :: int
  pf_TaskPrefix :: string   \<comment> \<open>\<open>perf-\<close> and the Unix time\<close>

record perf_world =
  pw_run :: "sim_config \<Rightarrow> sim_report \<times> go_error option"
  pw_docker :: "string list \<Rightarrow> go_error option \<times> string"
  pw_now :: int
  pw_seed :: "int \<Rightarrow> string \<Rightarrow> string \<Rightarrow> post_outcome"
  pw_polls :: "poll_outcome list"
  pw_get :: "string \<Rightarrow> nat \<Rightarrow> get_outcome"
  pw_stream :: "string \<Rightarrow> sse_connection"
  pw_clock :: "int \<Rightarrow> int"
  pw_probe :: "int \<Rightarrow> string \<Rightarrow> string \<Rightarrow> post_outcome"
  pw_write :: "go_error option"

definition perf_config :: "float_ops \<Rightarrow> perf_flags \<Rightarrow> sim_config" where
  "perf_config fo flags =
     \<lparr>si_Endpoint = pf_Endpoint flags, si_Tasks = 50, si_Rate = fo_lit fo ''10'',
      si_Duration = pf_Duration flags, si_BatchSize = pf_BatchSize flags,
      si_TaskPrefix = pf_TaskPrefix flags, si_EvalLoss = False, si_EvalEvery = 10, si_GPUUtil = False,
      si_GPUMem = False, si_Throughput = False, si_Seed = 42, si_DuplicateRate = fo_lit fo ''0.02'',
      si_FailureRate = 0, si_Audit = True, si_AuditTimeout = 2 * minute,
      si_AuditInterval = 250 * millisecond\<rparr>"

definition perf_load :: "float_ops \<Rightarrow> sim_config \<Rightarrow> load_profile" where
  "perf_load fo cfg =
     (let rate = fo_mul fo (fo_int fo (si_Tasks cfg)) (si_Rate cfg)
      in \<lparr>lp_Tasks = si_Tasks cfg, lp_SamplesPerTaskPerSec = si_Rate cfg, lp_BatchSize = si_BatchSize cfg,
          lp_SamplesPerSecond = rate, lp_MetricPointsPerSecond = fo_mul fo rate (fo_lit fo ''2'')\<rparr>)"

text \<open>N1 to N3: throughput with reconciliation, duplicates, and recovery of the worker.\<close>

definition load_checks ::
  "float_ops \<Rightarrow> perf_flags \<Rightarrow> sim_report \<Rightarrow> go_error option \<Rightarrow> go_error option \<Rightarrow> go_error option \<Rightarrow> check list" where
  "load_checks fo flags result err killErr upErr =
     [\<lparr>ck_ID = ''N1'', ck_Name = text_N1,
       ck_Value = fo_mul fo (fo_int fo (si_Tasks (perf_config fo flags))) (si_Rate (perf_config fo flags)),
       ck_Threshold = fo_lit fo ''500'', ck_Unit = ''samples/s'',
       ck_Pass = (err = None \<and> sr_Pass result \<and> 10 * minute \<le> pf_Duration flags)\<rparr>,
      \<lparr>ck_ID = ''N2'', ck_Name = text_N2, ck_Value = 0, ck_Threshold = 0, ck_Unit = ''duplicates'',
       ck_Pass = (err = None \<and> sr_Pass result)\<rparr>,
      \<lparr>ck_ID = ''N3'', ck_Name = text_N3, ck_Value = 0, ck_Threshold = 0, ck_Unit = ''lost_or_duplicate_points'',
       ck_Pass = (err = None \<and> sr_Pass result \<and> killErr = None \<and> upErr = None)\<rparr>]"

definition failed_check :: "string \<Rightarrow> string \<Rightarrow> float64 \<Rightarrow> float64 \<Rightarrow> string \<Rightarrow> check" where
  "failed_check ident name value threshold unit =
     \<lparr>ck_ID = ident, ck_Name = name, ck_Value = value, ck_Threshold = threshold, ck_Unit = unit, ck_Pass = False\<rparr>"

definition history_url :: "string \<Rightarrow> string \<Rightarrow> string" where
  "history_url base taskID = base @ ''/api/v1/tasks/'' @ taskID @ ''/metrics?max_points=500''"

definition summary_url :: "string \<Rightarrow> string \<Rightarrow> string" where
  "summary_url base taskID = base @ ''/api/v1/tasks/'' @ taskID @ ''/summary''"

definition stream_url :: "string \<Rightarrow> string \<Rightarrow> string" where
  "stream_url base taskID = base @ ''/api/v1/tasks/'' @ taskID @ ''/metrics/stream''"

text \<open>N4 and N5: the queries of the first task of the report; the checks and the new errors.\<close>

definition query_checks ::
  "(float64 \<Rightarrow> string) \<Rightarrow> float_ops \<Rightarrow> perf_world \<Rightarrow> string \<Rightarrow> sim_report \<Rightarrow> run_error list
    \<Rightarrow> check list \<times> run_error list" where
  "query_checks ff fo w base result errors =
     (let taskID = (case sr_Results result of [] \<Rightarrow> [] | r # rs \<Rightarrow> sa_TaskID r);
          measured = (\<lambda>url name threshold. perf_measure fo (pw_get w url) name (fo_lit fo threshold) ''ms'')
      in if taskID \<noteq> []
         then (case seedHistory ff (pw_seed w) (pw_polls w) taskID (pw_now w) of
                 Some err \<Rightarrow>
                   ([failed_check ''N4'' ''history seed'' 0 0 ''error'', failed_check ''N5'' ''summary seed'' 0 0 ''error''],
                    addError text_seed (Some err) errors)
               | None \<Rightarrow>
                   ([measured (history_url base taskID) ''N4 history query P95'' ''200'',
                     measured (summary_url base taskID) ''N5 summary P95'' ''100''], errors))
         else ([failed_check ''N4'' text_N4 0 (fo_lit fo ''200'') ''ms'',
                failed_check ''N5'' text_N5 0 (fo_lit fo ''100'') ''ms''],
               addError ''N4-N5'' (Some (ErrNew text_no_task)) errors))"

text \<open>N6: the latency of the event stream.\<close>

definition stream_check ::
  "(float64 \<Rightarrow> string) \<Rightarrow> float_ops \<Rightarrow> perf_world \<Rightarrow> string \<Rightarrow> string \<Rightarrow> run_error list \<Rightarrow> check \<times> run_error list" where
  "stream_check ff fo w base taskID errors =
     (let name = ''SSE delivery latency''; threshold = fo_lit fo ''1000''
      in case measureSSE ff fo (pw_stream w (stream_url base taskID))
                (pw_clock w) (pw_probe w) taskID of
           Inl err \<Rightarrow> (failed_check ''N6'' name (fo_lit fo ''-1'') threshold ''ms'', addError text_stream (Some err) errors)
         | Inr latency \<Rightarrow>
             (\<lparr>ck_ID = ''N6'', ck_Name = name, ck_Value = latency, ck_Threshold = threshold, ck_Unit = ''ms'',
               ck_Pass = float_less latency threshold\<rparr>, errors))"

definition perf_run :: "(float64 \<Rightarrow> string) \<Rightarrow> float_ops \<Rightarrow> perf_flags \<Rightarrow> perf_world \<Rightarrow> perf_report" where
  "perf_run ff fo flags w =
     (let cfg = perf_config fo flags; base = strings_TrimSuffix (pf_Endpoint flags) ''/api/v1/ingest/metrics'';
          killErr = runDockerCompose [''kill'', ''worker''] (pw_docker w [''kill'', ''worker'']);
          up = [''up'', ''--detach'', ''--wait'', ''worker''];
          upErr = runDockerCompose up (pw_docker w up)
      in case pw_run w cfg of
           (result, err) \<Rightarrow>
             (let errors = addError text_restart upErr (addError text_kill killErr (addError text_load err []))
              in case query_checks ff fo w base result errors of
                   (queries, errors1) \<Rightarrow>
                     (case stream_check ff fo w base (si_TaskPrefix cfg @ ''-sse'') errors1 of
                        (stream, errors2) \<Rightarrow>
                          (let checks = load_checks fo flags result err killErr upErr @ queries @ [stream]
                           in \<lparr>pr_Pass = foldl (\<lambda>pass c. pass \<and> ck_Pass c) (err = None) checks,
                               pr_Checks = checks, pr_Audit = result, pr_Load = perf_load fo cfg,
                               pr_Errors = errors2\<rparr>))))"

definition perf_main :: "(float64 \<Rightarrow> string) \<Rightarrow> float_ops \<Rightarrow> perf_flags \<Rightarrow> perf_world \<Rightarrow> int" where
  "perf_main ff fo flags w =
     (if pw_write w \<noteq> None then 1 else if \<not> pr_Pass (perf_run ff fo flags w) then 2 else 0)"

text \<open>\<open>cmd/sim\<close>: its exit code, from the flags and what \<open>RunWithReport\<close> returns.\<close>

definition sim_main :: "sim_config \<Rightarrow> sim_report \<times> go_error option \<Rightarrow> int" where
  "sim_main cfg = (\<lambda>(report, err).
     if err \<noteq> None then 1 else if si_Audit cfg \<and> \<not> sr_Pass report then 2 else 0)"

end
