(* ===== verification/PerfProps.thy ===== *)
theory PerfProps
  imports Perf
begin

section \<open>What the performance harness checks\<close>

text \<open>
  The percentile counts: a check of a query passes exactly when every one of its requests is answered,
  with whatever status, and at most one of the twenty takes longer than the threshold. The exit code
  zero of the command is then spelled out in terms of what it observed.
\<close>

subsection \<open>The percentile\<close>

lemma sorted_nth_less:
  fixes f :: "'a \<Rightarrow> 'b :: linorder"
  assumes "sorted (map f xs)" "i < length xs"
  shows "f (xs ! i) < t \<longleftrightarrow> i < length (filter (\<lambda>x. f x < t) xs)"
  using assms
proof (induction xs arbitrary: i)
  case (Cons x xs)
  show ?case
  proof (cases "f x < t")
    case True
    then show ?thesis using Cons by (cases i) auto
  next
    case False
    then have "\<forall>y \<in> set xs. \<not> f y < t" using Cons.prems(1) by force
    moreover have "\<not> f ((x # xs) ! i) < t"
      using False Cons.prems nth_mem [OF Cons.prems(2)] calculation by fastforce
    ultimately show ?thesis using False by (simp add: filter_eq_Nil_iff)
  qed
qed simp

lemma length_filter_sort: "length (filter P (sort_key f xs)) = length (filter P xs)"
  by (metis filter_sort length_sort)

lemma percentile95_less:
  assumes "length ds = 20" "\<forall>v \<in> set ds. \<not> math_IsNaN v"
  shows "float_less (percentile95 ds) t \<longleftrightarrow> 19 \<le> length (filter (\<lambda>v. float_less v t) ds)"
proof -
  let ?s = "sort_key float_key ds"
  have s: "sort_Float64s ds = ?s"
    using assms(2) by (auto simp: sort_Float64s_def filter_eq_Nil_iff cong: filter_cong)
  have p: "percentile95 ds = ?s ! 18" using assms(1) by (simp add: percentile95_def s)
  have "?s ! 18 \<in> set ?s" using assms(1) by (intro nth_mem) simp
  then have nan: "\<not> math_IsNaN (?s ! 18)" using assms(2) by simp
  have f: "filter (\<lambda>v. float_less v t) ds = (if math_IsNaN t then [] else filter (\<lambda>v. float_key v < float_key t) ds)"
    using assms(2) by (auto simp: float_less_def filter_eq_Nil_iff intro!: filter_cong)
  have "float_key (?s ! 18) < float_key t \<longleftrightarrow> 18 < length (filter (\<lambda>v. float_key v < float_key t) ds)"
    using sorted_nth_less [of float_key ?s 18 "float_key t"] assms(1) by (simp add: length_filter_sort)
  then show ?thesis unfolding p f using nan by (auto simp: float_less_def)
qed

subsection \<open>The measurements\<close>

text \<open>The requests are all answered, at least nineteen of the twenty below the threshold.\<close>

definition answered_within :: "float_ops \<Rightarrow> (nat \<Rightarrow> get_outcome) \<Rightarrow> float64 \<Rightarrow> bool" where
  "answered_within fo get t \<longleftrightarrow>
     (\<exists>status elapsed. (\<forall>i < 20. get i = GetReply (status i) (elapsed i)) \<and>
        19 \<le> card {i. i < 20 \<and> float_less (elapsed_millis fo (elapsed i)) t})"

lemma measure_values_replies:
  "measure_values fo (map (\<lambda>(s, d). GetReply s d) replies) = Some (map (elapsed_millis fo \<circ> snd) replies)"
  by (induction replies) auto

lemma measure_values_Some:
  "measure_values fo gets = Some ds \<Longrightarrow> \<exists>replies. gets = map (\<lambda>(s, d). GetReply s d) replies"
proof (induction fo gets arbitrary: ds rule: measure_values.induct)
  case (3 fo status elapsed gets)
  then obtain replies where "gets = map (\<lambda>(s, d). GetReply s d) replies" by auto
  then show ?case by (intro exI [of _ "(status, elapsed) # replies"]) simp
qed auto

lemma perf_measure_pass:
  assumes "\<And>d. \<not> math_IsNaN (elapsed_millis fo d)"
  shows "ck_Pass (perf_measure fo get name t unit) \<longleftrightarrow> answered_within fo get t"
proof (cases "measure_values fo (map get [0..<20])")
  case None
  have "\<not> answered_within fo get t"
  proof
    assume "answered_within fo get t"
    then obtain status elapsed where "\<forall>i < 20. get i = GetReply (status i) (elapsed i)"
      by (auto simp: answered_within_def)
    then have "map get [0..<20] = map (\<lambda>(s, d). GetReply s d) (map (\<lambda>i. (status i, elapsed i)) [0..<20])" by simp
    with None measure_values_replies show False by (metis option.distinct(1))
  qed
  with None show ?thesis by (simp add: perf_measure_def)
next
  case (Some ds)
  then obtain replies where r: "map get [0..<20] = map (\<lambda>(s, d). GetReply s d) replies"
    "ds = map (elapsed_millis fo \<circ> snd) replies" using measure_values_Some measure_values_replies
    by (metis option.inject)
  then have len: "length replies = 20" by (metis length_map length_upt diff_zero)
  have get: "get i = GetReply (fst (replies ! i)) (snd (replies ! i))" if "i < 20" for i
    using arg_cong [OF r(1), of "\<lambda>xs. xs ! i"] that len by (simp add: case_prod_beta)
  have unique: "elapsed i = snd (replies ! i)" if "\<forall>i < 20. get i = GetReply (status i) (elapsed i)" "i < 20" for status elapsed i
    using that get by simp
  let ?fast = "{i. i < 20 \<and> float_less (elapsed_millis fo (snd (replies ! i))) t}"
  have "answered_within fo get t \<longleftrightarrow> 19 \<le> card ?fast"
  proof
    assume "answered_within fo get t"
    then obtain status elapsed where e: "\<forall>i < 20. get i = GetReply (status i) (elapsed i)"
      "19 \<le> card {i. i < 20 \<and> float_less (elapsed_millis fo (elapsed i)) t}"
      by (auto simp: answered_within_def)
    moreover have "{i. i < 20 \<and> float_less (elapsed_millis fo (elapsed i)) t} = ?fast" using unique [OF e(1)] by auto
    ultimately show "19 \<le> card ?fast" by simp
  next
    assume "19 \<le> card ?fast"
    with get show "answered_within fo get t" unfolding answered_within_def
      by (intro exI [of _ "\<lambda>i. fst (replies ! i)"] exI [of _ "\<lambda>i. snd (replies ! i)"]) simp
  qed
  moreover have "length (filter (\<lambda>v. float_less v t) ds) = card ?fast"
    using len by (simp add: r(2) length_filter_conv_card cong: conj_cong)
  moreover have "\<forall>v \<in> set ds. \<not> math_IsNaN v" using assms r(2) by auto
  ultimately show ?thesis
    using percentile95_less [of "ds" t] len r(2) by (simp add: perf_measure_def Some Let_def)
qed

lemma maximum_of_less:
  assumes "\<forall>v \<in> set vs. \<not> math_IsNaN v"
  shows "float_less (maximum_of vs) t \<longleftrightarrow> float_less 0 t \<and> (\<forall>v \<in> set vs. float_less v t)"
proof -
  let ?f = "\<lambda>maximum latency. if float_less maximum latency then latency else maximum"
  have "\<not> math_IsNaN m \<Longrightarrow> \<forall>v \<in> set vs. \<not> math_IsNaN v \<Longrightarrow>
      float_less (foldl ?f m vs) t \<longleftrightarrow> float_less m t \<and> (\<forall>v \<in> set vs. float_less v t)" for m
  proof (induction vs arbitrary: m)
    case (Cons v vs)
    have "\<not> math_IsNaN (?f m v)" using Cons.prems by simp
    from Cons.IH [OF this] Cons.prems show ?case by (auto simp: float_less_def)
  qed simp
  moreover have "\<not> math_IsNaN 0" by code_simp
  ultimately show ?thesis using assms by (simp add: maximum_of_def)
qed

subsection \<open>The seeded history\<close>

lemma numbers_finite: "float_finite float_one" "float_finite float_milli"
  by code_simp+

lemma seed_posts_None:
  "seed_posts ff send taskID start offset = None \<longleftrightarrow>
     (\<forall>k::nat. offset + 500 * int k < 28800 \<longrightarrow>
        post_map ff (send (offset + 500 * int k)) ''history seed status ''
          (seed_batch taskID start (offset + 500 * int k)) = None)"
    (is "_ \<longleftrightarrow> (\<forall>k. ?P offset k)")
proof (induction ff send taskID start offset rule: seed_posts.induct)
  case (1 ff send taskID start offset)
  let ?post = "\<lambda>o'. post_map ff (send o') ''history seed status '' (seed_batch taskID start o')"
  have step: "(\<forall>k::nat. offset + 500 * int k < 28800 \<longrightarrow> ?post (offset + 500 * int k) = None) \<longleftrightarrow>
      (offset < 28800 \<longrightarrow> ?post offset = None) \<and>
      (\<forall>k::nat. offset + 500 + 500 * int k < 28800 \<longrightarrow> ?post (offset + 500 + 500 * int k) = None)"
    (is "(\<forall>k. ?Q k) \<longleftrightarrow> ?R \<and> (\<forall>k. ?S k)")
  proof -
    have "?Q 0 = ?R" "?Q (Suc k) = ?S k" for k by (simp_all add: algebra_simps)
    then show ?thesis by (metis not0_implies_Suc)
  qed
  show ?case
  proof (cases "offset < 28800")
    case True
    then show ?thesis
      using 1 by (subst seed_posts.simps, subst step) (simp split: option.split)
  next
    case False
    then show ?thesis by (subst seed_posts.simps) simp
  qed
qed

lemma map_batch_json_Some:
  assumes "\<forall>s \<in> set (mb_Samples b). \<forall>(k, v) \<in> set (ms_Metrics s). float_finite v"
  shows "map_batch_json ff b \<noteq> None"
proof -
  have "\<forall>s \<in> set ss. \<forall>(k, v) \<in> set (ms_Metrics s). float_finite v \<Longrightarrow> those_json (map (map_sample_json ff) ss) \<noteq> None" for ss
  proof (induction ss)
    case (Cons s ss)
    then have "metrics_json ff (ms_Metrics s) \<noteq> None" by (simp add: metrics_json_def)
    with Cons show ?case by (auto simp: map_sample_json_def)
  qed simp
  from this [OF assms] show ?thesis by (simp add: map_batch_json_def)
qed

lemma post_map_None:
  assumes "\<forall>s \<in> set (mb_Samples b). \<forall>(k, v) \<in> set (ms_Metrics s). float_finite v"
  shows "post_map ff send refused b = None \<longleftrightarrow>
    (\<exists>body. map_batch_json ff b = Some body \<and> send ''application/json'' (json_print body) = PostReply 200)"
  using map_batch_json_Some [OF assms, of ff] by (auto simp: post_map_def split: option.splits post_outcome.splits)

lemma seed_batch_finite:
  "\<forall>s \<in> set (mb_Samples (seed_batch taskID start offset)). \<forall>(k, v) \<in> set (ms_Metrics s). float_finite v"
  using numbers_finite by (auto simp: seed_batch_def seed_sample_def)

lemma probe_batch_finite:
  "\<forall>s \<in> set (mb_Samples (probe_batch taskID step now)). \<forall>(k, v) \<in> set (ms_Metrics s). float_finite v"
  using numbers_finite by (auto simp: probe_batch_def)

lemma seed_visible_iff:
  "seed_visible poll \<longleftrightarrow> (\<exists>series. poll = PollDoc True series \<and> series_length ''loss'' series = 500 \<and>
     series_length ''lr'' series = 500)"
  by (cases poll) (auto simp: seed_visible_def)

lemma seedHistory_None:
  "seedHistory ff send polls taskID now = None \<longleftrightarrow>
     (\<forall>k::nat. k < 58 \<longrightarrow> (\<exists>body. map_batch_json ff (seed_batch taskID (seed_start now) (500 * int k)) = Some body \<and>
        send (500 * int k) ''application/json'' (json_print body) = PostReply 200)) \<and>
     (\<exists>series. PollDoc True series \<in> set polls \<and> series_length ''loss'' series = 500 \<and> series_length ''lr'' series = 500)"
proof -
  have "0 + 500 * int k < 28800 \<longleftrightarrow> k < 58" for k by (rule iffI; linarith)
  then have posts: "seed_posts ff send taskID (seed_start now) 0 = None \<longleftrightarrow>
      (\<forall>k::nat. k < 58 \<longrightarrow> (\<exists>body. map_batch_json ff (seed_batch taskID (seed_start now) (500 * int k)) = Some body \<and>
        send (500 * int k) ''application/json'' (json_print body) = PostReply 200))"
    unfolding seed_posts_None post_map_None [OF seed_batch_finite] by simp
  have polled: "list_ex seed_visible polls \<longleftrightarrow>
      (\<exists>series. PollDoc True series \<in> set polls \<and> series_length ''loss'' series = 500 \<and> series_length ''lr'' series = 500)"
    unfolding list_ex_iff seed_visible_iff by blast
  have "seedHistory ff send polls taskID now = None \<longleftrightarrow>
      seed_posts ff send taskID (seed_start now) 0 = None \<and> list_ex seed_visible polls"
    by (simp add: seedHistory_def split: option.split)
  then show ?thesis unfolding posts polled .
qed

text \<open>A batch of the contract, when the clock and the task are in its range.\<close>

lemma seed_batch_contract:
  assumes "spec_task_id taskID" "0 \<le> offset" "offset < 28800"
    and "\<forall>step \<in> {0..28799}. spec_ts ((start + step * second) div millisecond)"
  shows "spec_batch (seed_batch taskID start offset)"
proof -
  have k: "spec_key ''loss''" "spec_key ''lr''" by code_simp+
  have "spec_sample (seed_sample start step)" if "step \<in> {0..28799}" for step
    using that assms(4) k numbers_finite
    by (auto simp: spec_sample_def seed_sample_def spec_metrics_def go_map_def spec_step_def)
  moreover have "length [offset..min (offset + 499) 28799] \<le> 500" by simp
  moreover have "[offset..min (offset + 499) 28799] \<noteq> []" using assms(3) by simp
  ultimately show ?thesis using assms(1,2) by (auto simp: spec_batch_def seed_batch_def)
qed

text \<open>The requests cover every second of the eight hours once.\<close>

lemma upto_join: "0 \<le> a \<Longrightarrow> a \<le> b + 1 \<Longrightarrow> [0..a - 1] @ [a..b] = [0..(b::int)]"
  using upto_split1 [of 0 a b] by (cases "a = b + 1") auto

lemma seed_steps:
  "concat (map (\<lambda>k. map ms_Step (mb_Samples (seed_batch taskID start (500 * int k)))) [0..<n]) =
     [0..min (500 * int n) 28800 - 1]"
proof (induction n)
  case (Suc n)
  have "map ms_Step (mb_Samples (seed_batch taskID start (500 * int n))) = [500 * int n..min (500 * int n + 499) 28799]"
    by (simp add: seed_batch_def seed_sample_def comp_def)
  moreover have "[0..min (500 * int n) 28800 - 1] @ [500 * int n..min (500 * int n + 499) 28799] =
      [0..min (500 * int (Suc n)) 28800 - 1]"
  proof (cases "500 * int n < 28800")
    case True
    then show ?thesis using upto_join [of "500 * int n" "min (500 * int n + 499) 28799"]
      by (simp add: min_def algebra_simps split: if_splits)
  next
    case False
    then have "58 \<le> int n" by linarith
    then show ?thesis by (simp add: min_def)
  qed
  ultimately show ?case using Suc by simp
qed simp

subsection \<open>The exit code\<close>

lemma foldl_and: "foldl (\<lambda>pass c. pass \<and> P c) b cs \<longleftrightarrow> b \<and> (\<forall>c \<in> set cs. P c)"
  by (induction cs arbitrary: b) auto

lemma runDockerCompose_None: "runDockerCompose args answer = None \<longleftrightarrow> fst answer = None"
  by (auto simp: runDockerCompose_def Let_def split: prod.splits option.splits)

lemma load_checks_pass:
  "(\<forall>c \<in> set (load_checks fo flags result err killErr upErr). ck_Pass c) \<longleftrightarrow>
     err = None \<and> sr_Pass result \<and> 10 * minute \<le> pf_Duration flags \<and> killErr = None \<and> upErr = None"
  by (auto simp: load_checks_def)

lemma query_checks_pass:
  assumes "\<And>d. \<not> math_IsNaN (elapsed_millis fo d)"
  shows "(\<forall>c \<in> set (fst (query_checks ff fo w base result errors)). ck_Pass c) \<longleftrightarrow>
    (\<exists>r rs. sr_Results result = r # rs \<and> sa_TaskID r \<noteq> [] \<and>
       seedHistory ff (pw_seed w) (pw_polls w) (sa_TaskID r) (pw_now w) = None \<and>
       answered_within fo (pw_get w (history_url base (sa_TaskID r))) (fo_lit fo ''200'') \<and>
       answered_within fo (pw_get w (summary_url base (sa_TaskID r))) (fo_lit fo ''100''))"
  using perf_measure_pass [OF assms]
  by (auto simp: query_checks_def Let_def failed_check_def split: list.split option.split)

text \<open>The stream is open, every probe is accepted, and the first twenty points arrive in time.\<close>

definition streamed_within ::
  "(float64 \<Rightarrow> string) \<Rightarrow> float_ops \<Rightarrow> perf_world \<Rightarrow> string \<Rightarrow> string \<Rightarrow> float64 \<Rightarrow> bool" where
  "streamed_within ff fo w base taskID t \<longleftrightarrow>
     (\<exists>rows. pw_stream w (stream_url base taskID) = SseOpen 200 rows \<and>
        (let latencies = concat (map (line_latencies fo) rows)
         in 20 \<le> length latencies \<and> (\<forall>v \<in> set (take 20 latencies). float_less v t))) \<and>
     (\<forall>step \<in> {0..19}. post_map ff (pw_probe w step) ''SSE probe ingest status ''
        (probe_batch taskID step (pw_clock w step)) = None) \<and>
     float_less 0 t"

lemma probe_posts_None:
  "probe_posts ff clock send taskID steps = None \<longleftrightarrow>
     (\<forall>step \<in> set steps. post_map ff (send step) ''SSE probe ingest status '' (probe_batch taskID step (clock step)) = None)"
  by (induction steps) (simp_all split: option.split)

lemma line_latencies_nan:
  assumes "\<And>n. \<not> math_IsNaN (fo_int fo n)"
  shows "\<forall>v \<in> set (take 20 (concat (map (line_latencies fo) rows))). \<not> math_IsNaN v"
proof -
  have "\<forall>v \<in> set (line_latencies fo row). \<not> math_IsNaN v" for row
    using assms by (cases row) (auto simp: line_latencies_def split: option.splits)
  then show ?thesis by (auto dest!: in_set_takeD)
qed

lemma measureSSE_Inr:
  "measureSSE ff fo conn clock send taskID = Inr latency \<longleftrightarrow>
     (\<exists>rows. conn = SseOpen 200 rows \<and> 20 \<le> length (concat (map (line_latencies fo) rows)) \<and>
        latency = maximum_of (take 20 (concat (map (line_latencies fo) rows)))) \<and>
     (\<forall>step \<in> {0..19}. post_map ff (send step) ''SSE probe ingest status '' (probe_batch taskID step (clock step)) = None)"
proof (cases "probe_posts ff clock send taskID [0..19]")
  case None
  then show ?thesis using probe_posts_None [of ff clock send taskID "[0..19]"]
    by (auto simp: measureSSE_def observeSSE_def Let_def split: sse_connection.splits)
next
  case (Some err)
  then have "\<not> (\<forall>step \<in> {0..19}. post_map ff (send step) ''SSE probe ingest status '' (probe_batch taskID step (clock step)) = None)"
    using probe_posts_None [of ff clock send taskID "[0..19]"] by simp
  then show ?thesis by (simp only:) (simp add: measureSSE_def Some split: sum.split)
qed

lemma stream_check_pass:
  assumes "\<And>n. \<not> math_IsNaN (fo_int fo n)"
  shows "ck_Pass (fst (stream_check ff fo w base taskID errors)) \<longleftrightarrow>
    streamed_within ff fo w base taskID (fo_lit fo ''1000'')"
proof -
  have "ck_Pass (fst (stream_check ff fo w base taskID errors)) \<longleftrightarrow>
      (\<exists>latency. measureSSE ff fo (pw_stream w (stream_url base taskID)) (pw_clock w) (pw_probe w) taskID = Inr latency \<and>
         float_less latency (fo_lit fo ''1000''))"
    by (simp add: stream_check_def Let_def failed_check_def split: sum.split)
  then show ?thesis
    unfolding measureSSE_Inr streamed_within_def Let_def using maximum_of_less [OF line_latencies_nan [OF assms]] by auto
qed

lemma perf_run_pass:
  assumes "\<And>d. \<not> math_IsNaN (elapsed_millis fo d)" "\<And>n. \<not> math_IsNaN (fo_int fo n)"
    and "pw_run w (perf_config fo flags) = (result, err)"
  shows "pr_Pass (perf_run ff fo flags w) \<longleftrightarrow>
    err = None \<and> sr_Pass result \<and> 10 * minute \<le> pf_Duration flags \<and>
    fst (pw_docker w [''kill'', ''worker'']) = None \<and>
    fst (pw_docker w [''up'', ''--detach'', ''--wait'', ''worker'']) = None \<and>
    (\<exists>r rs. sr_Results result = r # rs \<and> sa_TaskID r \<noteq> [] \<and>
       seedHistory ff (pw_seed w) (pw_polls w) (sa_TaskID r) (pw_now w) = None \<and>
       answered_within fo (pw_get w (history_url (baseURL (pf_Endpoint flags)) (sa_TaskID r))) (fo_lit fo ''200'') \<and>
       answered_within fo (pw_get w (summary_url (baseURL (pf_Endpoint flags)) (sa_TaskID r))) (fo_lit fo ''100'')) \<and>
    streamed_within ff fo w (baseURL (pf_Endpoint flags)) (pf_TaskPrefix flags @ ''-sse'') (fo_lit fo ''1000'')"
proof -
  let ?kill = "runDockerCompose [''kill'', ''worker''] (pw_docker w [''kill'', ''worker''])"
  let ?up = "runDockerCompose [''up'', ''--detach'', ''--wait'', ''worker'']
    (pw_docker w [''up'', ''--detach'', ''--wait'', ''worker''])"
  let ?errors = "addError text_restart ?up (addError text_kill ?kill (addError text_load err []))"
  let ?queries = "query_checks ff fo w (baseURL (pf_Endpoint flags)) result ?errors"
  let ?stream = "stream_check ff fo w (baseURL (pf_Endpoint flags)) (pf_TaskPrefix flags @ ''-sse'') (snd ?queries)"
  have prefix: "si_TaskPrefix (perf_config fo flags) = pf_TaskPrefix flags" by (simp add: perf_config_def)
  have "pr_Pass (perf_run ff fo flags w) \<longleftrightarrow> err = None \<and>
      (\<forall>c \<in> set (load_checks fo flags result err ?kill ?up). ck_Pass c) \<and>
      (\<forall>c \<in> set (fst ?queries). ck_Pass c) \<and> ck_Pass (fst ?stream)"
    unfolding perf_run_def Let_def assms(3) prod.case baseURL_def [symmetric] case_prod_beta prefix
      perf_report.simps foldl_and by (simp add: ball_Un) blast
  then show ?thesis
    unfolding load_checks_pass query_checks_pass [OF assms(1)] stream_check_pass [OF assms(2)] runDockerCompose_None
    by blast
qed

subsection \<open>An example run\<close>

text \<open>Arithmetic in which every literal is one and everything else is zero; every query is answered with 500.\<close>

definition unit_ops :: float_ops where
  "unit_ops = \<lparr>fo_add = (\<lambda>_ _. 0), fo_sub = (\<lambda>_ _. 0), fo_mul = (\<lambda>_ _. 0), fo_div = (\<lambda>_ _. 0),
     fo_exp = (\<lambda>_. 0), fo_cos = (\<lambda>_. 0), fo_mod = (\<lambda>_ _. 0), fo_lit = (\<lambda>_. float_one), fo_int = (\<lambda>_. 0),
     fo_trunc = (\<lambda>_. 0)\<rparr>"

definition example_flags :: perf_flags where
  "example_flags = \<lparr>pf_Endpoint = ''http://api/api/v1/ingest/metrics'', pf_Duration = 10 * minute,
     pf_BatchSize = 10, pf_TaskPrefix = ''perf-1''\<rparr>"

definition example_payload :: json where
  "example_payload = JObj [(''points'', JArr [JObj [(''ts'', JNum ''7'')]])]"

definition example_line :: string where
  "example_line = data_prefix @ json_print example_payload"

definition example_perf :: perf_world where
  "example_perf = \<lparr>pw_run = (\<lambda>cfg. (\<lparr>sr_Pass = True, sr_Results = [expectedResult (expected_finish (newExpectedState ''perf-1-0001''))],
       sr_Failures = []\<rparr>, None)),
     pw_docker = (\<lambda>_. (None, [])), pw_now = 0, pw_seed = (\<lambda>_ _ _. PostReply 200),
     pw_polls = [PollFailed, PollDoc True [(''loss'', 500), (''lr'', 500)]],
     pw_get = (\<lambda>_ _. GetReply 500 0), pw_stream = (\<lambda>_. SseOpen 200 (replicate 20 (example_line, 8))),
     pw_clock = id, pw_probe = (\<lambda>_ _ _. PostReply 200), pw_write = None\<rparr>"

lemma example_less: "float_less 0 float_one" "\<not> math_IsNaN 0"
  by code_simp+

lemma post_map_ok:
  "\<forall>s \<in> set (mb_Samples b). \<forall>(k, v) \<in> set (ms_Metrics s). float_finite v \<Longrightarrow>
     post_map ff (\<lambda>_ _. PostReply 200) refused b = None"
  using map_batch_json_Some [of b ff] post_map_None [of b ff _ refused] by auto

lemma example_seed:
  "seedHistory ff (pw_seed example_perf) (pw_polls example_perf) taskID now = None"
proof -
  have "seed_posts ff (\<lambda>_ _ _. PostReply 200) taskID start 0 = None" for start
    unfolding seed_posts_None using post_map_ok [OF seed_batch_finite] by simp
  then show ?thesis by (simp add: seedHistory_def example_perf_def seed_visible_def series_length_def)
qed

lemma example_task: "sa_TaskID (expectedResult (expected_finish (newExpectedState (c # cs)))) \<noteq> []"
  by (simp add: expectedResult_def expected_finish_def newExpectedState_def expected.defs)

lemma example_answered: "answered_within unit_ops (pw_get example_perf url) float_one"
  using example_less unfolding answered_within_def
  by (intro exI [of _ "\<lambda>_. 500"] exI [of _ "\<lambda>_. 0"])
    (simp add: example_perf_def elapsed_millis_def unit_ops_def flip: lessThan_def)

lemma example_points: "line_latencies unit_ops (example_line, 8) = [0]"
proof -
  have prefix: "starts_with data_prefix example_line" "strings_TrimPrefix example_line data_prefix = json_print example_payload"
    by (simp_all add: starts_with_def strings_TrimPrefix_def example_line_def)
  have "printable example_payload" "depth example_payload \<le> 10000" by code_simp+
  then have "parse_single (json_print example_payload) = Some example_payload" by (rule parse_single_print)
  moreover have "map_option fst (decode_struct [''points''] (\<lambda>n. decode_slice decode_point_ts 0)
      (known_fields [''points''] example_payload) ([], [])) = Some [7]" by code_simp
  ultimately have "decode_points (json_print example_payload) = Some [7]" by (simp add: decode_points_def)
  with prefix show ?thesis by (simp add: line_latencies_def unit_ops_def)
qed

lemma example_streamed: "streamed_within ff unit_ops example_perf base taskID float_one"
proof -
  have rows: "concat (map (line_latencies unit_ops) (replicate 20 (example_line, 8))) = replicate 20 0"
    by (simp add: example_points numeral_eq_Suc)
  show ?thesis
    unfolding streamed_within_def using post_map_ok [OF probe_batch_finite] rows example_less(1)
    by (auto simp: example_perf_def Let_def)
qed

subsection \<open>The property\<close>

text \<open>
  C40. The exit code of the performance harness: it is zero exactly when the report could be written,
  the simulation ended without error and its audits passed on a run of at least ten minutes, docker
  killed and restarted the worker without an error, and for the first task of the report: the seeding
  ended, so that every one of its requests was answered 200 and some query then showed 500 points of
  both keys; all twenty history queries were answered and at least nineteen of them in less than
  200 ms, whatever their status; the same holds of the summary with 100 ms; and each of the twenty
  probes of the event stream was accepted and each of the first twenty points arrived in less than a
  second. The two hypotheses say that no quotient of the elapsed time and no converted integer is a
  not-a-number.
\<close>
theorem perf_exit_zero:
  assumes "\<And>d. \<not> math_IsNaN (elapsed_millis fo d)" "\<And>n. \<not> math_IsNaN (fo_int fo n)"
  shows "perf_main ff fo flags w = 0 \<longleftrightarrow>
    pw_write w = None \<and> 10 * minute \<le> pf_Duration flags \<and>
    fst (pw_docker w [''kill'', ''worker'']) = None \<and>
    fst (pw_docker w [''up'', ''--detach'', ''--wait'', ''worker'']) = None \<and>
    (\<exists>result r rs. pw_run w (perf_config fo flags) = (result, None) \<and> sr_Pass result \<and>
       sr_Results result = r # rs \<and> sa_TaskID r \<noteq> [] \<and>
       (\<forall>k::nat. k < 58 \<longrightarrow> (\<exists>body. map_batch_json ff (seed_batch (sa_TaskID r) (seed_start (pw_now w)) (500 * int k)) = Some body \<and>
          pw_seed w (500 * int k) ''application/json'' (json_print body) = PostReply 200)) \<and>
       (\<exists>series. PollDoc True series \<in> set (pw_polls w) \<and> series_length ''loss'' series = 500 \<and>
          series_length ''lr'' series = 500) \<and>
       answered_within fo (pw_get w (history_url (baseURL (pf_Endpoint flags)) (sa_TaskID r))) (fo_lit fo ''200'') \<and>
       answered_within fo (pw_get w (summary_url (baseURL (pf_Endpoint flags)) (sa_TaskID r))) (fo_lit fo ''100'')) \<and>
    streamed_within ff fo w (baseURL (pf_Endpoint flags)) (pf_TaskPrefix flags @ ''-sse'') (fo_lit fo ''1000'')"
proof -
  obtain result err where run: "pw_run w (perf_config fo flags) = (result, err)" by (rule prod.exhaust)
  show ?thesis
    unfolding perf_main_def perf_run_pass [OF assms run] seedHistory_None run by auto
qed

lemma perf_exit_zero_witness:
  "perf_main (\<lambda>_. ''1'') unit_ops example_flags example_perf = 0 \<and> pw_get example_perf = (\<lambda>_ _. GetReply 500 0)"
proof -
  let ?ff = "\<lambda>_. ''1''"
  have nan: "\<not> math_IsNaN (elapsed_millis unit_ops d)" "\<not> math_IsNaN (fo_int unit_ops n)" for d n
    using example_less(2) by (simp_all add: elapsed_millis_def unit_ops_def)
  have seed: "seedHistory ?ff (pw_seed example_perf) (pw_polls example_perf) (sa_TaskID r) (pw_now example_perf) = None" for r
    by (rule example_seed)
  show ?thesis
    using seed [unfolded seedHistory_None] example_answered example_streamed
    unfolding perf_exit_zero [OF nan]
      \<comment> \<open>every conjunct holds of the example\<close>
    by (simp add: example_flags_def) (simp add: example_perf_def unit_ops_def example_task)
qed

end
