(* ===== verification/Spec2Isabelle.thy ===== *)
theory Spec2Isabelle
  imports EndToEnd EventFlow OutboxProps StreamProps MaintenanceProps EventLog QueryHttpProps
    PublisherPoolProps MigrateProps SimulatorAudit ProcessProps PerfProps
begin

text \<open>
  Verification of the metrics pipeline.

  \<^bold>\<open>The program.\<close> An API process (\<open>cmd/api\<close>) takes batches of training metrics over HTTP, publishes
  each as a message to RabbitMQ and waits for the broker's confirmation. A worker process (\<open>cmd/worker\<close>)
  consumes the messages, writes their points to PostgreSQL in batches and acknowledges a message when
  all its points are committed. In the same transaction it numbers an event for every step of a task
  that got new points and puts it into an outbox table; a relay in the worker publishes the outbox to a
  fanout exchange, a bridge in every API process consumes it and hands the events to a hub, from which
  the event streams of clients read. The API also answers history, summary and audit queries. The worker
  creates daily partitions and deletes what is older than seven days. \<open>cmd/migrate\<close> applies the
  database schema, \<open>cmd/sim\<close> posts synthetic batches and audits what arrived, \<open>cmd/perf\<close>
  runs the simulator and checks throughput and latencies.

  \<^bold>\<open>Conventions.\<close> A Go struct is a record, an error value is a \<open>go_error\<close> (theory \<open>Prelude\<close>) and a
  function \<open>(T, error)\<close> returns \<open>go_error + 'a\<close> or \<open>go_error option\<close> with the new state. A string is
  its bytes. An \<open>int64\<close>, \<open>int\<close> or \<open>time.Duration\<close> is an \<open>int\<close> with \<open>wrap64\<close> where the code computes
  with it; a \<open>float64\<close> is its 64 bits. Everything outside the repository is a field of an environment
  record: a function from a world \<open>'w\<close> to an answer and a world, so every theorem holds for every
  behaviour of the broker, the driver, the clock, the contexts and the timers. A \<open>select\<close> is an event
  list, or a label of a step relation when goroutines interleave. The calls a loop makes are kept
  in a log that no definition reads. Goroutines that share state by channels or locks are step systems
  whose theorems hold for every schedule.

  \<^bold>\<open>Theories and code.\<close>

  \<^item> \<open>Prelude\<close>, \<open>GoText\<close>, \<open>Domain\<close>, \<open>Json\<close>, \<open>JsonPrint\<close>: 64-bit arithmetic, errors, maps; \<open>strings\<close> and
    \<open>strconv\<close> and the two patterns; the structs of \<open>internal/domain\<close>; a JSON parser and printer with
    their round trip (the depth limit is that of \<open>encoding/json\<close>).
  \<^item> \<open>Contract\<close>, \<open>Reply\<close>, \<open>IngestHttp\<close>, \<open>IngestRequest\<close>, \<open>Message\<close>, \<open>Protocol\<close>: what a batch is allowed to be, as
    a specification; \<open>internal/transport/http/ingest.go\<close> and \<open>response.go\<close>; \<open>internal/service/ingest\<close>;
    what a JSON document says, as a relation between the document and a batch that is independent of the decoder;
    \<open>internal/messaging/message.go\<close>. Both validators are shown to decide the specification, the decoder to
    implement the relation, the handler
    to answer by exactly three outcomes, and the worker to decode what the API has published.
  \<^item> \<open>Amqp\<close>, \<open>Publisher\<close>, \<open>PublisherProps\<close>, \<open>PublisherPool\<close>, \<open>PublisherPoolProps\<close>: \<open>topology.go\<close> and
    \<open>publisher.go\<close>. First one worker with its session, attempts and confirmations; then the pool of workers, the
    callers of \<open>PublishMetricBatch\<close> and \<open>Close\<close> in every interleaving: nil means confirmed, no answer
    blocks a worker, and everything settles within the work left (a measure).
  \<^item> \<open>Consumer\<close>, \<open>ConsumerSafety\<close>, \<open>ConsumerProps\<close>: \<open>consumer.go\<close>. The invariant of the session loop, one
    lemma per operation: acknowledgement after commit, one settlement per delivery, nothing forgotten.
  \<^item> \<open>Sink\<close>, \<open>Store\<close>, \<open>StoreFacts\<close>, \<open>StoreProps\<close>, \<open>Pipeline\<close>: the interface of the consumer to its store as
    the locale \<open>metric_sink\<close>; \<open>Flush\<close> of \<open>metric_point_store.go\<close> with its transaction and its SQL
    statements as functions on a database record; the interpretation of the locale on that store, among other
    writers: flushes and maintenance of other workers and changes of the outbox. A point counts as stored when the row that the
    flush left for its key is in the table with its value (the table keeps the first row of a key) and no
    retention run was past its time.
  \<^item> \<open>Outbox\<close>, \<open>OutboxOrder\<close>, \<open>Relay\<close>, \<open>RelayOrder\<close>, \<open>OutboxProps\<close>: the outbox table, its statements and
    \<open>outbox_store.go\<close>; a step relation of everything that can happen to the table, with order and
    completeness as its invariant, where only a publish that returned nil counts as delivered; \<open>outbox_relay.go\<close>
    against the locale \<open>outbox_protocol\<close>, interpreted on the table. The calls of the relay are executed as they
    come; only the other actors are restricted to the protocol.
  \<^item> \<open>Realtime\<close>, \<open>RealtimeProps\<close>, \<open>BridgeSink\<close>, \<open>Hub\<close>, \<open>HubProps\<close>, \<open>EventFlow\<close>: \<open>event_publisher.go\<close> and
    \<open>event_bridge.go\<close>; \<open>internal/sse/hub.go\<close> as a step relation under its read-write lock; the bridge
    against the locale \<open>bridge_sink\<close>, which the hub gives (\<open>hub_publisher\<close>).
  \<^item> \<open>Stream\<close>, \<open>StreamProps\<close>, \<open>Queries\<close>, \<open>QueriesProps\<close>, \<open>QueryHttp\<close>, \<open>QueryHttpProps\<close>, \<open>EventLog\<close>: the
    handlers \<open>stream.go\<close>, \<open>history.go\<close>, \<open>summary.go\<close>, \<open>audit.go\<close> with their services, and the query
    methods of the store with their SQL statements; the stream over the history of the database. The parameters of a
    history request have a contract of their own, which the parser is shown to decide.
  \<^item> \<open>Maintenance\<close>, \<open>MaintenanceProps\<close>: \<open>partition_maintainer.go\<close> and the SQL functions of the
    migrations; the locale \<open>batch_delete\<close> is interpreted on the batched deletions of points and events.
  \<^item> \<open>Environment\<close>, \<open>Config\<close>, \<open>ConfigProps\<close>, \<open>Process\<close>, \<open>ProcessProps\<close>: \<open>internal/config\<close> with
    \<open>time.ParseDuration\<close>; \<open>internal/app\<close>, \<open>internal/health\<close>, the router and \<open>cmd/healthcheck\<close>; which
    components a process builds, in which order, what the loops of the worker do to the database, and how
    the process ends.
  \<^item> \<open>Migrate\<close>, \<open>MigrateProps\<close>: \<open>migrate.go\<close> and \<open>cmd/migrate\<close>.
  \<^item> \<open>Simulator\<close>, \<open>SimulatorProps\<close>, \<open>SimulatorAudit\<close>: \<open>internal/simulator\<close>, composed with the ingest handler
    and with the audit handler on the store.
  \<^item> \<open>Perf\<close>, \<open>PerfProps\<close>: \<open>cmd/perf\<close> and the exit code of \<open>cmd/sim\<close>; what the checks N1 to N6 decide.
  \<^item> \<open>EndToEnd\<close>: the write path from the request to the table.

  \<^bold>\<open>Bounds and fuel.\<close> The loops of the sessions run over the list of the events their \<open>select\<close>s take, so
  a theorem about every list is one about every run, finished or not. \<open>relay_Run\<close>, \<open>runLeader_loop\<close> and
  \<open>retention_loop\<close> have a number of turns and return \<open>None\<close> when it does not suffice; for the retention
  loop one turn more than there are rows is proved to be enough, for the relay the theorems speak of
  its whole log. \<open>parse_components\<close> of \<open>time.ParseDuration\<close> has the length of its text as fuel: each component
  takes at least one byte. The attempts of a publish are counted by \<open>MaxAttempts\<close>. Subscriptions to a
  hub are numbered with 64 bits and the theorems assume fewer than \<open>2 ^ 64\<close> of them.

  \<^bold>\<open>Not modelled.\<close> Log records (the level of the logger is in \<open>Process\<close>). \<open>gin\<close>, \<open>net/http\<close>, the AMQP client, \<open>pgx\<close> and \<open>errgroup\<close> are third-party
  code: their answers are in the environments (the other methods of \<open>realAMQPSession\<close> only pass calls on). The planner and the locks of PostgreSQL: a statement is one atomic step on the
  database record, and a transaction is applied as a whole or not at all. The text of a \<open>jsonb\<close>
  value, \<open>avg\<close>, \<open>mime.ParseMediaType\<close>, \<open>strconv.ParseFloat\<close>, float arithmetic, \<open>math/rand\<close>, SHA-256 and
  the effect of the SQL of a migration file are parameters. The clock is a parameter of each operation,
  so elapsed time is not related to durations. The address the simulator audits at and the flags of the
  commands are left out, as is what they print.
  \<open>query_metric_history.sql\<close> contains lines that start with two slashes, which the database refuses, so that
  as the program is every history query within its contract is answered with status 500. \<open>query_metric_history\<close> is the
  statement as it is meant, without these lines; what is shown of the history endpoint holds for every answer
  of the store and does not rest on it.
\<close>

end
